(* ===== verification/Prelude.thy ===== *)
theory Prelude
  imports Main "HOL-Library.Word" "HOL-Library.Multiset"
begin

text \<open>
  What every component of the tile cache model shares: the collections the proofs are driven by,
  the result type of an operation that can fail, Rust's saturating arithmetic on \<open>i64\<close>, the string
  tests of the standard library the source uses, sums over lists, and the contracts (locales) that
  several components have in common: a machine whose every step keeps an invariant, and a store
  with a lookup.
\<close>

named_theorems inv_intro \<open>preservation lemmas, one per operation\<close>
named_theorems sum_rules \<open>sums of byte sizes over filtered and extended row lists\<close>

section \<open>Results\<close>

text \<open>A Rust \<open>Result\<close>: the left side is the error.\<close>

definition bindE :: "'e + 'a \<Rightarrow> ('a \<Rightarrow> 'e + 'b) \<Rightarrow> 'e + 'b" where
  "bindE r f = (case r of Inl e \<Rightarrow> Inl e | Inr a \<Rightarrow> f a)"

lemma bindE_simps [simp]:
  "bindE (Inl e) f = Inl e"
  "bindE (Inr a) f = f a"
  by (simp_all add: bindE_def)

lemma bindE_Inr_iff: "bindE r f = Inr b \<longleftrightarrow> (\<exists>a. r = Inr a \<and> f a = Inr b)"
  by (cases r) auto

definition ok_or :: "'a option \<Rightarrow> 'e \<Rightarrow> 'e + 'a" where
  "ok_or x e = (case x of None \<Rightarrow> Inl e | Some a \<Rightarrow> Inr a)"

lemma ok_or_simps [simp]: "ok_or None e = Inl e" "ok_or (Some a) e = Inr a"
  by (simp_all add: ok_or_def)

section \<open>Integers\<close>

type_synonym byte = "8 word"
type_synonym u64 = "64 word"

definition i64_max :: int where "i64_max = 2 ^ 63 - 1"
definition i64_min :: int where "i64_min = - (2 ^ 63)"
definition u64_max :: nat where "u64_max = 2 ^ 64 - 1"

text \<open>\<open>i64::saturating_add\<close>, \<open>saturating_sub\<close> and \<open>saturating_mul\<close> clamp the exact result.\<close>

definition sat_i64 :: "int \<Rightarrow> int" where
  "sat_i64 n = max i64_min (min i64_max n)"

definition sat_u64 :: "nat \<Rightarrow> nat" where
  "sat_u64 n = min u64_max n"

lemma sat_i64_id: "i64_min \<le> n \<Longrightarrow> n \<le> i64_max \<Longrightarrow> sat_i64 n = n"
  by (simp add: sat_i64_def)

lemma sat_i64_mono: "a \<le> b \<Longrightarrow> sat_i64 a \<le> sat_i64 b"
  by (auto simp: sat_i64_def)

lemma sat_i64_nonneg: "0 \<le> n \<Longrightarrow> 0 \<le> sat_i64 n \<and> sat_i64 n \<le> n"
  by (auto simp: sat_i64_def i64_min_def i64_max_def)

section \<open>Strings\<close>

definition starts_with :: "string \<Rightarrow> string \<Rightarrow> bool" where
  "starts_with s p \<longleftrightarrow> take (length p) s = p"

definition strip_prefix :: "string \<Rightarrow> string \<Rightarrow> string option" where
  "strip_prefix p s = (if starts_with s p then Some (drop (length p) s) else None)"

lemma starts_with_append [simp]: "starts_with (p @ s) p"
  by (simp add: starts_with_def)

lemma starts_with_iff: "starts_with s p \<longleftrightarrow> (\<exists>t. s = p @ t)"
  unfolding starts_with_def by (metis append_take_drop_id append_eq_conv_conj)

lemma strip_prefix_Some: "strip_prefix p s = Some t \<longleftrightarrow> s = p @ t"
  by (auto simp: strip_prefix_def starts_with_iff)

lemma starts_with_trans: "starts_with s p \<Longrightarrow> starts_with p q \<Longrightarrow> starts_with s q"
  by (auto simp: starts_with_iff)

definition code :: "char \<Rightarrow> nat" where "code c = of_char c"

definition is_ascii_digit :: "char \<Rightarrow> bool" where
  "is_ascii_digit c \<longleftrightarrow> 48 \<le> code c \<and> code c \<le> 57"

definition is_ascii_lowercase :: "char \<Rightarrow> bool" where
  "is_ascii_lowercase c \<longleftrightarrow> 97 \<le> code c \<and> code c \<le> 122"

definition is_ascii_uppercase :: "char \<Rightarrow> bool" where
  "is_ascii_uppercase c \<longleftrightarrow> 65 \<le> code c \<and> code c \<le> 90"

definition is_ascii_alphanumeric :: "char \<Rightarrow> bool" where
  "is_ascii_alphanumeric c \<longleftrightarrow> is_ascii_digit c \<or> is_ascii_lowercase c \<or> is_ascii_uppercase c"

definition is_ascii_hexdigit :: "char \<Rightarrow> bool" where
  "is_ascii_hexdigit c \<longleftrightarrow> is_ascii_digit c \<or> (97 \<le> code c \<and> code c \<le> 102)
     \<or> (65 \<le> code c \<and> code c \<le> 70)"

definition to_lower :: "char \<Rightarrow> char" where
  "to_lower c = (if is_ascii_uppercase c then char_of (code c + 32) else c)"

definition eq_ignore_ascii_case :: "string \<Rightarrow> string \<Rightarrow> bool" where
  "eq_ignore_ascii_case a b \<longleftrightarrow> map to_lower a = map to_lower b"

text \<open>\<open>str::split(ch)\<close>: always at least one field.\<close>

fun split_char :: "char \<Rightarrow> string \<Rightarrow> string list" where
  "split_char c [] = [[]]"
| "split_char c (x # xs) =
     (if x = c then [] # split_char c xs
      else (case split_char c xs of [] \<Rightarrow> [[x]] | w # ws \<Rightarrow> (x # w) # ws))"

text \<open>
  White space and control characters as Rust's \<open>char\<close> tests classify the ASCII range; strings are
  byte strings here, and every test of the source is on text that the wire format restricts to ASCII
  or treats byte-wise.
\<close>

definition is_whitespace :: "char \<Rightarrow> bool" where
  "is_whitespace c \<longleftrightarrow> (9 \<le> code c \<and> code c \<le> 13) \<or> code c = 32"

definition is_control :: "char \<Rightarrow> bool" where
  "is_control c \<longleftrightarrow> code c < 32 \<or> code c = 127"

definition trim :: "string \<Rightarrow> string" where
  "trim s = rev (dropWhile is_whitespace (rev (dropWhile is_whitespace s)))"

section \<open>Lists\<close>

definition sum_of :: "('a \<Rightarrow> int) \<Rightarrow> 'a list \<Rightarrow> int" where
  "sum_of f xs = sum_list (map f xs)"

lemma sum_of_simps [simp]:
  "sum_of f [] = 0"
  "sum_of f (x # xs) = f x + sum_of f xs"
  "sum_of f (xs @ ys) = sum_of f xs + sum_of f ys"
  by (simp_all add: sum_of_def)

lemma sum_of_nonneg: "(\<And>x. x \<in> set xs \<Longrightarrow> 0 \<le> f x) \<Longrightarrow> 0 \<le> sum_of f xs"
  by (induction xs) (auto simp: add_nonneg_nonneg)

lemma sum_of_filter_split [sum_rules]:
  "sum_of f xs = sum_of f (filter P xs) + sum_of f (filter (\<lambda>x. \<not> P x) xs)"
  by (induction xs) auto

lemma sum_of_filter_mono:
  "(\<And>x. x \<in> set xs \<Longrightarrow> 0 \<le> f x) \<Longrightarrow> (\<And>x. x \<in> set xs \<Longrightarrow> P x \<Longrightarrow> Q x)
   \<Longrightarrow> sum_of f (filter P xs) \<le> sum_of f (filter Q xs)"
proof (induction xs)
  case (Cons x xs)
  then have "sum_of f (filter P xs) \<le> sum_of f (filter Q xs)" and "0 \<le> f x" by auto
  with Cons.prems(2)[of x] show ?case by auto
qed simp

lemma sum_of_cong: "(\<And>x. x \<in> set xs \<Longrightarrow> f x = g x) \<Longrightarrow> sum_of f xs = sum_of g xs"
  by (induction xs) auto

lemma sum_of_map: "sum_of f (map g xs) = sum_of (f \<circ> g) xs"
  by (simp add: sum_of_def)

lemma sum_of_mset: "mset xs = mset ys \<Longrightarrow> sum_of f xs = sum_of f ys"
  unfolding sum_of_def by (metis mset_map sum_mset_sum_list)

section \<open>Contracts\<close>

text \<open>
  A component whose operations are events of one machine: if every admissible event keeps the
  invariant then so does every finite sequence of admissible events, whatever the interleaving.
\<close>

locale machine =
  fixes step :: "'e \<Rightarrow> 's \<Rightarrow> 's"
    and admissible :: "'e \<Rightarrow> bool"
    and invar :: "'s \<Rightarrow> bool"
  assumes step_invar: "admissible e \<Longrightarrow> invar s \<Longrightarrow> invar (step e s)"
begin

lemma run_invar: "list_all admissible es \<Longrightarrow> invar s \<Longrightarrow> invar (fold step es s)"
  by (induction es arbitrary: s) (auto intro: step_invar)

end

text \<open>A machine with a quantity that no admissible step raises above its limit.\<close>

locale bounded_machine = machine +
  fixes size_of :: "'s \<Rightarrow> int"
    and limit :: int
  assumes step_bounded:
    "admissible e \<Longrightarrow> invar s \<Longrightarrow> size_of s \<le> limit \<Longrightarrow> size_of (step e s) \<le> limit"
begin

lemma run_bounded:
  "list_all admissible es \<Longrightarrow> invar s \<Longrightarrow> size_of s \<le> limit \<Longrightarrow> size_of (fold step es s) \<le> limit"
  by (induction es arbitrary: s) (auto intro: step_bounded step_invar)

end

text \<open>
  A keyed store as its clients use it: a lookup after a store of the same key gives the stored value,
  stores of other keys do not disturb it, and a removal never makes a value appear.
\<close>

locale keyed_store =
  fixes lookup :: "'s \<Rightarrow> 'k \<Rightarrow> 'v option"
    and store :: "'k \<Rightarrow> 'v \<Rightarrow> 's \<Rightarrow> 's"
    and shrink :: "'a \<Rightarrow> 's \<Rightarrow> 's"
    and invar :: "'s \<Rightarrow> bool"
  assumes lookup_store: "invar s \<Longrightarrow> lookup (store k v s) j = (if j = k then Some v else lookup s j)"
    and lookup_shrink: "invar s \<Longrightarrow> lookup (shrink a s) j = Some v \<Longrightarrow> lookup s j = Some v"
    and store_invar: "invar s \<Longrightarrow> invar (store k v s)"
    and shrink_invar: "invar s \<Longrightarrow> invar (shrink a s)"
begin

lemma store_then_shrink:
  "invar s \<Longrightarrow> lookup (shrink a (store k v s)) k = Some w \<Longrightarrow> w = v"
  using lookup_shrink[OF store_invar, of s a k v k w] lookup_store[of s k v k] by simp

lemma store_then_shrink_other:
  "invar s \<Longrightarrow> j \<noteq> k \<Longrightarrow> lookup (shrink a (store k v s)) j = Some w \<Longrightarrow> lookup s j = Some w"
  using lookup_shrink[OF store_invar, of s a k v j w] lookup_store[of s k v j] by simp

lemma stores_last:
  "invar s \<Longrightarrow> lookup (fold (\<lambda>(k, v). store k v) kvs s) j =
     (case map_of (rev kvs) j of Some v \<Rightarrow> Some v | None \<Rightarrow> lookup s j)"
proof (induction kvs arbitrary: s)
  case (Cons kv kvs)
  obtain k v where kv: "kv = (k, v)" by (cases kv)
  have "invar (store k v s)" using Cons.prems by (rule store_invar)
  from Cons.IH[OF this] show ?case
    by (simp add: kv lookup_store[OF Cons.prems] map_add_def split: option.splits)
qed simp

end

end
