(* ===== verification/Cache_Db.thy ===== *)
theory Cache_Db
  imports Prelude
begin

text \<open>
  The database of the tile cache (\<open>container/tilecache/src/cache.rs\<close>): the rows of its three tables,
  the SQL statements the cache runs on them as list functions, the schema set-up, and the facts about
  keys and byte sums that every cache operation needs.

  A table is the list of its rows in rowid order. SQLite gives a new row the largest rowid plus one,
  so an insert appends and \<open>INSERT OR REPLACE\<close> deletes the row of that key and appends the new one.
  Whether a statement fails is not decided by the sources: it is an argument (\<open>faults\<close>), a map from the
  statements of one operation to the error each returns, if any. A transaction whose statement fails is
  rolled back, so the operation keeps the rows it started from.

  The \<open>i64\<close> byte counts are mathematical integers (the sizes stored are bounded by the disk); the
  operations that the source writes as saturating are clamped.
\<close>

section \<open>Rows\<close>

type_synonym tile_key = "string \<times> nat \<times> nat \<times> nat"

record cached_tile =
  content_type :: string
  strong_etag :: string
  upstream_validator :: "string option"
  status :: int
  fetched_at :: int
  last_access :: int
  bytes :: int
  blob :: "byte list option"

definition NEGATIVE_ROW_COST_BYTES :: int where "NEGATIVE_ROW_COST_BYTES = 512"

definition negative :: "int \<Rightarrow> int \<Rightarrow> cached_tile" where
  "negative st now = \<lparr>content_type = '''', strong_etag = '''', upstream_validator = None, status = st,
     fetched_at = now, last_access = now, bytes = NEGATIVE_ROW_COST_BYTES, blob = None\<rparr>"

record tile_row =
  row_key :: tile_key
  row_tile :: cached_tile
  row_pinned :: bool

record learned_row =
  ls_source :: string
  ls_signature :: string
  ls_state_json :: "byte list"
  ls_fetched_at :: int

record db =
  tiles :: "tile_row list"
  region_tiles :: "(string \<times> tile_key) list"
  learned_styles :: "learned_row list"
  user_version :: int

definition SCHEMA_VERSION :: int where "SCHEMA_VERSION = 3"
definition DELETE_CHUNK :: nat where "DELETE_CHUNK = 4096"
definition STAGING_REGION_PREFIX :: string where
  "STAGING_REGION_PREFIX = ''__warm_staging__''"
definition POSITION_STAGING_REGION_PREFIX :: string where
  "POSITION_STAGING_REGION_PREFIX = ''__warm_staging__position-''"
definition POSITION_WARM_REGION_ID :: string where
  "POSITION_WARM_REGION_ID = ''__position_warm__''"
definition BASEMAP_ASSETS_REGION_ID :: string where
  "BASEMAP_ASSETS_REGION_ID = ''__basemap_assets__''"

section \<open>Statement failures\<close>

datatype db_error = DiskFull | InvalidQuery | DatabaseCorrupt | NotADatabase | OtherDb

text \<open>The statements an operation runs, in the order the code has them; a row's statements carry its index.\<close>

datatype stmt =
    S_lookup | S_growth nat | S_category | S_begin | S_row nat | S_insert nat
  | S_write | S_evict | S_commit | S_recount | S_count | S_open | S_schema

type_synonym faults = "stmt \<Rightarrow> db_error option"

definition is_disk_full :: "db_error \<Rightarrow> bool" where
  "is_disk_full e \<longleftrightarrow> e = DiskFull"

text \<open>The first failing statement of a sequence, if any.\<close>

fun first_fault :: "faults \<Rightarrow> stmt list \<Rightarrow> db_error option" where
  "first_fault fl [] = None"
| "first_fault fl (s # ss) = (case fl s of Some e \<Rightarrow> Some e | None \<Rightarrow> first_fault fl ss)"

section \<open>Statements on the tiles table\<close>

definition find_row :: "db \<Rightarrow> tile_key \<Rightarrow> tile_row option" where
  "find_row d k = find (\<lambda>r. row_key r = k) (tiles d)"

definition row_bytes :: "tile_row \<Rightarrow> int" where
  "row_bytes r = bytes (row_tile r)"

text \<open>\<open>SELECT COALESCE(SUM(bytes), 0) FROM tiles WHERE ...\<close>\<close>

definition tsum :: "(tile_row \<Rightarrow> bool) \<Rightarrow> db \<Rightarrow> int" where
  "tsum P d = sum_of row_bytes (filter P (tiles d))"

abbreviation total_sum :: "db \<Rightarrow> int" where "total_sum d \<equiv> tsum (\<lambda>_. True) d"
abbreviation pinned_sum :: "db \<Rightarrow> int" where "pinned_sum d \<equiv> tsum row_pinned d"

text \<open>\<open>INSERT OR REPLACE INTO tiles\<close>: the key's row moves to the end with the new contents.\<close>

definition upsert :: "tile_row \<Rightarrow> db \<Rightarrow> db" where
  "upsert row d = d\<lparr>tiles := filter (\<lambda>r. row_key r \<noteq> row_key row) (tiles d) @ [row]\<rparr>"

text \<open>\<open>UPDATE tiles SET pinned = ...\<close> over the rows that satisfy the condition.\<close>

definition set_pinned :: "bool \<Rightarrow> (tile_row \<Rightarrow> bool) \<Rightarrow> db \<Rightarrow> db" where
  "set_pinned b P d = d\<lparr>tiles := map (\<lambda>r. if P r then r\<lparr>row_pinned := b\<rparr> else r) (tiles d)\<rparr>"

definition delete_rows :: "(tile_row \<Rightarrow> bool) \<Rightarrow> db \<Rightarrow> db" where
  "delete_rows P d = d\<lparr>tiles := filter (\<lambda>r. \<not> P r) (tiles d)\<rparr>"

section \<open>Statements on the region_tiles table\<close>

definition referenced :: "db \<Rightarrow> tile_key \<Rightarrow> bool" where
  "referenced d k \<longleftrightarrow> list_ex (\<lambda>j. snd j = k) (region_tiles d)"

definition insert_join :: "string \<Rightarrow> tile_key \<Rightarrow> db \<Rightarrow> db" where
  "insert_join rid k d =
     (if (rid, k) \<in> set (region_tiles d) then d
      else d\<lparr>region_tiles := region_tiles d @ [(rid, k)]\<rparr>)"

definition delete_joins :: "(string \<Rightarrow> bool) \<Rightarrow> db \<Rightarrow> db" where
  "delete_joins P d = d\<lparr>region_tiles := filter (\<lambda>j. \<not> P (fst j)) (region_tiles d)\<rparr>"

text \<open>\<open>UPDATE region_tiles SET region_id = ?1 WHERE region_id = ?2\<close>\<close>

definition rename_joins :: "string \<Rightarrow> string \<Rightarrow> db \<Rightarrow> db" where
  "rename_joins target staging d =
     d\<lparr>region_tiles := map (\<lambda>(rid, k). (if rid = staging then target else rid, k)) (region_tiles d)\<rparr>"

text \<open>The SQL test \<open>region_id = ?1 OR substr(region_id, 1, length(?2)) = ?2\<close> of the position category.\<close>

definition is_position_region :: "string \<Rightarrow> bool" where
  "is_position_region rid \<longleftrightarrow>
     rid = POSITION_WARM_REGION_ID \<or> starts_with rid POSITION_STAGING_REGION_PREFIX"

section \<open>Schema\<close>

text \<open>A version mismatch drops the tables and recreates them empty; the indexes do not change rows.\<close>

definition ensure_schema :: "db \<Rightarrow> db" where
  "ensure_schema d =
     (if user_version d \<noteq> SCHEMA_VERSION
      then d\<lparr>learned_styles := [], region_tiles := [], tiles := [], user_version := SCHEMA_VERSION\<rparr>
      else d)"

section \<open>Well-formed databases\<close>

text \<open>
  The two primary keys, and the rule the code states in its comments: a row that a region refers to
  exists and is pinned, so an unpinned row has no join row.
\<close>

definition joins_pinned :: "db \<Rightarrow> bool" where
  "joins_pinned d \<longleftrightarrow>
     (\<forall>j \<in> set (region_tiles d). \<exists>r \<in> set (tiles d). row_key r = snd j \<and> row_pinned r)"

definition db_ok :: "db \<Rightarrow> bool" where
  "db_ok d \<longleftrightarrow> distinct (map row_key (tiles d)) \<and> distinct (region_tiles d) \<and> joins_pinned d"

definition bytes_nonneg :: "db \<Rightarrow> bool" where
  "bytes_nonneg d \<longleftrightarrow> (\<forall>r \<in> set (tiles d). 0 \<le> row_bytes r)"

lemma db_okD:
  assumes "db_ok d"
  shows "distinct (map row_key (tiles d))" "distinct (region_tiles d)" "joins_pinned d"
  using assms by (auto simp: db_ok_def)

lemma unpinned_no_join:
  assumes "db_ok d" "r \<in> set (tiles d)" "\<not> row_pinned r"
  shows "\<not> referenced d (row_key r)"
proof
  assume "referenced d (row_key r)"
  then obtain j where "j \<in> set (region_tiles d)" "snd j = row_key r"
    by (auto simp: referenced_def list_ex_iff)
  with db_okD(3)[OF assms(1)] obtain r' where
    "r' \<in> set (tiles d)" "row_key r' = row_key r" "row_pinned r'"
    by (fastforce simp: joins_pinned_def)
  with assms db_okD(1)[OF assms(1)] show False
    by (metis distinct_map inj_on_contraD)
qed

section \<open>Keys\<close>

lemma filter_key_find:
  "distinct (map f xs) \<Longrightarrow>
   filter (\<lambda>x. f x = k) xs = (case find (\<lambda>x. f x = k) xs of None \<Rightarrow> [] | Some x \<Rightarrow> [x])"
proof (induction xs)
  case (Cons x xs)
  have "filter (\<lambda>y. f y = k) xs = []" if "f x = k"
    using Cons.prems that by (simp add: filter_empty_conv) (metis imageI)
  with Cons show ?case by auto
qed simp

lemma find_row_Some: "find_row d k = Some r \<Longrightarrow> r \<in> set (tiles d) \<and> row_key r = k"
  by (auto simp: find_row_def find_Some_iff)

lemma find_row_None: "find_row d k = None \<longleftrightarrow> k \<notin> row_key ` set (tiles d)"
  by (auto simp: find_row_def find_None_iff)

lemma find_row_mem:
  assumes "distinct (map row_key (tiles d))" "r \<in> set (tiles d)"
  shows "find_row d (row_key r) = Some r"
proof (cases "find_row d (row_key r)")
  case None
  with assms(2) show ?thesis by (simp add: find_row_None)
next
  case (Some r')
  with find_row_Some[OF this] assms show ?thesis
    by (metis distinct_map inj_onD)
qed

lemma find_append: "find P (xs @ ys) = (case find P xs of None \<Rightarrow> find P ys | Some x \<Rightarrow> Some x)"
  by (induction xs) auto

lemma find_filter: "find P (filter Q xs) = find (\<lambda>x. Q x \<and> P x) xs"
  by (induction xs) auto

lemma find_cong_key:
  "(\<And>x. x \<in> set xs \<Longrightarrow> P x = Q x) \<Longrightarrow> find P xs = find Q xs"
  by (induction xs) auto

lemma find_row_upsert: "find_row (upsert row d) k = (if k = row_key row then Some row else find_row d k)"
proof (cases "k = row_key row")
  case True
  then have "find (\<lambda>r. row_key r \<noteq> row_key row \<and> row_key r = k) (tiles d) = None"
    by (auto simp: find_None_iff)
  with True show ?thesis by (simp add: find_row_def upsert_def find_append find_filter)
next
  case False
  then have "find (\<lambda>r. row_key r \<noteq> row_key row \<and> row_key r = k) (tiles d) = find_row d k"
    unfolding find_row_def by (intro find_cong_key) auto
  with False show ?thesis
    by (simp add: find_row_def upsert_def find_append find_filter split: option.splits)
qed

lemma find_row_delete:
  assumes "distinct (map row_key (tiles d))"
  shows "find_row (delete_rows P d) k =
    (case find_row d k of Some r \<Rightarrow> if P r then None else Some r | None \<Rightarrow> None)"
proof -
  have dist: "distinct (map row_key (tiles (delete_rows P d)))"
    using assms by (simp add: delete_rows_def distinct_map_filter)
  show ?thesis
  proof (cases "find_row d k")
    case None
    then have "k \<notin> row_key ` set (tiles (delete_rows P d))"
      by (auto simp: find_row_None delete_rows_def)
    then have "find_row (delete_rows P d) k = None" by (simp add: find_row_None)
    with None show ?thesis by simp
  next
    case (Some r)
    then have r: "r \<in> set (tiles d)" "row_key r = k" by (auto dest: find_row_Some)
    show ?thesis
    proof (cases "P r")
      case True
      have "k \<notin> row_key ` set (tiles (delete_rows P d))"
        using True r assms by (auto simp: delete_rows_def distinct_map inj_on_def)
      with Some True show ?thesis by (simp add: find_row_None)
    next
      case False
      then have "r \<in> set (tiles (delete_rows P d))" using r by (simp add: delete_rows_def)
      from find_row_mem[OF dist this] Some False r show ?thesis by simp
    qed
  qed
qed

lemma find_map_key:
  "(\<And>x. f (g x) = f x) \<Longrightarrow> find (\<lambda>x. f x = k) (map g xs) = map_option g (find (\<lambda>x. f x = k) xs)"
  by (induction xs) auto

lemma find_row_set_pinned:
  "find_row (set_pinned b P d) k =
     map_option (\<lambda>r. if P r then r\<lparr>row_pinned := b\<rparr> else r) (find_row d k)"
  by (simp add: find_row_def set_pinned_def find_map_key)

section \<open>Byte sums\<close>

lemma tsum_upsert:
  assumes "distinct (map row_key (tiles d))"
  shows "tsum P (upsert row d) = tsum P d
    - (case find_row d (row_key row) of Some r \<Rightarrow> if P r then row_bytes r else 0 | None \<Rightarrow> 0)
    + (if P row then row_bytes row else 0)"
proof -
  let ?k = "row_key row"
  have "tsum P d = sum_of row_bytes (filter (\<lambda>r. row_key r = ?k) (filter P (tiles d)))
      + sum_of row_bytes (filter (\<lambda>r. row_key r \<noteq> ?k) (filter P (tiles d)))"
    unfolding tsum_def by (rule sum_of_filter_split)
  moreover have "filter (\<lambda>r. row_key r = ?k) (filter P (tiles d))
      = filter P (filter (\<lambda>r. row_key r = ?k) (tiles d))"
    by (simp add: conj_commute)
  moreover have "filter (\<lambda>r. row_key r \<noteq> ?k) (filter P (tiles d))
      = filter P (filter (\<lambda>r. row_key r \<noteq> ?k) (tiles d))"
    by (simp add: conj_commute)
  ultimately show ?thesis
    by (simp add: tsum_def upsert_def filter_key_find[OF assms] find_row_def split: option.splits)
qed

lemma tsum_delete: "tsum P (delete_rows Q d) = tsum P d - tsum (\<lambda>r. P r \<and> Q r) d"
proof -
  have "tsum P d = sum_of row_bytes (filter Q (filter P (tiles d)))
      + sum_of row_bytes (filter (\<lambda>r. \<not> Q r) (filter P (tiles d)))"
    unfolding tsum_def by (rule sum_of_filter_split)
  then show ?thesis by (simp add: tsum_def delete_rows_def conj_commute)
qed

lemma tsum_split: "tsum P d = tsum (\<lambda>r. P r \<and> Q r) d + tsum (\<lambda>r. P r \<and> \<not> Q r) d"
  using sum_of_filter_split[of row_bytes "filter P (tiles d)" Q]
  by (simp add: tsum_def conj_commute)

lemma tsum_cong: "(\<And>r. r \<in> set (tiles d) \<Longrightarrow> P r = Q r) \<Longrightarrow> tsum P d = tsum Q d"
  unfolding tsum_def by (rule arg_cong[where f = "sum_of row_bytes"]) (rule filter_cong, auto)

lemma tsum_mono:
  "bytes_nonneg d \<Longrightarrow> (\<And>r. r \<in> set (tiles d) \<Longrightarrow> P r \<Longrightarrow> Q r) \<Longrightarrow> tsum P d \<le> tsum Q d"
  unfolding tsum_def bytes_nonneg_def by (rule sum_of_filter_mono) auto

lemma tsum_nonneg: "bytes_nonneg d \<Longrightarrow> 0 \<le> tsum P d"
  unfolding tsum_def bytes_nonneg_def by (rule sum_of_nonneg) auto

lemma total_pinned_unpinned: "total_sum d = pinned_sum d + tsum (\<lambda>r. \<not> row_pinned r) d"
  using tsum_split[of "\<lambda>_. True" d row_pinned] by simp

lemma tsum_set_pinned:
  "(\<And>r. Q (r\<lparr>row_pinned := b\<rparr>) = Q r) \<Longrightarrow> tsum Q (set_pinned b P d) = tsum Q d"
proof -
  assume Q: "\<And>r. Q (r\<lparr>row_pinned := b\<rparr>) = Q r"
  let ?g = "\<lambda>r. if P r then r\<lparr>row_pinned := b\<rparr> else r"
  have "filter Q (map ?g xs) = map ?g (filter Q xs)" for xs
    by (induction xs) (auto simp: Q)
  moreover have "row_bytes \<circ> ?g = row_bytes" by (auto simp: row_bytes_def fun_eq_iff)
  ultimately show ?thesis by (simp add: tsum_def set_pinned_def sum_of_map)
qed

lemma tsum_joins [simp]:
  "tsum P (d\<lparr>region_tiles := j\<rparr>) = tsum P d"
  "tsum P (insert_join rid k d) = tsum P d"
  "tsum P (delete_joins R d) = tsum P d"
  "tsum P (rename_joins t s d) = tsum P d"
  by (simp_all add: tsum_def insert_join_def delete_joins_def rename_joins_def)

lemma tiles_joins [simp]:
  "tiles (insert_join rid k d) = tiles d"
  "tiles (delete_joins R d) = tiles d"
  "tiles (rename_joins t s d) = tiles d"
  by (simp_all add: insert_join_def delete_joins_def rename_joins_def)

lemma region_tiles_rows [simp]:
  "region_tiles (upsert row d) = region_tiles d"
  "region_tiles (set_pinned b P d) = region_tiles d"
  "region_tiles (delete_rows P d) = region_tiles d"
  by (simp_all add: upsert_def set_pinned_def delete_rows_def)

lemma set_insert_join: "set (region_tiles (insert_join rid k d)) = insert (rid, k) (set (region_tiles d))"
  by (auto simp: insert_join_def)

lemma find_row_joins [simp]:
  "find_row (insert_join rid k d) = find_row d"
  "find_row (delete_joins R d) = find_row d"
  "find_row (rename_joins t s d) = find_row d"
  by (simp_all add: find_row_def fun_eq_iff)

section \<open>Preservation of well-formedness by the statements\<close>

lemma joins_pinned_find:
  assumes "distinct (map row_key (tiles d))"
  shows "joins_pinned d \<longleftrightarrow>
    (\<forall>j \<in> set (region_tiles d). \<exists>r. find_row d (snd j) = Some r \<and> row_pinned r)"
  using find_row_mem[OF assms] find_row_Some[of d]
  by (fastforce simp: joins_pinned_def)

lemma keys_upsert: "distinct (map row_key (tiles d)) \<Longrightarrow> distinct (map row_key (tiles (upsert row d)))"
  by (auto simp: upsert_def distinct_map_filter)

lemma keys_set_pinned: "map row_key (tiles (set_pinned b P d)) = map row_key (tiles d)"
  by (auto simp: set_pinned_def)

lemma keys_delete: "distinct (map row_key (tiles d)) \<Longrightarrow> distinct (map row_key (tiles (delete_rows P d)))"
  by (simp add: delete_rows_def distinct_map_filter)

lemma db_ok_upsert [inv_intro]:
  assumes ok: "db_ok d"
    and keep: "row_pinned row \<or> (\<forall>r. find_row d (row_key row) = Some r \<longrightarrow> \<not> row_pinned r)"
  shows "db_ok (upsert row d)"
proof -
  note dist = db_okD(1)[OF ok]
  have old: "\<forall>j \<in> set (region_tiles d). \<exists>r. find_row d (snd j) = Some r \<and> row_pinned r"
    using db_okD(3)[OF ok] joins_pinned_find[OF dist] by simp
  have "joins_pinned (upsert row d)"
    unfolding joins_pinned_find[OF keys_upsert[OF dist]] find_row_upsert region_tiles_rows
    using old keep by fastforce
  then show ?thesis using keys_upsert[OF dist] db_okD(2)[OF ok] by (simp add: db_ok_def)
qed

lemma db_ok_insert_join [inv_intro]:
  assumes "db_ok d" "find_row d k = Some r" "row_pinned r"
  shows "db_ok (insert_join rid k d)"
  using assms find_row_Some[of d k r]
  by (auto simp: db_ok_def insert_join_def joins_pinned_def)

lemma db_ok_delete_rows [inv_intro]:
  assumes ok: "db_ok d" and unp: "\<And>r. r \<in> set (tiles d) \<Longrightarrow> P r \<Longrightarrow> \<not> row_pinned r"
  shows "db_ok (delete_rows P d)"
proof -
  have "joins_pinned (delete_rows P d)"
    using db_okD(3)[OF ok] unp by (fastforce simp: joins_pinned_def delete_rows_def)
  then show ?thesis using keys_delete[OF db_okD(1)[OF ok]] db_okD(2)[OF ok] by (simp add: db_ok_def)
qed

lemma db_ok_pin [inv_intro]:
  assumes ok: "db_ok d" shows "db_ok (set_pinned True P d)"
proof -
  have dist: "distinct (map row_key (tiles (set_pinned True P d)))"
    using db_okD(1)[OF ok] by (simp add: keys_set_pinned)
  have "joins_pinned (set_pinned True P d)"
    unfolding joins_pinned_find[OF dist]
    using db_okD(3)[OF ok] joins_pinned_find[OF db_okD(1)[OF ok]]
    by (fastforce simp: find_row_set_pinned)
  then show ?thesis using dist db_okD(2)[OF ok] by (simp add: db_ok_def)
qed

lemma db_ok_unpin [inv_intro]:
  assumes ok: "db_ok d"
    and unref: "\<And>r. r \<in> set (tiles d) \<Longrightarrow> P r \<Longrightarrow> \<not> referenced d (row_key r)"
  shows "db_ok (set_pinned False P d)"
proof -
  have dist: "distinct (map row_key (tiles (set_pinned False P d)))"
    using db_okD(1)[OF ok] by (simp add: keys_set_pinned)
  have "\<exists>r. find_row (set_pinned False P d) (snd j) = Some r \<and> row_pinned r"
    if j: "j \<in> set (region_tiles d)" for j
  proof -
    obtain r where r: "find_row d (snd j) = Some r" "row_pinned r"
      using j db_okD(3)[OF ok] joins_pinned_find[OF db_okD(1)[OF ok]] by blast
    have "referenced d (row_key r)"
      using j find_row_Some[OF r(1)] by (auto simp: referenced_def list_ex_iff)
    then have "\<not> P r" using unref find_row_Some[OF r(1)] by blast
    with r show ?thesis by (simp add: find_row_set_pinned)
  qed
  then have "joins_pinned (set_pinned False P d)"
    unfolding joins_pinned_find[OF dist] by simp
  then show ?thesis using dist db_okD(2)[OF ok] by (simp add: db_ok_def)
qed

lemma db_ok_delete_joins [inv_intro]: "db_ok d \<Longrightarrow> db_ok (delete_joins P d)"
  by (auto simp: db_ok_def joins_pinned_def delete_joins_def)

lemma nonneg_statements [inv_intro]:
  "bytes_nonneg d \<Longrightarrow> 0 \<le> row_bytes row \<Longrightarrow> bytes_nonneg (upsert row d)"
  "bytes_nonneg d \<Longrightarrow> bytes_nonneg (set_pinned b P d)"
  "bytes_nonneg d \<Longrightarrow> bytes_nonneg (delete_rows P d)"
  "bytes_nonneg d \<Longrightarrow> bytes_nonneg (insert_join rid k d)"
  "bytes_nonneg d \<Longrightarrow> bytes_nonneg (delete_joins R d)"
  "bytes_nonneg d \<Longrightarrow> bytes_nonneg (rename_joins t s d)"
  by (auto simp: bytes_nonneg_def upsert_def set_pinned_def delete_rows_def row_bytes_def)

lemma ensure_schema_ok: "db_ok d \<Longrightarrow> db_ok (ensure_schema d)"
  by (simp add: ensure_schema_def db_ok_def joins_pinned_def)

end
