(* ===== verification/Cache_Ops.thy ===== *)
theory Cache_Ops
  imports Cache_Db
begin

text \<open>
  The tile cache (\<open>TileCache\<close> and its \<open>Inner\<close> in \<open>container/tilecache/src/cache.rs\<close>): the connection's
  rows with the running counters, opening, lookup, store, touch, the LRU eviction, the age sweep and
  the clear with their chunked deletes, and the page reclaim. \<open>cache_inv\<close> says that the running
  counters are the sums the rows give; every operation keeps it.
\<close>

section \<open>State\<close>

record tile_cache =
  conn :: db
  total_bytes :: int
  pinned_bytes :: int
  real_region_cache :: int
  regions_dirty :: bool
  disk_pressure_events :: nat
  operation_error_events :: nat

text \<open>
  What an operation finds outside the cache: the free space the file system reports, the free pages
  SQLite can reuse (\<open>None\<close> when either cannot be read), and the failures of its statements.
\<close>

record cache_env =
  available :: "nat option"
  reusable :: "nat option"
  faults :: faults

definition record_operation_error :: "tile_cache \<Rightarrow> tile_cache" where
  "record_operation_error c = c\<lparr>operation_error_events := operation_error_events c + 1\<rparr>"

definition record_disk_pressure :: "tile_cache \<Rightarrow> tile_cache" where
  "record_disk_pressure c = c\<lparr>disk_pressure_events := disk_pressure_events c + 1\<rparr>"

definition MIN_FREE_HEADROOM_BYTES :: nat where
  "MIN_FREE_HEADROOM_BYTES = 256 * 1024 * 1024"

definition has_headroom :: "nat \<Rightarrow> nat \<Rightarrow> nat \<Rightarrow> bool" where
  "has_headroom av re additional \<longleftrightarrow>
     sat_u64 (MIN_FREE_HEADROOM_BYTES + additional) \<le> sat_u64 (av + re)"

definition has_disk_headroom_conn :: "cache_env \<Rightarrow> int \<Rightarrow> bool" where
  "has_disk_headroom_conn env additional =
     (if additional \<le> 0 then True
      else case available env of
          None \<Rightarrow> True
        | Some av \<Rightarrow> has_headroom av (case reusable env of None \<Rightarrow> 0 | Some re \<Rightarrow> re) (nat additional))"

section \<open>Lookup\<close>

definition get :: "cache_env \<Rightarrow> tile_key \<Rightarrow> tile_cache \<Rightarrow> (db_error + cached_tile option) \<times> tile_cache" where
  "get env k c =
     (case faults env S_lookup of
        Some e \<Rightarrow> (Inl e, record_operation_error c)
      | None \<Rightarrow> (Inr (map_option row_tile (find_row (conn c) k)), c))"

definition is_pinned :: "cache_env \<Rightarrow> tile_key \<Rightarrow> tile_cache \<Rightarrow> db_error + bool" where
  "is_pinned env k c =
     (case faults env S_lookup of
        Some e \<Rightarrow> Inl e
      | None \<Rightarrow> Inr (case find_row (conn c) k of None \<Rightarrow> False | Some r \<Rightarrow> row_pinned r))"

definition probe :: "cache_env \<Rightarrow> tile_cache \<Rightarrow> db_error + unit" where
  "probe env c =
     (case faults env S_lookup of
        Some e \<Rightarrow> Inl e
      | None \<Rightarrow>
          if user_version (conn c) \<noteq> SCHEMA_VERSION then Inl InvalidQuery
          else (case faults env S_count of Some e \<Rightarrow> Inl e | None \<Rightarrow> Inr ()))"

section \<open>Store\<close>

datatype put_outcome = Stored | Degraded

definition put :: "cache_env \<Rightarrow> tile_key \<Rightarrow> cached_tile \<Rightarrow> bool \<Rightarrow> int \<Rightarrow> tile_cache
    \<Rightarrow> (db_error + put_outcome) \<times> tile_cache" where
  "put env k tile pinned now c =
     (case faults env S_lookup of
        Some e \<Rightarrow> (Inl e, c)
      | None \<Rightarrow>
        let prev = find_row (conn c) k;
            old_bytes = (case prev of Some r \<Rightarrow> row_bytes r | None \<Rightarrow> 0);
            was_pinned = (case prev of Some r \<Rightarrow> row_pinned r | None \<Rightarrow> False)
        in if \<not> has_disk_headroom_conn env (bytes tile - old_bytes)
           then (Inr Degraded, record_disk_pressure c)
           else
             let effective_pinned = (pinned \<or> was_pinned)
             in (case faults env S_write of
                   Some e \<Rightarrow>
                     if is_disk_full e then (Inr Degraded, record_disk_pressure c) else (Inl e, c)
                 | None \<Rightarrow>
                     let c1 = c\<lparr>conn := upsert \<lparr>row_key = k, row_tile = tile\<lparr>last_access := now\<rparr>,
                                                row_pinned = effective_pinned\<rparr> (conn c),
                                total_bytes := total_bytes c + (bytes tile - old_bytes)\<rparr>
                     in (Inr Stored,
                         if effective_pinned
                         then c1\<lparr>pinned_bytes := pinned_bytes c
                                    + (bytes tile - (if was_pinned then old_bytes else 0)),
                                 regions_dirty := True\<rparr>
                         else c1)))"

definition touch_row :: "tile_key \<Rightarrow> int \<Rightarrow> db \<Rightarrow> db" where
  "touch_row k now d = d\<lparr>tiles := map (\<lambda>r. if row_key r = k
      then r\<lparr>row_tile := (row_tile r)\<lparr>last_access := max (last_access (row_tile r)) now\<rparr>\<rparr>
      else r) (tiles d)\<rparr>"

definition touch :: "cache_env \<Rightarrow> tile_key \<Rightarrow> int \<Rightarrow> tile_cache \<Rightarrow> (db_error + unit) \<times> tile_cache" where
  "touch env k now c =
     (case faults env S_write of
        Some e \<Rightarrow> (Inl e, c)
      | None \<Rightarrow> (Inr (), c\<lparr>conn := touch_row k now (conn c)\<rparr>))"

section \<open>Eviction\<close>

definition EVICTION_HYSTERESIS_BYTES :: int where
  "EVICTION_HYSTERESIS_BYTES = 64 * 1024 * 1024"

definition eviction_target :: "int \<Rightarrow> int" where
  "eviction_target cap_bytes =
     (if sat_i64 (EVICTION_HYSTERESIS_BYTES * 2) \<le> cap_bytes
      then sat_i64 (cap_bytes - min EVICTION_HYSTERESIS_BYTES (cap_bytes div 100))
      else cap_bytes)"

text \<open>
  The unpinned rows by \<open>last_access\<close>, rowid breaking ties: \<open>sort_key\<close> is stable on the rowid order.
\<close>

definition lru_order :: "db \<Rightarrow> tile_row list" where
  "lru_order d = sort_key (\<lambda>r. last_access (row_tile r)) (filter (\<lambda>r. \<not> row_pinned r) (tiles d))"

text \<open>
  The window \<open>SUM(bytes) OVER (ORDER BY last_access, rowid) - bytes\<close> is the sum of the rows before;
  the rows whose prior sum is below the deficit are deleted.
\<close>

fun lru_victims :: "int \<Rightarrow> int \<Rightarrow> tile_row list \<Rightarrow> tile_row list" where
  "lru_victims to_free prior [] = []"
| "lru_victims to_free prior (r # rs) =
     (if prior < to_free then [r] else []) @ lru_victims to_free (prior + row_bytes r) rs"

definition evict_unpinned_within :: "faults \<Rightarrow> db \<Rightarrow> int \<Rightarrow> int \<Rightarrow> db_error + int \<times> db" where
  "evict_unpinned_within fl d current_total target =
     (if current_total \<le> target then Inr (0, d)
      else case fl S_evict of
          Some e \<Rightarrow> Inl e
        | None \<Rightarrow>
            let vs = lru_victims (current_total - target) 0 (lru_order d)
            in Inr (sum_of row_bytes vs, delete_rows (\<lambda>r. row_key r \<in> row_key ` set vs) d))"

definition evict_to :: "cache_env \<Rightarrow> int \<Rightarrow> tile_cache \<Rightarrow> (db_error + unit) \<times> tile_cache" where
  "evict_to env cap_bytes c =
     (let current = total_bytes c
      in if current \<le> cap_bytes then (Inr (), c)
         else
           let target = eviction_target cap_bytes
           in (case faults env S_begin of
                 Some e \<Rightarrow> (Inl e, c)
               | None \<Rightarrow>
                 (case evict_unpinned_within (faults env) (conn c) current target of
                    Inl e \<Rightarrow> (Inl e, c)
                  | Inr (freed, d) \<Rightarrow>
                    (case faults env S_commit of
                       Some e \<Rightarrow> (Inl e, c)
                     | None \<Rightarrow> (Inr (), c\<lparr>conn := d, total_bytes := current - freed\<rparr>)))))"

section \<open>Chunked deletes\<close>

text \<open>
  One chunk: the sum of the selected rows and the delete of the same rows, under one lock. The second
  component is the number of rows deleted.
\<close>

definition delete_chunk :: "(db \<Rightarrow> tile_row list) \<Rightarrow> faults \<Rightarrow> tile_cache
    \<Rightarrow> (db_error + int \<times> nat) \<times> tile_cache" where
  "delete_chunk sel fl c =
     (case first_fault fl [S_count, S_write] of
        Some e \<Rightarrow> (Inl e, c)
      | None \<Rightarrow>
        let rows = sel (conn c);
            chunk_bytes = sum_of row_bytes rows;
            d = delete_rows (\<lambda>r. row_key r \<in> row_key ` set rows) (conn c)
        in (Inr (chunk_bytes, length (tiles (conn c)) - length (tiles d)),
            c\<lparr>conn := d, total_bytes := total_bytes c - chunk_bytes\<rparr>))"

text \<open>The loop of chunks; \<open>fls i\<close> are the failures of its \<open>i\<close>th turn.\<close>

function delete_unpinned_chunks :: "(db \<Rightarrow> tile_row list) \<Rightarrow> (nat \<Rightarrow> faults) \<Rightarrow> nat \<Rightarrow> int \<Rightarrow> nat
    \<Rightarrow> tile_cache \<Rightarrow> (db_error + int \<times> nat) \<times> tile_cache" where
  "delete_unpinned_chunks sel fls i freed_bytes freed_rows c =
     (case delete_chunk sel (fls i) c of
        (Inl e, c') \<Rightarrow> (Inl e, c')
      | (Inr (chunk_bytes, n), c') \<Rightarrow>
          if n < DELETE_CHUNK then (Inr (freed_bytes + chunk_bytes, freed_rows + n), c')
          else delete_unpinned_chunks sel fls (Suc i) (freed_bytes + chunk_bytes) (freed_rows + n) c')"
  by pat_completeness auto
termination
  by (relation "measure (\<lambda>(sel, fls, i, fb, fr, c). length (tiles (conn c)))")
    (auto simp: delete_chunk_def DELETE_CHUNK_def Let_def split: option.splits)

declare delete_unpinned_chunks.simps [simp del]

definition aged_select :: "int \<Rightarrow> db \<Rightarrow> tile_row list" where
  "aged_select cutoff d = take DELETE_CHUNK (sort_key (\<lambda>r. last_access (row_tile r))
     (filter (\<lambda>r. \<not> row_pinned r \<and> last_access (row_tile r) < cutoff) (tiles d)))"

definition unpinned_select :: "db \<Rightarrow> tile_row list" where
  "unpinned_select d = take DELETE_CHUNK (filter (\<lambda>r. \<not> row_pinned r) (tiles d))"

definition sweep_aged_unpinned :: "(nat \<Rightarrow> faults) \<Rightarrow> int \<Rightarrow> int \<Rightarrow> tile_cache
    \<Rightarrow> (db_error + int \<times> nat) \<times> tile_cache" where
  "sweep_aged_unpinned fls ttl_secs now c =
     (if ttl_secs \<le> 0 then (Inr (0, 0), c)
      else delete_unpinned_chunks (aged_select (now - ttl_secs)) fls 0 0 0 c)"

text \<open>
  \<open>reclaim_free_pages\<close>: \<open>mode\<close> is the auto-vacuum mode the pragma reports, \<open>pages\<close> the free pages when a
  turn starts, and \<open>vac\<close> what one bounded vacuum step leaves. A step that does not shrink the free list
  ends the loop with an error, so it stops whatever the steps do.
\<close>

function reclaim_loop :: "(nat \<Rightarrow> db_error + nat) \<Rightarrow> nat \<Rightarrow> db_error + unit" where
  "reclaim_loop vac before =
     (if before = 0 then Inr ()
      else case vac before of
          Inl e \<Rightarrow> Inl e
        | Inr after \<Rightarrow>
            if after = 0 then Inr ()
            else if before \<le> after then Inl InvalidQuery
            else reclaim_loop vac after)"
  by pat_completeness auto
termination by (relation "measure snd") auto

declare reclaim_loop.simps [simp del]

definition reclaim_free_pages :: "db_error + int \<Rightarrow> (nat \<Rightarrow> db_error + nat) \<Rightarrow> nat \<Rightarrow> db_error + unit" where
  "reclaim_free_pages mode vac pages =
     (case mode of
        Inl e \<Rightarrow> Inl e
      | Inr m \<Rightarrow> if m \<noteq> 2 then Inr () else reclaim_loop vac pages)"

definition clear_unpinned :: "(nat \<Rightarrow> faults) \<Rightarrow> (db_error + unit) \<Rightarrow> tile_cache
    \<Rightarrow> (db_error + int \<times> nat) \<times> tile_cache" where
  "clear_unpinned fls reclaimed c =
     (case delete_unpinned_chunks unpinned_select fls 0 0 0 c of
        (Inl e, c') \<Rightarrow> (Inl e, c')
      | (Inr r, c') \<Rightarrow> (case reclaimed of Inl e \<Rightarrow> (Inl e, c') | Inr _ \<Rightarrow> (Inr r, c')))"

section \<open>Opening\<close>

datatype auto_vacuum_state = Ready | Deferred

text \<open>\<open>mode\<close> and \<open>migrated\<close> are what the pragma reads before and after the vacuum.\<close>

definition ensure_incremental_auto_vacuum :: "int \<Rightarrow> db_error option \<Rightarrow> int \<Rightarrow> db_error + auto_vacuum_state" where
  "ensure_incremental_auto_vacuum mode vacuum migrated =
     (if mode = 2 then Inr Ready
      else case vacuum of
          Some e \<Rightarrow> if is_disk_full e then Inr Deferred else Inl e
        | None \<Rightarrow> if migrated \<noteq> 2 then Inl InvalidQuery else Inr Ready)"

text \<open>\<open>UPDATE tiles SET pinned = 0 WHERE pinned = 1 AND NOT EXISTS (join)\<close>\<close>

definition demote_unreferenced :: "db \<Rightarrow> db" where
  "demote_unreferenced d = set_pinned False (\<lambda>r. row_pinned r \<and> \<not> referenced d (row_key r)) d"

definition cleanup_abandoned_staging_conn :: "faults \<Rightarrow> db \<Rightarrow> db_error + db" where
  "cleanup_abandoned_staging_conn fl d =
     (case first_fault fl [S_begin, S_write, S_evict, S_commit] of
        Some e \<Rightarrow> Inl e
      | None \<Rightarrow> Inr (demote_unreferenced
                 (delete_joins (\<lambda>rid. starts_with rid STAGING_REGION_PREFIX) d)))"

definition cleanup_abandoned_staging :: "cache_env \<Rightarrow> tile_cache \<Rightarrow> (db_error + unit) \<times> tile_cache" where
  "cleanup_abandoned_staging env c =
     (case cleanup_abandoned_staging_conn (faults env) (conn c) of
        Inl e \<Rightarrow> (Inl e, c)
      | Inr d \<Rightarrow>
        (case faults env S_recount of
           Some e \<Rightarrow> (Inl e, c\<lparr>conn := d\<rparr>)
         | None \<Rightarrow> (Inr (), c\<lparr>conn := d, pinned_bytes := pinned_sum d, regions_dirty := True\<rparr>)))"

text \<open>A statement that must succeed for the rest to run.\<close>

definition run_stmt :: "faults \<Rightarrow> stmt \<Rightarrow> db_error + unit" where
  "run_stmt fl s = (case fl s of Some e \<Rightarrow> Inl e | None \<Rightarrow> Inr ())"

text \<open>\<open>S_open\<close> stands for the opening of the file and its pragmas, \<open>S_schema\<close> for the statements of the schema.\<close>

definition open_with_vacuum :: "cache_env \<Rightarrow> int \<Rightarrow> db_error option \<Rightarrow> int \<Rightarrow> db \<Rightarrow> db_error + tile_cache" where
  "open_with_vacuum env mode vacuum migrated d0 =
     bindE (run_stmt (faults env) S_open) (\<lambda>_.
     bindE (ensure_incremental_auto_vacuum mode vacuum migrated) (\<lambda>st.
     bindE (run_stmt (faults env) S_schema) (\<lambda>_.
     let d1 = ensure_schema d0 in
     bindE (if st = Ready then cleanup_abandoned_staging_conn (faults env) d1 else Inr d1) (\<lambda>d.
     case faults env S_count of
       Some e \<Rightarrow> Inl e
     | None \<Rightarrow> Inr \<lparr>conn = d, total_bytes = total_sum d, pinned_bytes = pinned_sum d,
          real_region_cache = 0, regions_dirty = True,
          disk_pressure_events = 0, operation_error_events = 0\<rparr>))))"

section \<open>Invariant\<close>

text \<open>The rows \<open>real_region_pinned_bytes\<close> sums: pinned, with a join of a region outside the position category.\<close>

definition in_real_region :: "string \<Rightarrow> db \<Rightarrow> tile_key \<Rightarrow> bool" where
  "in_real_region position_id d k \<longleftrightarrow>
     list_ex (\<lambda>j. snd j = k \<and> fst j \<noteq> position_id
        \<and> \<not> starts_with (fst j) POSITION_STAGING_REGION_PREFIX) (region_tiles d)"

definition real_sum :: "string \<Rightarrow> db \<Rightarrow> int" where
  "real_sum position_id d = tsum (\<lambda>r. row_pinned r \<and> in_real_region position_id d (row_key r)) d"

definition counters_exact :: "tile_cache \<Rightarrow> bool" where
  "counters_exact c \<longleftrightarrow> total_bytes c = total_sum (conn c) \<and> pinned_bytes c = pinned_sum (conn c)"

definition memo_exact :: "tile_cache \<Rightarrow> bool" where
  "memo_exact c \<longleftrightarrow> regions_dirty c \<or> real_region_cache c = real_sum POSITION_WARM_REGION_ID (conn c)"

definition rows_ok :: "tile_cache \<Rightarrow> bool" where
  "rows_ok c \<longleftrightarrow> db_ok (conn c) \<and> bytes_nonneg (conn c)"

definition cache_inv :: "tile_cache \<Rightarrow> bool" where
  "cache_inv c \<longleftrightarrow> rows_ok c \<and> counters_exact c \<and> memo_exact c"

lemmas inv_defs = cache_inv_def rows_ok_def counters_exact_def memo_exact_def

lemma cache_invD:
  assumes "cache_inv c"
  shows "db_ok (conn c)" "bytes_nonneg (conn c)" "total_bytes c = total_sum (conn c)"
    "pinned_bytes c = pinned_sum (conn c)" "distinct (map row_key (tiles (conn c)))"
    "memo_exact c"
  using assms by (auto simp: inv_defs db_ok_def)

lemma record_events_inv [simp, inv_intro]:
  "cache_inv (record_operation_error c) = cache_inv c"
  "cache_inv (record_disk_pressure c) = cache_inv c"
  "conn (record_operation_error c) = conn c" "conn (record_disk_pressure c) = conn c"
  "total_bytes (record_operation_error c) = total_bytes c"
  "total_bytes (record_disk_pressure c) = total_bytes c"
  "pinned_bytes (record_operation_error c) = pinned_bytes c"
  "pinned_bytes (record_disk_pressure c) = pinned_bytes c"
  by (simp_all add: record_operation_error_def record_disk_pressure_def inv_defs)

lemma pinned_le_total: "cache_inv c \<Longrightarrow> pinned_bytes c \<le> total_bytes c"
  using tsum_mono[of "conn c" row_pinned "\<lambda>_. True"] by (simp add: cache_invD)

lemma real_sum_le_pinned: "bytes_nonneg d \<Longrightarrow> real_sum p d \<le> pinned_sum d"
  unfolding real_sum_def by (rule tsum_mono) auto

end
