(* ===== verification/Cache_Store.thy ===== *)
theory Cache_Store
  imports Cache_Ops
begin

text \<open>
  What the operations of \<open>Cache_Ops\<close> do: each keeps \<open>cache_inv\<close>; a store is read back; an eviction
  deletes a least-recently-used prefix of the unpinned rows that just covers the deficit; a chunked
  delete removes exactly the selected rows whatever the number of chunks (\<open>chunk_selector\<close> is the
  contract of the two subqueries); the reclaim loop stops.
\<close>

section \<open>Store and lookup\<close>

definition pinned_at :: "db \<Rightarrow> tile_key \<Rightarrow> bool" where
  "pinned_at d k \<longleftrightarrow> (case find_row d k of Some r \<Rightarrow> row_pinned r | None \<Rightarrow> False)"

definition tile_at :: "db \<Rightarrow> tile_key \<Rightarrow> cached_tile option" where
  "tile_at d k = map_option row_tile (find_row d k)"

lemma tile_at_upsert: "tile_at (upsert row d) k = (if k = row_key row then Some (row_tile row) else tile_at d k)"
  by (simp add: tile_at_def find_row_upsert)

lemma pinned_at_upsert: "pinned_at (upsert row d) k = (if k = row_key row then row_pinned row else pinned_at d k)"
  by (simp add: pinned_at_def find_row_upsert)

lemma put_stored:
  assumes "put env k tile pinned now c = (Inr Stored, c')"
  shows "conn c' = upsert \<lparr>row_key = k, row_tile = tile\<lparr>last_access := now\<rparr>,
      row_pinned = (pinned \<or> pinned_at (conn c) k)\<rparr> (conn c)"
  using assms
  by (auto simp: put_def pinned_at_def Let_def split: option.splits if_splits)

lemma put_not_stored:
  assumes "put env k tile pinned now c = (r, c')" "r \<noteq> Inr Stored"
  shows "conn c' = conn c \<and> total_bytes c' = total_bytes c \<and> pinned_bytes c' = pinned_bytes c"
  using assms
  by (auto simp: put_def Let_def split: option.splits if_splits)

lemma row_bytes_la [simp]:
  "row_bytes \<lparr>row_key = k, row_tile = t\<lparr>last_access := a\<rparr>, row_pinned = b\<rparr> = bytes t"
  by (simp add: row_bytes_def)

lemma real_sum_upsert_unpinned:
  assumes "distinct (map row_key (tiles d))" "\<not> row_pinned row" "\<not> pinned_at d (row_key row)"
  shows "real_sum p (upsert row d) = real_sum p d"
proof -
  have "in_real_region p (upsert row d) = in_real_region p d"
    by (simp add: in_real_region_def fun_eq_iff)
  then show ?thesis
    using assms(2,3) unfolding real_sum_def
    by (simp add: tsum_upsert[OF assms(1)] pinned_at_def split: option.splits)
qed

lemma put_inv [inv_intro]:
  assumes inv: "cache_inv c" and nn: "0 \<le> bytes tile"
  shows "cache_inv (snd (put env k tile pinned now c))"
proof (cases "put env k tile pinned now c")
  case (Pair r c')
  show ?thesis
  proof (cases "r = Inr Stored")
    case False
    with Pair inv show ?thesis
      by (auto simp: put_def Let_def split: option.splits if_splits)
  next
    case True
    note c' = put_stored[OF Pair[unfolded True]]
    let ?row = "\<lparr>row_key = k, row_tile = tile\<lparr>last_access := now\<rparr>,
      row_pinned = (pinned \<or> pinned_at (conn c) k)\<rparr>"
    have ok: "db_ok (conn c')" unfolding c'
      using cache_invD(1)[OF inv] by (intro db_ok_upsert) (auto simp: pinned_at_def)
    have bn: "bytes_nonneg (conn c')" unfolding c'
      using cache_invD(2)[OF inv] nn by (intro nonneg_statements) simp_all
    note sums = tsum_upsert[OF cache_invD(5)[OF inv], where row = ?row]
    have counters: "counters_exact c'"
      using Pair True inv c' sums[where P = "\<lambda>_. True"] sums[where P = row_pinned]
      by (auto simp: counters_exact_def cache_invD put_def Let_def pinned_at_def row_bytes_def
          split: option.splits if_splits)
    have memo: "memo_exact c'"
    proof (cases "pinned \<or> pinned_at (conn c) k")
      case True
      with Pair \<open>r = Inr Stored\<close> show ?thesis
        by (auto simp: memo_exact_def put_def Let_def pinned_at_def split: option.splits if_splits)
    next
      case False
      then have "regions_dirty c' = regions_dirty c" "real_region_cache c' = real_region_cache c"
        using Pair \<open>r = Inr Stored\<close>
        by (auto simp: put_def Let_def pinned_at_def split: option.splits if_splits)
      moreover have "real_sum p (conn c') = real_sum p (conn c)" for p
        unfolding c' using False by (intro real_sum_upsert_unpinned[OF cache_invD(5)[OF inv]]) simp_all
      ultimately show ?thesis using cache_invD(6)[OF inv] by (simp add: memo_exact_def)
    qed
    show ?thesis using ok bn counters memo Pair by (simp add: cache_inv_def rows_ok_def)
  qed
qed

lemma get_tile_at: "faults env S_lookup = None \<Longrightarrow> get env k c = (Inr (tile_at (conn c) k), c)"
  by (simp add: get_def tile_at_def)

lemma get_inv [inv_intro]: "cache_inv c \<Longrightarrow> cache_inv (snd (get env k c))"
  by (simp add: get_def split: option.splits)

lemma get_conn [simp]: "conn (snd (get env k c)) = conn c"
  by (simp add: get_def split: option.splits)

lemma find_row_touch: "find_row (touch_row k now d) j =
   map_option (\<lambda>r. if row_key r = k
      then r\<lparr>row_tile := (row_tile r)\<lparr>last_access := max (last_access (row_tile r)) now\<rparr>\<rparr> else r)
   (find_row d j)"
  by (simp add: find_row_def touch_row_def find_map_key)

lemma tsum_touch:
  assumes "\<And>r t. P (r\<lparr>row_tile := t\<rparr>) = P r"
  shows "tsum P (touch_row k now d) = tsum P d"
proof -
  let ?g = "\<lambda>r. if row_key r = k
      then r\<lparr>row_tile := (row_tile r)\<lparr>last_access := max (last_access (row_tile r)) now\<rparr>\<rparr> else r"
  have "filter P (map ?g xs) = map ?g (filter P xs)" for xs
    by (induction xs) (auto simp: assms)
  moreover have "row_bytes \<circ> ?g = row_bytes" by (auto simp: row_bytes_def fun_eq_iff)
  ultimately show ?thesis by (simp add: tsum_def touch_row_def sum_of_map)
qed

lemma touch_row_ok: assumes "db_ok d" shows "db_ok (touch_row k now d)"
proof -
  have keys: "map row_key (tiles (touch_row k now d)) = map row_key (tiles d)"
    by (auto simp: touch_row_def)
  then have dist: "distinct (map row_key (tiles (touch_row k now d)))"
    using db_okD(1)[OF assms] by simp
  have "\<exists>r. find_row (touch_row k now d) (snd j) = Some r \<and> row_pinned r"
    if "j \<in> set (region_tiles d)" for j
    using db_okD(3)[OF assms] joins_pinned_find[OF db_okD(1)[OF assms]] that
    by (fastforce simp: find_row_touch)
  then have "joins_pinned (touch_row k now d)"
    unfolding joins_pinned_find[OF dist] by (simp add: touch_row_def)
  then show ?thesis using dist db_okD(2)[OF assms] by (simp add: db_ok_def touch_row_def)
qed

lemma touch_inv [inv_intro]:
  assumes "cache_inv c" shows "cache_inv (snd (touch env k now c))"
proof -
  have "bytes_nonneg (touch_row k now (conn c))"
    using cache_invD(2)[OF assms] by (auto simp: bytes_nonneg_def touch_row_def row_bytes_def)
  moreover have "real_sum p (touch_row k now (conn c)) = real_sum p (conn c)" for p
    unfolding real_sum_def in_real_region_def
    by (simp add: tsum_touch) (simp add: touch_row_def)
  ultimately show ?thesis
    using assms touch_row_ok[OF cache_invD(1)[OF assms]]
    by (auto simp: touch_def inv_defs tsum_touch split: option.splits)
qed

section \<open>Deleting selected rows\<close>

lemma distinct_tiles: "distinct (map row_key (tiles d)) \<Longrightarrow> distinct (tiles d)"
  by (simp add: distinct_map)

lemma key_selected:
  assumes "distinct (map row_key (tiles d))" "set vs \<subseteq> set (tiles d)" "r \<in> set (tiles d)"
  shows "row_key r \<in> row_key ` set vs \<longleftrightarrow> r \<in> set vs"
  using assms by (auto simp: distinct_map inj_on_def)

lemma selected_mset:
  assumes "distinct (map row_key (tiles d))" "set vs \<subseteq> set (tiles d)" "distinct vs"
  shows "mset (filter (\<lambda>r. row_key r \<in> row_key ` set vs) (tiles d)) = mset vs"
proof -
  have "filter (\<lambda>r. row_key r \<in> row_key ` set vs) (tiles d) = filter (\<lambda>r. r \<in> set vs) (tiles d)"
    by (rule filter_cong) (simp_all add: key_selected[OF assms(1,2)])
  moreover have "set (filter (\<lambda>r. r \<in> set vs) (tiles d)) = set vs"
    using assms(2) by auto
  then have "mset (filter (\<lambda>r. r \<in> set vs) (tiles d)) = mset vs"
    using assms(3) distinct_tiles[OF assms(1)] distinct_filter set_eq_iff_mset_eq_distinct by blast
  ultimately show ?thesis by simp
qed

lemma tsum_selected:
  assumes "distinct (map row_key (tiles d))" "set vs \<subseteq> set (tiles d)" "distinct vs"
  shows "tsum (\<lambda>r. row_key r \<in> row_key ` set vs) d = sum_of row_bytes vs"
  unfolding tsum_def by (rule sum_of_mset) (rule selected_mset[OF assms])

lemma length_selected:
  assumes "distinct (map row_key (tiles d))" "set vs \<subseteq> set (tiles d)" "distinct vs"
  shows "length (tiles d) - length (tiles (delete_rows (\<lambda>r. row_key r \<in> row_key ` set vs) d)) = length vs"
proof -
  have "length (filter (\<lambda>r. row_key r \<in> row_key ` set vs) (tiles d)) = length vs"
    using selected_mset[OF assms] by (metis size_mset)
  then show ?thesis
    using sum_length_filter_compl[of "\<lambda>r. row_key r \<in> row_key ` set vs" "tiles d"]
    by (simp add: delete_rows_def)
qed

text \<open>Deleting unpinned rows and subtracting their bytes from the total keeps the cache exact.\<close>

lemma delete_unpinned_inv:
  assumes inv: "cache_inv c" and vs: "set vs \<subseteq> set (tiles (conn c))" "distinct vs"
    and unp: "\<And>r. r \<in> set vs \<Longrightarrow> \<not> row_pinned r"
  shows "cache_inv (c\<lparr>conn := delete_rows (\<lambda>r. row_key r \<in> row_key ` set vs) (conn c),
                      total_bytes := total_bytes c - sum_of row_bytes vs\<rparr>)"
proof -
  let ?Q = "\<lambda>r. row_key r \<in> row_key ` set vs"
  note dist = cache_invD(5)[OF inv]
  have Q: "?Q r \<Longrightarrow> \<not> row_pinned r" if "r \<in> set (tiles (conn c))" for r
    using key_selected[OF dist vs(1) that] unp by blast
  have none: "tsum (\<lambda>r. R r \<and> ?Q r) (conn c) = 0" if "\<And>r. R r \<Longrightarrow> row_pinned r" for R
  proof -
    have "tsum (\<lambda>r. R r \<and> ?Q r) (conn c) = tsum (\<lambda>_. False) (conn c)"
      by (rule tsum_cong) (use Q that in blast)
    then show ?thesis by (simp add: tsum_def)
  qed
  have "db_ok (delete_rows ?Q (conn c))"
    using cache_invD(1)[OF inv] Q by (rule db_ok_delete_rows)
  moreover have "bytes_nonneg (delete_rows ?Q (conn c))"
    using cache_invD(2)[OF inv] by (rule nonneg_statements)
  moreover have "real_sum p (delete_rows ?Q (conn c)) = real_sum p (conn c)" for p
    using none[of "\<lambda>r. row_pinned r \<and> in_real_region p (conn c) (row_key r)"]
    unfolding real_sum_def in_real_region_def region_tiles_rows by (simp add: tsum_delete)
  ultimately show ?thesis
    using inv none[of row_pinned] tsum_selected[OF dist vs]
    by (simp add: inv_defs tsum_delete)
qed

section \<open>Eviction\<close>

lemma lru_victims_subset: "set (lru_victims f p rs) \<subseteq> set rs"
  by (induction f p rs rule: lru_victims.induct) auto

lemma lru_victims_distinct: "distinct rs \<Longrightarrow> distinct (lru_victims f p rs)"
  using lru_victims_subset by (induction f p rs rule: lru_victims.induct) fastforce+

lemma lru_victims_covered:
  "(\<And>r. r \<in> set rs \<Longrightarrow> 0 \<le> row_bytes r) \<Longrightarrow> f \<le> p \<Longrightarrow> lru_victims f p rs = []"
proof (induction f p rs rule: lru_victims.induct)
  case (2 f p r rs)
  then have "f \<le> p + row_bytes r" by (simp add: add_increasing2)
  with 2 show ?case by simp
qed simp

lemma lru_victims_prefix:
  "(\<And>r. r \<in> set rs \<Longrightarrow> 0 \<le> row_bytes r) \<Longrightarrow>
   \<exists>n. lru_victims f p rs = take n rs \<and> n \<le> length rs"
proof (induction f p rs rule: lru_victims.induct)
  case (2 f p r rs)
  show ?case
  proof (cases "p < f")
    case True
    with 2 obtain n where "lru_victims f (p + row_bytes r) rs = take n rs \<and> n \<le> length rs" by auto
    with True show ?thesis by (intro exI[of _ "Suc n"]) simp
  next
    case False
    then have "lru_victims f (p + row_bytes r) rs = []"
      using 2(2) by (intro lru_victims_covered) (auto simp: add_increasing2)
    with False show ?thesis by (intro exI[of _ 0]) simp
  qed
qed simp

lemma lru_victims_enough:
  "(\<And>r. r \<in> set rs \<Longrightarrow> 0 \<le> row_bytes r) \<Longrightarrow>
   lru_victims f p rs = rs \<or> f \<le> p + sum_of row_bytes (lru_victims f p rs)"
proof (induction f p rs rule: lru_victims.induct)
  case (2 f p r rs)
  have "0 \<le> sum_of row_bytes (lru_victims f (p + row_bytes r) rs)"
    using 2(2) lru_victims_subset by (intro sum_of_nonneg) force
  with 2 show ?case by force
qed simp

lemma lru_victims_tight:
  "(\<And>r. r \<in> set rs \<Longrightarrow> 0 \<le> row_bytes r) \<Longrightarrow> lru_victims f p rs \<noteq> [] \<Longrightarrow>
   p + sum_of row_bytes (butlast (lru_victims f p rs)) < f"
proof (induction f p rs rule: lru_victims.induct)
  case (2 f p r rs)
  show ?case
  proof (cases "p < f")
    case True
    with 2 show ?thesis by (cases "lru_victims f (p + row_bytes r) rs = []") auto
  next
    case False
    with 2 lru_victims_covered[of rs f "p + row_bytes r"] show ?thesis by force
  qed
qed simp

lemma lru_order_set: "set (lru_order d) = {r \<in> set (tiles d). \<not> row_pinned r}"
  by (auto simp: lru_order_def)

lemma lru_order_distinct: "distinct (map row_key (tiles d)) \<Longrightarrow> distinct (lru_order d)"
  by (simp add: lru_order_def distinct_map)

lemma lru_order_sorted: "sorted (map (\<lambda>r. last_access (row_tile r)) (lru_order d))"
  by (simp add: lru_order_def)

lemma sorted_take_drop:
  assumes "sorted (map f xs)" "x \<in> set (take n xs)" "y \<in> set (drop n xs)"
  shows "f x \<le> f y"
proof -
  have "sorted (map f (take n xs) @ map f (drop n xs))"
    using assms(1) by (simp flip: map_append)
  with assms(2,3) show ?thesis by (auto simp: sorted_append)
qed

definition evicted :: "db \<Rightarrow> int \<Rightarrow> tile_row list" where
  "evicted d deficit = lru_victims deficit 0 (lru_order d)"

lemma evicted_facts:
  assumes "db_ok d"
  shows "set (evicted d f) \<subseteq> set (tiles d)" "distinct (evicted d f)"
    "\<And>r. r \<in> set (evicted d f) \<Longrightarrow> \<not> row_pinned r"
  using lru_victims_subset[of f 0 "lru_order d"] lru_victims_distinct lru_order_distinct db_okD(1)[OF assms]
  by (auto simp: evicted_def lru_order_set)

lemma evict_to_cases:
  assumes "evict_to env cap c = (r, c')"
  shows "(c' = c \<and> (r = Inr () \<longrightarrow> total_bytes c \<le> cap)) \<or>
    (r = Inr () \<and> cap < total_bytes c \<and>
     c' = (let vs = evicted (conn c) (total_bytes c - eviction_target cap)
           in c\<lparr>conn := delete_rows (\<lambda>r. row_key r \<in> row_key ` set vs) (conn c),
                total_bytes := total_bytes c - sum_of row_bytes vs\<rparr>)) \<or>
    (r = Inr () \<and> cap < total_bytes c \<and> total_bytes c \<le> eviction_target cap \<and> c' = c)"
  using assms
  by (auto simp: evict_to_def evict_unpinned_within_def evicted_def Let_def
      split: option.splits if_splits sum.splits)

lemma eviction_target_le: "eviction_target cap \<le> cap"
proof -
  have "0 \<le> min EVICTION_HYSTERESIS_BYTES (cap div 100)" if "sat_i64 (EVICTION_HYSTERESIS_BYTES * 2) \<le> cap"
    using that by (auto simp: EVICTION_HYSTERESIS_BYTES_def sat_i64_def i64_max_def i64_min_def)
  then show ?thesis
    by (auto simp: eviction_target_def sat_i64_def i64_max_def i64_min_def EVICTION_HYSTERESIS_BYTES_def)
qed

lemma eviction_target_gap:
  assumes "0 \<le> cap" "cap \<le> i64_max"
  shows "cap - eviction_target cap \<le> EVICTION_HYSTERESIS_BYTES \<and> cap - eviction_target cap \<le> cap div 100"
  using assms by (auto simp: eviction_target_def sat_i64_def i64_max_def i64_min_def
      EVICTION_HYSTERESIS_BYTES_def)

lemma evict_to_inv [inv_intro]:
  assumes inv: "cache_inv c" shows "cache_inv (snd (evict_to env cap c))"
proof (cases "evict_to env cap c")
  case (Pair r c')
  let ?vs = "evicted (conn c) (total_bytes c - eviction_target cap)"
  note ev = evicted_facts[OF cache_invD(1)[OF inv]]
  have "cache_inv (c\<lparr>conn := delete_rows (\<lambda>r. row_key r \<in> row_key ` set ?vs) (conn c),
                     total_bytes := total_bytes c - sum_of row_bytes ?vs\<rparr>)"
    using inv ev by (rule delete_unpinned_inv)
  with evict_to_cases[OF Pair] Pair inv show ?thesis by (auto simp: Let_def)
qed

text \<open>What an eviction that ran did, in full.\<close>

lemma evict_to_effect:
  assumes inv: "cache_inv c" and ran: "evict_to env cap c = (Inr (), c')"
  defines "vs \<equiv> evicted (conn c) (total_bytes c - eviction_target cap)"
  shows "total_bytes c' \<le> cap \<or> (\<forall>r \<in> set (tiles (conn c')). row_pinned r)"
    and "filter row_pinned (tiles (conn c')) = filter row_pinned (tiles (conn c))"
    and "region_tiles (conn c') = region_tiles (conn c)"
    and "total_bytes c \<le> cap \<Longrightarrow> c' = c"
    and "\<And>v s. v \<in> set (tiles (conn c)) - set (tiles (conn c')) \<Longrightarrow> s \<in> set (tiles (conn c'))
           \<Longrightarrow> \<not> row_pinned s \<Longrightarrow> last_access (row_tile v) \<le> last_access (row_tile s)"
proof -
  note ev = evicted_facts[OF cache_invD(1)[OF inv]]
  have nn: "\<And>r. r \<in> set (lru_order (conn c)) \<Longrightarrow> 0 \<le> row_bytes r"
    using cache_invD(2)[OF inv] by (auto simp: bytes_nonneg_def lru_order_set)
  consider (same) "c' = c" "total_bytes c \<le> cap"
    | (run) "cap < total_bytes c" "conn c' = delete_rows (\<lambda>r. row_key r \<in> row_key ` set vs) (conn c)"
        "total_bytes c' = total_bytes c - sum_of row_bytes vs"
    using evict_to_cases[OF ran] eviction_target_le[of cap] by (auto simp: vs_def Let_def)
  note cases = this
  have tl: "set (tiles (conn c')) = set (tiles (conn c)) - set vs" if "cap < total_bytes c"
    using cases
  proof cases
    case run
    then show ?thesis
      using key_selected[OF cache_invD(5)[OF inv] ev(1)] by (auto simp: delete_rows_def vs_def)
  qed (use that in simp)
  show "total_bytes c' \<le> cap \<or> (\<forall>r \<in> set (tiles (conn c')). row_pinned r)"
    using cases
  proof cases
    case run
    from lru_victims_enough[OF nn] show ?thesis
    proof
      assume "lru_victims (total_bytes c - eviction_target cap) 0 (lru_order (conn c)) = lru_order (conn c)"
      then have "set vs = {r \<in> set (tiles (conn c)). \<not> row_pinned r}"
        by (simp add: vs_def evicted_def lru_order_set)
      with tl[OF run(1)] show ?thesis by auto
    next
      assume "total_bytes c - eviction_target cap
        \<le> 0 + sum_of row_bytes (lru_victims (total_bytes c - eviction_target cap) 0 (lru_order (conn c)))"
      with run(3) eviction_target_le[of cap] show ?thesis by (auto simp: vs_def evicted_def)
    qed
  qed simp
  show "filter row_pinned (tiles (conn c')) = filter row_pinned (tiles (conn c))"
    using cases
  proof cases
    case run
    have "filter row_pinned (filter (\<lambda>r. row_key r \<notin> row_key ` set vs) (tiles (conn c)))
      = filter row_pinned (tiles (conn c))"
      using key_selected[OF cache_invD(5)[OF inv] ev(1)] ev(3)
      by (auto simp: vs_def intro!: filter_cong)
    with run show ?thesis by (simp add: delete_rows_def)
  qed simp
  show "region_tiles (conn c') = region_tiles (conn c)" using cases by cases simp_all
  show "total_bytes c \<le> cap \<Longrightarrow> c' = c" using cases by cases simp_all
  show "last_access (row_tile v) \<le> last_access (row_tile s)"
    if v: "v \<in> set (tiles (conn c)) - set (tiles (conn c'))" and s: "s \<in> set (tiles (conn c'))" "\<not> row_pinned s" for v s
    using cases
  proof cases
    case same with v show ?thesis by simp
  next
    case run
    obtain n where n: "vs = take n (lru_order (conn c))"
      using lru_victims_prefix[where rs = "lru_order (conn c)", OF nn]
      unfolding vs_def evicted_def by blast
    have "v \<in> set (take n (lru_order (conn c)))" using v tl[OF run(1)] n by auto
    moreover have "s \<in> set (lru_order (conn c))" "s \<notin> set vs"
      using s tl[OF run(1)] by (auto simp: lru_order_set)
    then have "s \<in> set (drop n (lru_order (conn c)))"
      using n by (metis Un_iff append_take_drop_id set_append)
    ultimately show ?thesis by (rule sorted_take_drop[OF lru_order_sorted])
  qed
qed

text \<open>A run of the eviction frees less than the deficit plus one row: the last victim was needed.\<close>

lemma evict_to_minimal:
  assumes inv: "cache_inv c" and run: "evict_to env cap c = (Inr (), c')" and chg: "c' \<noteq> c"
  shows "\<exists>v. v \<in> set (tiles (conn c)) \<and> v \<notin> set (tiles (conn c')) \<and>
    eviction_target cap < total_bytes c' + row_bytes v"
proof -
  let ?vs = "evicted (conn c) (total_bytes c - eviction_target cap)"
  note ev = evicted_facts[OF cache_invD(1)[OF inv]]
  have c': "c' = c\<lparr>conn := delete_rows (\<lambda>r. row_key r \<in> row_key ` set ?vs) (conn c),
      total_bytes := total_bytes c - sum_of row_bytes ?vs\<rparr>"
    using evict_to_cases[OF run] chg by (auto simp: Let_def)
  have nn: "\<And>r. r \<in> set (lru_order (conn c)) \<Longrightarrow> 0 \<le> row_bytes r"
    using cache_invD(2)[OF inv] by (auto simp: bytes_nonneg_def lru_order_set)
  have ne: "?vs \<noteq> []"
  proof
    assume "?vs = []"
    with c' have "c' = c" by (simp add: delete_rows_def)
    with chg show False by simp
  qed
  then have "sum_of row_bytes (butlast ?vs) < total_bytes c - eviction_target cap"
    using lru_victims_tight[OF nn, where f = "total_bytes c - eviction_target cap" and p = 0] by (simp add: evicted_def)
  moreover have "sum_of row_bytes ?vs = sum_of row_bytes (butlast ?vs) + row_bytes (last ?vs)"
    using ne by (metis add.right_neutral append_butlast_last_id sum_of_simps)
  moreover have "last ?vs \<in> set ?vs" using ne by simp
  then have "last ?vs \<in> set (tiles (conn c))" "last ?vs \<notin> set (tiles (conn c'))"
    using ev(1) by (auto simp: c' delete_rows_def)
  ultimately show ?thesis by (intro exI[of _ "last ?vs"]) (simp add: c')
qed

section \<open>The chunked delete loop\<close>

text \<open>
  What the loop needs of a subquery: it selects distinct rows that the condition holds for, none of
  them pinned, and all of them once it returns less than a full chunk.
\<close>

locale chunk_selector =
  fixes sel :: "db \<Rightarrow> tile_row list"
    and cond :: "tile_row \<Rightarrow> bool"
  assumes sel_subset: "set (sel d) \<subseteq> {r \<in> set (tiles d). cond r}"
    and sel_distinct: "distinct (tiles d) \<Longrightarrow> distinct (sel d)"
    and sel_full: "length (sel d) < DELETE_CHUNK \<Longrightarrow> set (sel d) = {r \<in> set (tiles d). cond r}"
    and cond_unpinned: "cond r \<Longrightarrow> \<not> row_pinned r"
begin

lemma chunk_effect:
  assumes inv: "cache_inv c" and run: "delete_chunk sel fl c = (Inr (b, n), c')"
  shows "cache_inv c'" "total_bytes c' = total_bytes c - b" "pinned_bytes c' = pinned_bytes c"
    "region_tiles (conn c') = region_tiles (conn c)"
    "n = length (sel (conn c))"
    "filter (\<lambda>r. \<not> cond r) (tiles (conn c')) = filter (\<lambda>r. \<not> cond r) (tiles (conn c))"
    "n < DELETE_CHUNK \<Longrightarrow> tiles (conn c') = filter (\<lambda>r. \<not> cond r) (tiles (conn c))"
    "length (tiles (conn c')) + n = length (tiles (conn c))"
proof -
  let ?s = "sel (conn c)"
  let ?Q = "\<lambda>r. row_key r \<in> row_key ` set ?s"
  note dist = cache_invD(5)[OF inv]
  have sub: "set ?s \<subseteq> set (tiles (conn c))" and unp: "\<And>r. r \<in> set ?s \<Longrightarrow> \<not> row_pinned r"
    and cnd: "\<And>r. r \<in> set ?s \<Longrightarrow> cond r"
    using sel_subset cond_unpinned by blast+
  have ds: "distinct ?s" using dist distinct_tiles sel_distinct by blast
  have b: "b = sum_of row_bytes ?s" and c': "c' = c\<lparr>conn := delete_rows ?Q (conn c),
      total_bytes := total_bytes c - sum_of row_bytes ?s\<rparr>"
    and n: "n = length (tiles (conn c)) - length (tiles (delete_rows ?Q (conn c)))"
    using run by (auto simp: delete_chunk_def Let_def split: option.splits)
  show "cache_inv c'" unfolding c' using inv sub ds unp by (rule delete_unpinned_inv)
  show "total_bytes c' = total_bytes c - b" "pinned_bytes c' = pinned_bytes c"
    "region_tiles (conn c') = region_tiles (conn c)" by (simp_all add: c' b)
  show nl: "n = length ?s" unfolding n by (rule length_selected[OF dist sub ds])
  have tl: "tiles (conn c') = filter (\<lambda>r. r \<notin> set ?s) (tiles (conn c))"
    unfolding c' by (simp add: delete_rows_def key_selected[OF dist sub] cong: filter_cong)
  show "filter (\<lambda>r. \<not> cond r) (tiles (conn c')) = filter (\<lambda>r. \<not> cond r) (tiles (conn c))"
    unfolding tl using cnd by (auto intro!: filter_cong)
  show "tiles (conn c') = filter (\<lambda>r. \<not> cond r) (tiles (conn c))" if "n < DELETE_CHUNK"
    unfolding tl using sel_full[of "conn c"] that nl by (auto intro!: filter_cong)
  have "length (filter ?Q (tiles (conn c))) + length (tiles (conn c')) = length (tiles (conn c))"
    unfolding c' by (simp add: delete_rows_def sum_length_filter_compl)
  then show "length (tiles (conn c')) + n = length (tiles (conn c))"
    unfolding n c' by simp
qed

lemma chunk_error: "delete_chunk sel fl c = (Inl e, c') \<Longrightarrow> c' = c"
  by (auto simp: delete_chunk_def Let_def split: option.splits)

lemma chunks_effect:
  "cache_inv c \<Longrightarrow> delete_unpinned_chunks sel fls i fb fr c = (res, c') \<Longrightarrow>
   cache_inv c' \<and> pinned_bytes c' = pinned_bytes c \<and>
   region_tiles (conn c') = region_tiles (conn c) \<and>
   filter (\<lambda>r. \<not> cond r) (tiles (conn c')) = filter (\<lambda>r. \<not> cond r) (tiles (conn c)) \<and>
   (\<forall>fb' fr'. res = Inr (fb', fr') \<longrightarrow>
      tiles (conn c') = filter (\<lambda>r. \<not> cond r) (tiles (conn c)) \<and>
      total_bytes c' = total_bytes c - (fb' - fb) \<and>
      length (tiles (conn c')) + fr' = length (tiles (conn c)) + fr)"
proof (induction "length (tiles (conn c))" arbitrary: c i fb fr rule: less_induct)
  case less
  obtain r c1 where ch: "delete_chunk sel (fls i) c = (r, c1)" by (cases "delete_chunk sel (fls i) c")
  show ?case
  proof (cases r)
    case (Inl e)
    with ch less.prems(2) have "res = Inl e" "c' = c1"
      by (simp_all add: delete_unpinned_chunks.simps[of sel fls i fb fr c])
    with ch Inl less.prems(1) chunk_error[of "fls i" c e c1] show ?thesis by simp
  next
    case (Inr p)
    obtain b n where p: "p = (b, n)" by (cases p)
    note eff = chunk_effect[OF less.prems(1) ch[unfolded Inr p]]
    show ?thesis
    proof (cases "n < DELETE_CHUNK")
      case True
      with ch Inr p less.prems(2) have "res = Inr (fb + b, fr + n)" "c' = c1"
        by (simp_all add: delete_unpinned_chunks.simps[of sel fls i fb fr c])
      with eff True show ?thesis by auto
    next
      case False
      with ch Inr p less.prems(2)
      have run: "delete_unpinned_chunks sel fls (Suc i) (fb + b) (fr + n) c1 = (res, c')"
        by (simp add: delete_unpinned_chunks.simps[of sel fls i fb fr c])
      have "length (tiles (conn c1)) < length (tiles (conn c))"
        using eff(8) False by (simp add: DELETE_CHUNK_def)
      from less.hyps[OF this eff(1) run] eff show ?thesis by force
    qed
  qed
qed

text \<open>With no failing statement the loop returns its totals.\<close>

lemma chunks_succeed:
  "(\<And>i s. fls i s = None) \<Longrightarrow> \<exists>fb' fr'. fst (delete_unpinned_chunks sel fls i fb fr c) = Inr (fb', fr')"
proof (induction "length (tiles (conn c))" arbitrary: c i fb fr rule: less_induct)
  case less
  obtain b n c1 where ch: "delete_chunk sel (fls i) c = (Inr (b, n), c1)"
    using less.prems by (auto simp: delete_chunk_def Let_def)
  show ?case
  proof (cases "n < DELETE_CHUNK")
    case True
    with ch show ?thesis by (simp add: delete_unpinned_chunks.simps[of sel fls i fb fr c])
  next
    case False
    then have "length (tiles (conn c1)) < length (tiles (conn c))"
      using ch less.prems by (auto simp: delete_chunk_def Let_def DELETE_CHUNK_def)
    with less.hyps[OF this less.prems] ch False show ?thesis
      by (simp add: delete_unpinned_chunks.simps[of sel fls i fb fr c])
  qed
qed

end

lemma set_take_all: "length (take n xs) < n \<Longrightarrow> take n xs = xs"
  by simp

interpretation aged: chunk_selector "aged_select cutoff"
  "\<lambda>r. \<not> row_pinned r \<and> last_access (row_tile r) < cutoff"
proof unfold_locales
  fix d :: db
  let ?xs = "sort_key (\<lambda>r. last_access (row_tile r))
     (filter (\<lambda>r. \<not> row_pinned r \<and> last_access (row_tile r) < cutoff) (tiles d))"
  show "set (aged_select cutoff d) \<subseteq> {r \<in> set (tiles d). \<not> row_pinned r \<and> last_access (row_tile r) < cutoff}"
    unfolding aged_select_def using set_take_subset[of DELETE_CHUNK ?xs] by auto
  show "distinct (tiles d) \<Longrightarrow> distinct (aged_select cutoff d)"
    by (simp add: aged_select_def)
  show "length (aged_select cutoff d) < DELETE_CHUNK \<Longrightarrow> set (aged_select cutoff d) =
      {r \<in> set (tiles d). \<not> row_pinned r \<and> last_access (row_tile r) < cutoff}"
    unfolding aged_select_def by (subst set_take_all) auto
qed simp

interpretation scroll: chunk_selector unpinned_select "\<lambda>r. \<not> row_pinned r"
proof unfold_locales
  fix d :: db
  let ?xs = "filter (\<lambda>r. \<not> row_pinned r) (tiles d)"
  show "set (unpinned_select d) \<subseteq> {r \<in> set (tiles d). \<not> row_pinned r}"
    unfolding unpinned_select_def using set_take_subset[of DELETE_CHUNK ?xs] by auto
  show "distinct (tiles d) \<Longrightarrow> distinct (unpinned_select d)" by (simp add: unpinned_select_def)
  show "length (unpinned_select d) < DELETE_CHUNK \<Longrightarrow> set (unpinned_select d) =
      {r \<in> set (tiles d). \<not> row_pinned r}"
    unfolding unpinned_select_def by (subst set_take_all) auto
qed simp

lemma sweep_inv [inv_intro]:
  assumes "cache_inv c" shows "cache_inv (snd (sweep_aged_unpinned fls ttl now c))"
proof (cases "delete_unpinned_chunks (aged_select (now - ttl)) fls 0 0 0 c")
  case (Pair r c')
  with aged.chunks_effect[OF assms Pair] assms show ?thesis by (simp add: sweep_aged_unpinned_def)
qed

lemma clear_inv [inv_intro]:
  assumes "cache_inv c" shows "cache_inv (snd (clear_unpinned fls rc c))"
proof (cases "delete_unpinned_chunks unpinned_select fls 0 0 0 c")
  case (Pair r c')
  with scroll.chunks_effect[OF assms Pair] show ?thesis
    by (auto simp: clear_unpinned_def split: sum.splits)
qed

lemma all_pinned_total: "cache_inv c \<Longrightarrow> \<forall>r \<in> set (tiles (conn c)). row_pinned r \<Longrightarrow>
    total_bytes c = pinned_bytes c"
  using tsum_cong[of "conn c" "\<lambda>_. True" row_pinned] by (simp add: cache_invD)

end
