(* ===== verification/Cache_Pins.thy ===== *)
theory Cache_Pins
  imports Cache_Store
begin

text \<open>
  Pinning (\<open>container/tilecache/src/cache.rs\<close>): the two byte categories (position warm and saved
  regions), the batched pinned store of a warm with its two budget gates and the make-room eviction,
  the pin of a row that is already cached, the deletion of a region and the atomic promotion of
  staged regions, and the per-region and per-source totals.
\<close>

section \<open>Categories\<close>

definition in_position :: "db \<Rightarrow> tile_key \<Rightarrow> bool" where
  "in_position d k \<longleftrightarrow> list_ex (\<lambda>j. snd j = k \<and> is_position_region (fst j)) (region_tiles d)"

definition category_bytes_conn :: "db \<Rightarrow> string option \<Rightarrow> int" where
  "category_bytes_conn d region_id =
     (case region_id of
        Some rid \<Rightarrow>
          if is_position_region rid then tsum (\<lambda>t. in_position d (row_key t)) d
          else tsum (\<lambda>t. in_real_region POSITION_WARM_REGION_ID d (row_key t)) d
      | None \<Rightarrow> pinned_sum d)"

definition key_in_category_conn :: "db \<Rightarrow> tile_key \<Rightarrow> string option \<Rightarrow> bool" where
  "key_in_category_conn d k region_id =
     (case region_id of
        Some rid \<Rightarrow>
          if is_position_region rid then in_position d k
          else in_real_region POSITION_WARM_REGION_ID d k
      | None \<Rightarrow> list_ex (\<lambda>r. row_key r = k \<and> row_pinned r) (tiles d))"

section \<open>The batched pinned store\<close>

record warm_row =
  wr_key :: tile_key
  wr_tile :: cached_tile

record put_many_outcome =
  pm_stored :: nat
  pm_bytes_added :: int
  pm_capped :: bool

definition DISK_PRESSURE :: put_many_outcome where
  "DISK_PRESSURE = \<lparr>pm_stored = 0, pm_bytes_added = 0, pm_capped = True\<rparr>"

text \<open>\<open>cur\<close> is the map of the bytes a key has after the rows already seen.\<close>

fun batch_growth :: "faults \<Rightarrow> db \<Rightarrow> nat \<Rightarrow> (tile_key \<rightharpoonup> int) \<Rightarrow> int \<Rightarrow> warm_row list \<Rightarrow> db_error + int" where
  "batch_growth fl d i cur growth [] = Inr growth"
| "batch_growth fl d i cur growth (r # rs) =
     bindE (case cur (wr_key r) of
              Some b \<Rightarrow> Inr b
            | None \<Rightarrow> (case fl (S_growth i) of
                Some e \<Rightarrow> Inl e
              | None \<Rightarrow> Inr (case find_row d (wr_key r) of Some old \<Rightarrow> row_bytes old | None \<Rightarrow> 0)))
       (\<lambda>old_bytes. batch_growth fl d (Suc i) (cur(wr_key r \<mapsto> bytes (wr_tile r)))
          (sat_i64 (growth + max 0 (bytes (wr_tile r) - old_bytes))) rs)"

definition batch_physical_growth_conn :: "faults \<Rightarrow> db \<Rightarrow> warm_row list \<Rightarrow> db_error + int" where
  "batch_physical_growth_conn fl d rows = batch_growth fl d 0 Map.empty 0 rows"

record batch_ctx =
  bc_budget :: int
  bc_cap :: int
  bc_region :: "string option"
  bc_now :: int
  bc_pinned_base :: int
  bc_category_base :: int

record batch_acc =
  acc_db :: db
  added :: int
  reported_added :: int
  pinned_added :: int
  category_added :: int
  stored :: nat
  capped :: bool

definition pinned_row :: "tile_key \<Rightarrow> cached_tile \<Rightarrow> int \<Rightarrow> tile_row" where
  "pinned_row k t now = \<lparr>row_key = k, row_tile = t\<lparr>last_access := now\<rparr>, row_pinned = True\<rparr>"

text \<open>The tile insert and, for a region, \<open>INSERT OR IGNORE INTO region_tiles\<close>.\<close>

definition store_pinned :: "string option \<Rightarrow> tile_key \<Rightarrow> cached_tile \<Rightarrow> int \<Rightarrow> db \<Rightarrow> db" where
  "store_pinned region k t now d =
     (let d1 = upsert (pinned_row k t now) d
      in case region of Some rid \<Rightarrow> insert_join rid k d1 | None \<Rightarrow> d1)"

definition old_bytes_of :: "db \<Rightarrow> tile_key \<Rightarrow> int" where
  "old_bytes_of d k = (case find_row d k of Some r \<Rightarrow> row_bytes r | None \<Rightarrow> 0)"

fun put_rows :: "faults \<Rightarrow> batch_ctx \<Rightarrow> nat \<Rightarrow> warm_row list \<Rightarrow> batch_acc \<Rightarrow> db_error + batch_acc" where
  "put_rows fl cx i [] acc = Inr acc"
| "put_rows fl cx i (r # rs) acc =
     (case fl (S_row i) of
        Some e \<Rightarrow> Inl e
      | None \<Rightarrow>
        let d = acc_db acc;
            k = wr_key r;
            new = bytes (wr_tile r);
            old_bytes = old_bytes_of d k;
            was_pinned = pinned_at d k;
            delta = new - old_bytes;
            was_in_category = key_in_category_conn d k (bc_region cx);
            pin_delta = (if was_pinned then new - old_bytes else new);
            category_delta = (if was_in_category then delta else new)
        in if 0 < pin_delta \<and> bc_cap cx < bc_pinned_base cx + pinned_added acc + pin_delta
           then Inr (acc\<lparr>capped := True\<rparr>)
           else if 0 < category_delta \<and> bc_budget cx < bc_category_base cx + category_added acc + category_delta
           then Inr (acc\<lparr>capped := True\<rparr>)
           else (case fl (S_insert i) of
               Some e \<Rightarrow> Inl e
             | None \<Rightarrow> put_rows fl cx (Suc i) rs
                 \<lparr>acc_db = store_pinned (bc_region cx) k (wr_tile r) (bc_now cx) d,
                  added = added acc + delta,
                  reported_added = reported_added acc + max 0 delta,
                  pinned_added = pinned_added acc + pin_delta,
                  category_added = category_added acc + category_delta,
                  stored = stored acc + 1,
                  capped = capped acc\<rparr>))"

text \<open>The whole transaction: the rows, then the make-room eviction, then the commit.\<close>

definition put_batch :: "faults \<Rightarrow> batch_ctx \<Rightarrow> int \<Rightarrow> warm_row list \<Rightarrow> db
    \<Rightarrow> db_error + batch_acc \<times> int \<times> db" where
  "put_batch fl cx base rows d =
     (case fl S_begin of
        Some e \<Rightarrow> Inl e
      | None \<Rightarrow>
        bindE (put_rows fl cx 0 rows \<lparr>acc_db = d, added = 0, reported_added = 0, pinned_added = 0,
                 category_added = 0, stored = 0, capped = False\<rparr>) (\<lambda>acc.
        let new_total = base + added acc in
        bindE (if bc_cap cx < new_total
               then evict_unpinned_within fl (acc_db acc) new_total (eviction_target (bc_cap cx))
               else Inr (0, acc_db acc)) (\<lambda>(freed, d').
        case fl S_commit of Some e \<Rightarrow> Inl e | None \<Rightarrow> Inr (acc, freed, d'))))"

definition put_many_pinned :: "cache_env \<Rightarrow> warm_row list \<Rightarrow> int \<Rightarrow> int \<Rightarrow> string option \<Rightarrow> int
    \<Rightarrow> tile_cache \<Rightarrow> (db_error + put_many_outcome) \<times> tile_cache" where
  "put_many_pinned env rows budget cap region_id now c =
     (case batch_physical_growth_conn (faults env) (conn c) rows of
        Inl e \<Rightarrow> (Inl e, c)
      | Inr requested_growth \<Rightarrow>
        if \<not> has_disk_headroom_conn env requested_growth
        then (Inr DISK_PRESSURE, record_disk_pressure c)
        else (case faults env S_category of
            Some e \<Rightarrow> (Inl e, c)
          | None \<Rightarrow>
            let cx = \<lparr>bc_budget = budget, bc_cap = cap, bc_region = region_id, bc_now = now,
                      bc_pinned_base = pinned_bytes c,
                      bc_category_base = category_bytes_conn (conn c) region_id\<rparr>
            in (case put_batch (faults env) cx (total_bytes c) rows (conn c) of
                 Inl e \<Rightarrow>
                   if is_disk_full e then (Inr DISK_PRESSURE, record_disk_pressure c) else (Inl e, c)
               | Inr (acc, freed, d) \<Rightarrow>
                   (Inr \<lparr>pm_stored = stored acc, pm_bytes_added = reported_added acc,
                         pm_capped = capped acc\<rparr>,
                    c\<lparr>conn := d,
                      total_bytes := total_bytes c + added acc - freed,
                      pinned_bytes := pinned_bytes c + pinned_added acc,
                      regions_dirty := True\<rparr>))))"

section \<open>Pinning a cached row\<close>

definition pin_key :: "string option \<Rightarrow> tile_key \<Rightarrow> db \<Rightarrow> db" where
  "pin_key region k d =
     (let d1 = set_pinned True (\<lambda>r. row_key r = k) d
      in case region of Some rid \<Rightarrow> insert_join rid k d1 | None \<Rightarrow> d1)"

definition pin_locked :: "faults \<Rightarrow> tile_key \<Rightarrow> string option \<Rightarrow> bool \<Rightarrow> int \<Rightarrow> tile_cache
    \<Rightarrow> (db_error + unit) \<times> tile_cache" where
  "pin_locked fl k region_id was_pinned tile_bytes c =
     (case first_fault fl [S_begin, S_write, S_commit] of
        Some e \<Rightarrow> (Inl e, c)
      | None \<Rightarrow>
        let c1 = c\<lparr>conn := pin_key region_id k (conn c), regions_dirty := True\<rparr>
        in (Inr (), if was_pinned then c1 else c1\<lparr>pinned_bytes := pinned_bytes c + tile_bytes\<rparr>))"

datatype fresh_pin_outcome = FPinned | FMissingOrStale | FCapped

record pin_budgets =
  category_budget :: int
  physical_budget :: int

definition pin_if_fresh_capped :: "cache_env \<Rightarrow> tile_key \<Rightarrow> int \<Rightarrow> int \<Rightarrow> int \<Rightarrow> pin_budgets
    \<Rightarrow> string option \<Rightarrow> tile_cache \<Rightarrow> (db_error + fresh_pin_outcome) \<times> tile_cache" where
  "pin_if_fresh_capped env k now fresh_secs negative_ttl_secs budgets region_id c =
     (case faults env S_lookup of
        Some e \<Rightarrow> (Inl e, c)
      | None \<Rightarrow>
        (case find_row (conn c) k of
           None \<Rightarrow> (Inr FMissingOrStale, c)
         | Some r \<Rightarrow>
           let t = row_tile r;
               fresh = (status t = 200 \<and> now - fetched_at t < fresh_secs);
               neg = (status t \<noteq> 200 \<and> now - fetched_at t < negative_ttl_secs)
           in if \<not> fresh \<and> \<not> neg then (Inr FMissingOrStale, c)
              else (case faults env S_category of
                  Some e \<Rightarrow> (Inl e, c)
                | None \<Rightarrow>
                  let in_category = key_in_category_conn (conn c) k region_id;
                      category_bytes = category_bytes_conn (conn c) region_id
                  in if \<not> in_category \<and> 0 < bytes t \<and> category_budget budgets < category_bytes + bytes t
                     then (Inr FCapped, c)
                     else if \<not> row_pinned r \<and> 0 < bytes t \<and> physical_budget budgets < pinned_bytes c + bytes t
                     then (Inr FCapped, c)
                     else (case pin_locked (faults env) k region_id (row_pinned r) (bytes t) c of
                         (Inl e, c') \<Rightarrow> (Inl e, c')
                       | (Inr _, c') \<Rightarrow> (Inr FPinned, c')))))"

definition pin_if_fresh :: "cache_env \<Rightarrow> tile_key \<Rightarrow> int \<Rightarrow> int \<Rightarrow> int \<Rightarrow> int
    \<Rightarrow> string option \<Rightarrow> tile_cache \<Rightarrow> (db_error + bool) \<times> tile_cache" where
  "pin_if_fresh env k now fresh_secs negative_ttl_secs budget region_id c =
     (case pin_if_fresh_capped env k now fresh_secs negative_ttl_secs
             \<lparr>category_budget = budget, physical_budget = i64_max\<rparr> region_id c of
        (Inl e, c') \<Rightarrow> (Inl e, c')
      | (Inr out, c') \<Rightarrow> (Inr (out = FPinned), c'))"

definition pin_for_region :: "cache_env \<Rightarrow> tile_key \<Rightarrow> int \<Rightarrow> string option \<Rightarrow> tile_cache
    \<Rightarrow> (db_error + bool) \<times> tile_cache" where
  "pin_for_region env k budget region_id c =
     (case faults env S_lookup of
        Some e \<Rightarrow> (Inl e, c)
      | None \<Rightarrow>
        (case find_row (conn c) k of
           None \<Rightarrow> (Inr False, c)
         | Some r \<Rightarrow>
           (case faults env S_category of
              Some e \<Rightarrow> (Inl e, c)
            | None \<Rightarrow>
              let tile_bytes = row_bytes r;
                  in_category = key_in_category_conn (conn c) k region_id;
                  category_bytes = category_bytes_conn (conn c) region_id
              in if \<not> in_category \<and> 0 < tile_bytes \<and> budget < category_bytes + tile_bytes
                 then (Inr False, c)
                 else (case pin_locked (faults env) k region_id (row_pinned r) tile_bytes c of
                     (Inl e, c') \<Rightarrow> (Inl e, c')
                   | (Inr _, c') \<Rightarrow> (Inr True, c')))))"

section \<open>Regions\<close>

text \<open>
  The recount of the pinned bytes runs after the commit: when it fails the rows are already changed
  and the counter is not.
\<close>

definition delete_region :: "cache_env \<Rightarrow> string \<Rightarrow> tile_cache \<Rightarrow> (db_error + unit) \<times> tile_cache" where
  "delete_region env rid c =
     (case first_fault (faults env) [S_begin, S_write, S_evict, S_commit] of
        Some e \<Rightarrow> (Inl e, c)
      | None \<Rightarrow>
        let d = demote_unreferenced (delete_joins (\<lambda>i. i = rid) (conn c))
        in (case faults env S_recount of
              Some e \<Rightarrow> (Inl e, c\<lparr>conn := d\<rparr>)
            | None \<Rightarrow> (Inr (), c\<lparr>conn := d, pinned_bytes := pinned_sum d, regions_dirty := True\<rparr>)))"

text \<open>One replacement: demote what only the target holds, drop its joins, rename the staging joins, re-pin.\<close>

definition only_in_region :: "db \<Rightarrow> string \<Rightarrow> tile_key \<Rightarrow> bool" where
  "only_in_region d target k \<longleftrightarrow>
     (target, k) \<in> set (region_tiles d)
     \<and> \<not> list_ex (\<lambda>j. snd j = k \<and> fst j \<noteq> target) (region_tiles d)"

definition promote_one :: "string \<times> string \<Rightarrow> db \<Rightarrow> db" where
  "promote_one = (\<lambda>(staging, target) d.
     let d1 = set_pinned False (\<lambda>r. row_pinned r \<and> only_in_region d target (row_key r)) d;
         d2 = delete_joins (\<lambda>i. i = target) d1;
         d3 = rename_joins target staging d2
     in set_pinned True (\<lambda>r. (target, row_key r) \<in> set (region_tiles d3)) d3)"

definition promote_staged_regions :: "cache_env \<Rightarrow> (string \<times> string) list \<Rightarrow> int \<Rightarrow> int \<Rightarrow> int
    \<Rightarrow> tile_cache \<Rightarrow> (db_error + bool) \<times> tile_cache" where
  "promote_staged_regions env replacements real_budget position_budget cap c =
     (case first_fault (faults env) [S_begin, S_write, S_category] of
        Some e \<Rightarrow> (Inl e, c)
      | None \<Rightarrow>
        let d = fold promote_one replacements (conn c);
            physical = pinned_sum d;
            real = category_bytes_conn d (Some BASEMAP_ASSETS_REGION_ID);
            position = category_bytes_conn d (Some POSITION_WARM_REGION_ID)
        in if cap < physical \<or> real_budget < real \<or> position_budget < position then (Inr False, c)
           else (case faults env S_commit of
               Some e \<Rightarrow> (Inl e, c)
             | None \<Rightarrow>
               (case faults env S_recount of
                  Some e \<Rightarrow> (Inl e, c\<lparr>conn := d\<rparr>)
                | None \<Rightarrow> (Inr True, c\<lparr>conn := d, pinned_bytes := pinned_sum d, regions_dirty := True\<rparr>))))"

section \<open>Totals\<close>

definition region_bytes :: "db \<Rightarrow> string \<Rightarrow> int" where
  "region_bytes d rid = sum_of (\<lambda>j. old_bytes_of d (snd j)) (filter (\<lambda>j. fst j = rid) (region_tiles d))"

definition all_region_bytes :: "db \<Rightarrow> (string \<times> int) list" where
  "all_region_bytes d =
     map (\<lambda>rid. (rid, region_bytes d rid))
       (remdups (map fst (filter (\<lambda>j. find_row d (snd j) \<noteq> None) (region_tiles d))))"

definition real_region_pinned_bytes :: "cache_env \<Rightarrow> string \<Rightarrow> tile_cache \<Rightarrow> (db_error + int) \<times> tile_cache" where
  "real_region_pinned_bytes env position_warm_region_id c =
     (if \<not> regions_dirty c then (Inr (real_region_cache c), c)
      else case faults env S_count of
          Some e \<Rightarrow> (Inl e, c)
        | None \<Rightarrow>
          let value = real_sum position_warm_region_id (conn c)
          in (Inr value, c\<lparr>real_region_cache := value, regions_dirty := False\<rparr>))"

definition stats :: "tile_cache \<Rightarrow> int \<times> int \<times> int" where
  "stats c = (int (length (tiles (conn c))), total_bytes c, pinned_bytes c)"

end
