(* ===== verification/Cache_Regions.thy ===== *)
theory Cache_Regions
  imports Cache_Pin_Props
begin

text \<open>
  Pins, regions and opening: pinning a cached row moves its bytes into the counters and respects both
  budgets; deleting a region leaves exactly the rows of the other regions pinned; a promotion replaces
  the keys of its target regions by the staged ones and touches no other region; opening a database
  establishes the invariant.
\<close>

section \<open>Pin flags and sums\<close>

lemma tsum_set_pinned_any:
  "tsum P (set_pinned b Q d) = tsum (\<lambda>r. P (if Q r then r\<lparr>row_pinned := b\<rparr> else r)) d"
proof -
  let ?g = "\<lambda>r. if Q r then r\<lparr>row_pinned := b\<rparr> else r"
  have "filter P (map ?g xs) = map ?g (filter (\<lambda>r. P (?g r)) xs)" for xs
    by (induction xs) auto
  moreover have "row_bytes \<circ> ?g = row_bytes" by (auto simp: row_bytes_def fun_eq_iff)
  ultimately show ?thesis by (simp add: tsum_def set_pinned_def sum_of_map)
qed

lemma total_set_pinned [simp]: "total_sum (set_pinned b Q d) = total_sum d"
  by (rule tsum_set_pinned) simp

lemma row_pinned_at:
  assumes "distinct (map row_key (tiles d))" "r \<in> set (tiles d)"
  shows "row_pinned r = pinned_at d (row_key r)"
  using find_row_mem[OF assms] by (simp add: pinned_at_def)

lemma pinned_at_set_pinned:
  "pinned_at (set_pinned b Q d) k \<longleftrightarrow>
     (case find_row d k of Some r \<Rightarrow> if Q r then b else row_pinned r | None \<Rightarrow> False)"
  by (simp add: pinned_at_def find_row_set_pinned split: option.splits)

lemma pinned_at_unpin:
  "pinned_at (set_pinned False (\<lambda>r. row_pinned r \<and> R (row_key r)) d) k \<longleftrightarrow> pinned_at d k \<and> \<not> R k"
proof (cases "find_row d k")
  case (Some r)
  then show ?thesis using find_row_Some[OF Some] by (auto simp: pinned_at_set_pinned pinned_at_def[of d])
qed (simp add: pinned_at_set_pinned pinned_at_def[of d])

lemma pinned_at_pin:
  "pinned_at (set_pinned True (\<lambda>r. R (row_key r)) d) k \<longleftrightarrow> pinned_at d k \<or> (find_row d k \<noteq> None \<and> R k)"
proof (cases "find_row d k")
  case (Some r)
  then show ?thesis using find_row_Some[OF Some] by (simp add: pinned_at_set_pinned pinned_at_def[of d])
qed (simp add: pinned_at_set_pinned pinned_at_def[of d])

lemma pinned_at_joins [simp]:
  "pinned_at (insert_join rid k d) = pinned_at d"
  "pinned_at (delete_joins R d) = pinned_at d"
  "pinned_at (rename_joins t s d) = pinned_at d"
  by (simp_all add: pinned_at_def fun_eq_iff)

lemma tile_at_flags [simp]:
  "tile_at (set_pinned b Q d) k = tile_at d k"
  "tile_at (insert_join rid j d) k = tile_at d k"
  "tile_at (delete_joins R d) k = tile_at d k"
  "tile_at (rename_joins t s d) k = tile_at d k"
  by (cases "find_row d k"; simp add: tile_at_def find_row_set_pinned)+

lemma category_set_pinned_Some [simp]:
  "category_bytes_conn (set_pinned b Q d) (Some rid) = category_bytes_conn d (Some rid)"
  unfolding category_bytes_conn_def
  by (simp add: tsum_set_pinned in_position_def in_real_region_def)

lemma db_ok_referenced:
  assumes "db_ok d" "referenced d k" shows "pinned_at d k"
proof -
  obtain j where j: "j \<in> set (region_tiles d)" "snd j = k"
    using assms(2) unfolding referenced_def list_ex_iff by blast
  obtain r where "find_row d (snd j) = Some r \<and> row_pinned r"
    using j(1) db_okD(3)[OF assms(1)] joins_pinned_find[OF db_okD(1)[OF assms(1)]] by blast
  with j(2) show ?thesis by (simp add: pinned_at_def)
qed

section \<open>Pinning a cached row\<close>

lemma pin_key_facts:
  assumes ok: "db_ok d" and bn: "bytes_nonneg d" and r: "find_row d k = Some r"
  shows "db_ok (pin_key region k d)" "bytes_nonneg (pin_key region k d)"
    "total_sum (pin_key region k d) = total_sum d"
    "pinned_sum (pin_key region k d) = pinned_sum d + (if row_pinned r then 0 else row_bytes r)"
    "category_bytes_conn (pin_key region k d) region =
       category_bytes_conn d region + (if key_in_category_conn d k region then 0 else row_bytes r)"
    "pinned_at (pin_key region k d) j \<longleftrightarrow> pinned_at d j \<or> j = k"
    "tile_at (pin_key region k d) j = tile_at d j"
proof -
  let ?p = "set_pinned True (\<lambda>r. row_key r = k) d"
  note dist = db_okD(1)[OF ok]
  have tiles: "tiles (pin_key region k d) = tiles ?p"
    by (simp add: pin_key_def Let_def split: option.split)
  then have ts: "tsum P (pin_key region k d) = tsum P ?p" for P by (simp add: tsum_def)
  have ok1: "db_ok ?p" by (rule db_ok_pin[OF ok])
  have f1: "find_row ?p k = Some (r\<lparr>row_pinned := True\<rparr>)"
    using r find_row_Some[OF r] by (simp add: find_row_set_pinned)
  show ok': "db_ok (pin_key region k d)"
    using ok1 db_ok_insert_join[OF ok1 f1] by (simp add: pin_key_def Let_def split: option.split)
  show "bytes_nonneg (pin_key region k d)"
    using nonneg_statements(2)[OF bn, of True "\<lambda>r. row_key r = k"]
    by (simp add: pin_key_def Let_def nonneg_statements(4) split: option.split)
  show "total_sum (pin_key region k d) = total_sum d" by (simp add: ts)
  have "pinned_sum ?p = tsum (\<lambda>t. pinned_at d (row_key t) \<or> row_key t = k) d"
    unfolding tsum_set_pinned_any by (rule tsum_cong) (auto simp: row_pinned_at[OF dist])
  also have "\<dots> = pinned_sum d + (if pinned_at d k then 0 else old_bytes_of d k)"
    unfolding tsum_or_key[OF dist, where C = "pinned_at d"]
    by (simp add: row_pinned_at[OF dist] cong: tsum_cong)
  finally have ps: "pinned_sum ?p = pinned_sum d + (if row_pinned r then 0 else row_bytes r)"
    using r by (simp add: pinned_at_def old_bytes_of_def)
  then show "pinned_sum (pin_key region k d) = pinned_sum d + (if row_pinned r then 0 else row_bytes r)"
    by (simp add: ts)
  show "category_bytes_conn (pin_key region k d) region =
       category_bytes_conn d region + (if key_in_category_conn d k region then 0 else row_bytes r)"
  proof (cases region)
    case None
    with ps r in_category_None[OF dist, of k] show ?thesis
      by (simp add: category_bytes_conn_def ts[unfolded None] pinned_at_def)
  next
    case (Some rid)
    have j: "set (region_tiles (pin_key region k d)) = insert (rid, k) (set (region_tiles d))"
      by (simp add: pin_key_def Some set_insert_join)
    have "category_bytes_conn (pin_key region k d) region =
        tsum (\<lambda>t. key_in_category_conn d (row_key t) region \<or> row_key t = k) ?p"
      unfolding category_is_tsum[OF db_okD(1)[OF ok']] category_member_step[OF Some j] ts ..
    also have "\<dots> = tsum (\<lambda>t. key_in_category_conn d (row_key t) region \<or> row_key t = k) d"
      by (rule tsum_set_pinned) simp
    finally show ?thesis
      using r tsum_or_key[OF dist, where C = "\<lambda>x. key_in_category_conn d x region" and k = k]
      by (simp add: old_bytes_of_def category_is_tsum[OF dist])
  qed
  show "pinned_at (pin_key region k d) j \<longleftrightarrow> pinned_at d j \<or> j = k"
    using r find_row_Some[of d j] pinned_at_set_pinned[of True "\<lambda>r. row_key r = k" d j]
    by (auto simp: pin_key_def Let_def pinned_at_def[of d] split: option.splits)
  show "tile_at (pin_key region k d) j = tile_at d j"
    by (simp add: pin_key_def Let_def split: option.split)
qed

lemma pin_locked_cases:
  assumes "pin_locked fl k region wp tb c = (res, c')"
  obtains (fail) e where "res = Inl e" "c' = c"
  | (ok) "res = Inr ()" "conn c' = pin_key region k (conn c)" "total_bytes c' = total_bytes c"
      "pinned_bytes c' = pinned_bytes c + (if wp then 0 else tb)" "regions_dirty c'"
  using assms by (cases "first_fault fl [S_begin, S_write, S_commit]")
    (auto simp: pin_locked_def Let_def split: if_splits)

lemma pin_locked_inv:
  assumes inv: "cache_inv c" and r: "find_row (conn c) k = Some r"
  shows "cache_inv (snd (pin_locked fl k region (row_pinned r) (row_bytes r) c))"
proof (cases "pin_locked fl k region (row_pinned r) (row_bytes r) c")
  case (Pair res c')
  note P = pin_key_facts[OF cache_invD(1,2)[OF inv] r, of region]
  from Pair show ?thesis
  proof (cases rule: pin_locked_cases)
    case ok
    with P Pair cache_invD[OF inv] show ?thesis by (simp add: inv_defs)
  qed (use Pair inv in simp)
qed

lemma pin_if_fresh_cases:
  assumes "pin_if_fresh_capped env k now fs ns budgets region c = (res, c')"
  obtains (same) "c' = c" "res \<noteq> Inr FPinned"
  | (pin) r where "find_row (conn c) k = Some r"
      "if status (row_tile r) = 200 then now - fetched_at (row_tile r) < fs
       else now - fetched_at (row_tile r) < ns"
      "key_in_category_conn (conn c) k region \<or> row_bytes r \<le> 0
       \<or> category_bytes_conn (conn c) region + row_bytes r \<le> category_budget budgets"
      "row_pinned r \<or> row_bytes r \<le> 0 \<or> pinned_bytes c + row_bytes r \<le> physical_budget budgets"
      "pin_locked (faults env) k region (row_pinned r) (row_bytes r) c = (Inr (), c')"
      "res = Inr FPinned"
proof (cases "find_row (conn c) k")
  case None
  with assms show ?thesis
    by (intro same) (auto simp: pin_if_fresh_capped_def split: option.splits)
next
  case (Some r)
  show ?thesis
  proof (cases "res = Inr FPinned")
    case True
    with assms Some show ?thesis
      by (intro pin[OF Some])
        (auto simp: pin_if_fresh_capped_def Let_def row_bytes_def not_le not_less
          split: option.splits if_splits prod.splits sum.splits)
  next
    case False
    have "c' = c"
      using assms Some False
      by (auto simp: pin_if_fresh_capped_def Let_def split: option.splits if_splits prod.splits sum.splits
          elim: pin_locked_cases)
    with False show ?thesis by (intro same)
  qed
qed

lemma pin_if_fresh_capped_inv [inv_intro]:
  assumes inv: "cache_inv c"
  shows "cache_inv (snd (pin_if_fresh_capped env k now fs ns budgets region c))"
proof (cases "pin_if_fresh_capped env k now fs ns budgets region c")
  case (Pair res c')
  from Pair show ?thesis
  proof (cases rule: pin_if_fresh_cases)
    case (pin r)
    with pin_locked_inv[OF inv pin(1), of "faults env" region] Pair show ?thesis by simp
  qed (use Pair inv in simp)
qed

lemma pin_if_fresh_inv [inv_intro]:
  "cache_inv c \<Longrightarrow> cache_inv (snd (pin_if_fresh env k now fs ns budget region c))"
  using pin_if_fresh_capped_inv[of c env k now fs ns "\<lparr>category_budget = budget, physical_budget = i64_max\<rparr>" region]
  by (auto simp: pin_if_fresh_def split: prod.splits sum.splits)

lemma pin_for_region_inv [inv_intro]:
  assumes inv: "cache_inv c" shows "cache_inv (snd (pin_for_region env k budget region c))"
proof (cases "find_row (conn c) k")
  case None
  with inv show ?thesis by (auto simp: pin_for_region_def split: option.splits)
next
  case (Some r)
  with pin_locked_inv[OF inv Some, of "faults env" region] inv show ?thesis
    by (auto simp: pin_for_region_def Let_def split: option.splits prod.splits sum.splits)
qed

section \<open>Regions\<close>

definition region_keys :: "db \<Rightarrow> string \<Rightarrow> tile_key set" where
  "region_keys d rid = {k. (rid, k) \<in> set (region_tiles d)}"

lemma region_keys_rows [simp]:
  "region_keys (set_pinned b Q d) rid = region_keys d rid"
  by (simp add: region_keys_def)

lemma region_keys_delete_joins:
  "region_keys (delete_joins P d) rid = (if P rid then {} else region_keys d rid)"
  by (auto simp: region_keys_def delete_joins_def)

lemma image_fst_pair: "(x, k) \<in> (\<lambda>(i, j). (f i, j)) ` S \<longleftrightarrow> (\<exists>i. (i, k) \<in> S \<and> x = f i)"
  by (auto simp: image_iff) force+

lemma region_keys_rename:
  "region_keys (rename_joins t s d) rid =
     (if rid = t then region_keys d t \<union> region_keys d s else if rid = s then {} else region_keys d rid)"
proof -
  have "(rid, k) \<in> set (region_tiles (rename_joins t s d)) \<longleftrightarrow>
    (\<exists>i. (i, k) \<in> set (region_tiles d) \<and> rid = (if i = s then t else i))" for k
    unfolding rename_joins_def
    using image_fst_pair[where f = "\<lambda>i. if i = s then t else i" and S = "set (region_tiles d)"] by simp
  then show ?thesis unfolding region_keys_def by (simp add: set_eq_iff) metis
qed

lemma referenced_keys: "referenced d k \<longleftrightarrow> (\<exists>rid. k \<in> region_keys d rid)"
  unfolding referenced_def region_keys_def list_ex_iff mem_Collect_eq
  by (metis prod.collapse snd_conv)

text \<open>Dropping the joins of some regions and demoting what no join holds.\<close>

lemma demote_facts:
  fixes P
  assumes ok: "db_ok d" and bn: "bytes_nonneg d"
  defines "e \<equiv> demote_unreferenced (delete_joins P d)"
  shows "db_ok e" "bytes_nonneg e" "total_sum e = total_sum d" "tile_at e k = tile_at d k"
    "region_keys e rid = (if P rid then {} else region_keys d rid)"
    "pinned_at e k \<longleftrightarrow> (\<exists>rid. \<not> P rid \<and> k \<in> region_keys d rid)"
proof -
  let ?j = "delete_joins P d"
  let ?Q = "\<lambda>r. row_pinned r \<and> \<not> referenced ?j (row_key r)"
  have okj: "db_ok ?j" by (rule db_ok_delete_joins[OF ok])
  show oke: "db_ok e" unfolding e_def demote_unreferenced_def by (rule db_ok_unpin[OF okj]) blast
  show "bytes_nonneg e" unfolding e_def demote_unreferenced_def
    by (intro nonneg_statements(2,5) bn)
  show "total_sum e = total_sum d" "tile_at e k = tile_at d k"
    "region_keys e rid = (if P rid then {} else region_keys d rid)"
    by (simp_all add: e_def demote_unreferenced_def region_keys_delete_joins)
  have ref: "referenced ?j k \<longleftrightarrow> (\<exists>rid. \<not> P rid \<and> k \<in> region_keys d rid)"
    unfolding referenced_keys region_keys_delete_joins by (auto split: if_splits)
  have "referenced ?j k \<Longrightarrow> pinned_at ?j k" by (rule db_ok_referenced[OF okj])
  then have "pinned_at e k \<longleftrightarrow> referenced ?j k"
    unfolding e_def demote_unreferenced_def pinned_at_unpin[where R = "\<lambda>k. \<not> referenced ?j k"] by blast
  with ref show "pinned_at e k \<longleftrightarrow> (\<exists>rid. \<not> P rid \<and> k \<in> region_keys d rid)" by simp
qed

lemma delete_region_ok:
  assumes "delete_region env rid c = (Inr (), c')"
  shows "c' = c\<lparr>conn := demote_unreferenced (delete_joins (\<lambda>i. i = rid) (conn c)),
     pinned_bytes := pinned_sum (demote_unreferenced (delete_joins (\<lambda>i. i = rid) (conn c))),
     regions_dirty := True\<rparr>"
  using assms by (auto simp: delete_region_def Let_def split: option.splits)

lemma delete_region_inv [inv_intro]:
  assumes inv: "cache_inv c" and recount: "faults env S_recount = None"
  shows "cache_inv (snd (delete_region env rid c))"
  using demote_facts[OF cache_invD(1,2)[OF inv], of "\<lambda>i. i = rid"] inv
  by (cases "first_fault (faults env) [S_begin, S_write, S_evict, S_commit]")
    (simp_all add: delete_region_def Let_def recount inv_defs)

text \<open>One promotion.\<close>

lemma only_in_region_keys:
  "only_in_region d t k \<longleftrightarrow> k \<in> region_keys d t \<and> (\<forall>rid. k \<in> region_keys d rid \<longrightarrow> rid = t)"
  unfolding only_in_region_def region_keys_def list_ex_iff mem_Collect_eq
  by (metis fst_conv prod.collapse snd_conv)

lemma promote_one_facts:
  assumes ok: "db_ok d" and bn: "bytes_nonneg d" and ne: "s \<noteq> t"
  defines "e \<equiv> promote_one (s, t) d"
  shows "db_ok e" "bytes_nonneg e" "total_sum e = total_sum d" "tile_at e k = tile_at d k"
    "region_keys e rid = (if rid = t then region_keys d s else if rid = s then {} else region_keys d rid)"
    "pinned_at e k \<longleftrightarrow> (pinned_at d k \<and> \<not> only_in_region d t k) \<or> k \<in> region_keys d s"
proof -
  define d1 where "d1 = set_pinned False (\<lambda>r. row_pinned r \<and> only_in_region d t (row_key r)) d"
  define d3 where "d3 = rename_joins t s (delete_joins (\<lambda>i. i = t) d1)"
  have e: "e = set_pinned True (\<lambda>r. (t, row_key r) \<in> set (region_tiles d3)) d3"
    by (simp add: e_def promote_one_def d1_def d3_def Let_def)
  note dist = db_okD(1)[OF ok]
  have keys: "map row_key (tiles e) = map row_key (tiles d)"
    by (simp add: e d3_def d1_def keys_set_pinned)
  have rk3: "region_keys d3 rid = (if rid = t then region_keys d s else if rid = s then {} else region_keys d rid)" for rid
    using ne by (simp add: d3_def d1_def region_keys_rename region_keys_delete_joins)
  then show rk: "region_keys e rid = (if rid = t then region_keys d s else if rid = s then {} else region_keys d rid)" for rid
    by (simp add: e)
  have t3: "(t, j) \<in> set (region_tiles d3) \<longleftrightarrow> j \<in> region_keys d s" for j
    using rk3[of t] by (auto simp: region_keys_def)
  have refp: "j \<in> region_keys d rid \<Longrightarrow> pinned_at d j" for j rid
    using db_ok_referenced[OF ok] referenced_keys by blast
  have p1: "pinned_at d1 j \<longleftrightarrow> pinned_at d j \<and> \<not> only_in_region d t j" for j
    unfolding d1_def by (rule pinned_at_unpin)
  have fr3: "find_row d3 = find_row d1" by (simp add: d3_def)
  have pin: "pinned_at e j \<longleftrightarrow> (pinned_at d j \<and> \<not> only_in_region d t j) \<or> j \<in> region_keys d s" for j
  proof -
    have "pinned_at e j \<longleftrightarrow> pinned_at d1 j \<or> (find_row d1 j \<noteq> None \<and> j \<in> region_keys d s)"
      unfolding e pinned_at_pin[where R = "\<lambda>k. (t, k) \<in> set (region_tiles d3)", unfolded t3] fr3 t3
      by (simp only: d3_def pinned_at_joins)
    moreover have "find_row d1 j \<noteq> None" if "j \<in> region_keys d s"
      using refp[OF that] by (auto simp: d1_def find_row_set_pinned pinned_at_def split: option.splits)
    ultimately show ?thesis using p1 by blast
  qed
  then show "pinned_at e k \<longleftrightarrow> (pinned_at d k \<and> \<not> only_in_region d t k) \<or> k \<in> region_keys d s" .
  show "bytes_nonneg e" unfolding e d3_def d1_def by (intro nonneg_statements bn)
  show "total_sum e = total_sum d" "tile_at e k = tile_at d k"
    by (simp_all add: e d3_def d1_def)
  have dist': "distinct (map row_key (tiles e))" using keys dist by simp
  have "distinct (region_tiles (delete_joins (\<lambda>i. i = t) d1))"
    using db_okD(2)[OF ok] by (simp add: delete_joins_def d1_def)
  then have "distinct (region_tiles d3)"
    unfolding d3_def rename_joins_def
    by (auto simp: distinct_map delete_joins_def inj_on_def split: prod.splits)
  moreover have "joins_pinned e"
    unfolding joins_pinned_find[OF dist']
  proof
    fix j assume "j \<in> set (region_tiles e)"
    then have j: "snd j \<in> region_keys e (fst j)" by (simp add: region_keys_def)
    have "pinned_at e (snd j)"
    proof (cases "fst j = t")
      case True
      with j rk[of t] have "snd j \<in> region_keys d s" by simp
      then show ?thesis by (simp add: pin)
    next
      case False
      with j rk[of "fst j"] have m: "snd j \<in> region_keys d (fst j)" by (simp split: if_splits)
      with False have "\<not> only_in_region d t (snd j)" by (auto simp: only_in_region_keys)
      with refp[OF m] show ?thesis by (simp add: pin)
    qed
    then show "\<exists>r. find_row e (snd j) = Some r \<and> row_pinned r"
      by (auto simp: pinned_at_def split: option.splits)
  qed
  ultimately show "db_ok e" using dist' by (simp add: db_ok_def e)
qed

text \<open>A list of promotions: each target gets the staged keys, and no other region changes.\<close>

definition proper_replacements :: "(string \<times> string) list \<Rightarrow> bool" where
  "proper_replacements reps \<longleftrightarrow> distinct (map fst reps @ map snd reps)"

lemma promote_all_ok:
  "\<forall>p \<in> set reps. fst p \<noteq> snd p \<Longrightarrow> db_ok d \<Longrightarrow> bytes_nonneg d \<Longrightarrow>
   db_ok (fold promote_one reps d) \<and> bytes_nonneg (fold promote_one reps d)
   \<and> total_sum (fold promote_one reps d) = total_sum d
   \<and> (\<forall>k. tile_at (fold promote_one reps d) k = tile_at d k)"
proof (induction reps arbitrary: d)
  case (Cons p reps)
  obtain s t where p: "p = (s, t)" by (cases p)
  note f = promote_one_facts[of d s t]
  have "s \<noteq> t" using Cons.prems(1) p by simp
  with Cons.IH[of "promote_one p d"] Cons.prems f p show ?case by simp
qed simp

lemma promote_all_keys:
  "proper_replacements reps \<Longrightarrow> db_ok d \<Longrightarrow> bytes_nonneg d \<Longrightarrow>
   (\<forall>(s, t) \<in> set reps. region_keys (fold promote_one reps d) t = region_keys d s
      \<and> region_keys (fold promote_one reps d) s = {}) \<and>
   (\<forall>rid. rid \<notin> set (map fst reps) \<union> set (map snd reps) \<longrightarrow>
      region_keys (fold promote_one reps d) rid = region_keys d rid)"
proof (induction reps arbitrary: d)
  case (Cons p reps)
  obtain s t where p: "p = (s, t)" by (cases p)
  have ne: "s \<noteq> t" "s \<notin> set (map fst reps) \<union> set (map snd reps)"
      "t \<notin> set (map fst reps) \<union> set (map snd reps)" "proper_replacements reps"
    using Cons.prems(1) unfolding proper_replacements_def p by auto
  let ?d = "promote_one p d"
  note f = promote_one_facts[OF Cons.prems(2,3) ne(1), folded p]
  note IH = Cons.IH[OF ne(4) f(1,2)]
  have "region_keys ?d s' = region_keys d s'" if "(s', t') \<in> set reps" for s' t'
  proof -
    have "s' \<in> set (map fst reps)" using that by force
    then have "s' \<noteq> s" "s' \<noteq> t" using ne(2,3) by blast+
    then show ?thesis using f(5) by simp
  qed
  moreover have "region_keys ?d t = region_keys d s" "region_keys ?d s = {}"
    using f(5) ne(1) by simp_all
  ultimately show ?case using IH ne(2,3) f(5) unfolding p by auto
qed simp

lemma proper_ne: "proper_replacements reps \<Longrightarrow> \<forall>p \<in> set reps. fst p \<noteq> snd p"
  unfolding proper_replacements_def by (induction reps) auto

lemma promote_staged_cases:
  assumes "promote_staged_regions env reps rb pb cap c = (res, c')"
  obtains (same) "c' = c" "res \<noteq> Inr True"
  | (stale) e where "faults env S_recount = Some e" "res = Inl e"
      "c' = c\<lparr>conn := fold promote_one reps (conn c)\<rparr>"
  | (promoted) "res = Inr True"
      "c' = c\<lparr>conn := fold promote_one reps (conn c),
              pinned_bytes := pinned_sum (fold promote_one reps (conn c)), regions_dirty := True\<rparr>"
      "pinned_sum (fold promote_one reps (conn c)) \<le> cap"
      "category_bytes_conn (fold promote_one reps (conn c)) (Some BASEMAP_ASSETS_REGION_ID) \<le> rb"
      "category_bytes_conn (fold promote_one reps (conn c)) (Some POSITION_WARM_REGION_ID) \<le> pb"
proof (cases "first_fault (faults env) [S_begin, S_write, S_category]")
  case (Some e)
  with assms show ?thesis by (intro same) (auto simp: promote_staged_regions_def)
next
  case None
  let ?d = "fold promote_one reps (conn c)"
  show ?thesis
  proof (cases "cap < pinned_sum ?d \<or> rb < category_bytes_conn ?d (Some BASEMAP_ASSETS_REGION_ID)
      \<or> pb < category_bytes_conn ?d (Some POSITION_WARM_REGION_ID) \<or> faults env S_commit \<noteq> None")
    case True
    with assms None show ?thesis
      by (intro same) (auto simp: promote_staged_regions_def Let_def split: if_splits option.splits)
  next
    case False
    with assms None show ?thesis
      by (cases "faults env S_recount") (auto simp: promote_staged_regions_def Let_def not_less intro: stale promoted)
  qed
qed

lemma promote_staged_inv [inv_intro]:
  assumes inv: "cache_inv c" and ne: "\<forall>p \<in> set reps. fst p \<noteq> snd p" and rc: "faults env S_recount = None"
  shows "cache_inv (snd (promote_staged_regions env reps rb pb cap c))"
proof (cases "promote_staged_regions env reps rb pb cap c")
  case (Pair res c')
  note all = promote_all_ok[OF ne cache_invD(1,2)[OF inv]]
  from Pair show ?thesis
  proof (cases rule: promote_staged_cases)
    case promoted
    with all Pair cache_invD(3)[OF inv] show ?thesis by (simp add: inv_defs)
  qed (use Pair inv rc in simp_all)
qed

section \<open>Cleaning up and opening\<close>

lemma cleanup_staging_inv [inv_intro]:
  assumes inv: "cache_inv c" and rc: "faults env S_recount = None"
  shows "cache_inv (snd (cleanup_abandoned_staging env c))"
  using demote_facts[OF cache_invD(1,2)[OF inv], of "\<lambda>rid. starts_with rid STAGING_REGION_PREFIX"] inv rc
  by (cases "first_fault (faults env) [S_begin, S_write, S_evict, S_commit]")
    (simp_all add: cleanup_abandoned_staging_def cleanup_abandoned_staging_conn_def inv_defs)

lemma ensure_schema_facts:
  assumes "user_version d = SCHEMA_VERSION \<Longrightarrow> db_ok d \<and> bytes_nonneg d"
  shows "db_ok (ensure_schema d)" "bytes_nonneg (ensure_schema d)"
    "user_version (ensure_schema d) = SCHEMA_VERSION"
  using assms by (auto simp: ensure_schema_def db_ok_def joins_pinned_def bytes_nonneg_def)

lemma open_cases:
  assumes "open_with_vacuum env mode vacuum migrated d0 = Inr c"
  obtains d where "c = \<lparr>conn = d, total_bytes = total_sum d, pinned_bytes = pinned_sum d,
      real_region_cache = 0, regions_dirty = True, disk_pressure_events = 0, operation_error_events = 0\<rparr>"
    "d = demote_unreferenced (delete_joins (\<lambda>rid. starts_with rid STAGING_REGION_PREFIX) (ensure_schema d0))
     \<or> (d = ensure_schema d0 \<and> ensure_incremental_auto_vacuum mode vacuum migrated = Inr Deferred)"
proof -
  obtain st where st: "ensure_incremental_auto_vacuum mode vacuum migrated = Inr st"
    using assms by (auto simp: open_with_vacuum_def bindE_Inr_iff)
  show ?thesis
  proof (cases st)
    case Ready
    with assms st that show ?thesis
      by (auto simp: open_with_vacuum_def bindE_Inr_iff Let_def cleanup_abandoned_staging_conn_def
          split: option.splits)
  next
    case Deferred
    with assms st that show ?thesis
      by (auto simp: open_with_vacuum_def bindE_Inr_iff Let_def split: option.splits)
  qed
qed

lemma open_inv:
  assumes ok: "user_version d0 = SCHEMA_VERSION \<Longrightarrow> db_ok d0 \<and> bytes_nonneg d0"
    and run: "open_with_vacuum env mode vacuum migrated d0 = Inr c"
  shows "cache_inv c"
proof -
  note es = ensure_schema_facts(1,2)[OF ok]
  from run obtain d where c: "c = \<lparr>conn = d, total_bytes = total_sum d, pinned_bytes = pinned_sum d,
      real_region_cache = 0, regions_dirty = True, disk_pressure_events = 0, operation_error_events = 0\<rparr>"
    and d: "d = demote_unreferenced (delete_joins (\<lambda>rid. starts_with rid STAGING_REGION_PREFIX) (ensure_schema d0))
     \<or> d = ensure_schema d0"
    by (rule open_cases) blast
  have "db_ok d \<and> bytes_nonneg d"
    using d es demote_facts(1,2)[OF es, of "\<lambda>rid. starts_with rid STAGING_REGION_PREFIX"] by auto
  then show ?thesis unfolding c by (simp add: inv_defs)
qed

section \<open>The memoised total of the saved regions\<close>

lemma real_region_bytes_exact:
  assumes inv: "cache_inv c" and "real_region_pinned_bytes env POSITION_WARM_REGION_ID c = (Inr v, c')"
  shows "v = real_sum POSITION_WARM_REGION_ID (conn c)" "conn c' = conn c" "cache_inv c'"
  using assms by (auto simp: real_region_pinned_bytes_def Let_def inv_defs split: option.splits if_splits)

lemma real_region_bytes_inv [inv_intro]:
  "cache_inv c \<Longrightarrow> cache_inv (snd (real_region_pinned_bytes env POSITION_WARM_REGION_ID c))"
  by (auto simp: real_region_pinned_bytes_def Let_def inv_defs split: option.splits if_splits)

text \<open>With the well-formedness of the rows the memo is the byte sum of the saved-region category.\<close>

lemma real_sum_category:
  assumes ok: "db_ok d" and "\<not> is_position_region rid"
  shows "real_sum POSITION_WARM_REGION_ID d = category_bytes_conn d (Some rid)"
proof -
  have "row_pinned r" if r: "r \<in> set (tiles d)" "in_real_region POSITION_WARM_REGION_ID d (row_key r)" for r
  proof -
    have "referenced d (row_key r)"
      using r(2) by (auto simp: in_real_region_def referenced_def list_ex_iff)
    then show ?thesis
      using db_ok_referenced[OF ok] row_pinned_at[OF db_okD(1)[OF ok] r(1)] by simp
  qed
  then have "real_sum POSITION_WARM_REGION_ID d = tsum (\<lambda>t. in_real_region POSITION_WARM_REGION_ID d (row_key t)) d"
    unfolding real_sum_def by (intro tsum_cong) blast
  then show ?thesis using assms(2) by (simp add: category_bytes_conn_def)
qed

section \<open>The rows a batch stores\<close>

text \<open>A batch stores a prefix of its rows: all of them, unless a gate stopped it.\<close>

definition store_prefix :: "batch_ctx \<Rightarrow> warm_row list \<Rightarrow> db \<Rightarrow> db" where
  "store_prefix cx rows d =
     fold (\<lambda>r d. store_pinned (bc_region cx) (wr_key r) (wr_tile r) (bc_now cx) d) rows d"

lemma put_rows_prefix:
  "put_rows fl cx i rows acc = Inr acc' \<Longrightarrow> \<not> capped acc \<Longrightarrow>
   \<exists>n \<le> length rows. stored acc' = stored acc + n \<and> acc_db acc' = store_prefix cx (take n rows) (acc_db acc)
     \<and> (capped acc' \<longleftrightarrow> n < length rows)"
proof (induction fl cx i rows acc rule: put_rows.induct)
  case (2 fl cx i r rs acc)
  have nofault: "fl (S_row i) = None" using "2.prems"(1) by (cases "fl (S_row i)") auto
  show ?case
  proof (cases "put_rows fl cx i (r # rs) acc = Inr (acc\<lparr>capped := True\<rparr>)")
    case True
    with "2.prems" show ?thesis by (intro exI[of _ 0]) (simp add: store_prefix_def)
  next
    case False
    let ?acc = "\<lambda>a ra p c. \<lparr>acc_db = store_pinned (bc_region cx) (wr_key r) (wr_tile r) (bc_now cx) (acc_db acc),
        added = a, reported_added = ra, pinned_added = p, category_added = c,
        stored = stored acc + 1, capped = capped acc\<rparr>"
    obtain a ra p c where run: "put_rows fl cx (Suc i) rs (?acc a ra p c) = Inr acc'"
      and IH: "\<exists>n \<le> length rs. stored acc' = stored (?acc a ra p c) + n
         \<and> acc_db acc' = store_prefix cx (take n rs) (acc_db (?acc a ra p c)) \<and> (capped acc' \<longleftrightarrow> n < length rs)"
      using "2.prems" False nofault
      by (simp only: put_rows.simps option.case Let_def split: if_splits option.splits)
        (use "2.IH"[OF nofault refl refl refl refl refl refl refl refl refl] in \<open>simp_all add: Let_def\<close>)
    then obtain n where "n \<le> length rs" "stored acc' = stored acc + 1 + n"
      "acc_db acc' = store_prefix cx (take n rs) (store_pinned (bc_region cx) (wr_key r) (wr_tile r) (bc_now cx) (acc_db acc))"
      "capped acc' \<longleftrightarrow> n < length rs" by auto
    then show ?thesis by (intro exI[of _ "Suc n"]) (simp add: store_prefix_def)
  qed
qed (auto simp: store_prefix_def)

lemma store_prefix_facts:
  "r \<in> set rows \<Longrightarrow> pinned_at (store_prefix cx rows d) (wr_key r)"
  "pinned_at d k \<Longrightarrow> pinned_at (store_prefix cx rows d) k"
  "r \<in> set rows \<Longrightarrow> bc_region cx = Some rid \<Longrightarrow> wr_key r \<in> region_keys (store_prefix cx rows d) rid"
  "k \<in> region_keys d rid \<Longrightarrow> k \<in> region_keys (store_prefix cx rows d) rid"
proof -
  have pin: "pinned_at d k \<Longrightarrow> pinned_at (store_prefix cx rows d) k" for d k rows
    by (induction rows arbitrary: d)
      (auto simp: store_prefix_def pinned_at_def find_store_pinned split: option.splits)
  have keys: "k \<in> region_keys d rid \<Longrightarrow> k \<in> region_keys (store_prefix cx rows d) rid" for d k rows
  proof (induction rows arbitrary: d)
    case (Cons r rows)
    then have "k \<in> region_keys (store_pinned (bc_region cx) (wr_key r) (wr_tile r) (bc_now cx) d) rid"
      by (cases "bc_region cx") (simp_all add: region_keys_def store_pinned_joins)
    with Cons.IH show ?case by (simp add: store_prefix_def)
  qed (simp add: store_prefix_def)
  show "pinned_at d k \<Longrightarrow> pinned_at (store_prefix cx rows d) k" by (rule pin)
  show "k \<in> region_keys d rid \<Longrightarrow> k \<in> region_keys (store_prefix cx rows d) rid" by (rule keys)
  have split: "r \<in> set rows \<Longrightarrow> \<exists>us vs. rows = us @ r # vs" by (meson split_list)
  have step: "store_prefix cx (us @ r # vs) d = store_prefix cx vs
     (store_pinned (bc_region cx) (wr_key r) (wr_tile r) (bc_now cx) (store_prefix cx us d))" for us vs
    by (simp add: store_prefix_def)
  show "pinned_at (store_prefix cx rows d) (wr_key r)" if r: "r \<in> set rows"
  proof -
    obtain us vs where "rows = us @ r # vs" using split[OF r] by blast
    then show ?thesis unfolding \<open>rows = _\<close> step
      by (intro pin) (simp add: pinned_at_def find_store_pinned)
  qed
  show "wr_key r \<in> region_keys (store_prefix cx rows d) rid"
    if r: "r \<in> set rows" and reg: "bc_region cx = Some rid"
  proof -
    obtain us vs where "rows = us @ r # vs" using split[OF r] by blast
    then show ?thesis unfolding \<open>rows = _\<close> step
      by (intro keys) (simp add: region_keys_def store_pinned_joins reg)
  qed
qed

end
