(* ===== verification/Health.thy ===== *)
theory Health
  imports Prelude "HOL-Library.AList"
begin

text \<open>
  The per-source upstream health (\<open>container/tilecache/src/health.rs\<close>): the escalating egress timeout.
  The hash map is an association list with distinct keys; the code never depends on its order.
  The schedule is the code's 64-bit shift, which drops the bits shifted out.
\<close>

unbundle bit_operations_syntax

definition MAX_TIMEOUT_MS :: u64 where "MAX_TIMEOUT_MS = 90000"
definition STREAK_CAP :: nat where "STREAK_CAP = 2"
definition RECOVERY_SECS :: int where "RECOVERY_SECS = 300"

record source_health =
  streak :: nat
  last_timeout_at :: int

record upstream_health =
  base_ms :: u64
  inner :: "(string \<times> source_health) list"

record health_snapshot =
  hs_source :: string
  hs_streak :: nat
  hs_timeout_ms :: u64
  hs_last_timeout_at :: int

definition new_health :: "u64 \<Rightarrow> upstream_health" where
  "new_health base = \<lparr>base_ms = base, inner = []\<rparr>"

definition schedule :: "upstream_health \<Rightarrow> nat \<Rightarrow> u64" where
  "schedule h n = min (push_bit n (base_ms h)) MAX_TIMEOUT_MS"

definition streak_of :: "upstream_health \<Rightarrow> string \<Rightarrow> nat" where
  "streak_of h src = (case map_of (inner h) src of Some s \<Rightarrow> streak s | None \<Rightarrow> 0)"

definition timeout_ms :: "upstream_health \<Rightarrow> string \<Rightarrow> u64" where
  "timeout_ms h src = schedule h (streak_of h src)"

definition record_timeout :: "string \<Rightarrow> int \<Rightarrow> upstream_health \<Rightarrow> upstream_health" where
  "record_timeout src now h =
     h\<lparr>inner := AList.update src
         \<lparr>streak = min (streak_of h src + 1) STREAK_CAP, last_timeout_at = now\<rparr> (inner h)\<rparr>"

definition record_success :: "string \<Rightarrow> int \<Rightarrow> upstream_health \<Rightarrow> upstream_health" where
  "record_success src now h =
     (case map_of (inner h) src of
        Some s \<Rightarrow> if RECOVERY_SECS \<le> now - last_timeout_at s then h\<lparr>inner := AList.delete src (inner h)\<rparr> else h
      | None \<Rightarrow> h)"

definition is_slow :: "upstream_health \<Rightarrow> string \<Rightarrow> bool" where
  "is_slow h src \<longleftrightarrow> (case map_of (inner h) src of Some s \<Rightarrow> 0 < streak s | None \<Rightarrow> False)"

definition snapshot :: "upstream_health \<Rightarrow> health_snapshot list" where
  "snapshot h = map (\<lambda>(src, s). \<lparr>hs_source = src, hs_streak = streak s,
     hs_timeout_ms = schedule h (streak s), hs_last_timeout_at = last_timeout_at s\<rparr>) (inner h)"

section \<open>Invariant and contracts\<close>

definition health_inv :: "upstream_health \<Rightarrow> bool" where
  "health_inv h \<longleftrightarrow> distinct (map fst (inner h)) \<and>
     (\<forall>src s. map_of (inner h) src = Some s \<longrightarrow> 1 \<le> streak s \<and> streak s \<le> STREAK_CAP)"

interpretation hmap: keyed_store "\<lambda>h :: upstream_health. map_of (inner h)"
  "\<lambda>src s h. h\<lparr>inner := AList.update src s (inner h)\<rparr>"
  "\<lambda>src h. h\<lparr>inner := AList.delete src (inner h)\<rparr>" "\<lambda>h. distinct (map fst (inner h))"
proof unfold_locales
  fix h :: upstream_health and k s j
  assume "distinct (map fst (inner h))"
  show "map_of (inner (h\<lparr>inner := AList.update k s (inner h)\<rparr>)) j = (if j = k then Some s else map_of (inner h) j)"
    by (simp add: update_conv')
next
  fix h :: upstream_health and src j v
  assume "distinct (map fst (inner h))" and "map_of (inner (h\<lparr>inner := AList.delete src (inner h)\<rparr>)) j = Some v"
  then show "map_of (inner h) j = Some v" by (auto simp: delete_conv' split: if_splits)
qed (simp_all add: distinct_update distinct_delete)

datatype health_event = Timed_out string int | Responded string int

fun step_health :: "health_event \<Rightarrow> upstream_health \<Rightarrow> upstream_health" where
  "step_health (Timed_out src now) h = record_timeout src now h"
| "step_health (Responded src now) h = record_success src now h"

lemma streak_of_bound: "health_inv h \<Longrightarrow> streak_of h src \<le> STREAK_CAP"
  by (auto simp: streak_of_def health_inv_def split: option.split)

lemma record_timeout_lookup:
  "map_of (inner (record_timeout src now h)) j =
     (if j = src then Some \<lparr>streak = min (streak_of h src + 1) STREAK_CAP, last_timeout_at = now\<rparr>
      else map_of (inner h) j)"
  by (simp add: record_timeout_def update_conv')

lemma health_inv_timeout [inv_intro]: "health_inv h \<Longrightarrow> health_inv (record_timeout src now h)"
  by (auto simp: health_inv_def record_timeout_lookup STREAK_CAP_def) (simp add: record_timeout_def distinct_update)

lemma record_success_lookup:
  "map_of (inner (record_success src now h)) j =
     (if j = src \<and> (\<exists>s. map_of (inner h) src = Some s \<and> RECOVERY_SECS \<le> now - last_timeout_at s) then None
      else map_of (inner h) j)"
  by (simp add: record_success_def delete_conv' split: option.split)

lemma health_inv_success [inv_intro]:
  assumes "health_inv h" shows "health_inv (record_success src now h)"
proof -
  have "distinct (map fst (inner (record_success src now h)))"
    using assms by (simp add: health_inv_def record_success_def distinct_delete split: option.split)
  moreover have "1 \<le> streak s \<and> streak s \<le> STREAK_CAP"
    if "map_of (inner (record_success src now h)) j = Some s" for j s
    using that assms unfolding record_success_lookup health_inv_def by (metis option.distinct(1))
  ultimately show ?thesis unfolding health_inv_def by blast
qed

lemma base_unchanged:
  "base_ms (record_timeout src now h) = base_ms h" "base_ms (record_success src now h) = base_ms h"
  by (simp_all add: record_timeout_def record_success_def split: option.split)

interpretation hm: machine step_health "\<lambda>_. True" health_inv
proof
  fix e h assume "health_inv h"
  then show "health_inv (step_health e h)" by (cases e) (simp_all add: inv_intro)
qed

fun event_source :: "health_event \<Rightarrow> string" where
  "event_source (Timed_out src now) = src"
| "event_source (Responded src now) = src"

lemma step_other:
  "event_source e \<noteq> src \<Longrightarrow> map_of (inner (step_health e h)) src = map_of (inner h) src"
  by (cases e) (auto simp: record_timeout_lookup record_success_def delete_conv' split: option.splits)

lemma run_other:
  "\<forall>e \<in> set es. event_source e \<noteq> src \<Longrightarrow> map_of (inner (fold step_health es h)) src = map_of (inner h) src"
  by (induction es arbitrary: h) (simp_all add: step_other)

lemma run_base: "base_ms (fold step_health es h) = base_ms h"
proof (induction es arbitrary: h)
  case (Cons e es)
  have "base_ms (step_health e h) = base_ms h" by (cases e) (simp_all add: base_unchanged)
  with Cons show ?case by simp
qed simp

lemma schedule_exact:
  assumes "unat (base_ms h) < 2 ^ 62" "n \<le> STREAK_CAP"
  shows "unat (schedule h n) = min (unat (base_ms h) * 2 ^ n) 90000"
proof -
  have "2 ^ n \<le> (4 :: nat)" using assms(2) power_increasing[of n 2 "2 :: nat"] by (simp add: STREAK_CAP_def)
  then have "unat (base_ms h) * 2 ^ n \<le> unat (base_ms h) * 4" by (rule mult_le_mono2)
  moreover have "unat (base_ms h) * 4 < 2 ^ 64" using assms(1) by simp
  ultimately have "unat (base_ms h) * 2 ^ n < 2 ^ 64" by (rule order.strict_trans1)
  moreover have "unat (push_bit n (base_ms h)) = take_bit 64 (push_bit n (unat (base_ms h)))"
    by (rule trans[OF unsigned_push_bit_eq]) simp
  ultimately have "unat (push_bit n (base_ms h)) = unat (base_ms h) * 2 ^ n"
    by (simp only: push_bit_eq_mult take_bit_nat_eq_self)
  then show ?thesis by (auto simp: schedule_def MAX_TIMEOUT_MS_def min_def word_le_nat_alt)
qed

section \<open>Properties\<close>



end
