(* ===== verification/Inflight.thy ===== *)
theory Inflight
  imports Prelude "HOL-Library.AList"
begin

text \<open>
  The single-flight registry (\<open>inflight_lock\<close>, \<open>inflight_finish\<close>, \<open>inflight_contains\<close> in
  \<open>container/tilecache/src/state.rs\<close>). The map holds weak references: an entry names a lock, and the lock
  is alive as long as some caller holds its \<open>Arc\<close>. A held \<open>Arc\<close> is a lease here: the key it was taken
  for, the lock, and whether its holder has called \<open>inflight_finish\<close> yet; the strong count of a lock is
  the number of its leases. Each method runs under the map's mutex, so the callers' interleavings are
  the sequences of steps; a lease may be dropped at any point (a cancelled handler).
\<close>

definition MAX_INFLIGHT_KEYS :: nat where "MAX_INFLIGHT_KEYS = 256"

type_synonym lease = "string \<times> nat \<times> bool"  \<comment> \<open>key, lock, finished\<close>

record inflight =
  entries :: "(string \<times> nat) list"
  leases :: "lease list"
  next_lock :: nat

definition no_inflight :: inflight where
  "no_inflight = \<lparr>entries = [], leases = [], next_lock = 0\<rparr>"

definition strong_count :: "inflight \<Rightarrow> nat \<Rightarrow> nat" where
  "strong_count s i = length (filter (\<lambda>l. fst (snd l) = i) (leases s))"

text \<open>\<open>map.get(key).and_then(Weak::upgrade)\<close>\<close>

definition upgrade :: "inflight \<Rightarrow> string \<Rightarrow> nat option" where
  "upgrade s k =
     (case map_of (entries s) k of
        Some i \<Rightarrow> if 0 < strong_count s i then Some i else None
      | None \<Rightarrow> None)"

definition inflight_lock :: "string \<Rightarrow> inflight \<Rightarrow> nat option \<times> inflight" where
  "inflight_lock k s =
     (case upgrade s k of
        Some i \<Rightarrow> (Some i, s\<lparr>leases := (k, i, False) # leases s\<rparr>)
      | None \<Rightarrow>
        let es = filter (\<lambda>e. 0 < strong_count s (snd e)) (AList.delete k (entries s))
        in if MAX_INFLIGHT_KEYS \<le> length es then (None, s\<lparr>entries := es\<rparr>)
           else (Some (next_lock s),
                 s\<lparr>entries := (k, next_lock s) # es, leases := (k, next_lock s, False) # leases s,
                   next_lock := Suc (next_lock s)\<rparr>))"

text \<open>The caller's own lease becomes a finished one; the entry goes when no other lease is left.\<close>

definition inflight_finish :: "string \<Rightarrow> nat \<Rightarrow> inflight \<Rightarrow> inflight" where
  "inflight_finish k i s =
     (let s' = s\<lparr>leases := (k, i, True) # remove1 (k, i, False) (leases s)\<rparr>
      in if upgrade s k = Some i \<and> strong_count s i = 1
         then s'\<lparr>entries := AList.delete k (entries s)\<rparr> else s')"

definition inflight_contains :: "string \<Rightarrow> inflight \<Rightarrow> bool \<times> inflight" where
  "inflight_contains k s =
     (case upgrade s k of
        Some _ \<Rightarrow> (True, s)
      | None \<Rightarrow> (False, s\<lparr>entries := AList.delete k (entries s)\<rparr>))"

definition drop_lease :: "lease \<Rightarrow> inflight \<Rightarrow> inflight" where
  "drop_lease l s = s\<lparr>leases := remove1 l (leases s)\<rparr>"

section \<open>Steps and reachable states\<close>

inductive flight_step :: "inflight \<Rightarrow> inflight \<Rightarrow> bool" where
  lock: "flight_step s (snd (inflight_lock k s))"
| finish: "(k, i, False) \<in> set (leases s) \<Longrightarrow> flight_step s (inflight_finish k i s)"
| contains: "flight_step s (snd (inflight_contains k s))"
| dropped: "l \<in> set (leases s) \<Longrightarrow> flight_step s (drop_lease l s)"

inductive flight_reachable :: "inflight \<Rightarrow> bool" where
  start: "flight_reachable no_inflight"
| step: "flight_reachable s \<Longrightarrow> flight_step s s' \<Longrightarrow> flight_reachable s'"

inductive_cases flight_stepE: "flight_step s s'"

definition flight_inv :: "inflight \<Rightarrow> bool" where
  "flight_inv s \<longleftrightarrow> distinct (map fst (entries s)) \<and> length (entries s) \<le> MAX_INFLIGHT_KEYS \<and>
     (\<forall>k i b. (k, i, b) \<in> set (leases s) \<longrightarrow> i < next_lock s) \<and>
     (\<forall>k i. map_of (entries s) k = Some i \<longrightarrow> i < next_lock s) \<and>
     (\<forall>k i. (k, i, False) \<in> set (leases s) \<longrightarrow> map_of (entries s) k = Some i)"

declare map_of_eq_Some_iff [simp del]

lemma flight_invD:
  assumes "flight_inv s"
  shows "distinct (map fst (entries s))" "length (entries s) \<le> MAX_INFLIGHT_KEYS"
    "(k, i, b) \<in> set (leases s) \<Longrightarrow> i < next_lock s" "map_of (entries s) k = Some i \<Longrightarrow> i < next_lock s"
    "(k, i, False) \<in> set (leases s) \<Longrightarrow> map_of (entries s) k = Some i"
  using assms unfolding flight_inv_def by blast+

lemma strong_count_pos: "0 < strong_count s i \<longleftrightarrow> (\<exists>k b. (k, i, b) \<in> set (leases s))"
  by (force simp: strong_count_def filter_empty_conv)

lemma strong_count_one:
  assumes "strong_count s i = 1" "(k, i, b) \<in> set (leases s)" "(k', i, b') \<in> set (leases s)"
  shows "k' = k \<and> b' = b"
proof -
  obtain l where l: "filter (\<lambda>l. fst (snd l) = i) (leases s) = [l]"
    using assms(1) by (auto simp: strong_count_def length_Suc_conv)
  have "(k, i, b) \<in> set (filter (\<lambda>l. fst (snd l) = i) (leases s))"
    "(k', i, b') \<in> set (filter (\<lambda>l. fst (snd l) = i) (leases s))" using assms(2,3) by simp_all
  with l show ?thesis by auto
qed

lemma upgrade_lease:
  assumes "flight_inv s" "(k, i, False) \<in> set (leases s)" shows "upgrade s k = Some i"
  using assms strong_count_pos[of s i] by (auto simp: flight_inv_def upgrade_def)

lemma map_of_live:
  assumes "distinct (map fst es)"
  shows "map_of (filter (\<lambda>e. P (snd e)) (AList.delete k es)) j =
    (if j = k then None else case map_of es j of Some i \<Rightarrow> if P i then Some i else None | None \<Rightarrow> None)"
  using assms
proof (induction es)
  case (Cons e es)
  obtain a i where e: "e = (a, i)" by (cases e)
  have "a \<notin> fst ` set es" using Cons.prems e by simp
  then have n: "map_of es a = None" by (simp add: map_of_eq_None_iff)
  with Cons e show ?case by (auto split: option.splits)
qed simp

lemma lock_inv: assumes inv: "flight_inv s" shows "flight_inv (snd (inflight_lock k s))"
proof (cases "upgrade s k")
  case (Some i)
  then have "map_of (entries s) k = Some i" by (auto simp: upgrade_def split: option.splits if_splits)
  with inv Some show ?thesis by (auto simp: flight_inv_def inflight_lock_def)
next
  case None
  let ?es = "filter (\<lambda>e. 0 < strong_count s (snd e)) (AList.delete k (entries s))"
  have d: "distinct (map fst ?es)" and di: "distinct (map fst (entries s))"
    using inv by (simp_all add: flight_inv_def distinct_delete distinct_map_filter)
  have len: "length ?es \<le> MAX_INFLIGHT_KEYS"
    by (rule order.trans[OF length_filter_le order.trans[OF length_delete_le]])
      (use inv in \<open>simp add: flight_inv_def\<close>)
  have nk: "(k, i, False) \<notin> set (leases s)" for i using upgrade_lease[OF inv] None by auto
  note mo = map_of_live[OF di, of "\<lambda>i. 0 < strong_count s i" k]
  have live: "map_of ?es j = Some i" if "(j, i, False) \<in> set (leases s)" for j i
  proof -
    have "map_of (entries s) j = Some i" using inv that by (simp add: flight_inv_def)
    moreover have "0 < strong_count s i" using that strong_count_pos by blast
    moreover have "j \<noteq> k" using that nk by blast
    ultimately show ?thesis by (simp add: mo)
  qed
  have old: "i < next_lock s" if "map_of ?es j = Some i" for i j
    using that inv by (auto simp: mo flight_inv_def split: if_splits option.splits)
  have kd: "k \<notin> fst ` set ?es" by (auto simp: delete_notin_dom) (metis delete_notin_dom fst_conv imageI)
  show ?thesis
  proof (cases "MAX_INFLIGHT_KEYS \<le> length ?es")
    case True
    with None d len live old flight_invD(3)[OF inv] show ?thesis
      by (auto simp: inflight_lock_def Let_def flight_inv_def)
  next
    case False
    have "\<forall>j i. ((k, next_lock s) # ?es) \<noteq> [] \<and> (map_of ((k, next_lock s) # ?es) j = Some i \<longrightarrow> i < Suc (next_lock s))"
      using old by (auto simp: less_Suc_eq)
    with None False d kd live nk inv show ?thesis
      by (auto simp: inflight_lock_def Let_def flight_inv_def less_Suc_eq)
  qed
qed

lemma finish_inv:
  assumes inv: "flight_inv s" and l: "(k, i, False) \<in> set (leases s)"
  shows "flight_inv (inflight_finish k i s)"
proof (cases "upgrade s k = Some i \<and> strong_count s i = 1")
  case False
  with inv l set_remove1_subset[of "(k, i, False)" "leases s"] show ?thesis
    by (auto simp: inflight_finish_def Let_def flight_inv_def)
next
  case True
  have other: "j \<noteq> k" if "(j, i', False) \<in> set (remove1 (k, i, False) (leases s))" for j i'
  proof
    assume "j = k"
    have m: "(j, i', False) \<in> set (leases s)" using that set_remove1_subset by fastforce
    then have "i' = i" using flight_invD(5)[OF inv m] flight_invD(5)[OF inv l] \<open>j = k\<close> by simp
    have f: "filter (\<lambda>l. fst (snd l) = i) (leases s) = [(k, i, False)]"
    proof -
      obtain x where x: "filter (\<lambda>l. fst (snd l) = i) (leases s) = [x]"
        using True by (auto simp: strong_count_def length_Suc_conv)
      have "(k, i, False) \<in> set (filter (\<lambda>l. fst (snd l) = i) (leases s))" using l by simp
      with x show ?thesis by simp
    qed
    have "filter (\<lambda>l. fst (snd l) = i) (remove1 (k, i, False) (leases s)) = []"
      using f by (simp add: filter_remove1)
    with that \<open>i' = i\<close> show False by (auto simp: filter_empty_conv)
  qed
  have sub: "set (remove1 (k, i, False) (leases s)) \<subseteq> set (leases s)" by (rule set_remove1_subset)
  have "map_of (AList.delete k (entries s)) j = Some i'"
    if "(j, i', False) \<in> set (remove1 (k, i, False) (leases s))" for j i'
    using other[OF that] inv sub that by (auto simp: flight_inv_def delete_conv')
  note live = this
  have eq: "inflight_finish k i s = s\<lparr>leases := (k, i, True) # remove1 (k, i, False) (leases s),
      entries := AList.delete k (entries s)\<rparr>"
    using True by (simp add: inflight_finish_def Let_def)
  have bound: "i' < next_lock s" if "(j, i', b) \<in> set ((k, i, True) # remove1 (k, i, False) (leases s))" for j i' b
    using that sub flight_invD(3)[OF inv] flight_invD(3)[OF inv l] by (auto dest!: subsetD[OF sub])
  have ent: "i' < next_lock s" if "map_of (AList.delete k (entries s)) j = Some i'" for j i'
    using that flight_invD(4)[OF inv] by (auto simp: delete_conv' split: if_splits)
  have len: "length (AList.delete k (entries s)) \<le> MAX_INFLIGHT_KEYS"
    using length_delete_le[of k "entries s"] flight_invD(2)[OF inv] by simp
  have dis: "distinct (map fst (AList.delete k (entries s)))"
    using flight_invD(1)[OF inv] by (rule distinct_delete)
  show ?thesis unfolding flight_inv_def eq inflight.select_convs inflight.update_convs
    using dis len bound ent live by (intro conjI allI impI) (assumption | simp)+
qed

lemma contains_inv: assumes inv: "flight_inv s" shows "flight_inv (snd (inflight_contains k s))"
proof (cases "upgrade s k")
  case None
  then have "j \<noteq> k" if "(j, i, False) \<in> set (leases s)" for j i
    using upgrade_lease[OF inv] that by auto
  with inv None length_delete_le[of k "entries s"] show ?thesis
    by (auto simp: inflight_contains_def flight_inv_def distinct_delete delete_conv' split: if_splits intro: order.trans)
qed (use inv in \<open>simp add: inflight_contains_def\<close>)

lemma drop_inv: "flight_inv s \<Longrightarrow> flight_inv (drop_lease l s)"
  using set_remove1_subset[of l "leases s"] by (auto simp: flight_inv_def drop_lease_def)

lemma reachable_inv: "flight_reachable s \<Longrightarrow> flight_inv s"
proof (induction rule: flight_reachable.induct)
  case start
  show ?case by (simp add: flight_inv_def no_inflight_def)
next
  case (step s s')
  from step.hyps(2) step.IH show ?case
    by (cases rule: flight_step.cases) (simp_all add: lock_inv finish_inv contains_inv drop_inv)
qed

section \<open>Property\<close>

text \<open>
  C15: In every state any interleaving of callers can reach, two callers that are still working on the same
  key hold the same lock, so their fetches are serialised; no more than 256 keys are registered; and a
  caller is refused only when 256 other keys have a live holder, so cancelled requests never use up
  admission.
\<close>

theorem single_flight:
  assumes "flight_reachable s"
  shows "(\<forall>k i j. (k, i, False) \<in> set (leases s) \<and> (k, j, False) \<in> set (leases s) \<longrightarrow> i = j) \<and>
    length (entries s) \<le> 256 \<and>
    (\<forall>i. fst (inflight_lock k s) = Some i \<longrightarrow> (k, i, False) \<in> set (leases (snd (inflight_lock k s)))) \<and>
    (fst (inflight_lock k s) = None \<longrightarrow>
       256 \<le> card {j. j \<noteq> k \<and> (\<exists>i. map_of (entries s) j = Some i \<and> 0 < strong_count s i)})"
proof -
  have inv: "flight_inv s" by (rule reachable_inv[OF assms])
  let ?es = "filter (\<lambda>e. 0 < strong_count s (snd e)) (AList.delete k (entries s))"
  have di: "distinct (map fst (entries s))" using inv by (simp add: flight_inv_def)
  have refused: "256 \<le> card {j. j \<noteq> k \<and> (\<exists>i. map_of (entries s) j = Some i \<and> 0 < strong_count s i)}"
    if "fst (inflight_lock k s) = None"
  proof -
    have u: "upgrade s k = None" using that by (cases "upgrade s k") (simp_all add: inflight_lock_def)
    have "256 \<le> length ?es"
      using that unfolding inflight_lock_def u option.case Let_def
      by (cases "MAX_INFLIGHT_KEYS \<le> length ?es") (simp_all add: MAX_INFLIGHT_KEYS_def)
    also have "length ?es = card (fst ` set ?es)"
      using distinct_card[OF distinct_map_filter[OF distinct_delete[OF di]], of "\<lambda>e. 0 < strong_count s (snd e)" k]
      by (simp only: length_map set_map)
    also have "fst ` set ?es = {j. map_of ?es j \<noteq> None}"
      by (simp only: dom_map_of_conv_image_fst[symmetric] dom_def)
    also have "\<dots> = {j. j \<noteq> k \<and> (\<exists>i. map_of (entries s) j = Some i \<and> 0 < strong_count s i)}"
      unfolding map_of_live[OF di, of "\<lambda>i. 0 < strong_count s i" k]
      by (rule Collect_cong) (auto split: option.split)
    finally show ?thesis .
  qed
  have granted: "(k, i, False) \<in> set (leases (snd (inflight_lock k s)))" if "fst (inflight_lock k s) = Some i" for i
    using that by (auto simp: inflight_lock_def Let_def split: option.splits if_splits)
  have same: "i = j" if "(k', i, False) \<in> set (leases s)" "(k', j, False) \<in> set (leases s)" for k' i j
    using flight_invD(5)[OF inv that(1)] flight_invD(5)[OF inv that(2)] by simp
  have "length (entries s) \<le> 256" using flight_invD(2)[OF inv] by (simp add: MAX_INFLIGHT_KEYS_def)
  with refused granted same show ?thesis by (intro conjI allI impI) (elim conjE; assumption?)+
qed

lemma single_flight_witness:
  "length (entries (snd (inflight_lock ''a'' no_inflight))) \<le> 256"
  using single_flight[OF flight_reachable.step[OF flight_reachable.start flight_step.lock]] by blast

end
