(* ===== verification/Ssrf.thy ===== *)
theory Ssrf
  imports Prelude
begin

text \<open>
  The egress guard (\<open>container/tilecache/src/ssrf.rs\<close>): the address tests on \<open>u8\<close> octets and \<open>u16\<close>
  segments as the code writes them, the standard library's address classes and its address parser, and
  the guard on a URL whose host is an address literal. The URL parser is the \<open>url\<close> package's, so the host
  it returns is an argument. The reference description is the table of IANA blocks the code's comments
  name: the guard rejects an IPv4 address exactly when it lies in a block of the table, and lets an IPv6
  address through exactly when it is global unicast outside the IETF blocks and, for a 6to4 address, the
  IPv4 address inside it is let through.
\<close>

section \<open>Addresses\<close>

type_synonym seg = "16 word"

datatype ip_addr = V4 byte byte byte byte | V6 seg seg seg seg seg seg seg seg

unbundle bit_operations_syntax

text \<open>\<open>Ipv4Addr\<close> of the standard library.\<close>

fun v4_private :: "byte \<Rightarrow> byte \<Rightarrow> byte \<Rightarrow> byte \<Rightarrow> bool" where
  "v4_private a b c d \<longleftrightarrow> a = 10 \<or> (a = 172 \<and> 16 \<le> b \<and> b \<le> 31) \<or> (a = 192 \<and> b = 168)"

definition v4_loopback :: "byte \<Rightarrow> bool" where "v4_loopback a \<longleftrightarrow> a = 127"
definition v4_link_local :: "byte \<Rightarrow> byte \<Rightarrow> bool" where "v4_link_local a b \<longleftrightarrow> a = 169 \<and> b = 254"
definition v4_multicast :: "byte \<Rightarrow> bool" where "v4_multicast a \<longleftrightarrow> 224 \<le> a \<and> a \<le> 239"
definition v4_unspecified :: "byte \<Rightarrow> byte \<Rightarrow> byte \<Rightarrow> byte \<Rightarrow> bool" where
  "v4_unspecified a b c d \<longleftrightarrow> a = 0 \<and> b = 0 \<and> c = 0 \<and> d = 0"
definition v4_broadcast :: "byte \<Rightarrow> byte \<Rightarrow> byte \<Rightarrow> byte \<Rightarrow> bool" where
  "v4_broadcast a b c d \<longleftrightarrow> a = 255 \<and> b = 255 \<and> c = 255 \<and> d = 255"
definition v4_documentation :: "byte \<Rightarrow> byte \<Rightarrow> byte \<Rightarrow> bool" where
  "v4_documentation a b c \<longleftrightarrow>
     (a = 192 \<and> b = 0 \<and> c = 2) \<or> (a = 198 \<and> b = 51 \<and> c = 100) \<or> (a = 203 \<and> b = 0 \<and> c = 113)"

definition forbidden_v4 :: "byte \<Rightarrow> byte \<Rightarrow> byte \<Rightarrow> byte \<Rightarrow> bool" where
  "forbidden_v4 a b c d \<longleftrightarrow>
     v4_private a b c d \<or> v4_loopback a \<or> v4_link_local a b \<or> v4_multicast a \<or> v4_unspecified a b c d
     \<or> a = 0 \<or> v4_broadcast a b c d \<or> v4_documentation a b c
     \<or> (a = 100 \<and> b AND 0xc0 = 64)
     \<or> 240 \<le> a
     \<or> (a = 198 \<and> b AND 0xfe = 18)
     \<or> (a = 192 \<and> b = 0 \<and> c = 0)"

definition is_unique_local :: "seg \<Rightarrow> bool" where
  "is_unique_local s0 \<longleftrightarrow> s0 AND 0xfe00 = 0xfc00"
definition is_link_local_v6 :: "seg \<Rightarrow> bool" where
  "is_link_local_v6 s0 \<longleftrightarrow> s0 AND 0xffc0 = 0xfe80"
definition is_site_local_v6 :: "seg \<Rightarrow> bool" where
  "is_site_local_v6 s0 \<longleftrightarrow> s0 AND 0xffc0 = 0xfec0"
definition is_global_unicast_v6 :: "seg \<Rightarrow> seg \<Rightarrow> bool" where
  "is_global_unicast_v6 s0 s1 \<longleftrightarrow>
     s0 AND 0xe000 = 0x2000 \<and> (s0 \<noteq> 0x2001 \<or> (s1 \<noteq> 0x0db8 \<and> 0x0200 \<le> s1))"
definition is_local_use_nat64 :: "seg \<Rightarrow> seg \<Rightarrow> seg \<Rightarrow> bool" where
  "is_local_use_nat64 s0 s1 s2 \<longleftrightarrow> s0 = 0x0064 \<and> s1 = 0xff9b \<and> s2 = 0x0001"

text \<open>\<open>(s >> 8) as u8\<close> and \<open>s as u8\<close>.\<close>

definition hi_byte :: "seg \<Rightarrow> byte" where "hi_byte s = ucast (drop_bit 8 s)"
definition lo_byte :: "seg \<Rightarrow> byte" where "lo_byte s = ucast s"

definition v4_of_segs :: "seg \<Rightarrow> seg \<Rightarrow> byte \<times> byte \<times> byte \<times> byte" where
  "v4_of_segs x y = (hi_byte x, lo_byte x, hi_byte y, lo_byte y)"

fun embedded_v4 :: "seg \<Rightarrow> seg \<Rightarrow> seg \<Rightarrow> seg \<Rightarrow> seg \<Rightarrow> seg \<Rightarrow> seg \<Rightarrow> seg
    \<Rightarrow> (byte \<times> byte \<times> byte \<times> byte) option" where
  "embedded_v4 s0 s1 s2 s3 s4 s5 s6 s7 =
     (if s0 = 0x2002 then Some (v4_of_segs s1 s2)
      else if s0 = 0x0064 \<and> s1 = 0xff9b \<and> s2 = 0 \<and> s3 = 0 \<and> s4 = 0 \<and> s5 = 0 then Some (v4_of_segs s6 s7)
      else if s0 = 0 \<and> s1 = 0 \<and> s2 = 0 \<and> s3 = 0 \<and> s4 = 0 \<and> s5 = 0 then Some (v4_of_segs s6 s7)
      else None)"

text \<open>\<open>Ipv6Addr::to_ipv4_mapped\<close>: \<open>::ffff:a.b.c.d\<close>.\<close>

fun to_ipv4_mapped :: "seg \<Rightarrow> seg \<Rightarrow> seg \<Rightarrow> seg \<Rightarrow> seg \<Rightarrow> seg \<Rightarrow> seg \<Rightarrow> seg
    \<Rightarrow> (byte \<times> byte \<times> byte \<times> byte) option" where
  "to_ipv4_mapped s0 s1 s2 s3 s4 s5 s6 s7 =
     (if s0 = 0 \<and> s1 = 0 \<and> s2 = 0 \<and> s3 = 0 \<and> s4 = 0 \<and> s5 = 0xffff then Some (v4_of_segs s6 s7) else None)"

definition forbidden_opt :: "(byte \<times> byte \<times> byte \<times> byte) option \<Rightarrow> bool" where
  "forbidden_opt m = (case m of Some (a, b, c, d) \<Rightarrow> forbidden_v4 a b c d | None \<Rightarrow> False)"

fun is_forbidden_ip :: "ip_addr \<Rightarrow> bool" where
  "is_forbidden_ip (V4 a b c d) = forbidden_v4 a b c d"
| "is_forbidden_ip (V6 s0 s1 s2 s3 s4 s5 s6 s7) \<longleftrightarrow>
     (s0 = 0 \<and> s1 = 0 \<and> s2 = 0 \<and> s3 = 0 \<and> s4 = 0 \<and> s5 = 0 \<and> s6 = 0 \<and> s7 = 1)
     \<or> s0 AND 0xff00 = 0xff00
     \<or> (s0 = 0 \<and> s1 = 0 \<and> s2 = 0 \<and> s3 = 0 \<and> s4 = 0 \<and> s5 = 0 \<and> s6 = 0 \<and> s7 = 0)
     \<or> is_unique_local s0 \<or> is_link_local_v6 s0 \<or> is_site_local_v6 s0
     \<or> forbidden_opt (to_ipv4_mapped s0 s1 s2 s3 s4 s5 s6 s7)
     \<or> forbidden_opt (embedded_v4 s0 s1 s2 s3 s4 s5 s6 s7)
     \<or> is_local_use_nat64 s0 s1 s2
     \<or> \<not> is_global_unicast_v6 s0 s1"

section \<open>The standard library's address parser\<close>

text \<open>
  \<open>core::net::parser\<close>: each reader returns its value and the rest of the input, or \<open>None\<close> with the input
  unread. A decimal octet has at most three digits, no leading zero and a value below 256; a group has
  at most four hexadecimal digits.
\<close>

definition dec_digit :: "char \<Rightarrow> nat option" where
  "dec_digit c = (if is_ascii_digit c then Some (code c - 48) else None)"

definition hex_digit :: "char \<Rightarrow> nat option" where
  "hex_digit c = (if is_ascii_digit c then Some (code c - 48)
     else if 97 \<le> code c \<and> code c \<le> 102 then Some (code c - 87)
     else if 65 \<le> code c \<and> code c \<le> 70 then Some (code c - 55) else None)"

fun read_digits :: "(char \<Rightarrow> nat option) \<Rightarrow> nat \<Rightarrow> nat \<Rightarrow> nat \<Rightarrow> nat \<Rightarrow> string \<Rightarrow> (nat \<times> nat \<times> string) option" where
  "read_digits dig radix maxn n acc [] = Some (acc, n, [])"
| "read_digits dig radix maxn n acc (c # cs) =
     (case dig c of
        None \<Rightarrow> Some (acc, n, c # cs)
      | Some v \<Rightarrow> if maxn \<le> n then None else read_digits dig radix maxn (Suc n) (acc * radix + v) cs)"

definition read_octet :: "string \<Rightarrow> (byte \<times> string) option" where
  "read_octet s =
     (case read_digits dec_digit 10 3 0 0 s of
        Some (v, n, rest) \<Rightarrow>
          if n = 0 \<or> 255 < v \<or> (1 < n \<and> starts_with s ''0'') then None else Some (of_nat v, rest)
      | None \<Rightarrow> None)"

definition read_group :: "string \<Rightarrow> (seg \<times> string) option" where
  "read_group s =
     (case read_digits hex_digit 16 4 0 0 s of
        Some (v, n, rest) \<Rightarrow> if n = 0 then None else Some (of_nat v, rest)
      | None \<Rightarrow> None)"

text \<open>\<open>read_separator\<close>: from the second element on the separator comes first.\<close>

definition read_sep :: "char \<Rightarrow> nat \<Rightarrow> (string \<Rightarrow> ('a \<times> string) option) \<Rightarrow> string \<Rightarrow> ('a \<times> string) option" where
  "read_sep sep i rd s =
     (if i = 0 then rd s else case s of [] \<Rightarrow> None | c # cs \<Rightarrow> if c = sep then rd cs else None)"

definition read_ipv4 :: "string \<Rightarrow> ((byte \<times> byte \<times> byte \<times> byte) \<times> string) option" where
  "read_ipv4 s =
     Option.bind (read_octet s) (\<lambda>(a, s).
     Option.bind (read_sep (CHR ''.'') 1 read_octet s) (\<lambda>(b, s).
     Option.bind (read_sep (CHR ''.'') 2 read_octet s) (\<lambda>(c, s).
     Option.bind (read_sep (CHR ''.'') 3 read_octet s) (\<lambda>(d, s). Some ((a, b, c, d), s)))))"

definition join_bytes :: "byte \<Rightarrow> byte \<Rightarrow> seg" where
  "join_bytes a b = push_bit 8 (ucast a) OR ucast b"

text \<open>\<open>read_groups\<close> on the slots from index \<open>i\<close> up to \<open>limit\<close>; the flag says a trailing IPv4 form was read.\<close>

function read_groups :: "nat \<Rightarrow> nat \<Rightarrow> string \<Rightarrow> seg list \<times> bool \<times> string" where
  "read_groups limit i s =
     (if limit \<le> i then ([], False, s)
      else case (if i + 1 < limit then read_sep (CHR '':'') i read_ipv4 s else None) of
          Some ((a, b, c, d), rest) \<Rightarrow> ([join_bytes a b, join_bytes c d], True, rest)
        | None \<Rightarrow>
          (case read_sep (CHR '':'') i read_group s of
             Some (g, rest) \<Rightarrow>
               let (gs, v4, rest') = read_groups limit (Suc i) rest in (g # gs, v4, rest')
           | None \<Rightarrow> ([], False, s)))"
  by pat_completeness auto
termination by (relation "measure (\<lambda>(limit, i, s). limit - i)") auto

declare read_groups.simps [simp del]

definition v6_of :: "seg list \<Rightarrow> ip_addr option" where
  "v6_of gs = (case gs of [a, b, c, d, e, f, g, h] \<Rightarrow> Some (V6 a b c d e f g h) | _ \<Rightarrow> None)"

definition read_ipv6 :: "string \<Rightarrow> (ip_addr \<times> string) option" where
  "read_ipv6 s =
     (case read_groups 8 0 s of
        (head, v4, rest) \<Rightarrow>
          if length head = 8 then map_option (\<lambda>ip. (ip, rest)) (v6_of head)
          else if v4 \<or> \<not> starts_with rest ''::'' then None
          else (case read_groups (7 - length head) 0 (drop 2 rest) of
              (tail, _, rest') \<Rightarrow>
                map_option (\<lambda>ip. (ip, rest'))
                  (v6_of (head @ replicate (8 - length head - length tail) 0 @ tail))))"

definition parse_ip :: "string \<Rightarrow> ip_addr option" where
  "parse_ip s =
     (case (case read_ipv4 s of Some ((a, b, c, d), rest) \<Rightarrow> Some (V4 a b c d, rest) | None \<Rightarrow> read_ipv6 s) of
        Some (ip, []) \<Rightarrow> Some ip
      | _ \<Rightarrow> None)"

text \<open>\<open>h.strip_prefix('[').and_then(|s| s.strip_suffix(']')).unwrap_or(h)\<close>\<close>

definition bare_host :: "string \<Rightarrow> string" where
  "bare_host h =
     (case strip_prefix ''['' h of
        Some t \<Rightarrow> if t \<noteq> [] \<and> last t = CHR '']'' then butlast t else h
      | None \<Rightarrow> h)"

text \<open>\<open>host_of\<close> is \<open>Url::parse(url).ok()\<close> followed by \<open>host_str\<close>.\<close>

definition is_forbidden_ip_literal_url :: "(string \<Rightarrow> string option) \<Rightarrow> string \<Rightarrow> bool" where
  "is_forbidden_ip_literal_url host_of url =
     (case host_of url of
        None \<Rightarrow> False
      | Some h \<Rightarrow> (case parse_ip (bare_host h) of Some ip \<Rightarrow> is_forbidden_ip ip | None \<Rightarrow> False))"

section \<open>Masks are intervals\<close>

lemma and_high_mask:
  fixes x y :: "'a::len word"
  assumes m: "m = NOT (mask n)" and y: "take_bit n y = 0"
  shows "x AND m = y \<longleftrightarrow> unat x div 2 ^ n = unat y div 2 ^ n"
proof -
  have low: "\<not> bit y k" if "k < n" for k
    using arg_cong[OF y, of "\<lambda>z. bit z k"] that by (simp add: bit_simps)
  have "x AND m = y \<longleftrightarrow> drop_bit n x = drop_bit n y"
  proof
    assume "x AND m = y"
    then have "drop_bit n y = drop_bit n (x AND m)" by simp
    also have "\<dots> = drop_bit n x" unfolding m
      by (rule bit_eqI) (auto simp: bit_simps dest: bit_imp_le_length)
    finally show "drop_bit n x = drop_bit n y" by simp
  next
    assume e: "drop_bit n x = drop_bit n y"
    have hi: "bit x k = bit y k" if "n \<le> k" for k
      using arg_cong[OF e, of "\<lambda>z. bit z (k - n)"] that by (simp add: bit_simps)
    have "bit (x AND m) k = bit y k" if "k < LENGTH('a)" for k
      using low[of k] hi[of k] that unfolding m by (cases "k < n") (auto simp: bit_simps)
    then show "x AND m = y" by (auto intro: bit_word_eqI)
  qed
  also have "\<dots> \<longleftrightarrow> unat x div 2 ^ n = unat y div 2 ^ n"
    unfolding word_unat_eq_iff unsigned_drop_bit_eq
    by (simp add: drop_bit_eq_div take_bit_nat_eq_self[OF unsigned_less])
  finally show ?thesis .
qed

lemma byte_masks:
  fixes b :: byte
  shows "b AND 0xc0 = 64 \<longleftrightarrow> unat b div 64 = 1"
    and "b AND 0xfe = 18 \<longleftrightarrow> unat b div 2 = 9"
  using and_high_mask[where m = "0xc0" and n = 6 and x = b and y = 64]
    and_high_mask[where m = "0xfe" and n = 1 and x = b and y = 18]
  by (simp_all add: mask_eq_exp_minus_1 take_bit_eq_mod)

lemma seg_masks:
  fixes s :: seg
  shows "s AND 0xe000 = 0x2000 \<longleftrightarrow> unat s div 2 ^ 13 = 1"
    and "s AND 0xff00 = 0xff00 \<longleftrightarrow> unat s div 2 ^ 8 = 255"
    and "s AND 0xfe00 = 0xfc00 \<longleftrightarrow> unat s div 2 ^ 9 = 126"
    and "s AND 0xffc0 = 0xfe80 \<longleftrightarrow> unat s div 2 ^ 6 = 1018"
    and "s AND 0xffc0 = 0xfec0 \<longleftrightarrow> unat s div 2 ^ 6 = 1019"
  using and_high_mask[where m = "0xe000" and n = 13 and x = s and y = "0x2000"]
    and_high_mask[where m = "0xff00" and n = 8 and x = s and y = "0xff00"]
    and_high_mask[where m = "0xfe00" and n = 9 and x = s and y = "0xfc00"]
    and_high_mask[where m = "0xffc0" and n = 6 and x = s and y = "0xfe80"]
    and_high_mask[where m = "0xffc0" and n = 6 and x = s and y = "0xfec0"]
  by (simp_all add: mask_eq_exp_minus_1 take_bit_eq_mod)

section \<open>The table of blocks\<close>

text \<open>The blocks the guard means to reject, as base address and prefix length.\<close>

definition v4_num :: "byte \<Rightarrow> byte \<Rightarrow> byte \<Rightarrow> byte \<Rightarrow> nat" where
  "v4_num a b c d = ((unat a * 256 + unat b) * 256 + unat c) * 256 + unat d"

definition in_block :: "nat \<Rightarrow> nat \<times> nat \<Rightarrow> bool" where
  "in_block n = (\<lambda>(base, len). n div 2 ^ (32 - len) = base div 2 ^ (32 - len))"

definition dotted :: "nat \<Rightarrow> nat \<Rightarrow> nat \<Rightarrow> nat \<Rightarrow> nat" where
  "dotted a b c d = ((a * 256 + b) * 256 + c) * 256 + d"

definition blocked_v4 :: "(nat \<times> nat) list" where
  "blocked_v4 =
     [(dotted 0 0 0 0, 8), (dotted 10 0 0 0, 8), (dotted 100 64 0 0, 10), (dotted 127 0 0 0, 8),
      (dotted 169 254 0 0, 16), (dotted 172 16 0 0, 12), (dotted 192 0 0 0, 24), (dotted 192 0 2 0, 24),
      (dotted 192 168 0 0, 16), (dotted 198 18 0 0, 15), (dotted 198 51 100 0, 24),
      (dotted 203 0 113 0, 24), (dotted 224 0 0 0, 4), (dotted 240 0 0 0, 4)]"

lemma unat_less_bytes: "unat (a :: byte) < 256"
  using unsigned_less[of a, where ?'a = nat] by simp

lemma v4_num_div:
  "v4_num a b c d div 2 ^ 24 = unat a"
  "v4_num a b c d div 2 ^ 16 = unat a * 256 + unat b"
  "v4_num a b c d div 2 ^ 8 = (unat a * 256 + unat b) * 256 + unat c"
  using unat_less_bytes[of b] unat_less_bytes[of c] unat_less_bytes[of d]
  by (simp_all add: v4_num_def)

lemma div_iff: "0 < (q :: nat) \<Longrightarrow> n div q = r \<longleftrightarrow> q * r \<le> n \<and> n < q * r + q"
  by (metis add.commute div_nat_eqI dividend_less_div_times mult.commute mult_Suc_right times_div_less_eq_dividend)

lemma two_digits: "B < (m :: nat) \<Longrightarrow> A * m + B = k \<longleftrightarrow> A = k div m \<and> B = k mod m"
  by auto

lemma div_digits: "0 < (q :: nat) \<Longrightarrow> (A * (q * m) + B) div q = A * m + B div q"
  using div_mult_self1[of q B "A * m"] by (simp add: ac_simps)

lemma block_bits:
  fixes A B C :: nat
  assumes "A < 256" "B < 256" "C < 256"
  shows "(A * 256 + B) div 64 = 401 \<longleftrightarrow> A = 100 \<and> B div 64 = 1"
    and "A * 256 + B = 43518 \<longleftrightarrow> A = 169 \<and> B = 254"
    and "(A * 256 + B) div 16 = 2753 \<longleftrightarrow> A = 172 \<and> 16 \<le> B \<and> B \<le> 31"
    and "(A * 256 + B) * 256 + C = 12582912 \<longleftrightarrow> A = 192 \<and> B = 0 \<and> C = 0"
    and "(A * 256 + B) * 256 + C = 12582914 \<longleftrightarrow> A = 192 \<and> B = 0 \<and> C = 2"
    and "A * 256 + B = 49320 \<longleftrightarrow> A = 192 \<and> B = 168"
    and "(A * 256 + B) div 2 = 25353 \<longleftrightarrow> A = 198 \<and> B div 2 = 9"
    and "(A * 256 + B) * 256 + C = 12989284 \<longleftrightarrow> A = 198 \<and> B = 51 \<and> C = 100"
    and "(A * 256 + B) * 256 + C = 13303921 \<longleftrightarrow> A = 203 \<and> B = 0 \<and> C = 113"
    and "A div 16 = 14 \<longleftrightarrow> 224 \<le> A \<and> A \<le> 239"
    and "A div 16 = 15 \<longleftrightarrow> 240 \<le> A"
proof -
  have q: "B div 64 < 4" "B div 16 < 16" "B div 2 < 128" using assms(2) by simp_all
  show "(A * 256 + B) div 64 = 401 \<longleftrightarrow> A = 100 \<and> B div 64 = 1"
    using div_digits[of 64 A 4 B] two_digits[OF q(1), of A 401] by simp
  show "(A * 256 + B) div 16 = 2753 \<longleftrightarrow> A = 172 \<and> 16 \<le> B \<and> B \<le> 31"
    using div_digits[of 16 A 16 B] two_digits[OF q(2), of A 2753] by (auto simp: div_iff)
  show "(A * 256 + B) div 2 = 25353 \<longleftrightarrow> A = 198 \<and> B div 2 = 9"
    using div_digits[of 2 A 128 B] two_digits[OF q(3), of A 25353] by simp
  show "A * 256 + B = 43518 \<longleftrightarrow> A = 169 \<and> B = 254" "A * 256 + B = 49320 \<longleftrightarrow> A = 192 \<and> B = 168"
    using two_digits[OF assms(2), of A] by simp_all
  show "(A * 256 + B) * 256 + C = 12582912 \<longleftrightarrow> A = 192 \<and> B = 0 \<and> C = 0"
    "(A * 256 + B) * 256 + C = 12582914 \<longleftrightarrow> A = 192 \<and> B = 0 \<and> C = 2"
    "(A * 256 + B) * 256 + C = 12989284 \<longleftrightarrow> A = 198 \<and> B = 51 \<and> C = 100"
    "(A * 256 + B) * 256 + C = 13303921 \<longleftrightarrow> A = 203 \<and> B = 0 \<and> C = 113"
    unfolding two_digits[OF assms(3)] using two_digits[OF assms(2), of A] by simp_all
  show "A div 16 = 14 \<longleftrightarrow> 224 \<le> A \<and> A \<le> 239" "A div 16 = 15 \<longleftrightarrow> 240 \<le> A"
    using assms(1) by (auto simp: div_iff)
qed

lemma blocked_nat:
  fixes a b c d :: byte
  defines "A \<equiv> unat a" and "B \<equiv> unat b" and "C \<equiv> unat c"
  shows "list_ex (in_block (v4_num a b c d)) blocked_v4 \<longleftrightarrow>
    A = 0 \<or> A = 10 \<or> (A = 100 \<and> B div 64 = 1) \<or> A = 127 \<or> (A = 169 \<and> B = 254)
    \<or> (A = 172 \<and> 16 \<le> B \<and> B \<le> 31) \<or> (A = 192 \<and> B = 0 \<and> C = 0) \<or> (A = 192 \<and> B = 0 \<and> C = 2)
    \<or> (A = 192 \<and> B = 168) \<or> (A = 198 \<and> B div 2 = 9) \<or> (A = 198 \<and> B = 51 \<and> C = 100)
    \<or> (A = 203 \<and> B = 0 \<and> C = 113) \<or> (224 \<le> A \<and> A \<le> 239) \<or> 240 \<le> A"
proof -
  let ?n = "v4_num a b c d"
  have lt: "A < 256" "B < 256" "C < 256" by (simp_all add: A_def B_def C_def unat_less_bytes)
  have d: "?n div 2 ^ 24 = A" "?n div 2 ^ 16 = A * 256 + B" "?n div 2 ^ 8 = (A * 256 + B) * 256 + C"
    using v4_num_div[of a b c d] by (simp_all add: A_def B_def C_def)
  have d': "?n div 2 ^ 22 = (A * 256 + B) div 64" "?n div 2 ^ 20 = (A * 256 + B) div 16"
    "?n div 2 ^ 17 = (A * 256 + B) div 2" "?n div 2 ^ 28 = A div 16"
    using div_mult2_eq[of ?n "2 ^ 16" 64] div_mult2_eq[of ?n "2 ^ 16" 16] div_mult2_eq[of ?n "2 ^ 16" 2]
      div_mult2_eq[of ?n "2 ^ 24" 16] unfolding d by simp_all
  note bb = block_bits[OF lt]
  have x0: "in_block ?n (dotted 0 0 0 0, 8) \<longleftrightarrow> A = 0"
    unfolding in_block_def prod.case using d(1) by (simp add: dotted_def)
  have x1: "in_block ?n (dotted 10 0 0 0, 8) \<longleftrightarrow> A = 10"
    unfolding in_block_def prod.case using d(1) by (simp add: dotted_def)
  have x2: "in_block ?n (dotted 100 64 0 0, 10) \<longleftrightarrow> A = 100 \<and> B div 64 = 1"
    unfolding in_block_def prod.case using d'(1) bb(1) by (simp add: dotted_def)
  have x3: "in_block ?n (dotted 127 0 0 0, 8) \<longleftrightarrow> A = 127"
    unfolding in_block_def prod.case using d(1) by (simp add: dotted_def)
  have x4: "in_block ?n (dotted 169 254 0 0, 16) \<longleftrightarrow> A = 169 \<and> B = 254"
    unfolding in_block_def prod.case using d(2) bb(2) by (simp add: dotted_def)
  have x5: "in_block ?n (dotted 172 16 0 0, 12) \<longleftrightarrow> A = 172 \<and> 16 \<le> B \<and> B \<le> 31"
    unfolding in_block_def prod.case using d'(2) bb(3) by (simp add: dotted_def)
  have x6: "in_block ?n (dotted 192 0 0 0, 24) \<longleftrightarrow> A = 192 \<and> B = 0 \<and> C = 0"
    unfolding in_block_def prod.case using d(3) bb(4) by (simp add: dotted_def)
  have x7: "in_block ?n (dotted 192 0 2 0, 24) \<longleftrightarrow> A = 192 \<and> B = 0 \<and> C = 2"
    unfolding in_block_def prod.case using d(3) bb(5) by (simp add: dotted_def)
  have x8: "in_block ?n (dotted 192 168 0 0, 16) \<longleftrightarrow> A = 192 \<and> B = 168"
    unfolding in_block_def prod.case using d(2) bb(6) by (simp add: dotted_def)
  have x9: "in_block ?n (dotted 198 18 0 0, 15) \<longleftrightarrow> A = 198 \<and> B div 2 = 9"
    unfolding in_block_def prod.case using d'(3) bb(7) by (simp add: dotted_def)
  have x10: "in_block ?n (dotted 198 51 100 0, 24) \<longleftrightarrow> A = 198 \<and> B = 51 \<and> C = 100"
    unfolding in_block_def prod.case using d(3) bb(8) by (simp add: dotted_def)
  have x11: "in_block ?n (dotted 203 0 113 0, 24) \<longleftrightarrow> A = 203 \<and> B = 0 \<and> C = 113"
    unfolding in_block_def prod.case using d(3) bb(9) by (simp add: dotted_def)
  have x12: "in_block ?n (dotted 224 0 0 0, 4) \<longleftrightarrow> 224 \<le> A \<and> A \<le> 239"
    unfolding in_block_def prod.case using d'(4) bb(10) by (simp add: dotted_def)
  have x13: "in_block ?n (dotted 240 0 0 0, 4) \<longleftrightarrow> 240 \<le> A"
    unfolding in_block_def prod.case using d'(4) bb(11) by (simp add: dotted_def)
  show ?thesis
    unfolding blocked_v4_def list_ex_Cons_iff list_ex_Nil_iff x0 x1 x2 x3 x4 x5 x6 x7 x8 x9 x10 x11 x12 x13 by (simp only: simp_thms)
qed

lemma byte_consts:
  "unat (0 :: byte) = 0"
  "unat (2 :: byte) = 2"
  "unat (10 :: byte) = 10"
  "unat (16 :: byte) = 16"
  "unat (31 :: byte) = 31"
  "unat (51 :: byte) = 51"
  "unat (100 :: byte) = 100"
  "unat (113 :: byte) = 113"
  "unat (127 :: byte) = 127"
  "unat (168 :: byte) = 168"
  "unat (169 :: byte) = 169"
  "unat (172 :: byte) = 172"
  "unat (192 :: byte) = 192"
  "unat (198 :: byte) = 198"
  "unat (203 :: byte) = 203"
  "unat (224 :: byte) = 224"
  "unat (239 :: byte) = 239"
  "unat (240 :: byte) = 240"
  "unat (254 :: byte) = 254"
  by simp_all

lemma disj_order:
  "(u \<Longrightarrow> z) \<Longrightarrow> (w \<Longrightarrow> r) \<Longrightarrow>
   ((p10 \<or> p172 \<or> p192) \<or> p127 \<or> p169 \<or> mc \<or> u \<or> z \<or> w \<or> (d1 \<or> d2 \<or> d3) \<or> cgn \<or> r \<or> bm \<or> ie) \<longleftrightarrow>
   (z \<or> p10 \<or> cgn \<or> p127 \<or> p169 \<or> p172 \<or> ie \<or> d1 \<or> p192 \<or> bm \<or> d2 \<or> d3 \<or> mc \<or> r)"
  by blast

lemma forbidden_v4_unat:
  "forbidden_v4 a b c d \<longleftrightarrow> list_ex (in_block (v4_num a b c d)) blocked_v4"
proof -
  have u: "v4_unspecified a b c d \<Longrightarrow> unat a = 0" and w: "v4_broadcast a b c d \<Longrightarrow> 240 \<le> unat a"
    by (auto simp: v4_unspecified_def v4_broadcast_def)
  have eq: "forbidden_v4 a b c d \<longleftrightarrow>
     (unat a = 10 \<or> (unat a = 172 \<and> 16 \<le> unat b \<and> unat b \<le> 31) \<or> (unat a = 192 \<and> unat b = 168))
     \<or> unat a = 127 \<or> (unat a = 169 \<and> unat b = 254) \<or> (224 \<le> unat a \<and> unat a \<le> 239)
     \<or> v4_unspecified a b c d \<or> unat a = 0 \<or> v4_broadcast a b c d
     \<or> ((unat a = 192 \<and> unat b = 0 \<and> unat c = 2) \<or> (unat a = 198 \<and> unat b = 51 \<and> unat c = 100)
        \<or> (unat a = 203 \<and> unat b = 0 \<and> unat c = 113))
     \<or> (unat a = 100 \<and> unat b div 64 = 1) \<or> 240 \<le> unat a \<or> (unat a = 198 \<and> unat b div 2 = 9)
     \<or> (unat a = 192 \<and> unat b = 0 \<and> unat c = 0)"
    unfolding forbidden_v4_def v4_private.simps v4_loopback_def v4_link_local_def v4_multicast_def
      v4_documentation_def byte_masks
    unfolding word_unat_eq_iff word_le_nat_alt
    by (simp only: byte_consts)
  show ?thesis unfolding eq blocked_nat by (rule disj_order[OF u w])
qed

lemma v6_allowed:
  "\<not> is_forbidden_ip (V6 s0 s1 s2 s3 s4 s5 s6 s7) \<longleftrightarrow>
     0x2000 \<le> unat s0 \<and> unat s0 < 0x4000 \<and>
     (s0 = 0x2001 \<longrightarrow> s1 \<noteq> 0x0db8 \<and> 0x0200 \<le> s1) \<and>
     (s0 = 0x2002 \<longrightarrow> \<not> is_forbidden_ip (case v4_of_segs s1 s2 of (a, b, c, d) \<Rightarrow> V4 a b c d))"
proof -
  have iv: "unat s0 div 2 ^ 13 = 1 \<longleftrightarrow> 0x2000 \<le> unat s0 \<and> unat s0 < 0x4000"
    by (subst div_iff) auto
  show ?thesis
  proof (cases "0x2000 \<le> unat s0 \<and> unat s0 < 0x4000")
    case False
    then have "\<not> is_global_unicast_v6 s0 s1" unfolding is_global_unicast_v6_def seg_masks iv by blast
    then have "is_forbidden_ip (V6 s0 s1 s2 s3 s4 s5 s6 s7)" unfolding is_forbidden_ip.simps by blast
    with False show ?thesis by blast
  next
    case True
    then have n: "s0 \<noteq> 0" "s0 \<noteq> 0x0064" "\<not> unat s0 div 2 ^ 8 = 255" "\<not> unat s0 div 2 ^ 9 = 126"
      "\<not> unat s0 div 2 ^ 6 = 1018" "\<not> unat s0 div 2 ^ 6 = 1019"
      by (auto simp: div_iff)
    have g: "is_global_unicast_v6 s0 s1 \<longleftrightarrow> (s0 = 0x2001 \<longrightarrow> s1 \<noteq> 0x0db8 \<and> 0x0200 \<le> s1)"
      using True iv unfolding is_global_unicast_v6_def seg_masks by blast
    have m: "to_ipv4_mapped s0 s1 s2 s3 s4 s5 s6 s7 = None" using n(1) by simp
    have e: "embedded_v4 s0 s1 s2 s3 s4 s5 s6 s7 = (if s0 = 0x2002 then Some (v4_of_segs s1 s2) else None)"
      using n(1,2) by simp
    have f: "forbidden_opt (Some p) = is_forbidden_ip (case p of (a, b, c, d) \<Rightarrow> V4 a b c d)" for p
      by (cases p) (simp add: forbidden_opt_def)
    have f0: "\<not> forbidden_opt None" by (simp add: forbidden_opt_def)
    have o: "\<not> is_unique_local s0" "\<not> is_link_local_v6 s0" "\<not> is_site_local_v6 s0"
      "\<not> is_local_use_nat64 s0 s1 s2" "\<not> s0 AND 0xff00 = 0xff00"
      using n unfolding is_unique_local_def is_link_local_v6_def is_site_local_v6_def
        is_local_use_nat64_def seg_masks by blast+
    show ?thesis unfolding is_forbidden_ip.simps m e g using n(1) o f[of "v4_of_segs s1 s2"] f0 True
      by (cases "s0 = 0x2002") (simp_all only: simp_thms if_True if_False, blast+)
  qed
qed

section \<open>The guard is the table\<close>

lemma guard_cases:
  "(k1 \<Longrightarrow> k2 \<Longrightarrow> False) \<Longrightarrow>
   (\<not> (\<not> l \<and> u \<and> (k1 \<longrightarrow> \<not> a \<and> \<not> b) \<and> (k2 \<longrightarrow> \<not> p))) =
   (l \<or> \<not> u \<or> (if k1 then a \<or> b else if k2 then p else False))"
  by auto

text \<open>
  C18: The egress guard rejects an IPv4 address exactly when it lies in a block of the table (private,
  loopback, link-local, shared, documentation, benchmarking, protocol-assignment, multicast and reserved
  space). It lets an IPv6 address through exactly when it is in 2000::/3, outside the documentation and
  IETF-assignment blocks under 2001::/16 and, for a 6to4 address, the IPv4 address embedded in it is let
  through; no mapped, NAT64, unique-local, link-local or loopback address is.
\<close>

theorem egress_guard_is_the_table:
  "is_forbidden_ip ip \<longleftrightarrow>
    (case ip of
       V4 a b c d \<Rightarrow> list_ex (in_block (v4_num a b c d)) blocked_v4
     | V6 s0 s1 s2 s3 s4 s5 s6 s7 \<Rightarrow>
         unat s0 < 0x2000 \<or> 0x4000 \<le> unat s0 \<or>
         (if s0 = 0x2001 then s1 = 0x0db8 \<or> s1 < 0x0200
          else if s0 = 0x2002 then (case v4_of_segs s1 s2 of (a, b, c, d) \<Rightarrow>
             list_ex (in_block (v4_num a b c d)) blocked_v4)
          else False))"
proof (cases ip)
  case (V4 a b c d)
  then show ?thesis by (simp only: is_forbidden_ip.simps forbidden_v4_unat ip_addr.case)
next
  case (V6 s0 s1 s2 s3 s4 s5 s6 s7)
  obtain a b c d where q: "v4_of_segs s1 s2 = (a, b, c, d)" by (cases "v4_of_segs s1 s2")
  let ?P = "list_ex (in_block (v4_num a b c d)) blocked_v4"
  have A: "is_forbidden_ip ip \<longleftrightarrow> \<not> (0x2000 \<le> unat s0 \<and> unat s0 < 0x4000 \<and>
     (s0 = 0x2001 \<longrightarrow> \<not> s1 = 0x0db8 \<and> 0x0200 \<le> s1) \<and> (s0 = 0x2002 \<longrightarrow> \<not> ?P))"
    using v6_allowed[of s0 s1 s2 s3 s4 s5 s6 s7]
    unfolding V6 q prod.case is_forbidden_ip.simps(1) forbidden_v4_unat by blast
  have ne: "(0x2001 :: seg) \<noteq> 0x2002" by simp
  show ?thesis unfolding V6 A[unfolded V6] ip_addr.case q prod.case
    unfolding not_less[symmetric] by (rule guard_cases) (use ne in simp)
qed

end
