(* ===== verification/F64.thy ===== *)
theory F64
  imports Prelude "HOL-Library.Log_Nat"
begin

text \<open>
  The \<open>f64\<close> values and operations the sources compute with: finite values as the rationals they denote,
  the two infinities and NaN. A result is rounded to the nearest multiple of its binary exponent's unit
  (53 significant bits, ties to even, the subnormal unit at the bottom) and overflows to an infinity.
  Zero has one sign here; no source tests the sign of a zero. The transcendental functions
  (\<open>tan\<close>, \<open>asinh\<close>) have no specified precision in Rust and are arguments of the definitions that
  use them. What is proved is that rounding, and so every operation with a constant, is monotone.
\<close>

datatype f64 = Fin rat | PInf | NInf | NaN

fun is_finite :: "f64 \<Rightarrow> bool" where
  "is_finite (Fin r) = True"
| "is_finite _ = False"

fun fle :: "f64 \<Rightarrow> f64 \<Rightarrow> bool" where
  "fle (Fin a) (Fin b) = (a \<le> b)"
| "fle NaN _ = False"
| "fle _ NaN = False"
| "fle NInf _ = True"
| "fle _ PInf = True"
| "fle _ _ = False"

definition feq :: "f64 \<Rightarrow> f64 \<Rightarrow> bool" where "feq a b \<longleftrightarrow> a \<noteq> NaN \<and> a = b"
definition flt :: "f64 \<Rightarrow> f64 \<Rightarrow> bool" where "flt a b \<longleftrightarrow> fle a b \<and> a \<noteq> b"

text \<open>\<open>f64::max\<close> and \<open>f64::min\<close> return the other operand when one is NaN.\<close>

definition fmax :: "f64 \<Rightarrow> f64 \<Rightarrow> f64" where
  "fmax a b = (if a = NaN then b else if b = NaN then a else if fle a b then b else a)"
definition fmin :: "f64 \<Rightarrow> f64 \<Rightarrow> f64" where
  "fmin a b = (if a = NaN then b else if b = NaN then a else if fle a b then a else b)"

section \<open>Rounding\<close>

definition round_even :: "rat \<Rightarrow> int" where
  "round_even r =
     (let f = \<lfloor>r\<rfloor>; d = r - of_int f
      in if d < 1 / 2 then f else if 1 / 2 < d then f + 1 else if even f then f else f + 1)"

definition bin_exp :: "rat \<Rightarrow> int" where
  "bin_exp r =
     (let (p, q) = quotient_of \<bar>r\<bar>;
          e = int (floorlog 2 (nat p)) - int (floorlog 2 (nat q))
      in if 2 powi e \<le> \<bar>r\<bar> then e else e - 1)"

definition unit_exp :: "rat \<Rightarrow> int" where
  "unit_exp r = max (bin_exp r - 52) (- 1074)"

definition round_f64 :: "rat \<Rightarrow> rat" where
  "round_f64 r = (if r = 0 then 0 else of_int (round_even (r / 2 powi unit_exp r)) * 2 powi unit_exp r)"

definition to_f64 :: "rat \<Rightarrow> f64" where
  "to_f64 r = (let v = round_f64 r in if 2 ^ 1024 \<le> v then PInf else if v \<le> - (2 ^ 1024) then NInf else Fin v)"

fun fneg :: "f64 \<Rightarrow> f64" where
  "fneg (Fin a) = Fin (- a)"
| "fneg PInf = NInf"
| "fneg NInf = PInf"
| "fneg NaN = NaN"

fun fabs :: "f64 \<Rightarrow> f64" where
  "fabs (Fin a) = Fin \<bar>a\<bar>"
| "fabs NaN = NaN"
| "fabs _ = PInf"

fun fadd :: "f64 \<Rightarrow> f64 \<Rightarrow> f64" where
  "fadd (Fin a) (Fin b) = to_f64 (a + b)"
| "fadd NaN _ = NaN"
| "fadd _ NaN = NaN"
| "fadd PInf NInf = NaN"
| "fadd NInf PInf = NaN"
| "fadd (Fin _) b = b"
| "fadd a _ = a"

definition fsub :: "f64 \<Rightarrow> f64 \<Rightarrow> f64" where "fsub a b = fadd a (fneg b)"

text \<open>Multiplication and division by a positive finite constant, the only uses.\<close>

fun fmul_const :: "f64 \<Rightarrow> rat \<Rightarrow> f64" where
  "fmul_const (Fin a) c = to_f64 (a * c)"
| "fmul_const a c = a"

fun fdiv_const :: "f64 \<Rightarrow> rat \<Rightarrow> f64" where
  "fdiv_const (Fin a) c = to_f64 (a / c)"
| "fdiv_const a c = a"

text \<open>\<open>x.floor() as i64\<close>: the cast saturates and sends NaN to zero.\<close>

fun floor_i64 :: "f64 \<Rightarrow> int" where
  "floor_i64 (Fin a) = sat_i64 \<lfloor>a\<rfloor>"
| "floor_i64 PInf = i64_max"
| "floor_i64 NInf = i64_min"
| "floor_i64 NaN = 0"

section \<open>Rounding is monotone\<close>

lemma round_even_bounds: "\<lfloor>r\<rfloor> \<le> round_even r" "round_even r \<le> \<lfloor>r\<rfloor> + 1"
  by (simp_all add: round_even_def Let_def)

lemma round_even_mono: "x \<le> y \<Longrightarrow> round_even x \<le> round_even y"
proof (cases "\<lfloor>x\<rfloor> = \<lfloor>y\<rfloor>")
  case True
  assume "x \<le> y"
  with True show ?thesis by (auto simp: round_even_def Let_def)
next
  case False
  assume "x \<le> y"
  then have "\<lfloor>x\<rfloor> \<le> \<lfloor>y\<rfloor>" by (rule floor_mono)
  with False round_even_bounds(2)[of x] round_even_bounds(1)[of y] show ?thesis by linarith
qed

lemma round_even_int [simp]: "round_even (of_int n) = n"
  by (simp add: round_even_def)

lemma round_even_le_int: "x \<le> of_int n \<Longrightarrow> round_even x \<le> n"
  using round_even_mono[of x "of_int n"] by simp

lemma round_even_ge_int: "of_int n \<le> x \<Longrightarrow> n \<le> round_even x"
  using round_even_mono[of "of_int n" x] by simp

lemma round_even_minus: "round_even (- x) = - round_even x"
proof (cases "x = of_int \<lfloor>x\<rfloor>")
  case True
  then show ?thesis by (metis of_int_minus round_even_int)
next
  case False
  have f: "\<lfloor>- x\<rfloor> = - \<lfloor>x\<rfloor> - 1"
    using False by (metis add.commute ceiling_altdef floor_minus minus_add_distrib uminus_add_conv_diff)
  show ?thesis unfolding round_even_def f Let_def by (auto simp: field_simps)
qed

lemma floorlog_bounds:
  assumes "0 < n" shows "2 ^ (floorlog 2 n - 1) \<le> n" "n < 2 ^ floorlog 2 n" "0 < floorlog 2 n"
  using floorlog_bounds[of n 2] assms floorlog_ge_SucI[of 2 0 n] by auto

lemma powi_mono: "a \<le> b \<Longrightarrow> (2 :: rat) powi a \<le> 2 powi b"
  by (rule power_int_increasing) simp_all

lemma powi_less_iff: "(2 :: rat) powi a < 2 powi b \<longleftrightarrow> a < b"
  by (meson linorder_not_le one_less_numeral_iff powi_mono power_int_strict_increasing semiring_norm(76))

lemma bin_exp_bounds:
  assumes "r \<noteq> 0"
  shows "2 powi bin_exp r \<le> \<bar>r\<bar>" "\<bar>r\<bar> < 2 powi (bin_exp r + 1)"
proof -
  obtain p q where pq: "quotient_of \<bar>r\<bar> = (p, q)" by (cases "quotient_of \<bar>r\<bar>")
  have q0: "0 < q" using quotient_of_denom_pos[OF pq] .
  have rpq: "\<bar>r\<bar> = of_int p / of_int q" using quotient_of_div[OF pq] .
  have p0: "0 < p" using rpq q0 assms by (metis abs_le_zero_iff divide_nonpos_pos not_le of_int_0_less_iff of_int_le_0_iff)
  define A where "A = int (floorlog 2 (nat p))"
  define B where "B = int (floorlog 2 (nat q))"
  have bits: "(2 :: rat) powi (int (floorlog 2 (nat n)) - 1) \<le> of_int n \<and>
      of_int n < (2 :: rat) powi int (floorlog 2 (nat n))" if "0 < n" for n :: int
  proof -
    note f = floorlog_bounds[of "nat n"]
    have n: "(of_int n :: rat) = of_nat (nat n)" using that by simp
    have "int (floorlog 2 (nat n)) - 1 = int (floorlog 2 (nat n) - 1)" using f(3) that by simp
    then have "(2 :: rat) powi (int (floorlog 2 (nat n)) - 1) = of_nat (2 ^ (floorlog 2 (nat n) - 1))"
      by (simp only: power_int_of_nat of_nat_power of_nat_numeral)
    moreover have "(2 :: rat) powi int (floorlog 2 (nat n)) = of_nat (2 ^ floorlog 2 (nat n))"
      by (simp only: power_int_of_nat of_nat_power of_nat_numeral)
    ultimately show ?thesis
      unfolding n using f that by (simp only: of_nat_le_iff of_nat_less_iff zero_less_nat_eq simp_thms)
  qed
  note bp = bits[OF p0, folded A_def] and bq = bits[OF q0, folded B_def]
  have lo: "2 powi (A - B - 1) \<le> \<bar>r\<bar>"
  proof -
    have "(2 :: rat) powi (A - B - 1) = 2 powi (A - 1) / 2 powi B"
      by (simp add: power_int_diff[symmetric] algebra_simps)
    also have "\<dots> \<le> of_int p / of_int q" using bp bq q0 p0 by (intro frac_le) auto
    finally show ?thesis using rpq by simp
  qed
  have hi: "\<bar>r\<bar> < 2 powi (A - B + 1)"
  proof -
    have "of_int p / of_int q < (2 :: rat) powi A / 2 powi (B - 1)"
      using bp bq p0 by (intro frac_less) auto
    also have "\<dots> = 2 powi (A - B + 1)"
      by (simp add: power_int_diff[symmetric] algebra_simps)
    finally show ?thesis using rpq by simp
  qed
  show "2 powi bin_exp r \<le> \<bar>r\<bar>" "\<bar>r\<bar> < 2 powi (bin_exp r + 1)"
    using lo hi by (auto simp: bin_exp_def pq A_def B_def Let_def)
qed

lemma bin_exp_mono:
  assumes "x \<noteq> 0" "\<bar>x\<bar> \<le> \<bar>y\<bar>" shows "bin_exp x \<le> bin_exp y"
proof -
  have y: "y \<noteq> 0" using assms by auto
  have "2 powi bin_exp x < (2 :: rat) powi (bin_exp y + 1)"
    using bin_exp_bounds(1)[OF assms(1)] assms(2) bin_exp_bounds(2)[OF y] by linarith
  then show ?thesis by (simp add: powi_less_iff)
qed

lemma bin_exp_minus [simp]: "bin_exp (- r) = bin_exp r" by (simp add: bin_exp_def)
lemma unit_exp_minus [simp]: "unit_exp (- r) = unit_exp r" by (simp add: unit_exp_def)

lemma round_f64_minus: "round_f64 (- r) = - round_f64 r"
  by (simp add: round_f64_def round_even_minus flip: minus_divide_left)

lemma round_f64_nonneg: "0 \<le> r \<Longrightarrow> 0 \<le> round_f64 r"
  using round_even_ge_int[of 0] by (simp add: round_f64_def)

lemma round_f64_mono_pos:
  assumes "0 < x" "x \<le> y" shows "round_f64 x \<le> round_f64 y"
proof -
  let ?u = "unit_exp x" and ?v = "unit_exp y"
  have e: "bin_exp x \<le> bin_exp y" using assms by (intro bin_exp_mono) auto
  show ?thesis
  proof (cases "?u = ?v")
    case True
    have "x / 2 powi ?u \<le> y / 2 powi ?u" using assms(2) by (simp add: divide_right_mono)
    from round_even_mono[OF this] True assms show ?thesis
      by (simp add: round_f64_def mult_right_mono)
  next
    case False
    have uv: "?u < bin_exp y - 52" "?v = bin_exp y - 52" "bin_exp x - 52 \<le> ?u"
      using False e by (auto simp: unit_exp_def max_def split: if_splits)
    let ?E = "bin_exp y"
    have xb: "x \<le> 2 powi ?E"
    proof -
      have "x < 2 powi (bin_exp x + 1)" using bin_exp_bounds(2)[of x] assms by simp
      also have "\<dots> \<le> 2 powi ?E" using uv by (intro powi_mono) linarith
      finally show ?thesis by simp
    qed
    have split: "(2 :: rat) powi ?E = of_int (2 ^ nat (?E - k)) * 2 powi k" if "k \<le> ?E" for k
    proof -
      have "(2 :: rat) powi ?E = 2 powi (?E - k) * 2 powi k" by (simp flip: power_int_add)
      then show ?thesis using that by (simp add: power_int_def)
    qed
    have "x / 2 powi ?u \<le> of_int (2 ^ nat (?E - ?u))"
      using xb split[of ?u] uv by (simp add: pos_divide_le_eq)
    from round_even_le_int[OF this]
    have "of_int (round_even (x / 2 powi ?u)) * 2 powi ?u \<le> (of_int (2 ^ nat (?E - ?u)) :: rat) * 2 powi ?u"
      by (intro mult_right_mono) (simp_all del: of_int_power)
    also have "\<dots> = 2 powi ?E" using split[of ?u] uv by simp
    also have "\<dots> = (of_int (2 ^ nat (?E - ?v)) :: rat) * 2 powi ?v" using split[of ?v] uv by simp
    also have "\<dots> \<le> of_int (round_even (y / 2 powi ?v)) * 2 powi ?v"
    proof -
      have "2 powi ?E \<le> y" using bin_exp_bounds(1)[of y] assms by simp
      then have "of_int (2 ^ nat (?E - ?v)) \<le> y / 2 powi ?v"
        using split[of ?v] uv by (simp add: pos_le_divide_eq)
      from round_even_ge_int[OF this] show ?thesis
        by (intro mult_right_mono) (simp_all del: of_int_power)
    qed
    finally show ?thesis using assms by (simp add: round_f64_def)
  qed
qed

lemma round_f64_mono: "x \<le> y \<Longrightarrow> round_f64 x \<le> round_f64 y"
proof -
  assume le: "x \<le> y"
  consider "0 < x" | "x \<le> 0" "0 \<le> y" | "y < 0" by linarith
  then show ?thesis
  proof cases
    case 1 with le show ?thesis by (rule_tac round_f64_mono_pos)
  next
    case 2
    have "round_f64 x \<le> 0" using round_f64_nonneg[of "- x"] 2 by (simp add: round_f64_minus)
    with round_f64_nonneg[of y] 2 show ?thesis by linarith
  next
    case 3
    with le round_f64_mono_pos[of "- y" "- x"] show ?thesis by (simp add: round_f64_minus)
  qed
qed

lemma to_f64_mono: "x \<le> y \<Longrightarrow> fle (to_f64 x) (to_f64 y)"
  using round_f64_mono[of x y] by (auto simp: to_f64_def Let_def)

lemma to_f64_not_nan [simp]: "to_f64 x \<noteq> NaN"
  by (simp add: to_f64_def Let_def)

lemma fle_refl: "a \<noteq> NaN \<Longrightarrow> fle a a" by (cases a) simp_all
lemma fle_not_nan: "fle a b \<Longrightarrow> a \<noteq> NaN \<and> b \<noteq> NaN" by (cases a; cases b) simp_all
lemma fle_trans: "fle a b \<Longrightarrow> fle b c \<Longrightarrow> fle a c" by (cases a; cases b; cases c) simp_all

lemma fle_inf [simp]: "a \<noteq> NaN \<Longrightarrow> fle a PInf" "a \<noteq> NaN \<Longrightarrow> fle NInf a"
  by (cases a; simp)+

lemma fadd_const_mono: "fle a b \<Longrightarrow> fle (fadd a (Fin c)) (fadd b (Fin c))"
  by (cases a; cases b) (auto simp: to_f64_mono) 

lemma fmul_const_mono: "0 < c \<Longrightarrow> fle a b \<Longrightarrow> fle (fmul_const a c) (fmul_const b c)"
  by (cases a; cases b) (auto intro: to_f64_mono mult_right_mono)

lemma fdiv_const_mono: "0 < c \<Longrightarrow> fle a b \<Longrightarrow> fle (fdiv_const a c) (fdiv_const b c)"
  by (cases a; cases b) (auto intro!: to_f64_mono divide_right_mono)

lemma floor_i64_mono: "fle a b \<Longrightarrow> floor_i64 a \<le> floor_i64 b"
proof (cases "\<exists>x y. a = Fin x \<and> b = Fin y")
  case True
  assume "fle a b"
  with True show ?thesis by (auto intro!: sat_i64_mono floor_mono)
next
  case False
  assume "fle a b"
  with False show ?thesis
    by (cases a; cases b) (auto simp: sat_i64_def i64_min_def i64_max_def)
qed

end
