(* ===== verification/Source.thy ===== *)
theory Source
  imports Ssrf F64
begin

text \<open>
  The chart source (\<open>container/tilecache/src/source.rs\<close>): its record, the time windows it narrows, and
  the validation of a pushed catalog entry. \<open>reqwest::Url\<close> is a package: its parser is the argument
  \<open>parse_url\<close>, a function to the parts of a URL the code reads.
\<close>

definition MAX_TITLE_BYTES :: nat where "MAX_TITLE_BYTES = 256"
definition MAX_ATTRIBUTION_BYTES :: nat where "MAX_ATTRIBUTION_BYTES = 16 * 1024"
definition MAX_URL_BYTES :: nat where "MAX_URL_BYTES = 4 * 1024"
definition MAX_COVERAGE_BOXES :: nat where "MAX_COVERAGE_BOXES = 64"
definition MAX_WMS_LAYER_BYTES :: nat where "MAX_WMS_LAYER_BYTES = 1024"
definition MAX_WMS_STYLE_BYTES :: nat where "MAX_WMS_STYLE_BYTES = 1024"
definition MAX_WMS_FORMAT_BYTES :: nat where "MAX_WMS_FORMAT_BYTES = 128"
definition MAX_ALLOWED_HOSTS :: nat where "MAX_ALLOWED_HOSTS = 32"
definition MAX_HOST_BYTES :: nat where "MAX_HOST_BYTES = 253"

type_synonym bbox = "f64 \<times> f64 \<times> f64 \<times> f64"

datatype upstream_template =
    Xyz string
  | Wmts string
  | Wms string string string string string bool  \<comment> \<open>base, layers, styles, version, format, transparent\<close>
  | Arcgis string
  | Style string "string list"  \<comment> \<open>style url, allowed hosts\<close>

record chart_source =
  src_id :: string
  src_title :: string
  upstream :: upstream_template
  tile_size :: nat
  minzoom :: nat
  maxzoom :: nat
  vector_maxzoom :: "nat option"
  bounds :: "bbox option"
  coverage :: "bbox list option"
  max_age_seconds :: "nat option"
  attribution :: string

section \<open>Windows\<close>

definition is_volatile :: "chart_source \<Rightarrow> bool" where
  "is_volatile s \<longleftrightarrow> max_age_seconds s \<noteq> None"

text \<open>\<open>i64::try_from(ttl).unwrap_or(i64::MAX)\<close> for a \<open>u64\<close>.\<close>

definition clamped_to_ttl :: "chart_source \<Rightarrow> int \<Rightarrow> int" where
  "clamped_to_ttl s default_secs =
     (case max_age_seconds s of
        Some ttl \<Rightarrow> min default_secs (if int ttl \<le> i64_max then int ttl else i64_max)
      | None \<Rightarrow> default_secs)"

definition fresh_secs :: "chart_source \<Rightarrow> int \<Rightarrow> int" where "fresh_secs s d = clamped_to_ttl s d"
definition max_stale_secs :: "chart_source \<Rightarrow> int \<Rightarrow> int" where "max_stale_secs s d = clamped_to_ttl s d"

section \<open>Text\<close>

definition contains_any :: "string \<Rightarrow> string \<Rightarrow> bool" where
  "contains_any s cs \<longleftrightarrow> list_ex (\<lambda>c. c \<in> set cs) s"

definition valid_bounded_text :: "string \<Rightarrow> nat \<Rightarrow> bool \<Rightarrow> bool" where
  "valid_bounded_text v max_bytes allow_empty \<longleftrightarrow>
     length v \<le> max_bytes \<and> ((allow_empty \<and> v = []) \<or> trim v \<noteq> [])
     \<and> \<not> list_ex (\<lambda>c. is_control c \<and> c \<notin> set [CHR 0x09, CHR 0x0A, CHR 0x0D]) v"

definition valid_query_value :: "string \<Rightarrow> nat \<Rightarrow> bool \<Rightarrow> bool" where
  "valid_query_value v max_bytes allow_empty \<longleftrightarrow>
     valid_bounded_text v max_bytes allow_empty
     \<and> \<not> list_ex (\<lambda>c. is_whitespace c \<or> is_control c) v
     \<and> \<not> contains_any v ''&?#+''"

definition is_separator :: "char \<Rightarrow> bool" where
  "is_separator c \<longleftrightarrow> c = CHR ''.'' \<or> c = CHR ''_'' \<or> c = CHR ''-''"

text \<open>The \<open>try_fold\<close> over the bytes: the state says whether the last byte was a separator.\<close>

fun id_fold :: "bool \<Rightarrow> string \<Rightarrow> bool option" where
  "id_fold separator [] = Some separator"
| "id_fold separator (c # cs) =
     (if is_ascii_lowercase c \<or> is_ascii_digit c then id_fold False cs
      else if is_separator c \<and> \<not> separator then id_fold True cs
      else None)"

definition valid_source_id :: "string \<Rightarrow> bool" where
  "valid_source_id v \<longleftrightarrow>
     v \<noteq> [] \<and> length v \<le> 256 \<and> (is_ascii_lowercase (hd v) \<or> is_ascii_digit (hd v))
     \<and> id_fold False v = Some False"

section \<open>Hosts and URLs\<close>

record parsed_url =
  scheme :: string
  username :: string
  password :: "string option"
  host_str :: "string option"
  port :: "nat option"
  query :: "string option"
  fragment :: "string option"

definition trim_brackets :: "string \<Rightarrow> string" where
  "trim_brackets h =
     rev (dropWhile (\<lambda>c. c = CHR ''['' \<or> c = CHR '']'')
       (rev (dropWhile (\<lambda>c. c = CHR ''['' \<or> c = CHR '']'') h)))"

definition host_as_ip :: "string \<Rightarrow> ip_addr option" where
  "host_as_ip h = parse_ip (trim_brackets h)"

fun ip_is_loopback :: "ip_addr \<Rightarrow> bool" where
  "ip_is_loopback (V4 a b c d) = v4_loopback a"
| "ip_is_loopback (V6 s0 s1 s2 s3 s4 s5 s6 s7) \<longleftrightarrow>
     s0 = 0 \<and> s1 = 0 \<and> s2 = 0 \<and> s3 = 0 \<and> s4 = 0 \<and> s5 = 0 \<and> s6 = 0 \<and> s7 = 1"

text \<open>\<open>rsplit_once('.')\<close>: the text after the last dot, if there is a dot.\<close>

definition after_last_dot :: "string \<Rightarrow> string option" where
  "after_last_dot h = (if CHR ''.'' \<in> set h then Some (rev (takeWhile (\<lambda>c. c \<noteq> CHR ''.'') (rev h))) else None)"

definition is_loopback_host :: "string \<Rightarrow> bool" where
  "is_loopback_host h \<longleftrightarrow>
     eq_ignore_ascii_case h ''localhost''
     \<or> (case after_last_dot h of Some l \<Rightarrow> eq_ignore_ascii_case l ''localhost'' | None \<Rightarrow> False)
     \<or> (case host_as_ip h of Some ip \<Rightarrow> ip_is_loopback ip | None \<Rightarrow> False)"

definition matches_package_url_shape :: "parsed_url \<Rightarrow> bool" where
  "matches_package_url_shape u \<longleftrightarrow>
     port u = None \<and>
     (case host_str u of
        Some h \<Rightarrow> host_as_ip h = None \<and> \<not> is_loopback_host h \<and> h \<noteq> []
      | None \<Rightarrow> False)"

definition valid_upstream_url :: "(string \<Rightarrow> parsed_url option) \<Rightarrow> string \<Rightarrow> bool \<Rightarrow> parsed_url option" where
  "valid_upstream_url parse_url v allow_http =
     (if v = [] \<or> MAX_URL_BYTES < length v \<or> CHR ''#'' \<in> set v
         \<or> list_ex (\<lambda>c. is_control c \<or> is_whitespace c) v
      then None
      else case parse_url v of
          None \<Rightarrow> None
        | Some u \<Rightarrow>
          let local_http = (scheme u = ''http'' \<and> allow_http
                \<and> (case host_str u of Some h \<Rightarrow> is_loopback_host h | None \<Rightarrow> False))
          in if (scheme u = ''https'' \<or> local_http) \<and> (local_http \<or> matches_package_url_shape u)
                \<and> host_str u \<noteq> None \<and> username u = [] \<and> password u = None \<and> fragment u = None
             then Some u else None)"

definition clean_base_url :: "(string \<Rightarrow> parsed_url option) \<Rightarrow> string \<Rightarrow> bool \<Rightarrow> bool" where
  "clean_base_url parse_url v allow_http \<longleftrightarrow>
     CHR ''?'' \<notin> set v \<and>
     (case valid_upstream_url parse_url v allow_http of Some u \<Rightarrow> query u = None | None \<Rightarrow> False)"

text \<open>\<open>str::matches(pat).count()\<close> and \<open>str::replace\<close>: left to right, not overlapping.\<close>

function count_matches :: "string \<Rightarrow> string \<Rightarrow> nat" where
  "count_matches pat s =
     (if pat = [] \<or> s = [] then 0
      else if starts_with s pat then 1 + count_matches pat (drop (length pat) s)
      else count_matches pat (tl s))"
  by pat_completeness auto
termination by (relation "measure (\<lambda>(pat, s). length s)") auto

function replace_all :: "string \<Rightarrow> string \<Rightarrow> string \<Rightarrow> string" where
  "replace_all pat rep s =
     (if pat = [] \<or> s = [] then s
      else if starts_with s pat then rep @ replace_all pat rep (drop (length pat) s)
      else hd s # replace_all pat rep (tl s))"
  by pat_completeness auto
termination by (relation "measure (\<lambda>(pat, rep, s). length s)") auto

declare count_matches.simps [simp del] replace_all.simps [simp del]

text \<open>\<open>split_once("://")\<close>, the part behind.\<close>

fun after_scheme :: "string \<Rightarrow> string option" where
  "after_scheme [] = None"
| "after_scheme (c # cs) = (if starts_with (c # cs) ''://'' then Some (drop 3 (c # cs)) else after_scheme cs)"

definition host_has_token :: "string \<Rightarrow> bool" where
  "host_has_token v =
     (case after_scheme v of
        Some rest \<Rightarrow> contains_any (takeWhile (\<lambda>c. c \<notin> set ''/?#'') rest) ''{}''
      | None \<Rightarrow> False)"

definition expand_zxy :: "string \<Rightarrow> string \<Rightarrow> string \<Rightarrow> string \<Rightarrow> string" where
  "expand_zxy v z x y = replace_all ''{y}'' y (replace_all ''{x}'' x (replace_all ''{z}'' z v))"

definition valid_template :: "(string \<Rightarrow> parsed_url option) \<Rightarrow> string \<Rightarrow> bool \<Rightarrow> bool" where
  "valid_template parse_url v allow_http =
     (if host_has_token v \<or> \<not> list_all (\<lambda>token. count_matches token v = 1) [''{z}'', ''{x}'', ''{y}'']
      then False
      else let expanded = expand_zxy v ''0'' ''0'' ''0''
           in \<not> contains_any expanded ''{}'' \<and> valid_upstream_url parse_url expanded allow_http \<noteq> None)"

definition valid_host :: "string \<Rightarrow> bool \<Rightarrow> bool" where
  "valid_host v allow_local \<longleftrightarrow>
     v \<noteq> [] \<and> length v \<le> MAX_HOST_BYTES \<and> \<not> list_ex (\<lambda>c. is_whitespace c \<or> is_control c) v
     \<and> \<not> contains_any v ''/@?#:''
     \<and> (allow_local \<or> (host_as_ip v = None \<and> \<not> is_loopback_host v))"

section \<open>Boxes and the whole source\<close>

definition in_closed :: "int \<Rightarrow> int \<Rightarrow> f64 \<Rightarrow> bool" where
  "in_closed lo hi v \<longleftrightarrow> fle (Fin (of_int lo)) v \<and> fle v (Fin (of_int hi))"

definition valid_source_bbox :: "bbox \<Rightarrow> bool" where
  "valid_source_bbox = (\<lambda>(west, south, east, north).
     is_finite west \<and> is_finite south \<and> is_finite east \<and> is_finite north
     \<and> in_closed (- 180) 180 west \<and> in_closed (- 180) 180 east
     \<and> in_closed (- 90) 90 south \<and> in_closed (- 90) 90 north
     \<and> \<not> feq west east
     \<and> \<not> (flt east west \<and> feq (fabs (fsub west east)) (Fin 360))
     \<and> flt south north)"

fun all_prefixes_distinct :: "string list \<Rightarrow> string list \<Rightarrow> bool" where
  "all_prefixes_distinct seen [] = True"
| "all_prefixes_distinct seen (h # hs) \<longleftrightarrow>
     \<not> list_ex (eq_ignore_ascii_case h) seen \<and> all_prefixes_distinct (seen @ [h]) hs"

fun valid_upstream :: "(string \<Rightarrow> parsed_url option) \<Rightarrow> bool \<Rightarrow> upstream_template \<Rightarrow> bool" where
  "valid_upstream pu allow_http (Xyz t) = valid_template pu t allow_http"
| "valid_upstream pu allow_http (Wmts t) = valid_template pu t allow_http"
| "valid_upstream pu allow_http (Wms base layers styles version format transparent) \<longleftrightarrow>
     clean_base_url pu base allow_http \<and> valid_query_value layers MAX_WMS_LAYER_BYTES False
     \<and> valid_query_value styles MAX_WMS_STYLE_BYTES True \<and> version = ''1.3.0''
     \<and> valid_query_value format MAX_WMS_FORMAT_BYTES False"
| "valid_upstream pu allow_http (Arcgis base) = clean_base_url pu base allow_http"
| "valid_upstream pu allow_http (Style style_url allowed_hosts) =
     (case valid_upstream_url pu style_url allow_http of
        None \<Rightarrow> False
      | Some u \<Rightarrow>
        (case host_str u of
           None \<Rightarrow> False
         | Some style_host \<Rightarrow>
             allowed_hosts \<noteq> [] \<and> length allowed_hosts \<le> MAX_ALLOWED_HOSTS
             \<and> list_all (\<lambda>h. valid_host h allow_http) allowed_hosts
             \<and> all_prefixes_distinct [] allowed_hosts
             \<and> list_ex (\<lambda>h. eq_ignore_ascii_case h style_host) allowed_hosts))"

definition is_valid :: "(string \<Rightarrow> parsed_url option) \<Rightarrow> chart_source \<Rightarrow> bool \<Rightarrow> bool" where
  "is_valid pu s allow_http =
     (if \<not> valid_source_id (src_id s)
         \<or> \<not> valid_bounded_text (src_title s) MAX_TITLE_BYTES False
         \<or> \<not> valid_bounded_text (attribution s) MAX_ATTRIBUTION_BYTES True
         \<or> tile_size s \<notin> {256, 512}
         \<or> maxzoom s < minzoom s
         \<or> 24 < maxzoom s
         \<or> (case vector_maxzoom s of Some z \<Rightarrow> z < minzoom s \<or> maxzoom s < z | None \<Rightarrow> False)
         \<or> max_age_seconds s = Some 0
         \<or> (case bounds s of Some b \<Rightarrow> \<not> valid_source_bbox b | None \<Rightarrow> False)
         \<or> (case coverage s of
              Some bs \<Rightarrow> bs = [] \<or> MAX_COVERAGE_BOXES < length bs \<or> list_ex (\<lambda>b. \<not> valid_source_bbox b) bs
            | None \<Rightarrow> False)
      then False
      else valid_upstream pu allow_http (upstream s))"

section \<open>The source id grammar\<close>

text \<open>The reference: words of lower-case letters and digits, joined by single separators.\<close>

fun id_words :: "string \<Rightarrow> string list" where
  "id_words [] = [[]]"
| "id_words (c # cs) =
     (if is_separator c then [] # id_words cs
      else (case id_words cs of [] \<Rightarrow> [[c]] | w # ws \<Rightarrow> (c # w) # ws))"

definition id_word :: "string \<Rightarrow> bool" where
  "id_word w \<longleftrightarrow> w \<noteq> [] \<and> list_all (\<lambda>c. is_ascii_lowercase c \<or> is_ascii_digit c) w"

lemma id_words_ne: "id_words s \<noteq> []"
  by (induction s) (auto split: list.split)

lemma sep_not_word: "is_separator c \<Longrightarrow> \<not> (is_ascii_lowercase c \<or> is_ascii_digit c)"
  by (auto simp: is_separator_def is_ascii_lowercase_def is_ascii_digit_def code_def)

lemma id_fold_words:
  "id_fold sep s = Some False \<longleftrightarrow>
     (case id_words s of w # ws \<Rightarrow>
        (if sep then id_word w else list_all (\<lambda>c. is_ascii_lowercase c \<or> is_ascii_digit c) w) \<and> list_all id_word ws
      | [] \<Rightarrow> False)"
proof (induction s arbitrary: sep)
  case Nil
  then show ?case by (simp add: id_word_def)
next
  case (Cons c s)
  obtain w ws where w: "id_words s = w # ws" using id_words_ne by (cases "id_words s") blast+
  show ?case
  proof (cases "is_separator c")
    case True
    with sep_not_word[OF True] Cons.IH[of True] w show ?thesis by (simp add: id_word_def)
  next
    case False
    with Cons.IH[of False] w show ?thesis by (auto simp: id_word_def)
  qed
qed

lemma valid_source_id_words:
  "valid_source_id s \<longleftrightarrow> length s \<le> 256 \<and> list_all id_word (id_words s)"
proof (cases s)
  case Nil
  then show ?thesis by (simp add: valid_source_id_def id_word_def)
next
  case (Cons c cs)
  obtain w ws where w: "id_words cs = w # ws" using id_words_ne by (cases "id_words cs") blast+
  show ?thesis
    using id_fold_words[of False s] Cons w sep_not_word[of c]
    by (auto simp: valid_source_id_def id_word_def)
qed

section \<open>Properties\<close>

text \<open>
  An accepted source id is at most 256 bytes and consists of one or more words of lower-case letters
  and digits joined by single dots, underscores or hyphens, and every such string is accepted: no empty
  word, so no leading, trailing or doubled separator, and nothing that could leave a path segment.
\<close>

theorem source_id_grammar:
  "valid_source_id s \<longleftrightarrow> length s \<le> 256 \<and> list_all id_word (id_words s)"
  by (rule valid_source_id_words)

text \<open>A URL the production guard accepts: HTTPS, a host name that is neither an address nor loopback.\<close>

definition public_url :: "parsed_url \<Rightarrow> bool" where
  "public_url u \<longleftrightarrow> scheme u = ''https'' \<and> port u = None \<and> username u = [] \<and> password u = None
     \<and> fragment u = None
     \<and> (case host_str u of Some h \<Rightarrow> h \<noteq> [] \<and> host_as_ip h = None \<and> \<not> is_loopback_host h | None \<Rightarrow> False)"

lemma valid_upstream_url_public:
  "valid_upstream_url pu v False = Some u \<Longrightarrow> pu v = Some u \<and> public_url u \<and> v \<noteq> [] \<and> length v \<le> MAX_URL_BYTES"
  by (auto simp: valid_upstream_url_def public_url_def matches_package_url_shape_def Let_def
      split: if_splits option.splits)

lemma clean_base_public:
  "clean_base_url pu v False \<Longrightarrow> \<exists>u. pu v = Some u \<and> public_url u \<and> query u = None"
  by (auto simp: clean_base_url_def dest: valid_upstream_url_public split: option.splits)

lemma valid_template_public:
  "valid_template pu t False \<Longrightarrow> \<exists>u. pu (expand_zxy t ''0'' ''0'' ''0'') = Some u \<and> public_url u"
  by (auto simp: valid_template_def Let_def dest: valid_upstream_url_public split: if_splits)


definition ex_url :: "string \<Rightarrow> parsed_url option" where
  "ex_url v = (if starts_with v ''https://tiles.example/''
     then Some \<lparr>scheme = ''https'', username = [], password = None, host_str = Some ''tiles.example'',
       port = None, query = None, fragment = None\<rparr> else None)"

definition ex_xyz :: chart_source where
  "ex_xyz = \<lparr>src_id = ''noaa'', src_title = ''NOAA'', upstream = Xyz ''https://tiles.example/{z}/{x}/{y}'',
     tile_size = 256, minzoom = 0, maxzoom = 18, vector_maxzoom = None, bounds = None, coverage = None,
     max_age_seconds = None, attribution = []\<rparr>"


text \<open>
  The freshness and staleness windows of a source never exceed the deployment's default nor the time
  to live the source declares, equal the default for a static source, and a declared lifetime, however
  large, never turns a non-negative default into a negative window.
\<close>

theorem windows_clamped:
  "fresh_secs s d \<le> d \<and> max_stale_secs s d = fresh_secs s d \<and>
   (case max_age_seconds s of None \<Rightarrow> fresh_secs s d = d \<and> \<not> is_volatile s
    | Some ttl \<Rightarrow> fresh_secs s d \<le> int ttl \<and> is_volatile s) \<and>
   min 0 d \<le> fresh_secs s d"
  by (auto simp: fresh_secs_def max_stale_secs_def clamped_to_ttl_def is_volatile_def i64_max_def
      split: option.split)

end
