(* ===== verification/Upstream.thy ===== *)
theory Upstream
  imports Source
begin

text \<open>
  The upstream URL of a tile (\<open>container/tilecache/src/upstream.rs\<close>). The projection arithmetic is that
  of \<open>F64\<close> (all its values are finite); the shortest-decimal \<open>Display\<close> of an \<open>f64\<close> is the argument
  \<open>display\<close>. Numbers are printed in decimal.
\<close>

definition ORIGIN :: rat where "ORIGIN = round_f64 (20037508342789244 / 1000000000)"
definition MAX_TILE_ZOOM_MIRROR :: nat where "MAX_TILE_ZOOM_MIRROR = 30"
definition RESIDUE_LIMIT_METERS :: rat where
  "RESIDUE_LIMIT_METERS = round_f64 (ORIGIN / 2 ^ MAX_TILE_ZOOM_MIRROR)"

fun dec :: "nat \<Rightarrow> string" where
  "dec n = (if n < 10 then [char_of (48 + n)] else dec (n div 10) @ [char_of (48 + n mod 10)])"

declare dec.simps [simp del]

definition bbox_number :: "(rat \<Rightarrow> string) \<Rightarrow> rat \<Rightarrow> string" where
  "bbox_number display v = (if \<bar>v\<bar> < RESIDUE_LIMIT_METERS then ''0'' else display v)"

definition without_trailing_slashes :: "string \<Rightarrow> string" where
  "without_trailing_slashes base = rev (dropWhile (\<lambda>c. c = CHR ''/'') (rev base))"

definition web_mercator_tile_bounds :: "nat \<Rightarrow> nat \<Rightarrow> nat \<Rightarrow> rat \<times> rat \<times> rat \<times> rat" where
  "web_mercator_tile_bounds z x y =
     (let size = round_f64 (round_f64 (2 * ORIGIN) / 2 ^ z);
          min_x = round_f64 (- ORIGIN + round_f64 (of_nat x * size));
          max_x = round_f64 (min_x + size);
          max_y = round_f64 (ORIGIN - round_f64 (of_nat y * size));
          min_y = round_f64 (max_y - size)
      in (min_x, min_y, max_x, max_y))"

definition bbox_str :: "(rat \<Rightarrow> string) \<Rightarrow> nat \<Rightarrow> nat \<Rightarrow> nat \<Rightarrow> string" where
  "bbox_str display z x y =
     (case web_mercator_tile_bounds z x y of (b0, b1, b2, b3) \<Rightarrow>
        bbox_number display b0 @ '','' @ bbox_number display b1 @ '','' @
        bbox_number display b2 @ '','' @ bbox_number display b3)"

text \<open>The rejections, by the case of the message.\<close>

datatype bad_request = Zoom_out_of_range nat string | Coordinate_out_of_range nat nat nat | Style_source string

text \<open>\<open>1u64.checked_shl(z).unwrap_or(0)\<close>\<close>

definition checked_span :: "nat \<Rightarrow> nat" where
  "checked_span z = (if z < 64 then 2 ^ z else 0)"

definition in_range :: "chart_source \<Rightarrow> nat \<Rightarrow> nat \<Rightarrow> nat \<Rightarrow> bad_request + unit" where
  "in_range source z x y =
     (if z < minzoom source \<or> maxzoom source < z then Inl (Zoom_out_of_range z (src_id source))
      else if checked_span z \<le> x \<or> checked_span z \<le> y then Inl (Coordinate_out_of_range x y z)
      else Inr ())"

definition show_bool :: "bool \<Rightarrow> string" where
  "show_bool b = (if b then ''true'' else ''false'')"

definition expand_upstream :: "(rat \<Rightarrow> string) \<Rightarrow> chart_source \<Rightarrow> nat \<Rightarrow> nat \<Rightarrow> nat \<Rightarrow> bad_request + string" where
  "expand_upstream display source z x y =
     (case upstream source of
        Xyz t \<Rightarrow> bindE (in_range source z x y) (\<lambda>_. Inr (expand_zxy t (dec z) (dec x) (dec y)))
      | Wmts t \<Rightarrow> bindE (in_range source z x y) (\<lambda>_. Inr (expand_zxy t (dec z) (dec x) (dec y)))
      | Wms base layers styles version format transparent \<Rightarrow>
          bindE (in_range source z x y) (\<lambda>_.
            let ts = dec (tile_size source)
            in Inr (without_trailing_slashes base @ ''?SERVICE=WMS&VERSION='' @ version @ ''&REQUEST=GetMap&LAYERS='' @
               layers @ ''&CRS=EPSG:3857&BBOX='' @ bbox_str display z x y @ ''&WIDTH='' @ ts @ ''&HEIGHT='' @ ts @
               ''&FORMAT='' @ format @ ''&TRANSPARENT='' @ show_bool transparent @ ''&STYLES='' @ styles))
      | Arcgis base \<Rightarrow>
          bindE (in_range source z x y) (\<lambda>_.
            let ts = dec (tile_size source)
            in Inr (without_trailing_slashes base @ ''/export?bbox='' @ bbox_str display z x y @
               ''&bboxSR=3857&imageSR=3857&size='' @ ts @ '','' @ ts @
               ''&dpi=96&format=png32&transparent=true&f=image''))
      | Style url hosts \<Rightarrow> Inl (Style_source (src_id source)))"

section \<open>Decimal numbers\<close>

fun undec :: "nat \<Rightarrow> string \<Rightarrow> nat" where
  "undec acc [] = acc"
| "undec acc (c # cs) = undec (acc * 10 + (code c - 48)) cs"

lemma undec_append: "undec acc (s @ t) = undec (undec acc s) t"
  by (induction s arbitrary: acc) simp_all

lemma code_digit: "d < 10 \<Longrightarrow> code (char_of (48 + d)) = 48 + d"
  by (simp add: code_def)

lemma undec_dec: "undec 0 (dec n) = n"
proof (induction n rule: dec.induct)
  case (1 n)
  show ?case
  proof (cases "n < 10")
    case True
    then show ?thesis by (simp add: dec.simps[of n] code_digit)
  next
    case False
    with 1 show ?thesis by (simp add: dec.simps[of n] undec_append code_digit)
  qed
qed

lemma dec_inject: "dec m = dec n \<longleftrightarrow> m = n"
  using undec_dec by metis

lemma dec_digits: "list_all is_ascii_digit (dec n) \<and> dec n \<noteq> []"
proof (induction n rule: dec.induct)
  case (1 n)
  have "is_ascii_digit (char_of (48 + n mod 10))" by (simp add: is_ascii_digit_def code_digit)
  with 1 show ?case by (cases "n < 10") (simp_all add: dec.simps[of n] is_ascii_digit_def code_digit)
qed

section \<open>Property\<close>

text \<open>
  For a source the container accepted, an upstream URL is built exactly for the tiles of its zooms
  that exist (both coordinates below two to the zoom) and never for a style source; every other request
  is rejected, for the first reason that applies.
\<close>

theorem expand_only_existing_tiles:
  assumes "is_valid pu source allow_http"
  shows "(\<exists>url. expand_upstream display source z x y = Inr url) \<longleftrightarrow>
      (case upstream source of Style u hs \<Rightarrow> False | _ \<Rightarrow> True) \<and>
      minzoom source \<le> z \<and> z \<le> maxzoom source \<and> x < 2 ^ z \<and> y < 2 ^ z"
    (is "?ok \<longleftrightarrow> ?tile")
proof -
  have mz: "maxzoom source \<le> 24" using assms by (auto simp: is_valid_def split: if_splits)
  have r: "in_range source z x y = Inr () \<longleftrightarrow>
      minzoom source \<le> z \<and> z \<le> maxzoom source \<and> x < 2 ^ z \<and> y < 2 ^ z"
    using mz by (auto simp: in_range_def checked_span_def)
  show ?thesis
  proof (cases "in_range source z x y")
    case (Inl e)
    with r show ?thesis by (auto simp: expand_upstream_def split: upstream_template.splits)
  next
    case (Inr u)
    with r show ?thesis by (auto simp: expand_upstream_def Let_def split: upstream_template.splits)
  qed
qed

lemma expand_only_existing_tiles_witness:
  "\<not> (\<exists>url. expand_upstream (\<lambda>_. []) ex_xyz 3 8 0 = Inr url)"
proof -
  have "is_valid ex_url ex_xyz False" by code_simp
  from expand_only_existing_tiles[OF this, of "\<lambda>_. []" 3 8 0] show ?thesis by simp
qed

end
