(* ===== verification/Response.thy ===== *)
theory Response
  imports Prelude Upstream
begin

text \<open>
  The response builder of a served tile (\<open>container/tilecache/src/response.rs\<close>) and the If-None-Match
  comparison of \<open>fetcher.rs\<close> it uses. Which strings are legal header values is the \<open>http\<close> package's
  rule: the argument \<open>legal\<close>.
\<close>

definition TILE_CACHE_CONTROL :: string where "TILE_CACHE_CONTROL = ''public, max-age=86400''"
definition STALE_TILE_CACHE_CONTROL :: string where
  "STALE_TILE_CACHE_CONTROL = ''public, max-age=0, must-revalidate''"

definition etag_opaque :: "string \<Rightarrow> string" where
  "etag_opaque v = (case strip_prefix ''W/'' (trim v) of Some t \<Rightarrow> t | None \<Rightarrow> trim v)"

definition etag_matches :: "string \<Rightarrow> string \<Rightarrow> bool" where
  "etag_matches header_value current \<longleftrightarrow>
     list_ex (\<lambda>c. c = ''*'' \<or> etag_opaque c = etag_opaque current)
       (map trim (split_char (CHR '','') header_value))"

text \<open>\<open>HeaderValue::try_from(...)\<close> of the formatted lifetime, with its fallback.\<close>

definition cache_control :: "(string \<Rightarrow> bool) \<Rightarrow> bool \<Rightarrow> nat option \<Rightarrow> string" where
  "cache_control legal stale max_age_secs =
     (if stale then STALE_TILE_CACHE_CONTROL
      else case max_age_secs of
          Some secs \<Rightarrow>
            let v = ''public, max-age='' @ dec secs in if legal v then v else STALE_TILE_CACHE_CONTROL
        | None \<Rightarrow> TILE_CACHE_CONTROL)"

text \<open>\<open>saturating_sub\<close> on \<open>i64\<close>, \<open>u64::try_from(..).unwrap_or(0)\<close>, then \<open>saturating_sub\<close> on \<open>u64\<close>.\<close>

definition remaining_max_age :: "nat option \<Rightarrow> int \<Rightarrow> int \<Rightarrow> nat option" where
  "remaining_max_age max_age_secs fetched now =
     (let d = sat_i64 (now - fetched); age = (if 0 \<le> d then nat d else 0)
      in map_option (\<lambda>ttl. ttl - age) max_age_secs)"

record http_response =
  http_status :: nat
  headers :: "(string \<times> string) list"
  body :: "byte list"

definition content_type_value :: "(string \<Rightarrow> bool) \<Rightarrow> string \<Rightarrow> string" where
  "content_type_value legal s = (if legal s then s else ''application/octet-stream'')"

definition insert_etag :: "(string \<Rightarrow> bool) \<Rightarrow> string \<Rightarrow> (string \<times> string) list \<Rightarrow> (string \<times> string) list" where
  "insert_etag legal etag h = (if legal etag then h @ [(''etag'', etag)] else h)"

definition stale_marker :: "bool \<Rightarrow> (string \<times> string) list" where
  "stale_marker stale = (if stale then [(''x-tilecache'', ''stale'')] else [])"

definition tile_http_response_with_max_age ::
  "(string \<Rightarrow> bool) \<Rightarrow> string \<Rightarrow> string \<Rightarrow> bool \<Rightarrow> byte list \<Rightarrow> string option \<Rightarrow> nat option \<Rightarrow> http_response" where
  "tile_http_response_with_max_age legal content_type etag stale content if_none_match max_age_secs =
     (if (case if_none_match of Some v \<Rightarrow> etag_matches v etag | None \<Rightarrow> False)
      then \<lparr>http_status = 304,
            headers = insert_etag legal etag [] @ [(''cache-control'', cache_control legal stale max_age_secs)]
              @ stale_marker stale,
            body = []\<rparr>
      else \<lparr>http_status = 200,
            headers = insert_etag legal etag [(''content-type'', content_type_value legal content_type)]
              @ [(''cache-control'', cache_control legal stale max_age_secs)] @ stale_marker stale,
            body = content\<rparr>)"

definition tile_http_response ::
  "(string \<Rightarrow> bool) \<Rightarrow> string \<Rightarrow> string \<Rightarrow> bool \<Rightarrow> byte list \<Rightarrow> string option \<Rightarrow> http_response" where
  "tile_http_response legal content_type etag stale content if_none_match =
     tile_http_response_with_max_age legal content_type etag stale content if_none_match None"

section \<open>Properties\<close>

text \<open>
  The lifetime granted to a browser and the time the container already held the bytes never add up
  to more than the source's time to live (zero is granted once it is used up), for every clock value
  whose difference fits \<open>i64\<close>; a static source grants none here.
\<close>

theorem lifetime_not_extended:
  assumes "fetched \<le> now" "now - fetched \<le> i64_max"
  shows "case remaining_max_age ttl fetched now of
      None \<Rightarrow> ttl = None
    | Some left \<Rightarrow> \<exists>t. ttl = Some t \<and> left \<le> t \<and> int left + (now - fetched) \<le> max (int t) (now - fetched)
        \<and> (left = 0 \<longleftrightarrow> int t \<le> now - fetched)"
proof -
  have "sat_i64 (now - fetched) = now - fetched"
    using assms by (intro sat_i64_id) (simp_all add: i64_min_def)
  then show ?thesis using assms(1) by (auto simp: remaining_max_age_def split: option.split)
qed

lemma lifetime_not_extended_witness:
  "remaining_max_age (Some 300) 1000 1200 = Some 100 \<and> int 100 + 200 \<le> max (300 :: int) 200"
  using lifetime_not_extended[of 1000 1200 "Some 300"]
  by (simp add: remaining_max_age_def sat_i64_def i64_max_def i64_min_def)

text \<open>
  A tile response is a 304 without a body exactly when the client's validator matches, and a 200
  with the body otherwise; a stale tile always carries the marker and a must-revalidate cache policy
  and a fresh one never does; an illegal ETag is left out rather than replaced.
\<close>

theorem tile_response_shape:
  "let r = tile_http_response_with_max_age legal ct etag stale b inm ttl;
       matched = (case inm of Some v \<Rightarrow> etag_matches v etag | None \<Rightarrow> False)
   in http_status r = (if matched then 304 else 200) \<and> body r = (if matched then [] else b) \<and>
      map_of (headers r) ''x-tilecache'' = (if stale then Some ''stale'' else None) \<and>
      map_of (headers r) ''etag'' = (if legal etag then Some etag else None) \<and>
      map_of (headers r) ''cache-control'' =
        Some (if stale then STALE_TILE_CACHE_CONTROL
              else case ttl of None \<Rightarrow> TILE_CACHE_CONTROL
                | Some t \<Rightarrow> if legal (''public, max-age='' @ dec t) then ''public, max-age='' @ dec t
                           else STALE_TILE_CACHE_CONTROL)"
  by (auto simp: tile_http_response_with_max_age_def insert_etag_def stale_marker_def cache_control_def Let_def
      split: option.split)

end
