(* ===== verification/Json.thy ===== *)
theory Json
  imports F64 "HOL-Library.AList"
begin

text \<open>
  The JSON values the program reads and writes (\<open>serde_json::Value\<close>): an object is the list of its fields,
  keys distinct, and a number is an unsigned, a negative or a floating one. Parsing and printing are the
  library's and appear as arguments where they are used.
\<close>

datatype json =
    JNull | JBool bool | JPos nat | JNeg int | JFloat f64 | JStr string
  | JArr "json list" | JObj "(string \<times> json) list"

fun jget :: "string \<Rightarrow> json \<Rightarrow> json option" where
  "jget k (JObj m) = map_of m k"
| "jget k _ = None"

fun as_str :: "json \<Rightarrow> string option" where
  "as_str (JStr s) = Some s"
| "as_str _ = None"

fun as_array :: "json \<Rightarrow> json list option" where
  "as_array (JArr xs) = Some xs"
| "as_array _ = None"

fun as_object :: "json \<Rightarrow> (string \<times> json) list option" where
  "as_object (JObj m) = Some m"
| "as_object _ = None"

fun as_u64 :: "json \<Rightarrow> nat option" where
  "as_u64 (JPos n) = Some n"
| "as_u64 _ = None"

text \<open>\<open>value[k]\<close>: \<open>Null\<close> when there is no such field.\<close>

definition jindex :: "string \<Rightarrow> json \<Rightarrow> json" where
  "jindex k v = (case jget k v of Some x \<Rightarrow> x | None \<Rightarrow> JNull)"

text \<open>A field replaced in place or added; the value is an object wherever the program writes one.\<close>

fun jset :: "string \<Rightarrow> json \<Rightarrow> json \<Rightarrow> json" where
  "jset k x (JObj m) = JObj (AList.update k x m)"
| "jset k x v = v"

fun jremove :: "string \<Rightarrow> json \<Rightarrow> json" where
  "jremove k (JObj m) = JObj (AList.delete k m)"
| "jremove k v = v"

lemma jget_jset: "jget k (jset k' x v) = (if k = k' \<and> as_object v \<noteq> None then Some x else jget k v)"
  by (cases v) (simp_all add: update_conv')

lemma jget_jremove: "jget k (jremove k' v) = (if k = k' then None else jget k v)"
  by (cases v) (simp_all add: delete_conv')

lemma as_object_jset [simp]: "as_object (jset k x v) = map_option (AList.update k x) (as_object v)"
  by (cases v) simp_all

lemma as_object_jremove [simp]: "as_object (jremove k v) = map_option (AList.delete k) (as_object v)"
  by (cases v) simp_all

end
