(* ===== verification/App_State.thy ===== *)
theory App_State
  imports Cache_Regions Health Inflight Response Json
begin

text \<open>
  The shared state of the service (\<open>AppState\<close> and \<open>Knobs\<close> in \<open>container/tilecache/src/state.rs\<close>), the
  guarded egress (\<open>guarded_get\<close>, \<open>read_capped_to\<close>) and the small operations on it. Locks, semaphores and
  notifications are the runtime's: a component that takes one appears here as an atomic step, a semaphore
  as its free permits. What an HTTP request returns is an argument.
\<close>

section \<open>Constants and knobs\<close>

definition EGRESS_CONCURRENCY :: nat where "EGRESS_CONCURRENCY = 8"
definition MAX_FILL_TASKS :: nat where "MAX_FILL_TASKS = 8"
definition MAX_TOUCH_TASKS :: nat where "MAX_TOUCH_TASKS = 16"
definition DEFAULT_MAX_BLOB_BYTES :: nat where "DEFAULT_MAX_BLOB_BYTES = 8 * 1024 * 1024"
definition MANAGED_MEMORY_LIMIT_BYTES :: nat where "MANAGED_MEMORY_LIMIT_BYTES = 512 * 1024 * 1024"
definition MAX_REQUEST_BODY_BYTES :: nat where "MAX_REQUEST_BODY_BYTES = 4 * 1024 * 1024"
definition MAX_ACTIVE_REQUESTS :: nat where "MAX_ACTIVE_REQUESTS = 6"

definition WARM_CONCURRENCY :: nat where "WARM_CONCURRENCY = 3"
definition MAX_ACTIVE_WARM_JOBS :: nat where "MAX_ACTIVE_WARM_JOBS = 2"
definition WARM_BATCH_BYTES :: nat where "WARM_BATCH_BYTES = 4 * 1024 * 1024"
definition MAX_RETAINED_WARM_BATCH_BYTES :: nat where
  "MAX_RETAINED_WARM_BATCH_BYTES = WARM_BATCH_BYTES + DEFAULT_MAX_BLOB_BYTES"
definition MAX_RETAINED_COMPLETED_WARM_RESULTS_BYTES :: nat where
  "MAX_RETAINED_COMPLETED_WARM_RESULTS_BYTES = WARM_CONCURRENCY * DEFAULT_MAX_BLOB_BYTES"

definition RETAINED_BODY_BUDGET_BYTES :: nat where
  "RETAINED_BODY_BUDGET_BYTES =
     MAX_ACTIVE_REQUESTS * MAX_REQUEST_BODY_BYTES + MAX_ACTIVE_REQUESTS * DEFAULT_MAX_BLOB_BYTES
     + MAX_FILL_TASKS * DEFAULT_MAX_BLOB_BYTES + EGRESS_CONCURRENCY * DEFAULT_MAX_BLOB_BYTES
     + MAX_ACTIVE_WARM_JOBS * MAX_RETAINED_WARM_BATCH_BYTES + MAX_RETAINED_COMPLETED_WARM_RESULTS_BYTES"

text \<open>The compile-time assertion of the source.\<close>

lemma retained_bodies_fit: "RETAINED_BODY_BUDGET_BYTES \<le> MANAGED_MEMORY_LIMIT_BYTES div 2"
  by (simp add: RETAINED_BODY_BUDGET_BYTES_def MANAGED_MEMORY_LIMIT_BYTES_def MAX_ACTIVE_REQUESTS_def
      MAX_REQUEST_BODY_BYTES_def DEFAULT_MAX_BLOB_BYTES_def MAX_FILL_TASKS_def EGRESS_CONCURRENCY_def
      MAX_ACTIVE_WARM_JOBS_def MAX_RETAINED_WARM_BATCH_BYTES_def WARM_BATCH_BYTES_def
      MAX_RETAINED_COMPLETED_WARM_RESULTS_BYTES_def WARM_CONCURRENCY_def)

record knobs =
  cap_bytes :: int
  max_blob_bytes :: nat
  negative_ttl_secs :: int
  kn_fresh_secs :: int
  kn_max_stale_secs :: int
  allow_private_egress :: bool
  scroll_ttl_secs :: int
  upstream_base_timeout_ms :: u64
  admission_wait_ms :: nat

definition default_knobs :: knobs where
  "default_knobs = \<lparr>cap_bytes = 2147483648, max_blob_bytes = DEFAULT_MAX_BLOB_BYTES, negative_ttl_secs = 600,
     kn_fresh_secs = 86400, kn_max_stale_secs = 30 * 86400, allow_private_egress = False,
     scroll_ttl_secs = 0, upstream_base_timeout_ms = 20000, admission_wait_ms = 30000\<rparr>"

section \<open>Warm jobs and the state\<close>

datatype warm_state = Running | Done | Cancelled | Capped | Error

record warm_job =
  wj_total :: nat
  wj_done :: nat
  wj_skipped :: nat
  wj_bytes :: int
  wj_errors :: nat
  wj_state :: warm_state
  wj_cancel :: bool
  wj_finished_at :: "int option"
  wj_region_id :: "string option"
  wj_created_at :: int
  wj_order :: nat

text \<open>What was learned from a style document (\<open>StyleState\<close>), and the geocoder's cache (\<open>GeocodeState\<close>).\<close>

record style_state =
  ss_glyphs :: "string option"
  ss_source_tiles :: "(string \<times> string list) list"
  ss_raster_sources :: "string set"
  ss_source_maxzoom :: "(string \<times> nat) list"
  ss_fontstacks :: "string list"
  ss_sprite_base :: "string option"
  ss_config_generation :: nat
  ss_generation :: nat
  ss_document :: json
  ss_fetched_at :: int
  ss_upstream_validator :: "string option"

record geocode_state =
  gc_last_request :: "int option"
  gc_cache :: "(string \<times> int \<times> byte list) list"

record app_state =
  cache :: tile_cache
  sources :: "string \<rightharpoonup> chart_source"
  public_base :: string
  style_states :: "(string \<times> style_state) list"
  knobs :: knobs
  flights :: inflight
  fill_permits :: nat
  touch_permits :: nat
  health :: upstream_health
  warm_jobs :: "(string \<times> warm_job) list"
  active_warm_regions :: "string list"
  warm_seq :: nat
  boot_id :: string
  live_cap_bytes :: int
  live_regions_budget :: int
  live_position_warm_budget :: int
  live_scroll_ttl_secs :: int
  configured :: bool
  config_generation :: nat
  control_token :: "string option"
  geocoding_enabled :: bool
  geocoder :: geocode_state
  shutdown_requested :: bool
  assets_warming :: bool
  warm_rejections :: nat
  config_pushes :: nat

definition on_cache :: "(tile_cache \<Rightarrow> 'a \<times> tile_cache) \<Rightarrow> app_state \<Rightarrow> 'a \<times> app_state" where
  "on_cache f st = (case f (cache st) of (r, c) \<Rightarrow> (r, st\<lparr>cache := c\<rparr>))"

text \<open>\<open>log_cache_err\<close>: an error of a cache call is only counted.\<close>

definition log_cache_err :: "(db_error + 'a) \<times> tile_cache \<Rightarrow> tile_cache" where
  "log_cache_err rc = (case rc of (Inl e, c) \<Rightarrow> record_operation_error c | (Inr _, c) \<Rightarrow> c)"

text \<open>\<open>cache_task\<close>: the value, or \<open>None\<close> with the failure counted (\<open>returned\<close>: the blocking task did).\<close>

definition cache_task :: "bool \<Rightarrow> (tile_cache \<Rightarrow> (db_error + 'a) \<times> tile_cache) \<Rightarrow> tile_cache \<Rightarrow> 'a option \<times> tile_cache" where
  "cache_task returned work c =
     (if \<not> returned then (None, record_operation_error c)
      else case work c of
          (Inr v, c') \<Rightarrow> (Some v, c')
        | (Inl e, c') \<Rightarrow> (None, record_operation_error c'))"

definition mark_configured :: "app_state \<Rightarrow> app_state" where
  "mark_configured st = st\<lparr>configured := True\<rparr>"

definition try_fill_permit :: "app_state \<Rightarrow> app_state option" where
  "try_fill_permit st =
     (if shutdown_requested st \<or> fill_permits st = 0 then None else Some (st\<lparr>fill_permits := fill_permits st - 1\<rparr>))"

record tile_windows =
  tw_fresh_secs :: int
  tw_max_stale_secs :: int
  tw_volatile :: bool

definition tile_windows_for :: "app_state \<Rightarrow> string \<Rightarrow> tile_windows" where
  "tile_windows_for st source_id =
     (let fresh = kn_fresh_secs (knobs st); stale = kn_max_stale_secs (knobs st)
      in case sources st source_id of
           None \<Rightarrow> \<lparr>tw_fresh_secs = fresh, tw_max_stale_secs = stale, tw_volatile = False\<rparr>
         | Some s \<Rightarrow> \<lparr>tw_fresh_secs = fresh_secs s fresh, tw_max_stale_secs = max_stale_secs s stale,
                      tw_volatile = is_volatile s\<rparr>)"

text \<open>A lookup on the blocking pool: whether the task returned, and what the call meets there.\<close>

record task =
  joined :: bool
  task_env :: cache_env

definition cache_get :: "task \<Rightarrow> tile_key \<Rightarrow> tile_cache \<Rightarrow> (db_error + cached_tile option) \<times> tile_cache" where
  "cache_get t k c = (if joined t then get (task_env t) k c else (Inl InvalidQuery, c))"

text \<open>\<open>cache_is_pinned\<close>: a failed lookup counts as not pinned.\<close>

definition cache_is_pinned :: "task \<Rightarrow> tile_key \<Rightarrow> tile_cache \<Rightarrow> bool" where
  "cache_is_pinned t k c \<longleftrightarrow> joined t \<and> (case is_pinned (task_env t) k c of Inr b \<Rightarrow> b | Inl _ \<Rightarrow> False)"

section \<open>Egress\<close>

datatype fetch_error = Timeout | Transport

record upstream_response =
  ur_status :: nat
  ur_content_type :: "string option"
  ur_etag :: "string option"
  ur_last_modified :: "string option"
  ur_declared :: "nat option"
  ur_chunks :: "byte list option list"

datatype send_result = Answered upstream_response | Send_timed_out | Send_failed

text \<open>
  The wire: the host of a URL as the \<open>url\<close> package parses it, whether the egress semaphore still grants
  permits, and the answer to a request (URL, conditional header, timeout in milliseconds), which may
  differ from one attempt to the next.
\<close>

record wire =
  host_of :: "string \<Rightarrow> string option"
  egress_open :: bool
  send :: "bool \<Rightarrow> string \<Rightarrow> (string \<times> string) option \<Rightarrow> u64 \<Rightarrow> send_result"
  clock :: "bool \<Rightarrow> int"

definition conditional_header :: "string option \<Rightarrow> (string \<times> string) option" where
  "conditional_header if_none_match =
     (case if_none_match of
        None \<Rightarrow> None
      | Some v \<Rightarrow>
          if starts_with v ''last-modified:''
          then Some (''if-modified-since'', (case strip_prefix ''last-modified:'' v of Some t \<Rightarrow> t | None \<Rightarrow> v))
          else Some (''if-none-match'', (case strip_prefix ''etag:'' v of Some t \<Rightarrow> t | None \<Rightarrow> v)))"

text \<open>\<open>attempt\<close> tells the two sends of a fetch apart.\<close>

definition guarded_get :: "wire \<Rightarrow> knobs \<Rightarrow> bool \<Rightarrow> string \<Rightarrow> string option \<Rightarrow> u64 \<Rightarrow> fetch_error + upstream_response" where
  "guarded_get w kn attempt url if_none_match timeout =
     (if \<not> allow_private_egress kn \<and> is_forbidden_ip_literal_url (host_of w) url then Inl Transport
      else if \<not> egress_open w then Inl Transport
      else case send w attempt url (conditional_header if_none_match) timeout of
          Answered r \<Rightarrow> Inr r
        | Send_timed_out \<Rightarrow> Inl Timeout
        | Send_failed \<Rightarrow> Inl Transport)"

text \<open>The chunks as they arrive; \<open>None\<close> in the list is a failed read.\<close>

fun read_chunks :: "nat \<Rightarrow> byte list \<Rightarrow> byte list option list \<Rightarrow> byte list option" where
  "read_chunks max_bytes buf [] = Some buf"
| "read_chunks max_bytes buf (None # cs) = None"
| "read_chunks max_bytes buf (Some c # cs) =
     (if max_bytes < length buf + length c then None else read_chunks max_bytes (buf @ c) cs)"

definition read_capped_to :: "nat \<Rightarrow> upstream_response \<Rightarrow> byte list option" where
  "read_capped_to max_bytes r =
     (if max_bytes < (case ur_declared r of Some n \<Rightarrow> n | None \<Rightarrow> 0) then None
      else read_chunks max_bytes [] (ur_chunks r))"

lemma read_chunks_bounded:
  "read_chunks m buf cs = Some b \<Longrightarrow> length buf \<le> m \<Longrightarrow> length b \<le> m"
  by (induction m buf cs rule: read_chunks.induct) (auto split: if_splits)

lemma read_capped_bounded: "read_capped_to m r = Some b \<Longrightarrow> length b \<le> m"
  using read_chunks_bounded[of m "[]"] by (auto simp: read_capped_to_def split: if_splits)

end
