(* ===== verification/Style_Assets.thy ===== *)
theory Style_Assets
  imports App_State
begin

text \<open>
  The assets of the style proxy (\<open>container/tilecache/src/style.rs\<close>): the cache keys of its glyphs, sprites and tiles, the glyph ranges, the checks on an
  asset's URL and body. JSON parsing (\<open>serde_json\<close>), percent encoding and URL parsing are packages and
  appear as arguments. Learning a style document is in \<open>Style\<close>, the routes are in \<open>Style_Routes\<close>.
\<close>

definition MAX_SPRITE_JSON_BYTES :: nat where "MAX_SPRITE_JSON_BYTES = 1024 * 1024"
definition MAX_STYLE_URL_BYTES :: nat where "MAX_STYLE_URL_BYTES = 4096"
definition MAX_LEARNED_STYLE_ENTRIES :: nat where "MAX_LEARNED_STYLE_ENTRIES = 4"

datatype style_asset_kind = Glyph | SpriteJson | SpritePng | VectorTile | RasterTile

definition valid_style_asset :: "(byte list \<Rightarrow> bool) \<Rightarrow> style_asset_kind \<Rightarrow> string \<Rightarrow> byte list \<Rightarrow> bool" where
  "valid_style_asset is_json_object kind ct b \<longleftrightarrow>
     (let media = map to_lower (trim (hd (split_char (CHR '';'') ct)))
      in case kind of
           Glyph \<Rightarrow> media \<in> {''application/x-protobuf'', ''application/vnd.mapbox-vector-tile''}
         | VectorTile \<Rightarrow> media \<in> {''application/x-protobuf'', ''application/vnd.mapbox-vector-tile''}
         | RasterTile \<Rightarrow> media \<in> {''image/png'', ''image/webp'', ''image/jpeg''}
         | SpritePng \<Rightarrow> media = ''image/png''
         | SpriteJson \<Rightarrow> media = ''application/json'' \<and> length b \<le> MAX_SPRITE_JSON_BYTES \<and> is_json_object b)"

section \<open>Cache keys\<close>

definition style_prefix :: "string \<Rightarrow> nat \<Rightarrow> string" where
  "style_prefix src generation = ''style:'' @ dec generation @ '':'' @ src @ '':''"

definition glyph_cache_source_at :: "string \<Rightarrow> string \<Rightarrow> nat \<Rightarrow> string" where
  "glyph_cache_source_at src fontstack generation = style_prefix src generation @ ''glyphs:'' @ fontstack"

definition sprite_cache_source_at :: "string \<Rightarrow> nat \<Rightarrow> string" where
  "sprite_cache_source_at src generation = style_prefix src generation @ ''sprite''"

definition vector_cache_source_at :: "string \<Rightarrow> string \<Rightarrow> nat \<Rightarrow> string" where
  "vector_cache_source_at src name generation = style_prefix src generation @ name"

definition SPRITE_VARIANTS :: "(nat \<times> string) list" where
  "SPRITE_VARIANTS = [(0, ''.json''), (1, ''.png''), (2, ''@2x.json''), (3, ''@2x.png'')]"

section \<open>Glyph ranges\<close>

definition strip_suffix :: "string \<Rightarrow> string \<Rightarrow> string option" where
  "strip_suffix p s = map_option rev (strip_prefix (rev p) (rev s))"

fun split_once :: "char \<Rightarrow> string \<Rightarrow> (string \<times> string) option" where
  "split_once c [] = None"
| "split_once c (x # xs) = (if x = c then Some ([], xs) else map_option (\<lambda>(a, b). (x # a, b)) (split_once c xs))"

text \<open>\<open>u32::from_str\<close>: digits, an optional plus sign, no overflow.\<close>

definition parse_u32 :: "string \<Rightarrow> nat option" where
  "parse_u32 s =
     (let t = (case s of [] \<Rightarrow> [] | c # cs \<Rightarrow> if c = CHR ''+'' then cs else s)
      in if t \<noteq> [] \<and> list_all is_ascii_digit t \<and> undec 0 t < 2 ^ 32 then Some (undec 0 t) else None)"

definition glyph_range :: "string \<Rightarrow> (nat \<times> string) option" where
  "glyph_range rg =
     (case strip_suffix ''.pbf'' rg of
        None \<Rightarrow> None
      | Some stem \<Rightarrow> (case split_once (CHR ''-'') stem of
          None \<Rightarrow> None
        | Some (a, b) \<Rightarrow> (case (parse_u32 a, parse_u32 b) of
            (Some start, Some stop) \<Rightarrow>
              if \<not> 256 dvd start \<or> 0x10ff00 < start \<or> stop \<noteq> start + 255 then None
              else Some (start, dec start @ ''-'' @ dec stop @ ''.pbf'')
          | _ \<Rightarrow> None)))"

definition expand_glyph_url :: "(string \<Rightarrow> string) \<Rightarrow> string \<Rightarrow> string \<Rightarrow> string \<Rightarrow> string" where
  "expand_glyph_url encode_fontstack template fontstack canonical_range =
     (let rg = (case strip_suffix ''.pbf'' canonical_range of Some r \<Rightarrow> r | None \<Rightarrow> canonical_range)
      in replace_all ''{range}'' rg (replace_all ''{fontstack}'' (encode_fontstack fontstack) template))"

text \<open>\<open>parse\<close> gives the parts of the URL and its serialisation.\<close>

definition style_url_allowed :: "(string \<Rightarrow> (parsed_url \<times> string) option) \<Rightarrow> string \<Rightarrow> string list \<Rightarrow> bool \<Rightarrow> bool" where
  "style_url_allowed parse url allowed_hosts allow_http \<longleftrightarrow>
     (case parse url of
        None \<Rightarrow> False
      | Some (p, serialised) \<Rightarrow>
          (scheme p = ''https'' \<or> (allow_http \<and> scheme p = ''http'')) \<and> username p = '''' \<and> password p = None
          \<and> length serialised \<le> MAX_STYLE_URL_BYTES
          \<and> (case host_str p of None \<Rightarrow> False | Some h \<Rightarrow> list_ex (\<lambda>a. eq_ignore_ascii_case a h) allowed_hosts))"

section \<open>The canonical range\<close>

lemma digits_no_dash: "CHR ''-'' \<notin> set (dec n)"
  using dec_digits[of n] by (auto simp: list_all_iff is_ascii_digit_def code_def)

lemma split_once_append: "c \<notin> set a \<Longrightarrow> split_once c (a @ c # b) = Some (a, b)"
  by (induction a) auto

lemma parse_u32_dec: "n < 2 ^ 32 \<Longrightarrow> parse_u32 (dec n) = Some n"
proof -
  assume n: "n < 2 ^ 32"
  obtain c cs where c: "dec n = c # cs" using dec_digits[of n] by (cases "dec n") auto
  have "c \<noteq> CHR ''+''" using dec_digits[of n] c by (auto simp: is_ascii_digit_def code_def)
  with c n dec_digits[of n] undec_dec[of n] show ?thesis by (simp add: parse_u32_def)
qed

lemma strip_suffix_append: "strip_suffix p (s @ p) = Some s"
  by (simp add: strip_suffix_def strip_prefix_def starts_with_def)

text \<open>The canonical text of a range is a fixed point: parsing it gives the same start and the same text.\<close>

lemma glyph_range_canonical:
  assumes "256 dvd start" "start \<le> 0x10ff00"
  shows "glyph_range (dec start @ ''-'' @ dec (start + 255) @ ''.pbf'')
    = Some (start, dec start @ ''-'' @ dec (start + 255) @ ''.pbf'')"
proof -
  have "strip_suffix ''.pbf'' (dec start @ ''-'' @ dec (start + 255) @ ''.pbf'') = Some (dec start @ CHR ''-'' # dec (start + 255))"
    using strip_suffix_append[of "''.pbf''" "dec start @ CHR ''-'' # dec (start + 255)"] by simp
  with assms show ?thesis
    by (simp add: glyph_range_def split_once_append[OF digits_no_dash] parse_u32_dec)
qed

lemma glyph_range_sound:
  assumes "glyph_range rg = Some (start, canon)"
  shows "256 dvd start" "start \<le> 0x10ff00" "canon = dec start @ ''-'' @ dec (start + 255) @ ''.pbf''"
  using assms by (auto simp: glyph_range_def split: option.splits if_splits prod.splits)

end
