(* ===== verification/Fetcher.thy ===== *)
theory Fetcher
  imports App_State
begin

text \<open>
  The read-through fetch path (\<open>container/tilecache/src/fetcher.rs\<close>): cache-first serving, one upstream
  fetch with a single retry after a timeout, the store of a 200, the negative cache of a 404 or 204, the
  revalidation of a stale row and the rule that says when a stale row may still be served. A detached
  task is a value of \<open>spawned\<close>, run later on whatever state it finds. What other tasks do to the state
  while a fill waits for its lock or for the upstream is a function of its environment. \<open>sha256\<close> is the
  digest of the \<open>sha2\<close> package and \<open>display\<close> prints an \<open>f64\<close>.
\<close>

section \<open>Content types and ETags\<close>

definition acceptable_content_type :: "string \<Rightarrow> bool" where
  "acceptable_content_type ct \<longleftrightarrow>
     map to_lower (trim (hd (split_char (CHR '';'') ct))) \<in>
       {''image/png'', ''image/jpeg'', ''image/webp'', ''image/avif'',
        ''application/x-protobuf'', ''application/vnd.mapbox-vector-tile''}"

definition is_safe_cached_200 :: "cached_tile \<Rightarrow> bool" where
  "is_safe_cached_200 t \<longleftrightarrow> status t = 200 \<and> acceptable_content_type (content_type t)"

definition TOUCH_THROTTLE_SECS :: int where "TOUCH_THROTTLE_SECS = 3600"

definition hex_char :: "nat \<Rightarrow> char" where
  "hex_char n = ''0123456789abcdef'' ! n"

definition content_etag :: "(byte list \<Rightarrow> byte list) \<Rightarrow> byte list \<Rightarrow> string" where
  "content_etag sha256 b =
     [CHR 0x22] @ concat (map (\<lambda>w. [hex_char (unat (drop_bit 4 w)), hex_char (unat (take_bit 4 w))]) (sha256 b)) @ [CHR 0x22]"

section \<open>Requests and outcomes\<close>

record fetched =
  f_content_type :: string
  f_validator :: "string option"
  f_body :: "byte list"

record tile_response =
  tr_status :: nat
  tr_content_type :: string
  tr_etag :: string
  tr_stale :: bool
  tr_body :: "byte list"
  tr_fetched_at :: int

datatype fetch_outcome =
    Hit tile_response
  | Not_modified string bool int  \<comment> \<open>etag, stale, fetched at\<close>
  | Empty nat
  | Not_allowed
  | Bad_request bad_request
  | Unavailable

record tile_lookup =
  tl_outcome :: fetch_outcome
  tl_max_age :: "nat option"

record fill_spec =
  fs_source :: string
  fs_z :: nat
  fs_x :: nat
  fs_y :: nat
  fs_url :: string
  fs_if_none_match :: "string option"

datatype spawned = Run_touch tile_key int | Run_fill fill_spec

definition spec_key :: "fill_spec \<Rightarrow> tile_key" where
  "spec_key s = (fs_source s, fs_z s, fs_x s, fs_y s)"

text \<open>\<open>format!("{source_id}/{z}/{x}/{y}")\<close>\<close>

definition inflight_key :: "tile_key \<Rightarrow> string" where
  "inflight_key k = (case k of (src, z, x, y) \<Rightarrow> src @ ''/'' @ dec z @ ''/'' @ dec x @ ''/'' @ dec y)"

definition as_u16 :: "int \<Rightarrow> nat" where "as_u16 n = nat (n mod 2 ^ 16)"

definition to_response :: "cached_tile \<Rightarrow> bool \<Rightarrow> tile_response" where
  "to_response t stale = \<lparr>tr_status = as_u16 (status t), tr_content_type = content_type t,
     tr_etag = strong_etag t, tr_stale = stale,
     tr_body = (case blob t of Some b \<Rightarrow> b | None \<Rightarrow> []), tr_fetched_at = fetched_at t\<rparr>"

definition matches_etag :: "string option \<Rightarrow> string \<Rightarrow> bool" where
  "matches_etag if_none_match etag \<longleftrightarrow> (case if_none_match of Some v \<Rightarrow> etag_matches v etag | None \<Rightarrow> False)"

definition respond_cached :: "cached_tile \<Rightarrow> string option \<Rightarrow> bool \<Rightarrow> fetch_outcome" where
  "respond_cached t if_none_match stale =
     (if matches_etag if_none_match (strong_etag t)
      then Not_modified (strong_etag t) stale (fetched_at t)
      else Hit (to_response t stale))"

section \<open>The upstream fetch\<close>

definition response_content_type :: "upstream_response \<Rightarrow> string" where
  "response_content_type r = (case ur_content_type r of Some ct \<Rightarrow> ct | None \<Rightarrow> ''application/octet-stream'')"

definition response_validator :: "upstream_response \<Rightarrow> string option" where
  "response_validator r =
     (case ur_etag r of
        Some e \<Rightarrow> Some (''etag:'' @ e)
      | None \<Rightarrow> map_option (\<lambda>l. ''last-modified:'' @ l) (ur_last_modified r))"

function fetch_loop :: "wire \<Rightarrow> knobs \<Rightarrow> string \<Rightarrow> string \<Rightarrow> string option \<Rightarrow> bool \<Rightarrow> upstream_health
    \<Rightarrow> (fetch_error + nat \<times> fetched) \<times> upstream_health" where
  "fetch_loop w kn src url if_none_match retried h =
     (case guarded_get w kn retried url if_none_match (timeout_ms h src) of
        Inr r \<Rightarrow>
          (case read_capped_to (max_blob_bytes kn) r of
             None \<Rightarrow> (Inl Transport, h)
           | Some b \<Rightarrow>
               (Inr (ur_status r, \<lparr>f_content_type = response_content_type r,
                                   f_validator = response_validator r, f_body = b\<rparr>),
                record_success src (clock w retried) h))
      | Inl Transport \<Rightarrow> (Inl Transport, h)
      | Inl Timeout \<Rightarrow>
          (if retried then (Inl Timeout, record_timeout src (clock w retried) h)
           else fetch_loop w kn src url if_none_match True (record_timeout src (clock w retried) h)))"
  by pat_completeness auto
termination by (relation "measure (\<lambda>(w, kn, src, url, inm, retried, h). if retried then 0 else 1)") auto

declare fetch_loop.simps [simp del]

definition fetch_upstream :: "wire \<Rightarrow> knobs \<Rightarrow> string \<Rightarrow> string \<Rightarrow> string option \<Rightarrow> upstream_health
    \<Rightarrow> (fetch_error + nat \<times> fetched) \<times> upstream_health" where
  "fetch_upstream w kn src url if_none_match h = fetch_loop w kn src url if_none_match False h"

section \<open>Storing\<close>

text \<open>\<open>run_cache_write\<close>: a task that does not return is only counted.\<close>

definition run_cache_write :: "bool \<Rightarrow> (tile_cache \<Rightarrow> tile_cache) \<Rightarrow> tile_cache \<Rightarrow> tile_cache" where
  "run_cache_write returned f c = (if returned then f c else record_operation_error c)"

text \<open>
  What a fill meets: the clock when it re-checks, when it stores and when it asks whether a stale row may
  be served; the environment of each of its cache calls; and the other tasks, while it waits for the
  lock and while the upstream answers.
\<close>

record fill_env =
  fe_now :: int
  fe_done :: int
  fe_stale :: int
  fe_lookup :: task
  fe_put :: task
  fe_evict :: cache_env
  fe_late :: task
  fe_pin :: task
  fe_waited :: "app_state \<Rightarrow> app_state"
  fe_others :: "app_state \<Rightarrow> app_state"

definition store_and_evict :: "fill_env \<Rightarrow> int \<Rightarrow> tile_key \<Rightarrow> cached_tile \<Rightarrow> int \<Rightarrow> tile_cache \<Rightarrow> tile_cache" where
  "store_and_evict env cap k t now c =
     run_cache_write (joined (fe_put env))
       (\<lambda>c. log_cache_err (evict_to (fe_evict env) cap
              (log_cache_err (put (task_env (fe_put env)) k t False now c)))) c"

definition fresh_tile :: "(byte list \<Rightarrow> byte list) \<Rightarrow> fetched \<Rightarrow> int \<Rightarrow> cached_tile" where
  "fresh_tile sha256 f now = \<lparr>content_type = f_content_type f, strong_etag = content_etag sha256 (f_body f),
     upstream_validator = f_validator f, status = 200, fetched_at = now, last_access = now,
     bytes = int (length (f_body f)), blob = Some (f_body f)\<rparr>"

definition store_200 :: "(byte list \<Rightarrow> byte list) \<Rightarrow> fill_env \<Rightarrow> tile_key \<Rightarrow> fetched \<Rightarrow> string option
    \<Rightarrow> app_state \<Rightarrow> fetch_outcome \<times> app_state" where
  "store_200 sha256 env k f if_none_match st =
     (if max_blob_bytes (knobs st) < length (f_body f) \<or> \<not> acceptable_content_type (f_content_type f)
      then (Unavailable, st)
      else
        let now = fe_done env;
            etag = content_etag sha256 (f_body f);
            st' = st\<lparr>cache := store_and_evict env (live_cap_bytes st) k (fresh_tile sha256 f now) now (cache st)\<rparr>
        in (if matches_etag if_none_match etag then Not_modified etag False now
            else Hit \<lparr>tr_status = 200, tr_content_type = f_content_type f, tr_etag = etag, tr_stale = False,
                      tr_body = f_body f, tr_fetched_at = now\<rparr>, st'))"

definition negative_cache :: "fill_env \<Rightarrow> tile_key \<Rightarrow> nat \<Rightarrow> app_state \<Rightarrow> fetch_outcome \<times> app_state" where
  "negative_cache env k sc st =
     (Empty sc, st\<lparr>cache := store_and_evict env (live_cap_bytes st) k (negative (int sc) (fe_done env)) (fe_done env) (cache st)\<rparr>)"

definition may_serve_stale :: "fill_env \<Rightarrow> tile_key \<Rightarrow> int \<Rightarrow> tile_windows \<Rightarrow> tile_cache \<Rightarrow> bool" where
  "may_serve_stale env k fetched windows c \<longleftrightarrow>
     fe_stale env - fetched < tw_max_stale_secs windows
     \<or> (\<not> tw_volatile windows \<and> cache_is_pinned (fe_pin env) k c)"

section \<open>The fill\<close>

text \<open>What the re-check under the lock serves without a fetch.\<close>

definition coalesced :: "knobs \<Rightarrow> tile_windows \<Rightarrow> int \<Rightarrow> string option \<Rightarrow> cached_tile option \<Rightarrow> fetch_outcome option" where
  "coalesced kn windows now if_none_match existing =
     (case existing of
        None \<Rightarrow> None
      | Some t \<Rightarrow>
          if is_safe_cached_200 t \<and> now - fetched_at t < tw_fresh_secs windows
          then Some (respond_cached t if_none_match False)
          else if status t \<noteq> 200 \<and> now - fetched_at t < negative_ttl_secs kn
          then Some (Empty (as_u16 (status t)))
          else None)"

definition refreshed :: "cached_tile \<Rightarrow> int \<Rightarrow> cached_tile" where
  "refreshed t now = t\<lparr>fetched_at := now, last_access := now\<rparr>"

text \<open>The stale 200: a 304 refreshes it, a 200 replaces it, anything else serves it while it may be.\<close>

definition revalidate :: "(byte list \<Rightarrow> byte list) \<Rightarrow> wire \<Rightarrow> fill_env \<Rightarrow> fill_spec \<Rightarrow> tile_windows \<Rightarrow> cached_tile
    \<Rightarrow> app_state \<Rightarrow> fetch_outcome \<times> app_state" where
  "revalidate sha256 w env spec windows t st =
     (case fetch_upstream w (knobs st) (fs_source spec) (fs_url spec) (upstream_validator t) (health st) of
        (res, h) \<Rightarrow>
          let st' = fe_others env (st\<lparr>health := h\<rparr>);
              failed = (if may_serve_stale env (spec_key spec) (fetched_at t) windows (cache st')
                        then respond_cached t (fs_if_none_match spec) True else Unavailable, st')
          in (case res of
                Inl _ \<Rightarrow> failed
              | Inr (sc, f) \<Rightarrow>
                  if sc = 304
                  then let r = refreshed t (fe_done env)
                       in (respond_cached r (fs_if_none_match spec) False,
                           st'\<lparr>cache := run_cache_write (joined (fe_put env))
                              (\<lambda>c. log_cache_err (put (task_env (fe_put env)) (spec_key spec) r False (fe_done env) c))
                              (cache st')\<rparr>)
                  else if sc = 200 then store_200 sha256 env (spec_key spec) f (fs_if_none_match spec) st'
                  else failed))"

text \<open>The miss: a 200 is stored, a 404 or 204 is cached as a negative, an error looks at the cache once more.\<close>

definition fetch_miss :: "(byte list \<Rightarrow> byte list) \<Rightarrow> wire \<Rightarrow> fill_env \<Rightarrow> fill_spec \<Rightarrow> tile_windows
    \<Rightarrow> app_state \<Rightarrow> fetch_outcome \<times> app_state" where
  "fetch_miss sha256 w env spec windows st =
     (case fetch_upstream w (knobs st) (fs_source spec) (fs_url spec) None (health st) of
        (res, h) \<Rightarrow>
          let st' = fe_others env (st\<lparr>health := h\<rparr>)
          in (case res of
                Inr (sc, f) \<Rightarrow>
                  if sc = 200 then store_200 sha256 env (spec_key spec) f (fs_if_none_match spec) st'
                  else if sc = 404 \<or> sc = 204 then negative_cache env (spec_key spec) sc st'
                  else (Unavailable, st')
              | Inl _ \<Rightarrow>
                  (case cache_get (fe_late env) (spec_key spec) (cache st') of
                     (found, c) \<Rightarrow>
                       (case found of
                          Inr (Some t) \<Rightarrow>
                            if is_safe_cached_200 t \<and> may_serve_stale env (spec_key spec) (fetched_at t) windows c
                            then Hit (to_response t True) else Unavailable
                        | _ \<Rightarrow> Unavailable, st'\<lparr>cache := c\<rparr>))))"

definition release_lock :: "string \<Rightarrow> nat \<Rightarrow> app_state \<Rightarrow> app_state" where
  "release_lock key lock st = st\<lparr>flights := drop_lease (key, lock, True) (inflight_finish key lock (flights st))\<rparr>"

definition fill_locked :: "(byte list \<Rightarrow> byte list) \<Rightarrow> wire \<Rightarrow> fill_env \<Rightarrow> fill_spec
    \<Rightarrow> app_state \<Rightarrow> fetch_outcome \<times> app_state" where
  "fill_locked sha256 w env spec st =
     (let windows = tile_windows_for st (fs_source spec)
      in case cache_get (fe_lookup env) (spec_key spec) (cache st) of
           (found, c) \<Rightarrow>
             let st' = st\<lparr>cache := c\<rparr>;
                 existing = (case found of Inr t \<Rightarrow> t | Inl _ \<Rightarrow> None)
             in (case coalesced (knobs st) windows (fe_now env) (fs_if_none_match spec) existing of
                   Some out \<Rightarrow> (out, st')
                 | None \<Rightarrow>
                     (case existing of
                        Some t \<Rightarrow>
                          if is_safe_cached_200 t then revalidate sha256 w env spec windows t st'
                          else fetch_miss sha256 w env spec windows st'
                      | None \<Rightarrow> fetch_miss sha256 w env spec windows st')))"

definition fill :: "(byte list \<Rightarrow> byte list) \<Rightarrow> wire \<Rightarrow> fill_env \<Rightarrow> fill_spec
    \<Rightarrow> app_state \<Rightarrow> fetch_outcome \<times> app_state" where
  "fill sha256 w env spec st =
     (let key = inflight_key (spec_key spec)
      in case inflight_lock key (flights st) of
           (None, fl) \<Rightarrow> (Unavailable, st\<lparr>flights := fl\<rparr>)
         | (Some lock, fl) \<Rightarrow>
             (case fill_locked sha256 w env spec (fe_waited env (st\<lparr>flights := fl\<rparr>)) of
                (out, st') \<Rightarrow> (out, release_lock key lock st')))"

text \<open>The permit of a fill goes back when its task ends.\<close>

definition run_fill :: "(byte list \<Rightarrow> byte list) \<Rightarrow> wire \<Rightarrow> fill_env \<Rightarrow> fill_spec
    \<Rightarrow> app_state \<Rightarrow> fetch_outcome \<times> app_state" where
  "run_fill sha256 w env spec st =
     (case fill sha256 w env spec st of (out, st') \<Rightarrow> (out, st'\<lparr>fill_permits := fill_permits st' + 1\<rparr>))"

definition spawn_fill :: "fill_spec \<Rightarrow> app_state \<Rightarrow> fill_spec option \<times> app_state" where
  "spawn_fill spec st = (case try_fill_permit st of None \<Rightarrow> (None, st) | Some st' \<Rightarrow> (Some spec, st'))"

text \<open>\<open>ended\<close>: the awaited task did not panic; if it did its permit is back and its work is lost.\<close>

definition fill_and_await :: "(byte list \<Rightarrow> byte list) \<Rightarrow> wire \<Rightarrow> fill_env \<Rightarrow> bool \<Rightarrow> fill_spec
    \<Rightarrow> app_state \<Rightarrow> fetch_outcome \<times> app_state" where
  "fill_and_await sha256 w env ended spec st =
     (case spawn_fill spec st of
        (None, st') \<Rightarrow> (Unavailable, st')
      | (Some s, st') \<Rightarrow>
          if ended then run_fill sha256 w env s st'
          else (Unavailable, st\<lparr>cache := record_operation_error (cache st)\<rparr>))"

section \<open>Serving a tile\<close>

definition try_touch :: "app_state \<Rightarrow> tile_key \<Rightarrow> cached_tile \<Rightarrow> int \<Rightarrow> spawned list \<times> app_state" where
  "try_touch st k t now =
     (if TOUCH_THROTTLE_SECS \<le> now - last_access t \<and> 0 < touch_permits st
      then ([Run_touch k now], st\<lparr>touch_permits := touch_permits st - 1\<rparr>)
      else ([], st))"

text \<open>What the cache serves inline; \<open>None\<close> sends the request to an awaited fill.\<close>

definition serve_inline :: "app_state \<Rightarrow> fill_spec \<Rightarrow> tile_windows \<Rightarrow> int \<Rightarrow> cached_tile
    \<Rightarrow> fetch_outcome option \<times> spawned list \<times> app_state" where
  "serve_inline st spec windows now t =
     (if status t \<noteq> 200
      then (if now - fetched_at t < negative_ttl_secs (knobs st)
            then (Some (Empty (as_u16 (status t))), [], st) else (None, [], st))
      else if \<not> is_safe_cached_200 t then (None, [], st)
      else if now - fetched_at t < tw_fresh_secs windows
      then (case try_touch st (spec_key spec) t now of
              (sp, st') \<Rightarrow> (Some (respond_cached t (fs_if_none_match spec) False), sp, st'))
      else if is_slow (health st) (fs_source spec) \<and> now - fetched_at t < tw_max_stale_secs windows
      then (case inflight_contains (inflight_key (spec_key spec)) (flights st) of
              (busy, fl) \<Rightarrow>
                let st1 = st\<lparr>flights := fl\<rparr>;
                    (sp, st2) = (if busy then (None, st1) else spawn_fill spec st1)
                in (Some (respond_cached t (fs_if_none_match spec) True),
                    (case sp of Some s \<Rightarrow> [Run_fill s] | None \<Rightarrow> []), st2))
      else (None, [], st))"

record request_env =
  rq_now :: int
  rq_lookup :: task
  rq_fill :: fill_env
  rq_ended :: bool

definition rejected :: "fetch_outcome \<Rightarrow> tile_lookup" where
  "rejected out = \<lparr>tl_outcome = out, tl_max_age = None\<rparr>"

definition get_tile :: "(byte list \<Rightarrow> byte list) \<Rightarrow> (rat \<Rightarrow> string) \<Rightarrow> wire \<Rightarrow> request_env \<Rightarrow> string \<Rightarrow> nat \<Rightarrow> nat \<Rightarrow> nat
    \<Rightarrow> string option \<Rightarrow> app_state \<Rightarrow> tile_lookup \<times> spawned list \<times> app_state" where
  "get_tile sha256 display w rq source_id z x y if_none_match st =
     (case sources st source_id of
        None \<Rightarrow> (rejected Not_allowed, [], st)
      | Some source \<Rightarrow>
          if (case upstream source of Style _ _ \<Rightarrow> True | _ \<Rightarrow> False) then (rejected Not_allowed, [], st)
          else (case expand_upstream display source z x y of
              Inl e \<Rightarrow> (rejected (Bad_request e), [], st)
            | Inr url \<Rightarrow>
                let spec = \<lparr>fs_source = source_id, fs_z = z, fs_x = x, fs_y = y, fs_url = url,
                            fs_if_none_match = if_none_match\<rparr>;
                    windows = tile_windows_for st source_id;
                    (found, c) = cache_get (rq_lookup rq) (spec_key spec) (cache st);
                    st1 = st\<lparr>cache := c\<rparr>;
                    (served, sp, st2) =
                      (case found of
                         Inr (Some t) \<Rightarrow> serve_inline st1 spec windows (rq_now rq) t
                       | _ \<Rightarrow> (None, [], st1));
                    (out, st3) = (case served of
                         Some out \<Rightarrow> (out, st2)
                       | None \<Rightarrow> fill_and_await sha256 w (rq_fill rq) (rq_ended rq) spec st2)
                in (\<lparr>tl_outcome = out, tl_max_age = max_age_seconds source\<rparr>, sp, st3)))"

text \<open>A detached task, when it runs.\<close>

definition run_touch :: "task \<Rightarrow> tile_key \<Rightarrow> int \<Rightarrow> app_state \<Rightarrow> app_state" where
  "run_touch t k now st =
     st\<lparr>cache := (if joined t then log_cache_err (touch (task_env t) k now (cache st)) else cache st),
        touch_permits := touch_permits st + 1\<rparr>"

end
