(* ===== verification/Cache_Styles.thy ===== *)
theory Cache_Styles
  imports Cache_Regions
begin

text \<open>
  The learned-style rows of the tile cache (\<open>store_learned_style\<close>, \<open>reconcile_learned_styles\<close> and
  \<open>delete_learned_style\<close> in \<open>container/tilecache/src/cache.rs\<close>). The table's key is the source. Every method
  leaves the tiles, the regions and the counters alone; \<open>style_row\<close> is the row of a source.
\<close>

definition style_row :: "db \<Rightarrow> string \<Rightarrow> learned_row option" where
  "style_row d src = find (\<lambda>r. ls_source r = src) (learned_styles d)"

definition store_learned_style :: "cache_env \<Rightarrow> string \<Rightarrow> string \<Rightarrow> byte list \<Rightarrow> int \<Rightarrow> tile_cache
    \<Rightarrow> (db_error + unit) \<times> tile_cache" where
  "store_learned_style env src signature state_json fetched c =
     (case faults env S_write of
        Some e \<Rightarrow> (Inl e, c)
      | None \<Rightarrow>
          let row = \<lparr>ls_source = src, ls_signature = signature, ls_state_json = state_json, ls_fetched_at = fetched\<rparr>;
              others = filter (\<lambda>r. ls_source r \<noteq> src) (learned_styles (conn c))
          in (Inr (), c\<lparr>conn := (conn c)\<lparr>learned_styles := others @ [row]\<rparr>\<rparr>))"

text \<open>The point lookups over the pushed signatures; the \<open>i\<close>th can fail.\<close>

fun retained_styles :: "faults \<Rightarrow> nat \<Rightarrow> (string \<times> string) list \<Rightarrow> nat \<Rightarrow> db \<Rightarrow> db_error + learned_row list" where
  "retained_styles fl i [] max_bytes d = Inr []"
| "retained_styles fl i ((src, signature) # sigs) max_bytes d =
     (case fl (S_row i) of
        Some e \<Rightarrow> Inl e
      | None \<Rightarrow>
          let found = (case style_row d src of
                Some r \<Rightarrow> if ls_signature r = signature \<and> length (ls_state_json r) \<le> max_bytes then [r] else []
              | None \<Rightarrow> [])
          in bindE (retained_styles fl (Suc i) sigs max_bytes d) (\<lambda>rs. Inr (found @ rs)))"

text \<open>One transaction: the table becomes the matches, or a failing statement rolls it back.\<close>

definition reconcile_learned_styles :: "cache_env \<Rightarrow> (string \<times> string) list \<Rightarrow> nat \<Rightarrow> tile_cache
    \<Rightarrow> (db_error + learned_row list) \<times> tile_cache" where
  "reconcile_learned_styles env sigs max_bytes c =
     (case faults env S_begin of
        Some e \<Rightarrow> (Inl e, c)
      | None \<Rightarrow>
        (case retained_styles (faults env) 0 sigs max_bytes (conn c) of
           Inl e \<Rightarrow> (Inl e, c)
         | Inr rows \<Rightarrow>
           (case first_fault (faults env) (S_write # map S_insert [0..<length rows] @ [S_commit]) of
              Some e \<Rightarrow> (Inl e, c)
            | None \<Rightarrow> (Inr rows, c\<lparr>conn := (conn c)\<lparr>learned_styles := rows\<rparr>\<rparr>))))"

definition delete_learned_style :: "cache_env \<Rightarrow> string \<Rightarrow> tile_cache \<Rightarrow> (db_error + unit) \<times> tile_cache" where
  "delete_learned_style env src c =
     (case faults env S_write of
        Some e \<Rightarrow> (Inl e, c)
      | None \<Rightarrow> (Inr (), c\<lparr>conn := (conn c)\<lparr>learned_styles := filter (\<lambda>r. ls_source r \<noteq> src) (learned_styles (conn c))\<rparr>\<rparr>))"

section \<open>The tiles are untouched\<close>

definition same_tiles :: "tile_cache \<Rightarrow> tile_cache \<Rightarrow> bool" where
  "same_tiles c c' \<longleftrightarrow> tiles (conn c') = tiles (conn c) \<and> region_tiles (conn c') = region_tiles (conn c)
     \<and> total_bytes c' = total_bytes c \<and> pinned_bytes c' = pinned_bytes c
     \<and> real_region_cache c' = real_region_cache c \<and> regions_dirty c' = regions_dirty c"

lemma same_tiles_refl [simp]: "same_tiles c c"
  by (simp add: same_tiles_def)

lemma same_tiles_trans: "same_tiles a b \<Longrightarrow> same_tiles b c \<Longrightarrow> same_tiles a c"
  by (simp add: same_tiles_def)

lemma same_tiles_inv: "same_tiles c c' \<Longrightarrow> cache_inv c' = cache_inv c"
  by (simp add: same_tiles_def inv_defs db_ok_def joins_pinned_def bytes_nonneg_def tsum_def real_sum_def
      in_real_region_def find_row_def fun_eq_iff)

lemma same_tiles_pinned: "same_tiles c c' \<Longrightarrow> pinned_at (conn c') = pinned_at (conn c)"
  by (simp add: same_tiles_def pinned_at_def find_row_def fun_eq_iff)

lemma style_ops_same_tiles [simp]:
  "same_tiles c (snd (store_learned_style env src sg js f c))"
  "same_tiles c (snd (reconcile_learned_styles env sigs m c))"
  "same_tiles c (snd (delete_learned_style env src c))"
  by (simp_all add: store_learned_style_def reconcile_learned_styles_def delete_learned_style_def same_tiles_def Let_def
      split: option.split sum.split)

lemma style_ops_inv [inv_intro]:
  "cache_inv c \<Longrightarrow> cache_inv (snd (store_learned_style env src sg js f c))"
  "cache_inv c \<Longrightarrow> cache_inv (snd (reconcile_learned_styles env sigs m c))"
  "cache_inv c \<Longrightarrow> cache_inv (snd (delete_learned_style env src c))"
  by (simp_all add: same_tiles_inv[OF style_ops_same_tiles(1)] same_tiles_inv[OF style_ops_same_tiles(2)]
      same_tiles_inv[OF style_ops_same_tiles(3)])

section \<open>The rows\<close>

lemma style_row_source: "style_row d src = Some r \<Longrightarrow> ls_source r = src"
  by (auto simp: style_row_def find_Some_iff)

lemma find_filter_other: "find (\<lambda>r. f r = a) (filter (\<lambda>r. f r \<noteq> b) xs) = (if a = b then None else find (\<lambda>r. f r = a) xs)"
  by (induction xs) auto

text \<open>A stored style reads back; the rows of other sources stay.\<close>

lemma store_style_row:
  assumes "store_learned_style env src sg js f c = (Inr u, c')"
  shows "style_row (conn c') src' =
    (if src' = src then Some \<lparr>ls_source = src, ls_signature = sg, ls_state_json = js, ls_fetched_at = f\<rparr>
     else style_row (conn c) src')"
  using assms
  by (auto simp: store_learned_style_def style_row_def find_append find_filter_other Let_def split: option.splits)

lemma delete_style_row:
  assumes "delete_learned_style env src c = (Inr u, c')"
  shows "style_row (conn c') src' = (if src' = src then None else style_row (conn c) src')"
  using assms by (auto simp: delete_learned_style_def style_row_def find_filter_other split: option.splits)

definition matching_row :: "(string \<times> string) list \<Rightarrow> nat \<Rightarrow> db \<Rightarrow> string \<Rightarrow> learned_row option" where
  "matching_row sigs max_bytes d src =
     (case (map_of sigs src, style_row d src) of
        (Some sg, Some r) \<Rightarrow> if ls_signature r = sg \<and> length (ls_state_json r) \<le> max_bytes then Some r else None
      | _ \<Rightarrow> None)"

lemma retained_Cons:
  assumes "retained_styles fl i ((a, sg) # sigs) m d = Inr rs"
  obtains qs where "fl (S_row i) = None" "retained_styles fl (Suc i) sigs m d = Inr qs"
    "rs = (case style_row d a of
        Some r \<Rightarrow> if ls_signature r = sg \<and> length (ls_state_json r) \<le> m then [r] else [] | None \<Rightarrow> []) @ qs"
  using assms by (auto simp: bindE_Inr_iff Let_def split: option.splits)

lemma retained_sources:
  "retained_styles fl i sigs m d = Inr rs \<Longrightarrow> set (map ls_source rs) \<subseteq> fst ` set sigs"
proof (induction sigs arbitrary: i rs)
  case (Cons p sigs)
  obtain a sg where p: "p = (a, sg)" by (cases p)
  obtain qs where qs: "retained_styles fl (Suc i) sigs m d = Inr qs" and rs: "rs = (case style_row d a of
      Some r \<Rightarrow> if ls_signature r = sg \<and> length (ls_state_json r) \<le> m then [r] else [] | None \<Rightarrow> []) @ qs"
    using Cons.prems[unfolded p] by (rule retained_Cons)
  show ?case using Cons.IH[OF qs] by (auto simp: rs p style_row_source split: option.splits if_splits dest!: sym[of "Some _"])
qed simp

lemma retained_find:
  "retained_styles fl i sigs m d = Inr rs \<Longrightarrow> distinct (map fst sigs) \<Longrightarrow>
     distinct (map ls_source rs) \<and> find (\<lambda>r. ls_source r = src) rs = matching_row sigs m d src"
proof (induction sigs arbitrary: i rs)
  case (Cons p sigs)
  obtain a sg where p: "p = (a, sg)" by (cases p)
  obtain qs where qs: "retained_styles fl (Suc i) sigs m d = Inr qs" and rs: "rs = (case style_row d a of
      Some r \<Rightarrow> if ls_signature r = sg \<and> length (ls_state_json r) \<le> m then [r] else [] | None \<Rightarrow> []) @ qs"
    using Cons.prems(1)[unfolded p] by (rule retained_Cons)
  have ih: "distinct (map ls_source qs)" "find (\<lambda>r. ls_source r = src) qs = matching_row sigs m d src"
    using Cons.IH[OF qs] Cons.prems(2) by simp_all
  have na: "a \<notin> set (map ls_source qs)" using retained_sources[OF qs] Cons.prems(2) p by auto
  then have nf: "find (\<lambda>r. ls_source r = a) qs = None" by (auto simp: find_None_iff)
  show ?case
  proof (cases "style_row d a")
    case None
    with rs ih nf p show ?thesis by (auto simp: matching_row_def split: option.split)
  next
    case (Some r)
    note r = this
    then have s: "ls_source r = a" by (rule style_row_source)
    show ?thesis
    proof (cases "src = a")
      case True
      with rs ih nf na r s p show ?thesis by (auto simp: matching_row_def)
    next
      case False
      with rs ih na r s p show ?thesis by (auto simp: matching_row_def split: option.split)
    qed
  qed
qed (simp add: matching_row_def)

text \<open>
  A reconcile returns and keeps exactly the rows whose signature is the pushed one and whose size is in
  bounds, one per source; a failing one changes nothing.
\<close>

lemma reconcile_effect:
  assumes "reconcile_learned_styles env sigs m c = (Inr rows, c')" "distinct (map fst sigs)"
  shows "learned_styles (conn c') = rows" "distinct (map ls_source rows)"
    "style_row (conn c') src = matching_row sigs m (conn c) src"
proof -
  have k: "retained_styles (faults env) 0 sigs m (conn c) = Inr rows" "c' = c\<lparr>conn := (conn c)\<lparr>learned_styles := rows\<rparr>\<rparr>"
    using assms(1) by (auto simp: reconcile_learned_styles_def split: option.splits sum.splits)
  then show "learned_styles (conn c') = rows" by simp
  show "distinct (map ls_source rows)" "style_row (conn c') src = matching_row sigs m (conn c) src"
    using retained_find[OF k(1) assms(2), of src] k(2) by (simp_all add: style_row_def[of "(conn c)\<lparr>learned_styles := rows\<rparr>"])
qed

lemma reconcile_error: "reconcile_learned_styles env sigs m c = (Inl e, c') \<Longrightarrow> c' = c"
  by (auto simp: reconcile_learned_styles_def split: option.splits sum.splits)

lemma retained_total:
  assumes "\<And>p. fl p = None" shows "\<exists>rs. retained_styles fl i sigs m d = Inr rs"
proof (induction sigs arbitrary: i)
  case (Cons p sigs)
  obtain a sg where p: "p = (a, sg)" by (cases p)
  obtain rs where "retained_styles fl (Suc i) sigs m d = Inr rs" using Cons by blast
  then show ?case by (simp add: p assms[of "S_row i"] Let_def)
qed simp

lemma first_fault_none: "(\<And>p. fl p = None) \<Longrightarrow> first_fault fl ss = None"
  by (induction ss) simp_all

lemma reconcile_total:
  assumes "\<And>p. faults env p = None"
  obtains rows c' where "reconcile_learned_styles env sigs m c = (Inr rows, c')"
  using retained_total[of "faults env" 0 sigs m "conn c"] first_fault_none[of "faults env"] assms
  by (auto simp: reconcile_learned_styles_def)

lemma same_tiles_events [simp]:
  "same_tiles c (record_operation_error c') = same_tiles c c'"
  by (simp add: same_tiles_def record_operation_error_def)

end
