(* ===== verification/Style.thy ===== *)
theory Style
  imports Style_Assets Fetcher Cache_Styles
begin

text \<open>
  Learning the vector basemap's style (\<open>container/tilecache/src/style.rs\<close>): the fetch and the checks of a
  style document and of its TileJSON documents, the learned \<open>StyleState\<close>, its durable form, the check of a
  durable form when it is read back, and the rehydration after a configuration push. The packages
  (\<open>serde_json\<close>, \<open>reqwest::Url\<close>, \<open>percent_encoding\<close>, the derived encoders, SHA-256) are the fields of one record.
\<close>

definition MAX_STYLE_SOURCES :: nat where "MAX_STYLE_SOURCES = 64"
definition MAX_STYLE_LAYERS :: nat where "MAX_STYLE_LAYERS = 2048"
definition MAX_FONTSTACKS :: nat where "MAX_FONTSTACKS = 64"
definition MAX_TEMPLATES_PER_SOURCE :: nat where "MAX_TEMPLATES_PER_SOURCE = 4"
definition MAX_STYLE_SOURCE_NAME_BYTES :: nat where "MAX_STYLE_SOURCE_NAME_BYTES = 256"
definition MAX_STYLE_JSON_BYTES :: nat where "MAX_STYLE_JSON_BYTES = 1024 * 1024"
definition MAX_PERSISTED_STYLE_BYTES :: nat where "MAX_PERSISTED_STYLE_BYTES = 2 * MAX_STYLE_JSON_BYTES"
definition MAX_TILEJSON_BYTES :: nat where "MAX_TILEJSON_BYTES = 256 * 1024"
definition PERSISTED_STYLE_VERSION :: nat where "PERSISTED_STYLE_VERSION = 1"

section \<open>The durable form\<close>

record persisted_style =
  ps_version :: nat
  ps_glyphs :: "string option"
  ps_source_tiles :: "(string \<times> string list) list"
  ps_raster_sources :: "string set"
  ps_source_maxzoom :: "(string \<times> nat) list"
  ps_fontstacks :: "string list"
  ps_sprite_base :: "string option"
  ps_generation :: nat
  ps_document :: json
  ps_fetched_at :: int
  ps_upstream_validator :: "string option"

definition from_live :: "style_state \<Rightarrow> persisted_style" where
  "from_live s = \<lparr>ps_version = PERSISTED_STYLE_VERSION, ps_glyphs = ss_glyphs s, ps_source_tiles = ss_source_tiles s,
     ps_raster_sources = ss_raster_sources s, ps_source_maxzoom = ss_source_maxzoom s,
     ps_fontstacks = ss_fontstacks s, ps_sprite_base = ss_sprite_base s, ps_generation = ss_generation s,
     ps_document = ss_document s, ps_fetched_at = ss_fetched_at s,
     ps_upstream_validator = ss_upstream_validator s\<rparr>"

definition into_live :: "nat \<Rightarrow> persisted_style \<Rightarrow> style_state" where
  "into_live generation p = \<lparr>ss_glyphs = ps_glyphs p, ss_source_tiles = ps_source_tiles p,
     ss_raster_sources = ps_raster_sources p, ss_source_maxzoom = ps_source_maxzoom p,
     ss_fontstacks = ps_fontstacks p, ss_sprite_base = ps_sprite_base p, ss_config_generation = generation,
     ss_generation = ps_generation p, ss_document = ps_document p, ss_fetched_at = ps_fetched_at p,
     ss_upstream_validator = ps_upstream_validator p\<rparr>"

text \<open>The packages. \<open>sl_parse_url\<close> gives the parts of a URL and its serialisation.\<close>

record style_lib =
  sl_parse_url :: "string \<Rightarrow> (parsed_url \<times> string) option"
  sl_to_vec :: "json \<Rightarrow> byte list option"
  sl_from_slice :: "byte list \<Rightarrow> json option"
  sl_encode_source :: "chart_source \<Rightarrow> byte list option"
  sl_encode_state :: "persisted_style \<Rightarrow> byte list option"
  sl_decode_state :: "byte list \<Rightarrow> persisted_style option"
  sl_sha256 :: "byte list \<Rightarrow> byte list"
  sl_percent_encode :: "string \<Rightarrow> string"

section \<open>Fields of a style document\<close>

definition optional_maxzoom :: "json option \<Rightarrow> unit + nat option" where
  "optional_maxzoom v =
     (case v of
        None \<Rightarrow> Inr None
      | Some j \<Rightarrow> (case as_u64 j of
          None \<Rightarrow> Inl ()
        | Some n \<Rightarrow> if 2 ^ 32 \<le> n \<or> 24 < n then Inl () else Inr (Some n)))"

fun all_strings :: "json list \<Rightarrow> string list option" where
  "all_strings [] = Some []"
| "all_strings (j # js) = (case (as_str j, all_strings js) of (Some s, Some ss) \<Rightarrow> Some (s # ss) | _ \<Rightarrow> None)"

definition tile_templates :: "json option \<Rightarrow> unit + string list option" where
  "tile_templates v =
     (case v of
        None \<Rightarrow> Inr None
      | Some j \<Rightarrow> (case as_array j of
          None \<Rightarrow> Inl ()
        | Some vs \<Rightarrow>
            if vs = [] \<or> MAX_TEMPLATES_PER_SOURCE < length vs then Inl ()
            else (case all_strings vs of None \<Rightarrow> Inl () | Some ss \<Rightarrow> Inr (Some ss))))"

definition valid_style_source_name :: "string \<Rightarrow> bool" where
  "valid_style_source_name name \<longleftrightarrow>
     name \<noteq> [] \<and> length name \<le> MAX_STYLE_SOURCE_NAME_BYTES \<and> \<not> list_ex is_control name"

text \<open>\<open>str::contains\<close>\<close>

fun contains_str :: "string \<Rightarrow> string \<Rightarrow> bool" where
  "contains_str pat [] \<longleftrightarrow> pat = []"
| "contains_str pat (c # cs) \<longleftrightarrow> starts_with (c # cs) pat \<or> contains_str pat cs"

definition url_allowed :: "style_lib \<Rightarrow> string list \<Rightarrow> bool \<Rightarrow> string \<Rightarrow> bool" where
  "url_allowed lib hosts allow_http url = style_url_allowed (sl_parse_url lib) url hosts allow_http"

definition usable_template :: "style_lib \<Rightarrow> string list \<Rightarrow> bool \<Rightarrow> string \<Rightarrow> bool" where
  "usable_template lib hosts allow_http t \<longleftrightarrow>
     url_allowed lib hosts allow_http t \<and> list_all (\<lambda>token. contains_str token t) [''{z}'', ''{x}'', ''{y}'']"

definition usable_glyphs :: "style_lib \<Rightarrow> string list \<Rightarrow> bool \<Rightarrow> string \<Rightarrow> bool" where
  "usable_glyphs lib hosts allow_http url \<longleftrightarrow>
     url_allowed lib hosts allow_http url \<and> contains_str ''{fontstack}'' url \<and> contains_str ''{range}'' url"

definition is_raster :: "json \<Rightarrow> bool" where
  "is_raster src \<longleftrightarrow> Option.bind (jget ''type'' src) as_str \<in> {Some ''raster'', Some ''raster-dem''}"

definition opt_all :: "('a \<Rightarrow> bool) \<Rightarrow> 'a option \<Rightarrow> bool" where
  "opt_all P x \<longleftrightarrow> (case x of None \<Rightarrow> True | Some v \<Rightarrow> P v)"

definition style_source_signature :: "style_lib \<Rightarrow> chart_source \<Rightarrow> string option" where
  "style_source_signature lib s = map_option (content_etag (sl_sha256 lib)) (sl_encode_source lib s)"

section \<open>The check of a durable form\<close>

definition bounded_fontstack :: "string \<Rightarrow> bool" where
  "bounded_fontstack f \<longleftrightarrow> f \<noteq> [] \<and> length f \<le> 512 \<and> \<not> list_ex is_control f"

definition valid_persisted_style :: "style_lib \<Rightarrow> persisted_style \<Rightarrow> chart_source \<Rightarrow> bool \<Rightarrow> bool" where
  "valid_persisted_style lib p source allow_http =
     (case upstream source of
        Style style_url hosts \<Rightarrow>
          (case (Option.bind (jget ''layers'' (ps_document p)) as_array, Option.bind (jget ''sources'' (ps_document p)) as_object) of
             (Some layers, Some doc_sources) \<Rightarrow>
               (if ps_version p \<noteq> PERSISTED_STYLE_VERSION \<or> odd (ps_generation p) \<or> ps_fetched_at p < 0
                   \<or> MAX_STYLE_LAYERS < length layers \<or> doc_sources = [] \<or> MAX_STYLE_SOURCES < length doc_sources
                   \<or> ps_source_tiles p = [] \<or> MAX_STYLE_SOURCES < length (ps_source_tiles p)
                   \<or> MAX_FONTSTACKS < length (ps_fontstacks p)
                   \<or> list_ex (\<lambda>f. \<not> bounded_fontstack f) (ps_fontstacks p)
                   \<or> \<not> opt_all (\<lambda>v. length v \<le> MAX_STYLE_URL_BYTES) (ps_upstream_validator p)
                   \<or> (case sl_to_vec lib (ps_document p) of None \<Rightarrow> True | Some d \<Rightarrow> MAX_STYLE_JSON_BYTES < length d)
                then False
                else if Option.bind (jget ''glyphs'' (ps_document p)) as_str \<noteq> ps_glyphs p
                   \<or> Option.bind (jget ''sprite'' (ps_document p)) as_str \<noteq> ps_sprite_base p
                   \<or> \<not> opt_all (usable_glyphs lib hosts allow_http) (ps_glyphs p)
                   \<or> \<not> opt_all (url_allowed lib hosts allow_http) (ps_sprite_base p)
                then False
                else if list_ex (\<lambda>(name, templates). \<not> valid_style_source_name name \<or> map_of doc_sources name = None
                        \<or> templates = [] \<or> MAX_TEMPLATES_PER_SOURCE < length templates
                        \<or> list_ex (\<lambda>t. \<not> usable_template lib hosts allow_http t) templates) (ps_source_tiles p)
                then False
                else if list_ex (\<lambda>(name, v). (jget ''tiles'' v \<noteq> None \<or> jget ''url'' v \<noteq> None)
                        \<and> map_of (ps_source_tiles p) name = None) doc_sources
                then False
                else {name \<in> fst ` set (ps_source_tiles p). is_raster (the (map_of doc_sources name))} = ps_raster_sources p
                  \<and> list_all (\<lambda>(name, zoom). map_of (ps_source_tiles p) name \<noteq> None \<and> zoom \<le> 24) (ps_source_maxzoom p))
           | _ \<Rightarrow> False)
      | _ \<Rightarrow> False)"

section \<open>Fetching JSON\<close>

definition is_success :: "nat \<Rightarrow> bool" where "is_success n \<longleftrightarrow> 200 \<le> n \<and> n < 300"

text \<open>\<open>Inr None\<close> is an unchanged document; without a timeout the client's default applies.\<close>

definition fetch_json :: "style_lib \<Rightarrow> wire \<Rightarrow> knobs \<Rightarrow> string \<Rightarrow> string option \<Rightarrow> nat
    \<Rightarrow> unit + (json \<times> string option) option" where
  "fetch_json lib w kn url validator max_bytes =
     (case guarded_get w kn False url validator (upstream_base_timeout_ms kn) of
        Inl _ \<Rightarrow> Inl ()
      | Inr r \<Rightarrow>
          if ur_status r = 304 then Inr None
          else if \<not> is_success (ur_status r) then Inl ()
          else (case read_capped_to max_bytes r of
              None \<Rightarrow> Inl ()
            | Some b \<Rightarrow> (case sl_from_slice lib b of
                None \<Rightarrow> Inl ()
              | Some v \<Rightarrow> Inr (Some (v, response_validator r)))))"

section \<open>Learning\<close>

fun joined_with :: "string \<Rightarrow> string list \<Rightarrow> string" where
  "joined_with sep [] = []"
| "joined_with sep [s] = s"
| "joined_with sep (s # t # ss) = s @ sep @ joined_with sep (t # ss)"

definition layer_fontstack :: "json \<Rightarrow> string option" where
  "layer_fontstack layer =
     map_option (\<lambda>arr. joined_with '','' (List.map_filter as_str arr))
       (Option.bind (Option.bind (Option.bind (Some layer) (jget ''layout'')) (jget ''text-font'')) as_array)"

fun collect_fontstacks :: "string list \<Rightarrow> json list \<Rightarrow> string list option" where
  "collect_fontstacks acc [] = Some acc"
| "collect_fontstacks acc (l # ls) =
     (case layer_fontstack l of
        None \<Rightarrow> collect_fontstacks acc ls
      | Some f \<Rightarrow>
          if f \<noteq> [] \<and> length f \<le> 512 \<and> f \<notin> set acc
          then (if MAX_FONTSTACKS < length (acc @ [f]) then None else collect_fontstacks (acc @ [f]) ls)
          else collect_fontstacks acc ls)"

text \<open>What the loop over the document's sources has gathered.\<close>

record learned_sources =
  le_tiles :: "(string \<times> string list) list"
  le_rasters :: "string set"
  le_maxzoom :: "(string \<times> nat) list"

text \<open>
  The templates and the maximal zoom of one source, from the source itself or from its TileJSON; an empty
  list for a source that declares no tiles. \<open>tilejson\<close> is the wire for the source's TileJSON request.
\<close>

definition source_templates :: "style_lib \<Rightarrow> wire \<Rightarrow> knobs \<Rightarrow> string list \<Rightarrow> json \<Rightarrow> (string list \<times> nat option) option" where
  "source_templates lib w kn hosts src =
     (if jget ''tiles'' src \<noteq> None
      then (case tile_templates (jget ''tiles'' src) of Inr (Some ts) \<Rightarrow> Some (ts, None) | _ \<Rightarrow> None)
      else case Option.bind (jget ''url'' src) as_str of
          Some url \<Rightarrow>
            if \<not> url_allowed lib hosts (allow_private_egress kn) url then None
            else (case fetch_json lib w kn url None MAX_TILEJSON_BYTES of
                Inr (Some (tj, _)) \<Rightarrow>
                  (case (tile_templates (jget ''tiles'' tj), optional_maxzoom (jget ''maxzoom'' tj)) of
                     (Inr (Some ts), Inr m) \<Rightarrow> Some (ts, m)
                   | _ \<Rightarrow> None)
              | _ \<Rightarrow> None)
        | None \<Rightarrow> Some ([], None))"

definition learn_source :: "style_lib \<Rightarrow> wire \<Rightarrow> knobs \<Rightarrow> string list \<Rightarrow> string \<Rightarrow> json
    \<Rightarrow> learned_sources \<Rightarrow> learned_sources option" where
  "learn_source lib w kn hosts name src acc =
     (if \<not> valid_style_source_name name then None
      else
        let acc1 = (if is_raster src then acc\<lparr>le_rasters := insert name (le_rasters acc)\<rparr> else acc);
            declared = (jget ''tiles'' src \<noteq> None \<or> jget ''url'' src \<noteq> None)
        in (case optional_maxzoom (jget ''maxzoom'' src) of
              Inl _ \<Rightarrow> None
            | Inr inline_max \<Rightarrow>
                (case source_templates lib w kn hosts src of
                   None \<Rightarrow> None
                 | Some (ts, tj_max) \<Rightarrow>
                     if ts = [] then (if declared then None else Some acc1)
                     else if MAX_TEMPLATES_PER_SOURCE < length ts
                       \<or> list_ex (\<lambda>t. \<not> usable_template lib hosts (allow_private_egress kn) t) ts then None
                     else
                       let acc2 = (case (if inline_max = None then tj_max else inline_max) of
                             Some m \<Rightarrow> acc1\<lparr>le_maxzoom := AList.update name m (le_maxzoom acc1)\<rparr>
                           | None \<Rightarrow> acc1)
                       in Some (acc2\<lparr>le_tiles := AList.update name ts (le_tiles acc2)\<rparr>))))"

fun learn_sources :: "style_lib \<Rightarrow> (string \<Rightarrow> wire) \<Rightarrow> knobs \<Rightarrow> string list \<Rightarrow> json \<Rightarrow> string list
    \<Rightarrow> learned_sources \<Rightarrow> learned_sources option" where
  "learn_sources lib tilejson kn hosts style [] acc = Some acc"
| "learn_sources lib tilejson kn hosts style (name # names) acc =
     (case learn_source lib (tilejson name) kn hosts name (jindex name (jindex ''sources'' style)) acc of
        None \<Rightarrow> None
      | Some acc' \<Rightarrow> learn_sources lib tilejson kn hosts style names acc')"

text \<open>
  The state learned from a document, or \<open>None\<close> when any part of it is unusable. \<open>generation\<close> is the
  configuration's, \<open>cache_generation\<close> the one that names the assets in the cache.
\<close>

definition learn_document :: "style_lib \<Rightarrow> (string \<Rightarrow> wire) \<Rightarrow> knobs \<Rightarrow> string list \<Rightarrow> nat \<Rightarrow> nat \<Rightarrow> int
    \<Rightarrow> json \<Rightarrow> string option \<Rightarrow> style_state option" where
  "learn_document lib tilejson kn hosts generation cache_generation now style validator =
     (case (Option.bind (jget ''layers'' style) as_array, Option.bind (jget ''sources'' style) as_object) of
        (Some layers, Some doc_sources) \<Rightarrow>
          if MAX_STYLE_LAYERS < length layers \<or> doc_sources = [] \<or> MAX_STYLE_SOURCES < length doc_sources then None
          else
            let glyphs = Option.bind (jget ''glyphs'' style) as_str;
                sprite = Option.bind (jget ''sprite'' style) as_str
            in if \<not> opt_all (usable_glyphs lib hosts (allow_private_egress kn)) glyphs
                 \<or> \<not> opt_all (url_allowed lib hosts (allow_private_egress kn)) sprite then None
               else (case collect_fontstacks [] layers of
                   None \<Rightarrow> None
                 | Some fontstacks \<Rightarrow>
                     (case learn_sources lib tilejson kn hosts style (map fst doc_sources)
                        \<lparr>le_tiles = [], le_rasters = {}, le_maxzoom = []\<rparr> of
                        None \<Rightarrow> None
                      | Some acc \<Rightarrow>
                          if le_tiles acc = [] then None
                          else Some \<lparr>ss_glyphs = glyphs, ss_source_tiles = le_tiles acc, ss_raster_sources = le_rasters acc,
                            ss_source_maxzoom = le_maxzoom acc, ss_fontstacks = fontstacks, ss_sprite_base = sprite,
                            ss_config_generation = generation, ss_generation = cache_generation, ss_document = style,
                            ss_fetched_at = now, ss_upstream_validator = validator\<rparr>))
      | _ \<Rightarrow> None)"

section \<open>Publishing what was learned\<close>

definition allowed_hosts_of :: "app_state \<Rightarrow> string \<Rightarrow> (string \<times> string list) option" where
  "allowed_hosts_of st src =
     (case sources st src of
        Some s \<Rightarrow> (case upstream s of Style url hosts \<Rightarrow> Some (url, hosts) | _ \<Rightarrow> None)
      | None \<Rightarrow> None)"

definition persist_style_state :: "style_lib \<Rightarrow> task \<Rightarrow> (app_state \<Rightarrow> app_state) \<Rightarrow> string \<Rightarrow> style_state
    \<Rightarrow> app_state \<Rightarrow> app_state" where
  "persist_style_state lib t others src style st =
     (case Option.bind (sources st src) (style_source_signature lib) of
        None \<Rightarrow> st
      | Some signature \<Rightarrow>
          (case sl_encode_state lib (from_live style) of
             None \<Rightarrow> st
           | Some encoded \<Rightarrow>
               if MAX_PERSISTED_STYLE_BYTES < length encoded then st
               else
                 let st1 = others st
                 in st1\<lparr>cache := snd (cache_task (joined t)
                      (store_learned_style (task_env t) src signature encoded (ss_fetched_at style)) (cache st1))\<rparr>))"

text \<open>
  What a caller that learns meets: its clock readings, the wires of the style document and of each source's
  TileJSON, the other tasks while it waits for the flight (\<open>sw_flight\<close>), for its requests and for the
  configuration lock (\<open>sw_waited\<close>) and for the store of the durable form (\<open>sw_storing\<close>).
\<close>

record style_env =
  sw_now :: int
  sw_recheck :: int
  sw_done :: int
  sw_style :: wire
  sw_tilejson :: "string \<Rightarrow> wire"
  sw_task :: task
  sw_flight :: "app_state \<Rightarrow> app_state"
  sw_waited :: "app_state \<Rightarrow> app_state"
  sw_storing :: "app_state \<Rightarrow> app_state"

definition learned_at :: "app_state \<Rightarrow> string \<Rightarrow> nat \<Rightarrow> style_state option" where
  "learned_at st src generation =
     (case map_of (style_states st) src of
        Some e \<Rightarrow> if ss_config_generation e = generation then Some e else None
      | None \<Rightarrow> None)"

definition fresh_learned_document :: "app_state \<Rightarrow> int \<Rightarrow> string \<Rightarrow> nat \<Rightarrow> json option" where
  "fresh_learned_document st now src generation =
     (case learned_at st src generation of
        Some e \<Rightarrow> if now - ss_fetched_at e < kn_fresh_secs (knobs st) then Some (ss_document e) else None
      | None \<Rightarrow> None)"

definition publish_style :: "style_lib \<Rightarrow> style_env \<Rightarrow> string \<Rightarrow> style_state \<Rightarrow> app_state \<Rightarrow> app_state" where
  "publish_style lib env src style st =
     persist_style_state lib (sw_task env) (sw_storing env) src style
       (st\<lparr>style_states := AList.update src style (style_states st)\<rparr>)"

definition learn_style :: "style_lib \<Rightarrow> style_env \<Rightarrow> string \<Rightarrow> nat \<Rightarrow> app_state \<Rightarrow> json option \<times> app_state" where
  "learn_style lib env src generation st =
     (case allowed_hosts_of st src of
        None \<Rightarrow> (None, st)
      | Some (style_url, hosts) \<Rightarrow>
          if \<not> url_allowed lib hosts (allow_private_egress (knobs st)) style_url then (None, st)
          else
            let existing = learned_at st src generation;
                cache_generation = (case existing of Some e \<Rightarrow> ss_generation e | None \<Rightarrow> generation);
                validator = Option.bind existing ss_upstream_validator;
                st1 = sw_waited env st
            in (case fetch_json lib (sw_style env) (knobs st) style_url validator MAX_STYLE_JSON_BYTES of
                  Inl _ \<Rightarrow> (map_option ss_document existing, st1)
                | Inr None \<Rightarrow>
                    if config_generation st1 \<noteq> generation then (None, st1)
                    else (case learned_at st1 src generation of
                        None \<Rightarrow> (None, st1)
                      | Some e \<Rightarrow> (Some (ss_document e), publish_style lib env src (e\<lparr>ss_fetched_at := sw_done env\<rparr>) st1))
                | Inr (Some (style, tag)) \<Rightarrow>
                    (case learn_document lib (sw_tilejson env) (knobs st) hosts generation cache_generation
                        (sw_done env) style tag of
                       None \<Rightarrow> (None, st1)
                     | Some learned \<Rightarrow>
                         if config_generation st1 \<noteq> generation then (None, st1)
                         else if map_of (style_states st1) src = None
                           \<and> MAX_LEARNED_STYLE_ENTRIES \<le> length (style_states st1) then (None, st1)
                         else (Some style, publish_style lib env src learned st1))))"

definition fetch_and_learn :: "style_lib \<Rightarrow> style_env \<Rightarrow> string \<Rightarrow> app_state \<Rightarrow> json option \<times> app_state" where
  "fetch_and_learn lib env src st =
     (let generation = config_generation st
      in if odd generation then (None, st)
         else case fresh_learned_document st (sw_now env) src generation of
             Some d \<Rightarrow> (Some d, st)
           | None \<Rightarrow>
               let key = ''style-learn:'' @ dec generation @ '':'' @ src
               in (case inflight_lock key (flights st) of
                     (None, fl) \<Rightarrow> (None, st\<lparr>flights := fl\<rparr>)
                   | (Some lock, fl) \<Rightarrow>
                       let st1 = sw_flight env (st\<lparr>flights := fl\<rparr>);
                           (learned, st2) =
                             (case fresh_learned_document st1 (sw_recheck env) src generation of
                                Some d \<Rightarrow> (Some d, st1)
                              | None \<Rightarrow> learn_style lib env src generation st1)
                       in (learned, release_lock key lock st2)))"

definition ensure_style_learned :: "style_lib \<Rightarrow> style_env \<Rightarrow> string \<Rightarrow> app_state \<Rightarrow> bool \<times> app_state" where
  "ensure_style_learned lib env src st =
     (if fresh_learned_document st (sw_now env) src (config_generation st) \<noteq> None then (True, st)
      else case fetch_and_learn lib env src st of (d, st') \<Rightarrow> (d \<noteq> None, st'))"

section \<open>Reading back after a configuration push\<close>

text \<open>
  The pushed style sources and their signatures; \<open>ids\<close> lists the catalog's keys (the order of a map's
  iteration, without repetition).
\<close>

definition style_signatures :: "style_lib \<Rightarrow> app_state \<Rightarrow> string list \<Rightarrow> (string \<times> string) list" where
  "style_signatures lib st ids =
     List.map_filter (\<lambda>id. case sources st id of
        Some s \<Rightarrow> (case upstream s of
            Style url hosts \<Rightarrow> map_option (Pair id) (style_source_signature lib s)
          | _ \<Rightarrow> None)
      | None \<Rightarrow> None) ids"

definition restore_row :: "style_lib \<Rightarrow> app_state \<Rightarrow> learned_row \<Rightarrow> persisted_style option" where
  "restore_row lib st row =
     (case (sl_decode_state lib (ls_state_json row), sources st (ls_source row)) of
        (Some p, Some s) \<Rightarrow>
          if valid_persisted_style lib p s (allow_private_egress (knobs st)) then Some p else None
      | _ \<Rightarrow> None)"

fun delete_invalid :: "(nat \<Rightarrow> cache_env) \<Rightarrow> nat \<Rightarrow> string list \<Rightarrow> tile_cache \<Rightarrow> (db_error + unit) \<times> tile_cache" where
  "delete_invalid envs i [] c = (Inr (), c)"
| "delete_invalid envs i (src # srcs) c =
     (case delete_learned_style (envs i) src c of
        (Inl e, c') \<Rightarrow> (Inl e, c')
      | (Inr _, c') \<Rightarrow> delete_invalid envs (Suc i) srcs c')"

record rehydrate_env =
  rh_reconcile :: task
  rh_deleted :: bool
  rh_delete :: "nat \<Rightarrow> cache_env"

definition rehydrate_style_state :: "style_lib \<Rightarrow> rehydrate_env \<Rightarrow> string list \<Rightarrow> nat \<Rightarrow> app_state \<Rightarrow> app_state" where
  "rehydrate_style_state lib env ids generation st =
     (case cache_task (joined (rh_reconcile env))
         (reconcile_learned_styles (task_env (rh_reconcile env)) (style_signatures lib st ids) MAX_PERSISTED_STYLE_BYTES)
         (cache st) of
        (None, c) \<Rightarrow> st\<lparr>cache := c, style_states := []\<rparr>
      | (Some rows, c) \<Rightarrow>
          let restored = List.map_filter (\<lambda>r. map_option (\<lambda>p. (ls_source r, into_live generation p)) (restore_row lib st r)) rows;
              invalid = map ls_source (filter (\<lambda>r. restore_row lib st r = None) rows);
              c' = (if invalid = [] then c
                    else if \<not> rh_deleted env then record_operation_error c
                    else log_cache_err (delete_invalid (rh_delete env) 0 invalid c))
          in st\<lparr>cache := c', style_states := restored\<rparr>)"

end
