(* ===== verification/Style_Routes.thy ===== *)
theory Style_Routes
  imports Style
begin

text \<open>
  The routes of the style proxy (\<open>container/tilecache/src/style.rs\<close>): the rewritten style document, the
  glyphs, the sprites and the tiles of the basemap, each served from the cache first and fetched under the
  single-flight lock. \<open>legal\<close> says which strings are header values.
\<close>

section \<open>The style document\<close>

definition plain_response :: "nat \<Rightarrow> http_response" where
  "plain_response n = \<lparr>http_status = n, headers = [], body = []\<rparr>"

text \<open>
  \<open>value[k]\<close> in an assignment: a missing field is added, \<open>Null\<close> becomes an object, anything else panics
  (\<open>None\<close>).
\<close>

fun jupdate :: "string \<Rightarrow> (json \<Rightarrow> json option) \<Rightarrow> json \<Rightarrow> json option" where
  "jupdate k f (JObj m) =
     map_option (\<lambda>x. JObj (AList.update k x m)) (f (case map_of m k of Some v \<Rightarrow> v | None \<Rightarrow> JNull))"
| "jupdate k f JNull = map_option (\<lambda>x. JObj [(k, x)]) (f JNull)"
| "jupdate k f _ = None"

definition rewrite_source :: "string \<Rightarrow> nat option \<Rightarrow> json \<Rightarrow> json" where
  "rewrite_source template max_zoom v =
     (if as_object v = None then v
      else
        let v1 = jset ''tiles'' (JArr [JStr template]) (jremove ''url'' v)
        in (case (jget ''maxzoom'' v1, max_zoom) of (None, Some m) \<Rightarrow> jset ''maxzoom'' (JPos m) v1 | _ \<Rightarrow> v1))"

definition style_tiles_template :: "style_lib \<Rightarrow> string \<Rightarrow> string \<Rightarrow> string \<Rightarrow> string" where
  "style_tiles_template lib public src name =
     public @ ''/style/'' @ src @ ''/tiles/'' @ sl_percent_encode lib name @ ''/{z}/{x}/{y}''"

fun rewrite_sources :: "style_lib \<Rightarrow> string \<Rightarrow> string \<Rightarrow> (string \<times> nat) list \<Rightarrow> string list \<Rightarrow> json \<Rightarrow> json option" where
  "rewrite_sources lib public src zooms [] style = Some style"
| "rewrite_sources lib public src zooms (name # names) style =
     Option.bind
       (jupdate ''sources'' (jupdate name
          (\<lambda>v. Some (rewrite_source (style_tiles_template lib public src name) (map_of zooms name) v))) style)
       (rewrite_sources lib public src zooms names)"

definition rewrite_style :: "style_lib \<Rightarrow> string \<Rightarrow> string \<Rightarrow> style_state \<Rightarrow> json \<Rightarrow> json option" where
  "rewrite_style lib public src learned style =
     Option.bind
       (if ss_glyphs learned \<noteq> None
        then jupdate ''glyphs'' (\<lambda>_. Some (JStr (public @ ''/style/'' @ src @ ''/glyphs/{fontstack}/{range}.pbf''))) style
        else Some style)
       (rewrite_sources lib public src (ss_source_maxzoom learned) (map fst (ss_source_tiles learned)))"

text \<open>\<open>None\<close>: the handler panicked. \<open>late\<close> is what other tasks do before the learned state is read.\<close>

definition style_doc :: "style_lib \<Rightarrow> (string \<Rightarrow> bool) \<Rightarrow> style_env \<Rightarrow> (app_state \<Rightarrow> app_state) \<Rightarrow> int \<Rightarrow> string
    \<Rightarrow> string option \<Rightarrow> app_state \<Rightarrow> http_response option \<times> app_state" where
  "style_doc lib legal env late now src if_none_match st =
     (if allowed_hosts_of st src = None then (Some (plain_response 404), st)
      else case fetch_and_learn lib env src st of
          (None, st1) \<Rightarrow> (Some (plain_response 502), st1)
        | (Some style, st1) \<Rightarrow>
            let st2 = late st1
            in (case map_of (style_states st2) src of
                  None \<Rightarrow> (Some (plain_response 502), st2)
                | Some learned \<Rightarrow>
                    let stale = (kn_fresh_secs (knobs st2) \<le> now - ss_fetched_at learned)
                    in (case rewrite_style lib (public_base st2) src learned style of
                          None \<Rightarrow> (None, st2)
                        | Some doc \<Rightarrow>
                            (Some (case sl_to_vec lib doc of
                               None \<Rightarrow> plain_response 502
                             | Some b \<Rightarrow> tile_http_response legal ''application/json'' (content_etag (sl_sha256 lib) b)
                                 stale b if_none_match), st2))))"

section \<open>Serving an asset\<close>

definition is_object_bytes :: "style_lib \<Rightarrow> byte list \<Rightarrow> bool" where
  "is_object_bytes lib b = (case sl_from_slice lib b of Some v \<Rightarrow> as_object v \<noteq> None | None \<Rightarrow> False)"

definition valid_asset :: "style_lib \<Rightarrow> style_asset_kind \<Rightarrow> string \<Rightarrow> byte list \<Rightarrow> bool" where
  "valid_asset lib = valid_style_asset (is_object_bytes lib)"

definition blob_bytes :: "cached_tile \<Rightarrow> byte list" where
  "blob_bytes t = (case blob t of Some b \<Rightarrow> b | None \<Rightarrow> [])"

definition valid_cached_asset :: "style_lib \<Rightarrow> style_asset_kind \<Rightarrow> cached_tile \<Rightarrow> bool" where
  "valid_cached_asset lib kind t \<longleftrightarrow> status t = 200 \<and> valid_asset lib kind (content_type t) (blob_bytes t)"

definition asset_response :: "(string \<Rightarrow> bool) \<Rightarrow> cached_tile \<Rightarrow> string option \<Rightarrow> http_response" where
  "asset_response legal t if_none_match =
     tile_http_response legal (content_type t) (strong_etag t) False (blob_bytes t) if_none_match"

text \<open>\<open>touches\<close>: the glyph and tile routes touch a row they serve, the sprite routes do not.\<close>

definition serve_asset :: "style_lib \<Rightarrow> (string \<Rightarrow> bool) \<Rightarrow> style_asset_kind \<Rightarrow> bool \<Rightarrow> tile_key \<Rightarrow> string option
    \<Rightarrow> int \<Rightarrow> cached_tile \<Rightarrow> app_state \<Rightarrow> http_response option \<times> spawned list \<times> app_state" where
  "serve_asset lib legal kind touches k if_none_match now t st =
     (if valid_cached_asset lib kind t \<and> now - fetched_at t < kn_fresh_secs (knobs st)
      then (case (if touches then try_touch st k t now else ([], st)) of
              (sp, st') \<Rightarrow> (Some (asset_response legal t if_none_match), sp, st'))
      else if status t \<noteq> 200 \<and> now - fetched_at t < negative_ttl_secs (knobs st)
      then (Some (plain_response 404), [], st)
      else (None, [], st))"

record asset_fetch_key =
  ak_health :: string
  ak_key :: tile_key
  ak_kind :: style_asset_kind

definition store_asset :: "fill_env \<Rightarrow> tile_key \<Rightarrow> cached_tile \<Rightarrow> app_state \<Rightarrow> app_state" where
  "store_asset env k t st = st\<lparr>cache := store_and_evict env (live_cap_bytes st) k t (fe_done env) (cache st)\<rparr>"

definition fetch_asset_response :: "style_lib \<Rightarrow> (string \<Rightarrow> bool) \<Rightarrow> wire \<Rightarrow> fill_env \<Rightarrow> asset_fetch_key \<Rightarrow> string
    \<Rightarrow> string option \<Rightarrow> app_state \<Rightarrow> http_response \<times> app_state" where
  "fetch_asset_response lib legal w env key upstream_url if_none_match st =
     (case cache_get (fe_lookup env) (ak_key key) (cache st) of
        (found, c) \<Rightarrow>
          let st1 = st\<lparr>cache := c\<rparr>;
              valid_stale = (case found of
                  Inr (Some t) \<Rightarrow> if valid_cached_asset lib (ak_kind key) t then Some t else None
                | _ \<Rightarrow> None)
          in (case fetch_upstream w (knobs st1) (ak_health key) upstream_url (Option.bind valid_stale upstream_validator)
                (health st1) of
                (res, h) \<Rightarrow>
                  let st2 = fe_others env (st1\<lparr>health := h\<rparr>);
                      failed = (case valid_stale of
                          None \<Rightarrow> (plain_response 502, st2)
                        | Some t \<Rightarrow>
                            if kn_max_stale_secs (knobs st2) \<le> fe_stale env - fetched_at t
                              \<and> \<not> cache_is_pinned (fe_pin env) (ak_key key) (cache st2)
                            then (plain_response 502, st2)
                            else (tile_http_response legal (content_type t) (strong_etag t) True (blob_bytes t) if_none_match, st2))
                  in (case res of
                        Inl _ \<Rightarrow> failed
                      | Inr (sc, f) \<Rightarrow>
                          if sc = 304 then
                            (case valid_stale of
                               None \<Rightarrow> (plain_response 502, st2)
                             | Some t \<Rightarrow>
                                 let r = refreshed t (fe_done env)
                                 in (asset_response legal r if_none_match, store_asset env (ak_key key) r st2))
                          else if sc = 200 then
                            if \<not> valid_asset lib (ak_kind key) (f_content_type f) (f_body f) then (plain_response 502, st2)
                            else
                              let t = fresh_tile (sl_sha256 lib) f (fe_done env)
                              in (asset_response legal t if_none_match, store_asset env (ak_key key) t st2)
                          else if sc = 404 \<or> sc = 204 then
                            (plain_response 404, store_asset env (ak_key key) (negative 404 (fe_done env)) st2)
                          else failed)))"

text \<open>
  The scaffold of the asset routes: a lookup, the single flight, a second lookup, the fetch. \<open>fetch_store\<close>
  runs at most once, under the lock.
\<close>

record route_env =
  ae_style :: style_env
  ae_late :: "app_state \<Rightarrow> app_state"
  ae_now :: int
  ae_first :: task
  ae_flight :: "app_state \<Rightarrow> app_state"
  ae_recheck :: int
  ae_second :: task
  ae_wire :: wire
  ae_fill :: fill_env

definition look_and_serve :: "(int \<Rightarrow> cached_tile \<Rightarrow> app_state \<Rightarrow> http_response option \<times> spawned list \<times> app_state)
    \<Rightarrow> task \<Rightarrow> int \<Rightarrow> tile_key \<Rightarrow> app_state \<Rightarrow> http_response option \<times> spawned list \<times> app_state" where
  "look_and_serve serve t now k st =
     (case cache_get t k (cache st) of
        (Inr (Some tile), c) \<Rightarrow> serve now tile (st\<lparr>cache := c\<rparr>)
      | (_, c) \<Rightarrow> (None, [], st\<lparr>cache := c\<rparr>))"

definition cache_first_single_flight :: "route_env \<Rightarrow> tile_key
    \<Rightarrow> (int \<Rightarrow> cached_tile \<Rightarrow> app_state \<Rightarrow> http_response option \<times> spawned list \<times> app_state)
    \<Rightarrow> (app_state \<Rightarrow> http_response \<times> app_state) \<Rightarrow> app_state \<Rightarrow> http_response \<times> spawned list \<times> app_state" where
  "cache_first_single_flight env k serve fetch_store st =
     (case look_and_serve serve (ae_first env) (ae_now env) k st of
        (Some r, sp, st1) \<Rightarrow> (r, sp, st1)
      | (None, sp, st1) \<Rightarrow>
          let key = inflight_key k
          in (case inflight_lock key (flights st1) of
                (None, fl) \<Rightarrow> (plain_response 503, sp, st1\<lparr>flights := fl\<rparr>)
              | (Some lock, fl) \<Rightarrow>
                  (case look_and_serve serve (ae_second env) (ae_recheck env) k (ae_flight env (st1\<lparr>flights := fl\<rparr>)) of
                     (Some r, sp', st2) \<Rightarrow> (r, sp @ sp', release_lock key lock st2)
                   | (None, sp', st2) \<Rightarrow>
                       (case fetch_store st2 of (r, st3) \<Rightarrow> (r, sp @ sp', release_lock key lock st3)))))"

text \<open>The fetch of a route: its URL must still be allowed by the catalog when it is asked.\<close>

definition fetch_allowed :: "style_lib \<Rightarrow> (string \<Rightarrow> bool) \<Rightarrow> route_env \<Rightarrow> asset_fetch_key \<Rightarrow> string \<Rightarrow> string option
    \<Rightarrow> app_state \<Rightarrow> http_response \<times> app_state" where
  "fetch_allowed lib legal env key url if_none_match st =
     (let hosts = (case allowed_hosts_of st (ak_health key) of Some (_, hs) \<Rightarrow> hs | None \<Rightarrow> [])
      in if \<not> url_allowed lib hosts (allow_private_egress (knobs st)) url then (plain_response 502, st)
         else fetch_asset_response lib legal (ae_wire env) (ae_fill env) key url if_none_match st)"

definition with_learned :: "style_lib \<Rightarrow> route_env \<Rightarrow> string \<Rightarrow> app_state
    \<Rightarrow> (style_state \<Rightarrow> app_state \<Rightarrow> http_response \<times> spawned list \<times> app_state) \<Rightarrow> http_response \<times> spawned list \<times> app_state" where
  "with_learned lib env src st k =
     (case ensure_style_learned lib (ae_style env) src st of
        (False, st1) \<Rightarrow> (plain_response 502, [], st1)
      | (True, st1) \<Rightarrow>
          let st2 = ae_late env st1
          in (case map_of (style_states st2) src of
                None \<Rightarrow> (plain_response 404, [], st2)
              | Some learned \<Rightarrow> k learned st2))"

definition glyphs :: "style_lib \<Rightarrow> (string \<Rightarrow> bool) \<Rightarrow> route_env \<Rightarrow> string \<Rightarrow> string \<Rightarrow> string \<Rightarrow> string option
    \<Rightarrow> app_state \<Rightarrow> http_response \<times> spawned list \<times> app_state" where
  "glyphs lib legal env src fontstack rg if_none_match st =
     (case glyph_range rg of
        None \<Rightarrow> (plain_response 404, [], st)
      | Some (start, canonical) \<Rightarrow>
          with_learned lib env src st (\<lambda>learned st1.
            if fontstack \<notin> set (ss_fontstacks learned) then (plain_response 404, [], st1)
            else
              let k = (glyph_cache_source_at src fontstack (ss_generation learned), 0, start, 0)
              in cache_first_single_flight env k (serve_asset lib legal Glyph True k if_none_match)
                   (\<lambda>st2. case ss_glyphs learned of
                      None \<Rightarrow> (plain_response 404, st2)
                    | Some template \<Rightarrow>
                        fetch_allowed lib legal env \<lparr>ak_health = src, ak_key = k, ak_kind = Glyph\<rparr>
                          (expand_glyph_url (sl_percent_encode lib) template fontstack canonical) if_none_match st2) st1))"

definition sprite_variant :: "style_lib \<Rightarrow> (string \<Rightarrow> bool) \<Rightarrow> route_env \<Rightarrow> string \<Rightarrow> string option \<Rightarrow> nat \<Rightarrow> string
    \<Rightarrow> app_state \<Rightarrow> http_response \<times> spawned list \<times> app_state" where
  "sprite_variant lib legal env src if_none_match variant suffix st =
     with_learned lib env src st (\<lambda>learned st1.
       let k = (sprite_cache_source_at src (ss_generation learned), 0, variant, 0);
           kind = (if strip_suffix ''.json'' suffix \<noteq> None then SpriteJson else SpritePng)
       in cache_first_single_flight env k (serve_asset lib legal kind False k if_none_match)
            (\<lambda>st2. case ss_sprite_base learned of
               None \<Rightarrow> (plain_response 404, st2)
             | Some base \<Rightarrow>
                 fetch_allowed lib legal env \<lparr>ak_health = src, ak_key = k, ak_kind = kind\<rparr>
                   (base @ suffix) if_none_match st2) st1)"

text \<open>The four sprite routes.\<close>

definition sprite_json where "sprite_json lib legal env src inm = sprite_variant lib legal env src inm 0 ''.json''"
definition sprite_png where "sprite_png lib legal env src inm = sprite_variant lib legal env src inm 1 ''.png''"
definition sprite_2x_json where "sprite_2x_json lib legal env src inm = sprite_variant lib legal env src inm 2 ''@2x.json''"
definition sprite_2x_png where "sprite_2x_png lib legal env src inm = sprite_variant lib legal env src inm 3 ''@2x.png''"

definition vector_tile :: "style_lib \<Rightarrow> (string \<Rightarrow> bool) \<Rightarrow> route_env \<Rightarrow> string \<Rightarrow> string \<Rightarrow> nat \<Rightarrow> nat \<Rightarrow> nat
    \<Rightarrow> string option \<Rightarrow> app_state \<Rightarrow> http_response \<times> spawned list \<times> app_state" where
  "vector_tile lib legal env src name z x y if_none_match st =
     with_learned lib env src st (\<lambda>learned st1.
       case map_of (ss_source_tiles learned) name of
         None \<Rightarrow> (plain_response 404, [], st1)
       | Some [] \<Rightarrow> (plain_response 404, [], st1)
       | Some (template # _) \<Rightarrow>
           if (case map_of (ss_source_maxzoom learned) name of Some m \<Rightarrow> m | None \<Rightarrow> 24) < z \<or> 24 < z
              \<or> checked_span z \<le> x \<or> checked_span z \<le> y
           then (plain_response 400, [], st1)
           else
             let kind = (if name \<in> ss_raster_sources learned then RasterTile else VectorTile);
                 k = (vector_cache_source_at src name (ss_generation learned), z, x, y)
             in cache_first_single_flight env k (serve_asset lib legal kind True k if_none_match)
                  (fetch_allowed lib legal env \<lparr>ak_health = src, ak_key = k, ak_kind = kind\<rparr>
                     (expand_zxy template (dec z) (dec x) (dec y)) if_none_match) st1)"

end
