(* ===== verification/Config.thy ===== *)
theory Config
  imports Style_Routes
begin

text \<open>
  The configuration push, the control token and the live scroll lifetime
  (\<open>container/tilecache/src/routes.rs\<close>), and the age sweep that follows it
  (\<open>container/tilecache/src/sweep.rs\<close>).
\<close>

section \<open>Requests and the control token\<close>

datatype http_method = M_get | M_head | M_post | M_delete | M_other string

text \<open>Byte \<open>i\<close> of a text, zero past its end, and the comparison over all bytes of the longer text.\<close>

definition byte_at :: "string \<Rightarrow> nat \<Rightarrow> u64" where
  "byte_at s i = (if i < length s then of_nat (code (s ! i)) else 0)"

unbundle bit_operations_syntax

definition control_authorized :: "string option \<Rightarrow> string option \<Rightarrow> bool" where
  "control_authorized expected supplied =
     (case expected of
        None \<Rightarrow> False
      | Some e \<Rightarrow>
          let s = (case supplied of Some t \<Rightarrow> t | None \<Rightarrow> []);
              diff = (of_nat (length s) XOR of_nat (length e) :: u64)
          in fold (\<lambda>i d. d OR (byte_at s i XOR byte_at e i)) [0..<max (length s) (length e)] diff = 0)"

text \<open>\<open>HeaderValue::to_str\<close>: a value of visible ASCII characters, spaces and tabs has a text.\<close>

definition to_str :: "string \<Rightarrow> string option" where
  "to_str v = (if list_all (\<lambda>c. code c = 9 \<or> (32 \<le> code c \<and> code c < 127)) v then Some v else None)"

definition CONTROL_TOKEN_HEADER :: string where "CONTROL_TOKEN_HEADER = ''x-tilecache-token''"

definition mutation_authorized :: "string option \<Rightarrow> (string \<times> string) list \<Rightarrow> bool" where
  "mutation_authorized expected hs = control_authorized expected (Option.bind (map_of hs CONTROL_TOKEN_HEADER) to_str)"

definition is_read :: "http_method \<Rightarrow> bool" where
  "is_read m \<longleftrightarrow> m = M_get \<or> m = M_head"

text \<open>The middleware: \<open>answer\<close> wraps its own response, \<open>next_handler\<close> is the rest of the service.\<close>

definition require_control_token :: "string option \<Rightarrow> http_method \<Rightarrow> (string \<times> string) list \<Rightarrow> (http_response \<Rightarrow> 'r)
    \<Rightarrow> (app_state \<Rightarrow> 'r \<times> app_state) \<Rightarrow> app_state \<Rightarrow> 'r \<times> app_state" where
  "require_control_token token m hs answer next_handler st =
     (if \<not> is_read m \<and> \<not> mutation_authorized token hs then (answer (plain_response 401), st) else next_handler st)"

text \<open>The exclusive or of two words is zero exactly when they are equal, so the loop compares the texts.\<close>

lemma fold_or_zero: "fold (\<lambda>i d. d OR f i) xs d = (0 :: u64) \<longleftrightarrow> d = 0 \<and> (\<forall>i \<in> set xs. f i = 0)"
proof (induction xs arbitrary: d)
  case (Cons x xs)
  have "d OR f x = 0 \<longleftrightarrow> d = 0 \<and> f x = 0" by (metis or_eq_0_iff)
  with Cons show ?case by auto
qed simp

lemma xor_zero_iff: "a XOR b = 0 \<longleftrightarrow> a = (b :: u64)"
  by (metis xor_self_eq bit.xor_left_self xor.right_neutral)

lemma of_nat_u64_eq: "m < 2 ^ 64 \<Longrightarrow> n < 2 ^ 64 \<Longrightarrow> (of_nat m :: u64) = of_nat n \<longleftrightarrow> m = n"
  by (simp add: word_of_nat_eq_iff take_bit_nat_eq_self)

lemma code_lt: "code c < 256"
  by (simp add: code_def)

lemma byte_at_eq: "i < length a \<Longrightarrow> i < length b \<Longrightarrow> byte_at a i = byte_at b i \<Longrightarrow> a ! i = b ! i"
  using of_nat_u64_eq[of "code (a ! i)" "code (b ! i)"] code_lt[of "a ! i"] code_lt[of "b ! i"]
  by (simp add: byte_at_def) (simp add: code_def)

lemma control_authorized_eq:
  assumes "length e < 2 ^ 64" "length (case supplied of Some t \<Rightarrow> t | None \<Rightarrow> []) < 2 ^ 64"
  shows "control_authorized (Some e) supplied \<longleftrightarrow> (case supplied of Some t \<Rightarrow> t | None \<Rightarrow> []) = e"
proof -
  let ?s = "case supplied of Some t \<Rightarrow> t | None \<Rightarrow> []"
  have "control_authorized (Some e) supplied \<longleftrightarrow> length ?s = length e
      \<and> (\<forall>i \<in> {0..<max (length ?s) (length e)}. byte_at ?s i = byte_at e i)"
    by (simp add: control_authorized_def Let_def fold_or_zero xor_zero_iff of_nat_u64_eq[OF assms(2,1)])
  also have "... \<longleftrightarrow> ?s = e"
    using byte_at_eq[of _ ?s e] by (auto intro!: nth_equalityI)
  finally show ?thesis .
qed

section \<open>The configuration push\<close>

definition MAX_CONFIG_SOURCES :: nat where "MAX_CONFIG_SOURCES = 128"
definition MAX_SCROLL_TTL_SECS :: int where "MAX_SCROLL_TTL_SECS = 365 * 86400"

record config_body =
  cb_sources :: "chart_source list"
  cb_public_base :: "string option"
  cb_cap_bytes :: "int option"
  cb_regions_budget_bytes :: "int option"
  cb_position_warm_budget_bytes :: "int option"
  cb_scroll_ttl_secs :: "int option"
  cb_geocoding_enabled :: "bool option"

datatype config_rejection =
    Too_many_sources | Too_many_style_sources | Invalid_source | Invalid_public_base | Invalid_budget | Invalid_ttl

fun rejection_str :: "config_rejection \<Rightarrow> string" where
  "rejection_str Too_many_sources = ''too_many_sources''"
| "rejection_str Too_many_style_sources = ''too_many_style_sources''"
| "rejection_str Invalid_source = ''invalid_source''"
| "rejection_str Invalid_public_base = ''invalid_public_base''"
| "rejection_str Invalid_budget = ''invalid_budget''"
| "rejection_str Invalid_ttl = ''invalid_ttl''"

definition opt_or :: "'a option \<Rightarrow> 'a \<Rightarrow> 'a" where
  "opt_or x d = (case x of Some v \<Rightarrow> v | None \<Rightarrow> d)"

lemma opt_or_simps [simp]: "opt_or None d = d" "opt_or (Some v) d = v"
  by (simp_all add: opt_or_def)

text \<open>\<open>any(!is_valid || !ids.insert)\<close>: \<open>seen\<close> is the set of identifiers so far.\<close>

fun any_invalid :: "(chart_source \<Rightarrow> bool) \<Rightarrow> string set \<Rightarrow> chart_source list \<Rightarrow> bool" where
  "any_invalid valid seen [] = False"
| "any_invalid valid seen (s # ss) = (\<not> valid s \<or> src_id s \<in> seen \<or> any_invalid valid (insert (src_id s) seen) ss)"

definition invalid_public_base :: "string \<Rightarrow> bool" where
  "invalid_public_base base \<longleftrightarrow> \<not> starts_with base ''/'' \<or> starts_with base ''//'' \<or> 512 < length base
     \<or> list_ex (\<lambda>c. is_control c \<or> is_whitespace c) base \<or> contains_any base [CHR 0x5C, CHR ''?'', CHR ''#'']"

definition is_style_upstream :: "chart_source \<Rightarrow> bool" where
  "is_style_upstream s = (case upstream s of Style url hosts \<Rightarrow> True | _ \<Rightarrow> False)"

record live_limits =
  ll_cap :: int
  ll_regions :: int
  ll_position :: int
  ll_ttl :: int

text \<open>The pushed limits, those not in the body as they are.\<close>

definition pushed_limits :: "config_body \<Rightarrow> app_state \<Rightarrow> live_limits" where
  "pushed_limits b st = \<lparr>ll_cap = opt_or (cb_cap_bytes b) (live_cap_bytes st),
     ll_regions = opt_or (cb_regions_budget_bytes b) (live_regions_budget st),
     ll_position = opt_or (cb_position_warm_budget_bytes b) (live_position_warm_budget st),
     ll_ttl = opt_or (cb_scroll_ttl_secs b) (live_scroll_ttl_secs st)\<rparr>"

definition config_rejected :: "style_lib \<Rightarrow> config_body \<Rightarrow> app_state \<Rightarrow> config_rejection option" where
  "config_rejected lib b st =
     (let l = pushed_limits b st
      in if MAX_CONFIG_SOURCES < length (cb_sources b) then Some Too_many_sources
         else if any_invalid (\<lambda>s. is_valid (\<lambda>u. map_option fst (sl_parse_url lib u)) s (allow_private_egress (knobs st))) {} (cb_sources b)
         then Some Invalid_source
         else if MAX_LEARNED_STYLE_ENTRIES < length (filter is_style_upstream (cb_sources b)) then Some Too_many_style_sources
         else if (case cb_public_base b of Some base \<Rightarrow> invalid_public_base base | None \<Rightarrow> False) then Some Invalid_public_base
         else if ll_cap l \<le> 0 \<or> ll_regions l < 0 \<or> ll_cap l < ll_regions l \<or> ll_position l < 0 \<or> ll_regions l < ll_position l
         then Some Invalid_budget
         else if \<not> (0 \<le> ll_ttl l \<and> ll_ttl l \<le> MAX_SCROLL_TTL_SECS) then Some Invalid_ttl
         else None)"

text \<open>
  The blocking task: \<open>Inr (Some p)\<close> when the pinned bytes alone exceed the cap. \<open>reclaimed\<close> is the result of
  the free-page reclaim.
\<close>

definition enforce_cap :: "cache_env \<Rightarrow> (db_error + unit) \<Rightarrow> int \<Rightarrow> tile_cache \<Rightarrow> (db_error + int option) \<times> tile_cache" where
  "enforce_cap env reclaimed cap c =
     (if cap < pinned_bytes c then (Inr (Some (pinned_bytes c)), c)
      else case evict_to env cap c of
          (Inl e, c') \<Rightarrow> (Inl e, c')
        | (Inr _, c') \<Rightarrow> (case reclaimed of Inl e \<Rightarrow> (Inl e, c') | Inr _ \<Rightarrow> (Inr None, c')))"

text \<open>
  What a push meets while it holds the configuration lock: the other tasks before its blocking task and
  before the learned styles are read back, the task itself, and the order of the catalog's keys.
\<close>

record config_env =
  cf_enforcing :: "app_state \<Rightarrow> app_state"
  cf_task :: task
  cf_reclaimed :: "db_error + unit"
  cf_publishing :: "app_state \<Rightarrow> app_state"
  cf_rehydrate :: rehydrate_env
  cf_ids :: "string list"

definition next_generation :: "app_state \<Rightarrow> app_state" where
  "next_generation st = st\<lparr>config_generation := config_generation st + 1\<rparr>"

definition publish_options :: "config_body \<Rightarrow> app_state \<Rightarrow> app_state" where
  "publish_options b st = st\<lparr>public_base := opt_or (cb_public_base b) (public_base st),
     live_cap_bytes := opt_or (cb_cap_bytes b) (live_cap_bytes st),
     live_regions_budget := opt_or (cb_regions_budget_bytes b) (live_regions_budget st),
     live_position_warm_budget := opt_or (cb_position_warm_budget_bytes b) (live_position_warm_budget st),
     live_scroll_ttl_secs := opt_or (cb_scroll_ttl_secs b) (live_scroll_ttl_secs st),
     geocoding_enabled := opt_or (cb_geocoding_enabled b) (geocoding_enabled st)\<rparr>"

definition catalog_of :: "chart_source list \<Rightarrow> string \<rightharpoonup> chart_source" where
  "catalog_of ss = map_of (rev (map (\<lambda>s. (src_id s, s)) ss))"

definition publish_config :: "style_lib \<Rightarrow> config_env \<Rightarrow> config_body \<Rightarrow> app_state \<Rightarrow> app_state" where
  "publish_config lib env b st =
     (let st1 = (cf_publishing env st)\<lparr>sources := catalog_of (cb_sources b)\<rparr>;
          st2 = rehydrate_style_state lib (cf_rehydrate env) (cf_ids env) (config_generation st1 + 1) st1;
          st3 = mark_configured (next_generation (publish_options b st2))
      in st3\<lparr>config_pushes := config_pushes st3 + 1\<rparr>)"

definition jint :: "int \<Rightarrow> json" where
  "jint n = (if 0 \<le> n then JPos (nat n) else JNeg n)"

definition json_response :: "(json \<Rightarrow> byte list) \<Rightarrow> nat \<Rightarrow> json \<Rightarrow> http_response" where
  "json_response show_json n j = \<lparr>http_status = n, headers = [(''content-type'', ''application/json'')], body = show_json j\<rparr>"

definition text_response :: "nat \<Rightarrow> string \<Rightarrow> http_response" where
  "text_response n t = \<lparr>http_status = n, headers = [(''content-type'', ''text/plain; charset=utf-8'')],
     body = map (\<lambda>c. of_nat (code c)) t\<rparr>"

definition config :: "style_lib \<Rightarrow> (json \<Rightarrow> byte list) \<Rightarrow> config_env \<Rightarrow> config_body \<Rightarrow> app_state \<Rightarrow> http_response \<times> app_state" where
  "config lib show_json env b st =
     (case config_rejected lib b st of
        Some r \<Rightarrow> (text_response 400 (rejection_str r), st)
      | None \<Rightarrow>
          let cap = ll_cap (pushed_limits b st);
              st1 = cf_enforcing env (next_generation st)
          in if \<not> joined (cf_task env)
             then (plain_response 500, (next_generation st1)\<lparr>cache := record_operation_error (cache st1)\<rparr>)
             else (case enforce_cap (task_env (cf_task env)) (cf_reclaimed env) cap (cache st1) of
                 (Inl e, c) \<Rightarrow> (plain_response 500, (next_generation st1)\<lparr>cache := record_operation_error c\<rparr>)
               | (Inr (Some pinned), c) \<Rightarrow>
                   (json_response show_json 409 (JObj [(''error'', JStr ''capBelowPinnedBytes''), (''capBytes'', jint cap),
                      (''pinnedBytes'', jint pinned)]), (next_generation st1)\<lparr>cache := c\<rparr>)
               | (Inr None, c) \<Rightarrow> (plain_response 204, publish_config lib env b (st1\<lparr>cache := c\<rparr>))))"

section \<open>The scroll lifetime and the sweep\<close>

definition set_scroll_ttl :: "int \<Rightarrow> app_state \<Rightarrow> nat \<times> app_state" where
  "set_scroll_ttl ttl st =
     (if \<not> (0 \<le> ttl \<and> ttl \<le> MAX_SCROLL_TTL_SECS) then (400, st)
      else (204, st\<lparr>live_scroll_ttl_secs := ttl\<rparr>))"

definition SWEEP_INTERVAL_SECS :: int where "SWEEP_INTERVAL_SECS = 3600"

definition run_sweep_once :: "bool \<Rightarrow> (nat \<Rightarrow> faults) \<Rightarrow> int \<Rightarrow> app_state \<Rightarrow> app_state" where
  "run_sweep_once returned fls now st =
     st\<lparr>cache := snd (cache_task returned (sweep_aged_unpinned fls (live_scroll_ttl_secs st) now) (cache st))\<rparr>"

text \<open>
  \<open>wait_until_configured\<close> checks the flag each time it is woken (\<open>polls\<close> are the states it sees; \<open>None\<close> when
  none of them is configured), and the sweeper then runs once per tick. A tick is what other tasks did
  before it and what its sweep meets.
\<close>

fun wait_until_configured :: "(app_state \<Rightarrow> app_state) list \<Rightarrow> app_state \<Rightarrow> app_state option" where
  "wait_until_configured wakes st =
     (if configured st then Some st
      else case wakes of [] \<Rightarrow> None | w # ws \<Rightarrow> wait_until_configured ws (w st))"

record sweep_tick =
  st_before :: "app_state \<Rightarrow> app_state"
  st_returned :: bool
  st_faults :: "nat \<Rightarrow> faults"
  st_now :: int

definition sweep_tick_step :: "sweep_tick \<Rightarrow> app_state \<Rightarrow> app_state" where
  "sweep_tick_step t st = run_sweep_once (st_returned t) (st_faults t) (st_now t) (st_before t st)"

definition run_sweeper :: "(app_state \<Rightarrow> app_state) list \<Rightarrow> sweep_tick list \<Rightarrow> app_state \<Rightarrow> app_state option" where
  "run_sweeper wakes ticks st = map_option (fold sweep_tick_step ticks) (wait_until_configured wakes st)"

end
