(* ===== verification/Geocode.thy ===== *)
theory Geocode
  imports App_State
begin

text \<open>
  The reverse-geocode proxy (\<open>container/tilecache/src/geocode.rs\<close>). Its state is behind one mutex that a
  handler holds until it answers, so handlers run one after the other. Times are monotonic nanoseconds.
  The decimal printing of a coordinate, the JSON parser and the URL parser are arguments.
\<close>

definition NOMINATIM_HOST :: string where "NOMINATIM_HOST = ''nominatim.openstreetmap.org''"
definition NOMINATIM_USER_AGENT :: string where
  "NOMINATIM_USER_AGENT = ''signalk-chart-locker geocoder (+https://github.com/NearlCrews/signalk-chart-locker)''"
definition GEOCODE_CACHE_TTL :: int where "GEOCODE_CACHE_TTL = 24 * 60 * 60 * 1000000000"
definition GEOCODE_CACHE_LIMIT :: nat where "GEOCODE_CACHE_LIMIT = 256"
definition NOMINATIM_INTERVAL :: int where "NOMINATIM_INTERVAL = 1000000000"
definition GEOCODE_RESPONSE_MAX_BYTES :: nat where "GEOCODE_RESPONSE_MAX_BYTES = 256 * 1024"

definition host_is_nominatim :: "(string \<Rightarrow> string option) \<Rightarrow> string \<Rightarrow> bool" where
  "host_is_nominatim host url = (case host url of Some h \<Rightarrow> eq_ignore_ascii_case h NOMINATIM_HOST | None \<Rightarrow> False)"

definition valid_geocode_body :: "(byte list \<Rightarrow> bool) \<Rightarrow> byte list \<Rightarrow> bool" where
  "valid_geocode_body is_json b \<longleftrightarrow> length b \<le> GEOCODE_RESPONSE_MAX_BYTES \<and> is_json b"

text \<open>The guarded GET with one header of the caller; \<open>guarded_get\<close> is the case of the conditional header.\<close>

definition guarded_get_with_headers :: "wire \<Rightarrow> knobs \<Rightarrow> bool \<Rightarrow> string \<Rightarrow> (string \<times> string) option \<Rightarrow> u64
    \<Rightarrow> fetch_error + upstream_response" where
  "guarded_get_with_headers w kn attempt url hdr timeout =
     (if \<not> allow_private_egress kn \<and> is_forbidden_ip_literal_url (host_of w) url then Inl Transport
      else if \<not> egress_open w then Inl Transport
      else case send w attempt url hdr timeout of
          Answered r \<Rightarrow> Inr r
        | Send_timed_out \<Rightarrow> Inl Timeout
        | Send_failed \<Rightarrow> Inl Transport)"

lemma guarded_get_is_with_headers:
  "guarded_get w kn attempt url inm t = guarded_get_with_headers w kn attempt url (conditional_header inm) t"
  by (simp add: guarded_get_def guarded_get_with_headers_def)

text \<open>\<open>Duration\<close> differences are never negative.\<close>

definition elapsed :: "int \<Rightarrow> int \<Rightarrow> int" where "elapsed now since = max 0 (now - since)"

text \<open>
  What a handler meets: the clock when it has the lock, after the wait, and when it stores; the wire; and what
  the other tasks do before it has the lock.
\<close>

record geocode_env =
  ge_now :: int
  ge_sent :: int
  ge_stored :: int
  ge_wire :: wire
  ge_waited :: "app_state \<Rightarrow> app_state"

record geocode_lib =
  gl_fixed5 :: "f64 \<Rightarrow> string"
  gl_is_json :: "byte list \<Rightarrow> bool"

definition json_answer :: "byte list \<Rightarrow> http_response" where
  "json_answer b = \<lparr>http_status = 200, headers = [(''content-type'', ''application/json'')], body = b\<rparr>"

definition status_only :: "nat \<Rightarrow> http_response" where
  "status_only n = \<lparr>http_status = n, headers = [], body = []\<rparr>"

definition coordinate_key :: "geocode_lib \<Rightarrow> f64 \<Rightarrow> f64 \<Rightarrow> string" where
  "coordinate_key lib lat lon = gl_fixed5 lib lat @ '','' @ gl_fixed5 lib lon"

definition reverse_url :: "geocode_lib \<Rightarrow> f64 \<Rightarrow> f64 \<Rightarrow> string" where
  "reverse_url lib lat lon = ''https://'' @ NOMINATIM_HOST @ ''/reverse?format=jsonv2&lat='' @ gl_fixed5 lib lat
     @ ''&lon='' @ gl_fixed5 lib lon"

text \<open>\<open>min_by_key\<close>: the first of the oldest entries.\<close>

fun oldest_of :: "(string \<times> int \<times> byte list) list \<Rightarrow> (string \<times> int) option" where
  "oldest_of [] = None"
| "oldest_of ((k, t, b) # es) =
     (case oldest_of es of
        None \<Rightarrow> Some (k, t)
      | Some (k', t') \<Rightarrow> if t' < t then Some (k', t') else Some (k, t))"

definition remember :: "int \<Rightarrow> string \<Rightarrow> byte list \<Rightarrow> (string \<times> int \<times> byte list) list \<Rightarrow> (string \<times> int \<times> byte list) list" where
  "remember now key b es =
     (let es' = (if GEOCODE_CACHE_LIMIT \<le> length es
                 then (case oldest_of es of Some (k, _) \<Rightarrow> AList.delete k es | None \<Rightarrow> es) else es)
      in AList.update key (now, b) es')"

text \<open>The wait before a request: what is left of the interval since the last one.\<close>

definition politeness_wait :: "int \<Rightarrow> int option \<Rightarrow> int" where
  "politeness_wait now last_request =
     (case last_request of Some t \<Rightarrow> max 0 (NOMINATIM_INTERVAL - elapsed now t) | None \<Rightarrow> 0)"

text \<open>The handler under its lock; the second component is the time of the request it sent, if it sent one.\<close>

definition geocode_locked :: "geocode_lib \<Rightarrow> knobs \<Rightarrow> geocode_env \<Rightarrow> f64 \<Rightarrow> f64 \<Rightarrow> geocode_state
    \<Rightarrow> (http_response \<times> int option) \<times> geocode_state" where
  "geocode_locked lib kn env lat lon g =
     (let key = coordinate_key lib lat lon;
          g1 = g\<lparr>gc_cache := filter (\<lambda>(_, stored, _). elapsed (ge_now env) stored < GEOCODE_CACHE_TTL) (gc_cache g)\<rparr>
      in case map_of (gc_cache g1) key of
           Some (_, b) \<Rightarrow> ((json_answer b, None), g1)
         | None \<Rightarrow>
             let g2 = g1\<lparr>gc_last_request := Some (ge_sent env)\<rparr>;
                 url = reverse_url lib lat lon
             in if \<not> host_is_nominatim (host_of (ge_wire env)) url then ((status_only 400, None), g2)
                else (case guarded_get_with_headers (ge_wire env) kn False url
                     (Some (''user-agent'', NOMINATIM_USER_AGENT)) (upstream_base_timeout_ms kn) of
                   Inl _ \<Rightarrow> ((status_only 502, Some (ge_sent env)), g2)
                 | Inr r \<Rightarrow>
                     if \<not> (200 \<le> ur_status r \<and> ur_status r < 300) then ((status_only 502, Some (ge_sent env)), g2)
                     else (case read_capped_to GEOCODE_RESPONSE_MAX_BYTES r of
                         None \<Rightarrow> ((status_only 502, Some (ge_sent env)), g2)
                       | Some b \<Rightarrow>
                           if \<not> valid_geocode_body (gl_is_json lib) b then ((status_only 502, Some (ge_sent env)), g2)
                           else ((json_answer b, Some (ge_sent env)),
                                 g2\<lparr>gc_cache := remember (ge_stored env) key b (gc_cache g2)\<rparr>))))"

definition geocode :: "geocode_lib \<Rightarrow> geocode_env \<Rightarrow> f64 option \<Rightarrow> f64 option \<Rightarrow> app_state
    \<Rightarrow> (http_response \<times> int option) \<times> app_state" where
  "geocode lib env lat lon st =
     (if \<not> geocoding_enabled st then ((status_only 404, None), st)
      else case (lat, lon) of
          (Some la, Some lo) \<Rightarrow>
            if is_finite la \<and> is_finite lo \<and> fle (fabs la) (Fin 90) \<and> fle (fabs lo) (Fin 180)
            then let st1 = ge_waited env st
              in (case geocode_locked lib (knobs st1) env la lo (geocoder st1) of (r, g) \<Rightarrow> (r, st1\<lparr>geocoder := g\<rparr>))
            else ((status_only 400, None), st)
        | _ \<Rightarrow> ((status_only 400, None), st))"

section \<open>The cache\<close>

definition geocoder_ok :: "geocode_lib \<Rightarrow> geocode_state \<Rightarrow> bool" where
  "geocoder_ok lib g \<longleftrightarrow> distinct (map fst (gc_cache g)) \<and> length (gc_cache g) \<le> GEOCODE_CACHE_LIMIT
     \<and> (\<forall>(k, t, b) \<in> set (gc_cache g). valid_geocode_body (gl_is_json lib) b)"

lemma oldest_member: "oldest_of es = Some (k, t) \<Longrightarrow> \<exists>b. (k, t, b) \<in> set es"
  by (induction es arbitrary: k t rule: oldest_of.induct) (auto split: option.splits prod.splits if_splits)

lemma oldest_some: "es \<noteq> [] \<Longrightarrow> oldest_of es \<noteq> None"
  by (cases es rule: oldest_of.cases) (auto split: option.split)

lemma oldest_least: "oldest_of es = Some (k, t) \<Longrightarrow> (k', t', b') \<in> set es \<Longrightarrow> t \<le> t'"
proof (induction es arbitrary: k t rule: oldest_of.induct)
  case (2 k0 t0 b0 es)
  show ?case
  proof (cases "oldest_of es")
    case None
    with oldest_some[of es] have "es = []" by auto
    with 2 show ?thesis by simp
  next
    case (Some p)
    with 2 show ?thesis by (cases p) (force split: if_splits)
  qed
qed simp

lemma update_length: "length (AList.update k v es) \<le> Suc (length es)"
  by (induction es) auto

lemma delete_length: "k \<in> fst ` set es \<Longrightarrow> length (AList.delete k es) < length es"
proof (induction es)
  case (Cons e es)
  have "length (AList.delete k es) \<le> length es" by (simp add: AList.delete_eq)
  with Cons show ?case by (cases e) auto
qed simp

lemma remember_length:
  assumes "length es \<le> GEOCODE_CACHE_LIMIT" shows "length (remember now key b es) \<le> GEOCODE_CACHE_LIMIT"
proof (cases "GEOCODE_CACHE_LIMIT \<le> length es")
  case True
  then have "es \<noteq> []" by (auto simp: GEOCODE_CACHE_LIMIT_def)
  then obtain k t where o: "oldest_of es = Some (k, t)" using oldest_some by fastforce
  then have "k \<in> fst ` set es" using oldest_member by force
  from delete_length[OF this] True o assms update_length[of key "(now, b)" "AList.delete k es"]
  show ?thesis by (simp add: remember_def)
next
  case False
  with update_length[of key "(now, b)" es] show ?thesis by (simp add: remember_def)
qed

lemma remember_entry: "(k, t, b) \<in> set (remember now key b' es) \<Longrightarrow> (k, t, b) \<in> set es \<or> (k = key \<and> t = now \<and> b = b')"
proof -
  have u: "(k, t, b) \<in> set (AList.update key (now, b') es') \<Longrightarrow> (k, t, b) \<in> set es' \<or> (k = key \<and> t = now \<and> b = b')" for es'
    by (induction es') (auto split: if_splits)
  have "set (AList.delete a es) \<subseteq> set es" for a by (auto simp: AList.delete_eq)
  then obtain es' where "remember now key b' es = AList.update key (now, b') es'" "set es' \<subseteq> set es"
    by (auto simp: remember_def Let_def split: option.split)
  moreover assume "(k, t, b) \<in> set (remember now key b' es)"
  ultimately show ?thesis using u[of es'] by auto
qed

lemma remember_distinct: "distinct (map fst es) \<Longrightarrow> distinct (map fst (remember now key b es))"
  by (auto simp: remember_def Let_def distinct_update distinct_delete split: option.split)

lemma geocode_locked_ok:
  assumes "geocoder_ok lib g" shows "geocoder_ok lib (snd (geocode_locked lib kn env lat lon g))"
proof -
  let ?es = "filter (\<lambda>(_, stored, _). elapsed (ge_now env) stored < GEOCODE_CACHE_TTL) (gc_cache g)"
  have f: "distinct (map fst ?es)" "length ?es \<le> GEOCODE_CACHE_LIMIT"
    "\<forall>(k, t, b) \<in> set ?es. valid_geocode_body (gl_is_json lib) b"
    using assms by (auto simp: geocoder_ok_def distinct_map_filter intro: order.trans[OF length_filter_le])
  have g: "geocoder_ok lib (g\<lparr>gc_cache := ?es\<rparr>)" "geocoder_ok lib (g\<lparr>gc_cache := ?es, gc_last_request := r\<rparr>)" for r
    using f by (simp_all add: geocoder_ok_def)
  have r: "geocoder_ok lib (g\<lparr>gc_last_request := r, gc_cache := remember now key b ?es\<rparr>)"
    if "valid_geocode_body (gl_is_json lib) b" for r now key b
    using that f remember_length[OF f(2)] remember_distinct[OF f(1)]
    by (auto simp: geocoder_ok_def dest!: remember_entry)
  show ?thesis
    using g r by (simp add: geocode_locked_def Let_def split: option.split sum.split prod.split)
qed

section \<open>The rate of requests\<close>

text \<open>
  Handlers one after the other: the times of the requests sent, the answers, and the state. A call is what
  the handler meets and its coordinates.
\<close>

type_synonym geocode_call = "geocode_env \<times> f64 \<times> f64"

fun geocode_run :: "geocode_lib \<Rightarrow> knobs \<Rightarrow> geocode_call list \<Rightarrow> geocode_state \<Rightarrow> int list \<times> http_response list \<times> geocode_state" where
  "geocode_run lib kn [] g = ([], [], g)"
| "geocode_run lib kn ((env, lat, lon) # calls) g =
     (case geocode_locked lib kn env lat lon g of
        ((r, sent), g') \<Rightarrow> (case geocode_run lib kn calls g' of
            (sents, rs, g'') \<Rightarrow> ((case sent of Some t \<Rightarrow> t # sents | None \<Rightarrow> sents), r # rs, g'')))"

definition opt_le :: "int option \<Rightarrow> int \<Rightarrow> bool" where
  "opt_le x t \<longleftrightarrow> (case x of Some v \<Rightarrow> v \<le> t | None \<Rightarrow> True)"

definition spaced :: "int option \<Rightarrow> int \<Rightarrow> bool" where
  "spaced x t \<longleftrightarrow> (case x of Some v \<Rightarrow> v + NOMINATIM_INTERVAL \<le> t | None \<Rightarrow> True)"

text \<open>The clock never goes back, and a sleep lasts at least as long as asked.\<close>

definition timely :: "geocode_env \<Rightarrow> geocode_state \<Rightarrow> bool" where
  "timely env g \<longleftrightarrow> opt_le (gc_last_request g) (ge_now env) \<and> ge_now env + politeness_wait (ge_now env) (gc_last_request g) \<le> ge_sent env"

fun timely_run :: "geocode_lib \<Rightarrow> knobs \<Rightarrow> geocode_call list \<Rightarrow> geocode_state \<Rightarrow> bool" where
  "timely_run lib kn [] g = True"
| "timely_run lib kn ((env, lat, lon) # calls) g \<longleftrightarrow> timely env g \<and> timely_run lib kn calls (snd (geocode_locked lib kn env lat lon g))"

text \<open>One handler: a request it sends is an interval after the last one; no request leaves the mark as it was.\<close>

lemma geocode_locked_time:
  assumes "timely env g"
  shows "case snd (fst (geocode_locked lib kn env lat lon g)) of
      Some t \<Rightarrow> gc_last_request (snd (geocode_locked lib kn env lat lon g)) = Some t \<and> spaced (gc_last_request g) t
    | None \<Rightarrow> \<forall>t. spaced (gc_last_request (snd (geocode_locked lib kn env lat lon g))) t \<longrightarrow> spaced (gc_last_request g) t"
proof -
  have w: "spaced (gc_last_request g) (ge_sent env)"
    using assms by (auto simp: timely_def spaced_def opt_le_def politeness_wait_def elapsed_def split: option.splits)
  then have "spaced (Some (ge_sent env)) t \<Longrightarrow> spaced (gc_last_request g) t" for t
    by (auto simp: spaced_def NOMINATIM_INTERVAL_def split: option.splits)
  with w show ?thesis by (auto simp: geocode_locked_def Let_def split: option.split sum.split prod.split)
qed

lemma geocode_run_spaced:
  "timely_run lib kn calls g \<Longrightarrow> geocode_run lib kn calls g = (sents, rs, g') \<Longrightarrow>
     sorted_wrt (\<lambda>a b. a + NOMINATIM_INTERVAL \<le> b) sents \<and> (\<forall>t \<in> set sents. spaced (gc_last_request g) t)"
proof (induction calls arbitrary: g sents rs)
  case (Cons c calls)
  obtain env lat lon where c: "c = (env, lat, lon)" by (cases c)
  obtain r sent g1 where s: "geocode_locked lib kn env lat lon g = ((r, sent), g1)" by (metis prod.exhaust)
  obtain sents1 rs1 where r: "geocode_run lib kn calls g1 = (sents1, rs1, g')"
    and t: "sents = (case sent of Some t \<Rightarrow> t # sents1 | None \<Rightarrow> sents1)"
    using Cons.prems(2) by (auto simp: c s split: prod.splits)
  have ty: "timely env g" "timely_run lib kn calls g1" using Cons.prems(1) by (simp_all add: c s)
  note ih = Cons.IH[OF ty(2) r] and l = geocode_locked_time[OF ty(1), of lib kn lat lon, unfolded s, simplified]
  show ?case
  proof (cases sent)
    case None
    with ih l t show ?thesis by auto
  next
    case (Some t0)
    with l have a: "gc_last_request g1 = Some t0" "spaced (gc_last_request g) t0" by simp_all
    have "t0 + NOMINATIM_INTERVAL \<le> t1" if "t1 \<in> set sents1" for t1 using ih that a(1) by (auto simp: spaced_def)
    moreover have "spaced (gc_last_request g) t1" if "t1 \<in> set sents1" for t1
      using a(2) ih that a(1) by (auto simp: spaced_def NOMINATIM_INTERVAL_def split: option.splits)
    ultimately show ?thesis using ih a(2) t Some by auto
  qed
qed simp

lemma geocode_locked_answer:
  assumes "geocoder_ok lib g" "http_status (fst (fst (geocode_locked lib kn env lat lon g))) = 200"
  shows "valid_geocode_body (gl_is_json lib) (body (fst (fst (geocode_locked lib kn env lat lon g))))"
proof -
  have m: "map_of (filter (\<lambda>(_, stored, _). elapsed (ge_now env) stored < GEOCODE_CACHE_TTL) (gc_cache g)) k = Some (t, b) \<longrightarrow>
      valid_geocode_body (gl_is_json lib) b" for k t b
    using assms(1) by (auto simp: geocoder_ok_def dest!: map_of_SomeD)
  let ?r = "fst (fst (geocode_locked lib kn env lat lon g))"
  have "http_status ?r = 200 \<longrightarrow> valid_geocode_body (gl_is_json lib) (body ?r)"
    unfolding geocode_locked_def Let_def
    by (simp add: m json_answer_def status_only_def split: option.split sum.split prod.split)
  with assms(2) show ?thesis by blast
qed

lemma geocode_run_ok:
  "geocoder_ok lib g \<Longrightarrow> geocode_run lib kn calls g = (sents, rs, g') \<Longrightarrow>
     geocoder_ok lib g' \<and> (\<forall>r \<in> set rs. http_status r = 200 \<longrightarrow> valid_geocode_body (gl_is_json lib) (body r))"
proof (induction calls arbitrary: g sents rs)
  case (Cons c calls)
  obtain env lat lon where c: "c = (env, lat, lon)" by (cases c)
  obtain r sent g1 where s: "geocode_locked lib kn env lat lon g = ((r, sent), g1)" by (metis prod.exhaust)
  obtain sents1 rs1 where r: "geocode_run lib kn calls g1 = (sents1, rs1, g')" "rs = r # rs1"
    using Cons.prems(2) by (auto simp: c s split: prod.splits)
  have g1: "geocoder_ok lib g1" using geocode_locked_ok[OF Cons.prems(1), of kn env lat lon] s by simp
  have "http_status r = 200 \<longrightarrow> valid_geocode_body (gl_is_json lib) (body r)"
    using geocode_locked_answer[OF Cons.prems(1), of kn env lat lon] s by simp
  with Cons.IH[OF g1 r(1)] r(2) show ?case by simp
qed simp


definition ex_geocode_lib :: geocode_lib where
  "ex_geocode_lib = \<lparr>gl_fixed5 = (\<lambda>_. ''1.00000''), gl_is_json = (\<lambda>_. True)\<rparr>"

definition ex_geocode_env :: "int \<Rightarrow> int \<Rightarrow> geocode_env" where
  "ex_geocode_env now sent = \<lparr>ge_now = now, ge_sent = sent, ge_stored = sent,
     ge_wire = \<lparr>host_of = (\<lambda>_. Some ''nominatim.openstreetmap.org''), egress_open = True,
       send = (\<lambda>_ _ _ _. Send_timed_out), clock = (\<lambda>_. 0)\<rparr>, ge_waited = id\<rparr>"


end
