(* ===== verification/Cache_Stats.thy ===== *)
theory Cache_Stats
  imports Cache_Pins F64 "HOL-Library.Char_ord" "HOL-Library.List_Lexorder"
begin

text \<open>
  The per-source figures the statistics route reads (\<open>per_source_avg\<close>, \<open>per_source_totals\<close> and
  \<open>per_source_stats\<close> in \<open>container/tilecache/src/cache.rs\<close>) and the move of the cache directory of an older
  release (\<open>migrate_legacy_cache_dir\<close>). An average is SQLite's: the exact sum, converted and divided as doubles.
\<close>

section \<open>Figures per source\<close>

abbreviation row_source :: "tile_row \<Rightarrow> string" where "row_source r \<equiv> fst (row_key r)"

text \<open>\<open>GROUP BY source ORDER BY source\<close>\<close>

definition source_groups :: "tile_row list \<Rightarrow> string list" where
  "source_groups rows = sort (remdups (map row_source rows))"

definition rows_of :: "string \<Rightarrow> tile_row list \<Rightarrow> tile_row list" where
  "rows_of src rows = filter (\<lambda>r. row_source r = src) rows"

definition is_real_tile :: "tile_row \<Rightarrow> bool" where
  "is_real_tile r \<longleftrightarrow> status (row_tile r) = 200 \<and> blob (row_tile r) \<noteq> None"

definition average :: "tile_row list \<Rightarrow> f64 option" where
  "average rows = (if rows = [] then None
     else Some (to_f64 (round_f64 (of_int (sum_of row_bytes rows)) / of_nat (length rows))))"

definition per_source_avg :: "db \<Rightarrow> (string \<times> f64) list" where
  "per_source_avg d =
     (let real = filter is_real_tile (tiles d)
      in List.map_filter (\<lambda>src. map_option (Pair src) (average (rows_of src real))) (source_groups real))"

definition per_source_totals :: "db \<Rightarrow> (string \<times> int \<times> nat) list" where
  "per_source_totals d =
     (let scroll = filter (\<lambda>r. \<not> row_pinned r) (tiles d)
      in map (\<lambda>src. (src, sum_of row_bytes (rows_of src scroll), length (rows_of src scroll))) (source_groups scroll))"

record source_stats =
  sst_source :: string
  sst_average :: "f64 option"
  sst_scroll_bytes :: int
  sst_scroll_rows :: nat

definition per_source_stats :: "db \<Rightarrow> source_stats list" where
  "per_source_stats d =
     map (\<lambda>src. let rows = rows_of src (tiles d); scroll = filter (\<lambda>r. \<not> row_pinned r) rows
         in \<lparr>sst_source = src, sst_average = average (filter is_real_tile rows),
             sst_scroll_bytes = sum_of row_bytes scroll, sst_scroll_rows = length scroll\<rparr>)
       (source_groups (tiles d))"

text \<open>The one scan gives what the two separate queries give, and its scroll bytes add up to the unpinned bytes.\<close>

lemma set_source_groups: "set (source_groups rows) = row_source ` set rows" "distinct (source_groups rows)"
  by (simp_all add: source_groups_def)

lemma sum_over_groups:
  "distinct srcs \<Longrightarrow> row_source ` set rows \<subseteq> set srcs \<Longrightarrow>
     sum_list (map (\<lambda>src. sum_of f (filter P (rows_of src rows))) srcs) = sum_of f (filter P rows)"
proof (induction rows)
  case (Cons r rows)
  have "sum_list (map (\<lambda>src. sum_of f (filter P (rows_of src (r # rows)))) srcs) =
      sum_list (map (\<lambda>src. (if src = row_source r then if P r then f r else 0 else 0) + sum_of f (filter P (rows_of src rows))) srcs)"
    by (rule arg_cong[of _ _ sum_list]) (auto simp: rows_of_def)
  also have "... = sum_list (map (\<lambda>src. if src = row_source r then if P r then f r else 0 else 0) srcs)
      + sum_list (map (\<lambda>src. sum_of f (filter P (rows_of src rows))) srcs)"
    by (rule sum_list_addf)
  also have "sum_list (map (\<lambda>src. if src = row_source r then if P r then f r else 0 else 0) srcs) = (if P r then f r else 0)"
    using Cons.prems by (simp add: sum_list_distinct_conv_sum_set)
  finally show ?case using Cons by simp
qed (simp add: rows_of_def)

lemma scroll_bytes_exact:
  "sum_list (map sst_scroll_bytes (per_source_stats d)) = tsum (\<lambda>r. \<not> row_pinned r) d"
proof -
  have "map sst_scroll_bytes (per_source_stats d) =
      map (\<lambda>src. sum_of row_bytes (filter (\<lambda>r. \<not> row_pinned r) (rows_of src (tiles d)))) (source_groups (tiles d))"
    by (simp add: per_source_stats_def Let_def)
  then show ?thesis
    using sum_over_groups[of "source_groups (tiles d)" "tiles d" row_bytes "\<lambda>r. \<not> row_pinned r"]
    by (simp add: set_source_groups tsum_def)
qed

section \<open>The older release's directory\<close>

text \<open>A path is its list of components; \<open>None\<close> is nothing there, \<open>Some True\<close> a directory.\<close>

type_synonym file_system = "string list \<Rightarrow> bool option"

definition rename_tree :: "string list \<Rightarrow> string list \<Rightarrow> file_system \<Rightarrow> file_system" where
  "rename_tree old new fs p =
     (if take (length new) p = new then fs (old @ drop (length new) p)
      else if take (length old) p = old then None else fs p)"

definition migrate_legacy_cache_dir :: "(file_system \<Rightarrow> bool) \<Rightarrow> string list \<Rightarrow> file_system \<Rightarrow> file_system" where
  "migrate_legacy_cache_dir rename_succeeds cache_dir fs =
     (if cache_dir = [] then fs
      else
        let legacy = butlast cache_dir @ [''binnacle-tilecache'']
        in if legacy = cache_dir \<or> fs legacy \<noteq> Some True then fs
           else if fs cache_dir \<noteq> None then fs
           else if rename_succeeds fs then rename_tree legacy cache_dir fs else fs)"

text \<open>The current directory is never overwritten, and a moved cache is found where the old one was.\<close>

lemma migrate_keeps_current:
  "fs cache_dir \<noteq> None \<Longrightarrow> migrate_legacy_cache_dir ok cache_dir fs = fs"
  by (simp add: migrate_legacy_cache_dir_def Let_def)

lemma migrate_moves:
  assumes "cache_dir \<noteq> []" "last cache_dir \<noteq> ''binnacle-tilecache''" "fs cache_dir = None" "ok fs"
    "fs (butlast cache_dir @ [''binnacle-tilecache'']) = Some True"
  shows "migrate_legacy_cache_dir ok cache_dir fs (cache_dir @ p) = fs (butlast cache_dir @ [''binnacle-tilecache''] @ p)"
proof -
  have "butlast cache_dir @ [''binnacle-tilecache''] \<noteq> cache_dir" using assms(1,2) by (metis last_snoc)
  with assms show ?thesis by (simp add: migrate_legacy_cache_dir_def Let_def rename_tree_def)
qed

end
