(* ===== verification/Geom.thy ===== *)
theory Geom
  imports Source "HOL-Library.Product_Lexorder"
begin

text \<open>
  Tile geometry (\<open>container/tilecache/src/geom.rs\<close>): the slippy-tile coordinates of a point, the boxes a
  warm covers, and the enumeration of their tiles as disjoint ranges. The floating-point steps are those
  of \<open>F64\<close>; the latitude projection goes through \<open>tan\<close> and \<open>asinh\<close>, whose precision Rust does not
  specify, so its value \<open>(1 - asinh (tan lat) / pi) / 2\<close> is the argument \<open>merc\<close>. Tile coordinates are natural
  numbers: the zoom is at most 24, so every coordinate and coordinate plus one fits its \<open>u32\<close>.
  Proved: the ranges are disjoint, cover exactly the wanted tiles, and the count is the number of
  tiles enumerated.
\<close>

definition MAX_MERCATOR_LAT :: rat where
  "MAX_MERCATOR_LAT = round_f64 (850511287798066 / 10000000000000)"

definition MAX_EFFECTIVE_ZOOM :: nat where "MAX_EFFECTIVE_ZOOM = 24"

definition fclamp :: "f64 \<Rightarrow> rat \<Rightarrow> rat \<Rightarrow> f64" where
  "fclamp v lo hi = (if flt v (Fin lo) then Fin lo else if flt (Fin hi) v then Fin hi else v)"

definition clamp_int :: "int \<Rightarrow> int \<Rightarrow> int \<Rightarrow> int" where
  "clamp_int lo hi v = max lo (min hi v)"

definition tile_for_lng_lat :: "(f64 \<Rightarrow> f64) \<Rightarrow> f64 \<Rightarrow> f64 \<Rightarrow> nat \<Rightarrow> nat \<times> nat" where
  "tile_for_lng_lat merc lng lat z =
     (let n = (2 :: rat) ^ z;
          clamped = fclamp lat (- MAX_MERCATOR_LAT) MAX_MERCATOR_LAT;
          xf = floor_i64 (fmul_const (fdiv_const (fadd lng (Fin 180)) 360) n);
          yf = floor_i64 (fmul_const (merc clamped) n);
          mx = max 0 (2 ^ z - 1)
      in (nat (clamp_int 0 mx xf), nat (clamp_int 0 mx yf)))"

fun split_bbox :: "bbox \<Rightarrow> bbox list" where
  "split_bbox (west, south, east, north) =
     (if flt west east then [(west, south, east, north)]
      else if flt east west then [(west, south, Fin 180, north), (Fin (- 180), south, east, north)]
      else [])"

fun intersect :: "bbox \<Rightarrow> bbox \<Rightarrow> bbox option" where
  "intersect (w1, s1, e1, n1) (w2, s2, e2, n2) =
     (let west = fmax w1 w2;
          south = fmax (fmax s1 s2) (Fin (- MAX_MERCATOR_LAT));
          east = fmin e1 e2;
          north = fmin (fmin n1 n2) (Fin MAX_MERCATOR_LAT)
      in if flt west east \<and> flt south north then Some (west, south, east, north) else None)"

definition clips :: "chart_source \<Rightarrow> bbox \<Rightarrow> bbox list" where
  "clips source bb =
     (case bb of (b0, b1, b2, b3) \<Rightarrow>
        if \<not> (is_finite b0 \<and> is_finite b1 \<and> is_finite b2 \<and> is_finite b3)
           \<or> feq b0 b2 \<or> (flt b2 b0 \<and> feq (fabs (fsub b0 b2)) (Fin 360)) \<or> fle b3 b1
        then []
        else
          let requested = split_bbox bb;
              cov = (case coverage source of
                  Some bs \<Rightarrow> bs
                | None \<Rightarrow> (case bounds source of Some b \<Rightarrow> [b]
                    | None \<Rightarrow> [(Fin (- 180), Fin (- 90), Fin 180, Fin 90)]));
              source_boxes = concat (map split_bbox cov)
          in concat (map (\<lambda>request. List.map_filter (intersect request) source_boxes) requested))"

definition zoom_bounds :: "chart_source \<Rightarrow> nat \<Rightarrow> nat \<Rightarrow> nat \<times> nat" where
  "zoom_bounds source zmin zmax =
     (max zmin (minzoom source), min (min zmax (maxzoom source)) MAX_EFFECTIVE_ZOOM)"

record tile_range =
  tr_z :: nat
  tr_x0 :: nat
  tr_x1 :: nat
  tr_y0 :: nat
  tr_y1 :: nat

fun tile_rect :: "(f64 \<Rightarrow> f64) \<Rightarrow> bbox \<Rightarrow> nat \<Rightarrow> nat \<times> nat \<times> nat \<times> nat" where
  "tile_rect merc (c0, c1, c2, c3) z =
     (let (x0, y0) = tile_for_lng_lat merc c0 c3 z;
          (x1, y1) = tile_for_lng_lat merc c2 c1 z
      in (x0, x1, y0, y1))"

section \<open>Disjoint ranges\<close>

definition u32_max :: nat where "u32_max = 2 ^ 32 - 1"

text \<open>The loop over the sorted intervals of one slab, with the interval being grown.\<close>

fun merge_from :: "nat \<times> nat \<Rightarrow> (nat \<times> nat) list \<Rightarrow> (nat \<times> nat) list" where
  "merge_from (s, e) [] = [(s, e)]"
| "merge_from (s, e) ((a, b) # ivs) =
     (if a \<le> min u32_max (e + 1) then merge_from (s, max e b) ivs
      else (s, e) # merge_from (a, b) ivs)"

fun merge_intervals :: "(nat \<times> nat) list \<Rightarrow> (nat \<times> nat) list" where
  "merge_intervals [] = []"
| "merge_intervals (i # ivs) = merge_from i ivs"

definition slab_ranges :: "nat \<Rightarrow> tile_range list \<Rightarrow> nat \<times> nat \<Rightarrow> tile_range list" where
  "slab_ranges z zoom_ranges = (\<lambda>(x0, x_end).
     if x_end \<le> x0 then []
     else map (\<lambda>(y0, y1). \<lparr>tr_z = z, tr_x0 = x0, tr_x1 = x_end - 1, tr_y0 = y0, tr_y1 = y1\<rparr>)
       (merge_intervals (sort_key fst
          (map (\<lambda>r. (tr_y0 r, tr_y1 r))
            (filter (\<lambda>r. tr_x0 r \<le> x0 \<and> x_end - 1 \<le> tr_x1 r) zoom_ranges)))))"

definition zoom_slabs :: "tile_range list \<Rightarrow> nat \<Rightarrow> tile_range list" where
  "zoom_slabs ranges z =
     (let zoom_ranges = filter (\<lambda>r. tr_z r = z) ranges;
          boundaries = remdups_adj (sort (concat (map (\<lambda>r. [tr_x0 r, tr_x1 r + 1]) zoom_ranges)))
      in concat (map (slab_ranges z zoom_ranges) (zip boundaries (tl boundaries))))"

definition disjoint_ranges :: "tile_range list \<Rightarrow> tile_range list" where
  "disjoint_ranges ranges =
     sort_key (\<lambda>r. (tr_z r, tr_x0 r, tr_y0 r))
       (concat (map (zoom_slabs ranges) (remdups_adj (sort (map tr_z ranges)))))"

definition covered_ranges :: "(f64 \<Rightarrow> f64) \<Rightarrow> chart_source \<Rightarrow> bbox \<Rightarrow> nat \<Rightarrow> nat \<Rightarrow> tile_range list" where
  "covered_ranges merc source bb zmin zmax =
     (let cs = clips source bb;
          (zlo, zhi) = zoom_bounds source zmin zmax
      in if zhi < zlo \<or> cs = [] then []
         else disjoint_ranges
           (concat (map (\<lambda>z. map (\<lambda>c. case tile_rect merc c z of (x0, x1, y0, y1) \<Rightarrow>
               \<lparr>tr_z = z, tr_x0 = x0, tr_x1 = x1, tr_y0 = y0, tr_y1 = y1\<rparr>) cs) [zlo..<Suc zhi])))"

definition tile_count_in_bbox :: "(f64 \<Rightarrow> f64) \<Rightarrow> chart_source \<Rightarrow> bbox \<Rightarrow> nat \<Rightarrow> nat \<Rightarrow> nat" where
  "tile_count_in_bbox merc source bb zmin zmax =
     foldl (\<lambda>count r. count + (tr_x1 r - tr_x0 r + 1) * (tr_y1 r - tr_y0 r + 1)) 0
       (covered_ranges merc source bb zmin zmax)"

definition range_tiles :: "tile_range \<Rightarrow> (nat \<times> nat \<times> nat) list" where
  "range_tiles r =
     concat (map (\<lambda>x. map (\<lambda>y. (tr_z r, x, y)) [tr_y0 r..<Suc (tr_y1 r)]) [tr_x0 r..<Suc (tr_x1 r)])"

definition tiles_iter :: "(f64 \<Rightarrow> f64) \<Rightarrow> chart_source \<Rightarrow> bbox \<Rightarrow> nat \<Rightarrow> nat \<Rightarrow> (nat \<times> nat \<times> nat) list" where
  "tiles_iter merc source bb zmin zmax = concat (map range_tiles (covered_ranges merc source bb zmin zmax))"

section \<open>Merging intervals\<close>

definition wf_ivs :: "(nat \<times> nat) list \<Rightarrow> bool" where
  "wf_ivs ivs \<longleftrightarrow> (\<forall>i \<in> set ivs. fst i \<le> snd i \<and> snd i < u32_max)"

definition iv_set :: "(nat \<times> nat) list \<Rightarrow> nat set" where
  "iv_set ivs = (\<Union>i \<in> set ivs. {fst i..snd i})"

lemma merge_from_facts:
  "sorted (map fst ivs) \<Longrightarrow> wf_ivs ((s, e) # ivs) \<Longrightarrow> (\<forall>i \<in> set ivs. s \<le> fst i) \<Longrightarrow>
   iv_set (merge_from (s, e) ivs) = {s..e} \<union> iv_set ivs \<and> wf_ivs (merge_from (s, e) ivs) \<and>
   (\<forall>i \<in> set (merge_from (s, e) ivs). s \<le> fst i) \<and>
   sorted_wrt (\<lambda>i j. snd i < fst j) (merge_from (s, e) ivs)"
proof (induction "(s, e)" "ivs" arbitrary: s e rule: merge_from.induct)
  case (1 s e)
  then show ?case by (simp add: iv_set_def)
next
  case (2 s e a b ivs)
  show ?case
  proof (cases "a \<le> min u32_max (e + 1)")
    case True
    have "wf_ivs ((s, max e b) # ivs)" using "2.prems"(2) by (auto simp: wf_ivs_def)
    moreover have "sorted (map fst ivs)" "\<forall>i \<in> set ivs. s \<le> fst i" using "2.prems" by auto
    moreover have "{s..max e b} = {s..e} \<union> {a..b}"
      using True "2.prems"(2,3) by (auto simp: wf_ivs_def)
    ultimately show ?thesis using "2.hyps"(1)[OF True] True by (auto simp: iv_set_def)
  next
    case False
    have wf: "wf_ivs ((a, b) # ivs)" and e: "s \<le> e" "e < u32_max"
      using "2.prems"(2) by (auto simp: wf_ivs_def)
    have lt: "e < a" using False e by (auto simp: min_def split: if_splits)
    have "sorted (map fst ivs)" "\<forall>i \<in> set ivs. a \<le> fst i" using "2.prems"(1) by auto
    from "2.hyps"(2)[OF False this(1) wf this(2)] lt e False "2.prems"(3)
    show ?thesis by (force simp: iv_set_def wf_ivs_def)
  qed
qed

lemma merge_intervals_facts:
  assumes "wf_ivs ivs"
  shows "iv_set (merge_intervals (sort_key fst ivs)) = iv_set ivs"
    "wf_ivs (merge_intervals (sort_key fst ivs))"
    "sorted_wrt (\<lambda>i j. snd i < fst j) (merge_intervals (sort_key fst ivs))"
proof -
  have w: "wf_ivs (sort_key fst ivs)" "iv_set (sort_key fst ivs) = iv_set ivs"
    using assms by (simp_all add: wf_ivs_def iv_set_def)
  have s: "sorted (map fst (sort_key fst ivs))" by simp
  have "iv_set (merge_intervals (sort_key fst ivs)) = iv_set ivs \<and> wf_ivs (merge_intervals (sort_key fst ivs)) \<and>
    sorted_wrt (\<lambda>i j. snd i < fst j) (merge_intervals (sort_key fst ivs))"
  proof (cases "sort_key fst ivs")
    case Nil
    with w show ?thesis by simp
  next
    case (Cons i js)
    obtain a b where "i = (a, b)" by (cases i)
    with Cons w s merge_from_facts[of js a b] show ?thesis by (auto simp: iv_set_def)
  qed
  then show "iv_set (merge_intervals (sort_key fst ivs)) = iv_set ivs"
    "wf_ivs (merge_intervals (sort_key fst ivs))"
    "sorted_wrt (\<lambda>i j. snd i < fst j) (merge_intervals (sort_key fst ivs))" by blast+
qed

section \<open>Slabs\<close>

definition range_has :: "tile_range \<Rightarrow> nat \<Rightarrow> nat \<Rightarrow> nat \<Rightarrow> bool" where
  "range_has r z x y \<longleftrightarrow> z = tr_z r \<and> tr_x0 r \<le> x \<and> x \<le> tr_x1 r \<and> tr_y0 r \<le> y \<and> y \<le> tr_y1 r"

definition wf_range :: "tile_range \<Rightarrow> bool" where
  "wf_range r \<longleftrightarrow> tr_x0 r \<le> tr_x1 r \<and> tr_y0 r \<le> tr_y1 r \<and> tr_x1 r < u32_max \<and> tr_y1 r < u32_max"

lemma set_range_tiles: "(z, x, y) \<in> set (range_tiles r) \<longleftrightarrow> range_has r z x y"
  unfolding range_tiles_def range_has_def by (auto simp del: upt_Suc simp: image_iff)

lemma distinct_concat_map:
  "(\<And>a. a \<in> set xs \<Longrightarrow> distinct (f a)) \<Longrightarrow> sorted_wrt (\<lambda>a b. set (f a) \<inter> set (f b) = {}) xs \<Longrightarrow>
   distinct (concat (map f xs))"
  by (induction xs) auto

lemma range_tiles_distinct: "distinct (range_tiles r)"
  unfolding range_tiles_def
  by (rule distinct_concat_map)
    (auto simp del: upt_Suc simp: distinct_map inj_on_def intro: sorted_wrt_mono_rel[OF _ sorted_wrt_upt])

lemma sorted_distinct_adj: "sorted xs \<Longrightarrow> distinct_adj xs \<Longrightarrow> sorted_wrt (<) (xs :: 'a :: linorder list)"
proof (induction xs)
  case (Cons x xs)
  then show ?case by (cases xs) (auto simp: order.strict_iff_order)
qed simp

lemma length_range_tiles:
  "wf_range r \<Longrightarrow> length (range_tiles r) = (tr_x1 r - tr_x0 r + 1) * (tr_y1 r - tr_y0 r + 1)"
  by (simp add: range_tiles_def length_concat comp_def sum_list_triv wf_range_def Suc_diff_le)

lemma consecutive_gap:
  "sorted_wrt (<) bs \<Longrightarrow> (l, h) \<in> set (zip bs (tl bs)) \<Longrightarrow> l < (h :: nat) \<and> (\<forall>b \<in> set bs. b \<le> l \<or> h \<le> b)"
proof (induction bs)
  case (Cons b bs)
  show ?case
  proof (cases bs)
    case Nil
    with Cons.prems show ?thesis by simp
  next
    case (Cons c cs)
    with Cons.prems consider "l = b" "h = c" | "(l, h) \<in> set (zip bs (tl bs))" by auto
    then show ?thesis
    proof cases
      case 1
      with Cons Cons.prems show ?thesis by (auto simp: less_imp_le)
    next
      case 2
      with Cons.IH Cons.prems(1) have "l < h" "\<forall>d \<in> set bs. d \<le> l \<or> h \<le> d" by auto
      moreover have "b \<le> l" using 2 Cons.prems(1) by (auto dest!: set_zip_leftD simp: less_imp_le)
      ultimately show ?thesis by auto
    qed
  qed
qed simp

lemma consecutive_cover:
  "sorted_wrt (<) bs \<Longrightarrow> b \<in> set bs \<Longrightarrow> b \<le> x \<Longrightarrow> c \<in> set bs \<Longrightarrow> x < (c :: nat) \<Longrightarrow>
   \<exists>(l, h) \<in> set (zip bs (tl bs)). l \<le> x \<and> x < h"
proof (induction bs arbitrary: b)
  case (Cons d bs)
  show ?case
  proof (cases bs)
    case Nil
    with Cons.prems show ?thesis by simp
  next
    case (Cons e es)
    show ?thesis
    proof (cases "x < e")
      case True
      have "d \<le> x" using Cons.prems(1,2,3) by (auto simp: less_imp_le)
      with True Cons show ?thesis by auto
    next
      case False
      have "c \<in> set bs" using Cons.prems(1,4,5) False Cons by auto
      with Cons.IH[of e] Cons.prems(1,5) False Cons show ?thesis by auto
    qed
  qed
qed simp

lemma consecutive_sorted:
  "sorted_wrt (<) (bs :: nat list) \<Longrightarrow> sorted_wrt (\<lambda>p q. snd p \<le> fst q) (zip bs (tl bs))"
proof (induction bs)
  case (Cons b bs)
  show ?case
  proof (cases bs)
    case (Cons c cs)
    with Cons.IH Cons.prems show ?thesis by (auto dest!: set_zip_leftD simp: less_imp_le)
  qed simp
qed simp

definition boundaries :: "tile_range list \<Rightarrow> nat list" where
  "boundaries rs = remdups_adj (sort (concat (map (\<lambda>r. [tr_x0 r, tr_x1 r + 1]) rs)))"

lemma boundaries_facts:
  "sorted_wrt (<) (boundaries rs)"
  "r \<in> set rs \<Longrightarrow> tr_x0 r \<in> set (boundaries rs) \<and> tr_x1 r + 1 \<in> set (boundaries rs)"
proof -
  show "sorted_wrt (<) (boundaries rs)"
    unfolding boundaries_def by (rule sorted_distinct_adj) simp_all
  show "r \<in> set rs \<Longrightarrow> tr_x0 r \<in> set (boundaries rs) \<and> tr_x1 r + 1 \<in> set (boundaries rs)"
    by (auto simp: boundaries_def)
qed

lemma slab_facts:
  assumes wf: "\<forall>r \<in> set rs. wf_range r \<and> tr_z r = z" and lh: "(l, h) \<in> set (zip (boundaries rs) (tl (boundaries rs)))"
  shows "(\<exists>s \<in> set (slab_ranges z rs (l, h)). range_has s z' x y) \<longleftrightarrow>
      l \<le> x \<and> x < h \<and> (\<exists>r \<in> set rs. range_has r z' x y)"
    "\<forall>s \<in> set (slab_ranges z rs (l, h)). wf_range s \<and> tr_z s = z \<and> tr_x0 s = l \<and> tr_x1 s = h - 1"
    "sorted_wrt (\<lambda>s t. tr_y1 s < tr_y0 t) (slab_ranges z rs (l, h))"
proof -
  note gap = consecutive_gap[OF boundaries_facts(1) lh]
  let ?sel = "filter (\<lambda>r. tr_x0 r \<le> l \<and> h - 1 \<le> tr_x1 r) rs"
  let ?ivs = "map (\<lambda>r. (tr_y0 r, tr_y1 r)) ?sel"
  let ?m = "merge_intervals (sort_key fst ?ivs)"
  have wfi: "wf_ivs ?ivs" using wf by (auto simp: wf_ivs_def wf_range_def)
  note m = merge_intervals_facts[OF wfi]
  have sl: "slab_ranges z rs (l, h) =
      map (\<lambda>(y0, y1). \<lparr>tr_z = z, tr_x0 = l, tr_x1 = h - 1, tr_y0 = y0, tr_y1 = y1\<rparr>) ?m"
    using gap by (simp add: slab_ranges_def)
  show "sorted_wrt (\<lambda>s t. tr_y1 s < tr_y0 t) (slab_ranges z rs (l, h))"
    unfolding sl sorted_wrt_map using m(3) by (simp add: case_prod_beta)
  have "h \<in> set (boundaries rs)" using set_zip_rightD[OF lh] by (cases "boundaries rs") simp_all
  then obtain r where "r \<in> set rs" "h = tr_x0 r \<or> h = tr_x1 r + 1" by (auto simp: boundaries_def)
  with wf gap have h: "h - 1 < u32_max" by (auto simp: wf_range_def)
  show "\<forall>s \<in> set (slab_ranges z rs (l, h)). wf_range s \<and> tr_z s = z \<and> tr_x0 s = l \<and> tr_x1 s = h - 1"
    unfolding sl using m(2) gap h by (auto simp: wf_ivs_def wf_range_def)
  have sel: "r \<in> set ?sel \<longleftrightarrow> r \<in> set rs \<and> tr_x0 r \<le> x \<and> x \<le> tr_x1 r" if "l \<le> x" "x < h" for r
    using boundaries_facts(2)[of r rs] gap that by fastforce
  have "(\<exists>s \<in> set (slab_ranges z rs (l, h)). range_has s z' x y) \<longleftrightarrow>
      z' = z \<and> l \<le> x \<and> x < h \<and> y \<in> iv_set ?m"
  proof -
    have "x \<le> h - 1 \<longleftrightarrow> x < h" using gap by auto
    then show ?thesis
      unfolding sl iv_set_def set_map bex_simps range_has_def case_prod_beta
      by (simp only: tile_range.select_convs UN_iff atLeastAtMost_iff) blast
  qed
  also have "\<dots> \<longleftrightarrow> z' = z \<and> l \<le> x \<and> x < h \<and> (\<exists>r \<in> set ?sel. tr_y0 r \<le> y \<and> y \<le> tr_y1 r)"
    unfolding m(1) by (auto simp: iv_set_def)
  also have "\<dots> \<longleftrightarrow> l \<le> x \<and> x < h \<and> (\<exists>r \<in> set rs. range_has r z' x y)"
    using sel wf by (auto simp: range_has_def)
  finally show "(\<exists>s \<in> set (slab_ranges z rs (l, h)). range_has s z' x y) \<longleftrightarrow>
      l \<le> x \<and> x < h \<and> (\<exists>r \<in> set rs. range_has r z' x y)" .
qed

section \<open>One zoom, all zooms\<close>

lemma zoom_slabs_eq:
  "zoom_slabs ranges z =
     (let rs = filter (\<lambda>r. tr_z r = z) ranges
      in concat (map (slab_ranges z rs) (zip (boundaries rs) (tl (boundaries rs)))))"
  by (simp add: zoom_slabs_def boundaries_def Let_def)

definition apart :: "tile_range \<Rightarrow> tile_range \<Rightarrow> bool" where
  "apart r s \<longleftrightarrow> (\<forall>z x y. \<not> (range_has r z x y \<and> range_has s z x y))"

lemma zoom_slabs_facts:
  assumes wf: "\<forall>r \<in> set ranges. wf_range r"
  shows "(\<exists>s \<in> set (zoom_slabs ranges z). range_has s z' x y) \<longleftrightarrow>
      z' = z \<and> (\<exists>r \<in> set ranges. range_has r z x y)"
    "\<forall>s \<in> set (zoom_slabs ranges z). wf_range s \<and> tr_z s = z"
    "sorted_wrt apart (zoom_slabs ranges z)"
proof -
  let ?rs = "filter (\<lambda>r. tr_z r = z) ranges"
  let ?bs = "boundaries ?rs"
  let ?ps = "zip ?bs (tl ?bs)"
  have wf': "\<forall>r \<in> set ?rs. wf_range r \<and> tr_z r = z" using wf by auto
  have eq: "zoom_slabs ranges z = concat (map (slab_ranges z ?rs) ?ps)" by (simp add: zoom_slabs_eq Let_def)
  note slab = slab_facts[OF wf']
  have all: "s \<in> set (slab_ranges z ?rs p) \<Longrightarrow> p \<in> set ?ps \<Longrightarrow>
      wf_range s \<and> tr_z s = z \<and> tr_x0 s = fst p \<and> tr_x1 s = snd p - 1" for s p
    using slab(2)[of "fst p" "snd p"] unfolding prod.collapse by blast
  show "\<forall>s \<in> set (zoom_slabs ranges z). wf_range s \<and> tr_z s = z"
    unfolding eq set_concat set_map using all by blast
  have slab1: "(\<exists>s \<in> set (slab_ranges z ?rs p). range_has s z' x y) \<longleftrightarrow>
      fst p \<le> x \<and> x < snd p \<and> (\<exists>r \<in> set ?rs. range_has r z' x y)" if "p \<in> set ?ps" for p
    using slab(1)[of "fst p" "snd p" z' x y] that by (simp only: prod.collapse simp_thms)
  have "(\<exists>s \<in> set (zoom_slabs ranges z). range_has s z' x y) \<longleftrightarrow>
      (\<exists>p \<in> set ?ps. \<exists>s \<in> set (slab_ranges z ?rs p). range_has s z' x y)"
    unfolding eq set_concat set_map by blast
  also have "\<dots> \<longleftrightarrow> (\<exists>(l, h) \<in> set ?ps. l \<le> x \<and> x < h \<and> (\<exists>r \<in> set ?rs. range_has r z' x y))"
    unfolding case_prod_beta by (rule bex_cong[OF refl slab1])
  also have "\<dots> \<longleftrightarrow> (\<exists>r \<in> set ?rs. range_has r z' x y)"
  proof
    assume "\<exists>r \<in> set ?rs. range_has r z' x y"
    then obtain r where r: "r \<in> set ?rs" "range_has r z' x y" by blast
    note b = boundaries_facts(2)[OF r(1)]
    have "\<exists>(l, h) \<in> set ?ps. l \<le> x \<and> x < h"
      by (rule consecutive_cover[OF boundaries_facts(1), of "tr_x0 r" _ _ "tr_x1 r + 1"])
        (use b r(2) in \<open>auto simp: range_has_def\<close>)
    with r show "\<exists>(l, h) \<in> set ?ps. l \<le> x \<and> x < h \<and> (\<exists>r \<in> set ?rs. range_has r z' x y)" by blast
  qed blast
  also have "\<dots> \<longleftrightarrow> z' = z \<and> (\<exists>r \<in> set ranges. range_has r z x y)" by (auto simp: range_has_def)
  finally show "(\<exists>s \<in> set (zoom_slabs ranges z). range_has s z' x y) \<longleftrightarrow>
      z' = z \<and> (\<exists>r \<in> set ranges. range_has r z x y)" .
  have inner: "sorted_wrt apart (slab_ranges z ?rs p)" if "p \<in> set ?ps" for p
    using slab(3)[of "fst p" "snd p"] that
    by (auto simp: apart_def range_has_def elim!: sorted_wrt_mono_rel[rotated])
  have cross: "sorted_wrt (\<lambda>p q. snd p \<le> fst q) ?ps" by (rule consecutive_sorted[OF boundaries_facts(1)])
  have "sorted_wrt apart (concat (map (slab_ranges z ?rs) qs))"
    if "set qs \<subseteq> set ?ps" "sorted_wrt (\<lambda>p q. snd p \<le> fst q) qs" for qs
    using that
  proof (induction qs)
    case (Cons p qs)
    have "apart s t" if "s \<in> set (slab_ranges z ?rs p)" "q \<in> set qs" "t \<in> set (slab_ranges z ?rs q)" for s q t
    proof -
      have "p \<in> set ?ps" "q \<in> set ?ps" using Cons.prems(1) that(2) by auto
      moreover from this(1) have "fst p < snd p"
        using consecutive_gap[OF boundaries_facts(1), of "fst p" "snd p" ?rs] by simp
      moreover have "snd p \<le> fst q" using Cons.prems(2) that(2) by simp
      ultimately show ?thesis using all[OF that(1)] all[OF that(3)] by (auto simp: apart_def range_has_def)
    qed
    with Cons inner[of p] show ?case by (auto simp: sorted_wrt_append)
  qed simp
  from this[OF order.refl cross] show "sorted_wrt apart (zoom_slabs ranges z)" unfolding eq .
qed

lemma mset_concat_map: "mset xs = mset ys \<Longrightarrow> mset (concat (map f xs)) = mset (concat (map f ys))"
proof -
  assume "mset xs = mset ys"
  then have "mset (map (\<lambda>x. mset (f x)) xs) = mset (map (\<lambda>x. mset (f x)) ys)" by simp
  then have "sum_list (map (\<lambda>x. mset (f x)) xs) = sum_list (map (\<lambda>x. mset (f x)) ys)"
    by (metis sum_mset_sum_list)
  then show ?thesis by (simp add: mset_concat comp_def)
qed

lemma disjoint_ranges_facts:
  assumes wf: "\<forall>r \<in> set ranges. wf_range r"
  shows "(\<exists>s \<in> set (disjoint_ranges ranges). range_has s z x y) \<longleftrightarrow> (\<exists>r \<in> set ranges. range_has r z x y)"
    "\<forall>s \<in> set (disjoint_ranges ranges). wf_range s"
    "distinct (concat (map range_tiles (disjoint_ranges ranges)))"
proof -
  let ?zs = "remdups_adj (sort (map tr_z ranges))"
  let ?out = "concat (map (zoom_slabs ranges) ?zs)"
  note zf = zoom_slabs_facts[OF wf]
  have set: "set (disjoint_ranges ranges) = set ?out" by (simp add: disjoint_ranges_def)
  show "\<forall>s \<in> set (disjoint_ranges ranges). wf_range s" unfolding set using zf(2) by auto
  have "(\<exists>s \<in> set ?out. range_has s z x y) \<longleftrightarrow> z \<in> tr_z ` set ranges \<and> (\<exists>r \<in> set ranges. range_has r z x y)"
    using zf(1) by auto
  then show "(\<exists>s \<in> set (disjoint_ranges ranges). range_has s z x y) \<longleftrightarrow> (\<exists>r \<in> set ranges. range_has r z x y)"
    unfolding set by (auto simp: range_has_def)
  have zs: "sorted_wrt (<) ?zs" by (rule sorted_distinct_adj) simp_all
  have "sorted_wrt apart (concat (map (zoom_slabs ranges) zs))" if "sorted_wrt (<) zs" for zs
    using that
  proof (induction zs)
    case (Cons z zs)
    have "apart s t" if "s \<in> set (zoom_slabs ranges z)" "z' \<in> set zs" "t \<in> set (zoom_slabs ranges z')" for s z' t
      using zf(2)[of z] zf(2)[of z'] that Cons.prems by (auto simp: apart_def range_has_def)
    with Cons zf(3)[of z] show ?case by (auto simp: sorted_wrt_append)
  qed simp
  from this[OF zs] have "sorted_wrt (\<lambda>a b. set (range_tiles a) \<inter> set (range_tiles b) = {}) ?out"
    by (rule sorted_wrt_mono_rel[rotated]) (auto simp: apart_def set_range_tiles)
  then have d: "distinct (concat (map range_tiles ?out))"
    by (intro distinct_concat_map range_tiles_distinct)
  have "mset (concat (map range_tiles (disjoint_ranges ranges))) = mset (concat (map range_tiles ?out))"
    by (rule mset_concat_map) (simp add: disjoint_ranges_def)
  with d show "distinct (concat (map range_tiles (disjoint_ranges ranges)))"
    using mset_eq_imp_distinct_iff by blast
qed

section \<open>Coordinates\<close>

definition projection_ok :: "(f64 \<Rightarrow> f64) \<Rightarrow> bool" where
  "projection_ok merc \<longleftrightarrow> (\<forall>a b. fle a b \<longrightarrow> fle (merc b) (merc a))"

lemma fclamp_mono:
  assumes "fle a b" "lo \<le> hi" shows "fle (fclamp a lo hi) (fclamp b lo hi)"
  using assms by (cases a; cases b) (auto simp: fclamp_def flt_def)

lemma mercator_pos: "0 \<le> MAX_MERCATOR_LAT"
  unfolding MAX_MERCATOR_LAT_def by (rule round_f64_nonneg) simp

lemma tile_x_mono:
  assumes "fle a b" shows "fst (tile_for_lng_lat merc a c z) \<le> fst (tile_for_lng_lat merc b d z)"
proof -
  have "floor_i64 (fmul_const (fdiv_const (fadd a (Fin 180)) 360) (2 ^ z)) \<le>
      floor_i64 (fmul_const (fdiv_const (fadd b (Fin 180)) 360) (2 ^ z))"
    by (intro floor_i64_mono fmul_const_mono fdiv_const_mono fadd_const_mono assms) simp_all
  then show ?thesis by (auto simp: tile_for_lng_lat_def Let_def clamp_int_def)
qed

lemma tile_y_antimono:
  assumes "projection_ok merc" "fle a b"
  shows "snd (tile_for_lng_lat merc c b z) \<le> snd (tile_for_lng_lat merc d a z)"
proof -
  have "fle (fclamp a (- MAX_MERCATOR_LAT) MAX_MERCATOR_LAT) (fclamp b (- MAX_MERCATOR_LAT) MAX_MERCATOR_LAT)"
    using assms(2) mercator_pos by (intro fclamp_mono) simp_all
  then have "floor_i64 (fmul_const (merc (fclamp b (- MAX_MERCATOR_LAT) MAX_MERCATOR_LAT)) (2 ^ z)) \<le>
      floor_i64 (fmul_const (merc (fclamp a (- MAX_MERCATOR_LAT) MAX_MERCATOR_LAT)) (2 ^ z))"
    using assms(1) by (intro floor_i64_mono fmul_const_mono) (auto simp: projection_ok_def)
  then show ?thesis by (auto simp: tile_for_lng_lat_def Let_def clamp_int_def)
qed

lemma tile_lt: "fst (tile_for_lng_lat merc a c z) < 2 ^ z" "snd (tile_for_lng_lat merc a c z) < 2 ^ z"
proof -
  have "nat (clamp_int 0 (max 0 (2 ^ z - 1)) v) < 2 ^ z" for v
  proof -
    have "clamp_int 0 (max 0 (2 ^ z - 1)) v \<le> 2 ^ z - 1" by (auto simp: clamp_int_def)
    then have "clamp_int 0 (max 0 (2 ^ z - 1)) v < 2 ^ z" by linarith
    then show ?thesis by (simp add: nat_less_iff clamp_int_def)
  qed
  then show "fst (tile_for_lng_lat merc a c z) < 2 ^ z" "snd (tile_for_lng_lat merc a c z) < 2 ^ z"
    by (simp_all add: tile_for_lng_lat_def Let_def)
qed

lemma intersect_Some: "intersect b c = Some (w, s, e, n) \<Longrightarrow> flt w e \<and> flt s n"
  by (cases b; cases c) (auto simp: Let_def split: if_splits)

lemma clips_ordered: "(w, s, e, n) \<in> set (clips source bb) \<Longrightarrow> flt w e \<and> flt s n"
  by (cases bb) (auto simp: clips_def Let_def List.map_filter_def dest: intersect_Some split: if_splits)

definition clip_range :: "(f64 \<Rightarrow> f64) \<Rightarrow> bbox \<Rightarrow> nat \<Rightarrow> tile_range" where
  "clip_range merc c z = (case tile_rect merc c z of (x0, x1, y0, y1) \<Rightarrow>
     \<lparr>tr_z = z, tr_x0 = x0, tr_x1 = x1, tr_y0 = y0, tr_y1 = y1\<rparr>)"

lemma clip_range_fields:
  "tr_z (clip_range merc (w, s, e, n) z) = z"
  "tr_x0 (clip_range merc (w, s, e, n) z) = fst (tile_for_lng_lat merc w n z)"
  "tr_x1 (clip_range merc (w, s, e, n) z) = fst (tile_for_lng_lat merc e s z)"
  "tr_y0 (clip_range merc (w, s, e, n) z) = snd (tile_for_lng_lat merc w n z)"
  "tr_y1 (clip_range merc (w, s, e, n) z) = snd (tile_for_lng_lat merc e s z)"
  by (simp_all add: clip_range_def case_prod_beta Let_def)

lemma clip_range_wf:
  assumes "projection_ok merc" "c \<in> set (clips source bb)" "z \<le> 24"
  shows "wf_range (clip_range merc c z)"
proof -
  obtain w s e n where c: "c = (w, s, e, n)" by (cases c)
  have le: "fle w e" "fle s n" using clips_ordered assms(2) by (auto simp: c flt_def)
  have "(2 :: nat) ^ z \<le> 2 ^ 24" using assms(3) by (rule power_increasing) simp
  then have "2 ^ z < u32_max" by (simp add: u32_max_def)
  then show ?thesis
    using tile_x_mono[OF le(1), of merc n z s] tile_y_antimono[OF assms(1) le(2), of w z e]
      tile_lt[of merc e s z] by (simp add: wf_range_def c clip_range_fields)
qed

definition wanted_tile :: "(f64 \<Rightarrow> f64) \<Rightarrow> chart_source \<Rightarrow> bbox \<Rightarrow> nat \<Rightarrow> nat \<Rightarrow> nat \<times> nat \<times> nat \<Rightarrow> bool" where
  "wanted_tile merc source bb zmin zmax = (\<lambda>(z, x, y).
     fst (zoom_bounds source zmin zmax) \<le> z \<and> z \<le> snd (zoom_bounds source zmin zmax) \<and>
     list_ex (\<lambda>c. range_has (clip_range merc c z) z x y) (clips source bb))"

lemma covered_ranges_eq:
  "covered_ranges merc source bb zmin zmax =
     (let (zlo, zhi) = zoom_bounds source zmin zmax
      in if zhi < zlo \<or> clips source bb = [] then []
         else disjoint_ranges (concat (map (\<lambda>z. map (\<lambda>c. clip_range merc c z) (clips source bb)) [zlo..<Suc zhi])))"
  unfolding covered_ranges_def clip_range_def Let_def ..

lemma in_clip_range_z: "range_has (clip_range merc c z') z x y \<Longrightarrow> z' = z"
  by (cases c) (simp add: range_has_def clip_range_fields)

lemma covered_ranges_facts:
  assumes "projection_ok merc"
  shows "(\<exists>s \<in> set (covered_ranges merc source bb zmin zmax). range_has s z x y) \<longleftrightarrow>
      wanted_tile merc source bb zmin zmax (z, x, y)"
    "\<forall>s \<in> set (covered_ranges merc source bb zmin zmax). wf_range s"
    "distinct (tiles_iter merc source bb zmin zmax)"
proof -
  obtain zlo zhi where zb: "zoom_bounds source zmin zmax = (zlo, zhi)" by (cases "zoom_bounds source zmin zmax")
  let ?rs = "concat (map (\<lambda>z. map (\<lambda>c. clip_range merc c z) (clips source bb)) [zlo..<Suc zhi])"
  have z24: "zhi \<le> 24" using zb by (auto simp: zoom_bounds_def MAX_EFFECTIVE_ZOOM_def)
  have wf: "\<forall>r \<in> set ?rs. wf_range r"
    using clip_range_wf[OF assms] z24 by (auto simp del: upt_Suc)
  note D = disjoint_ranges_facts[OF wf]
  have mem: "(\<exists>r \<in> set ?rs. range_has r z x y) \<longleftrightarrow> wanted_tile merc source bb zmin zmax (z, x, y)" for z x y
  proof -
    have "(\<exists>r \<in> set ?rs. range_has r z x y) \<longleftrightarrow>
        (\<exists>z' \<in> {zlo..<Suc zhi}. \<exists>c \<in> set (clips source bb). range_has (clip_range merc c z') z x y)"
      by (auto simp del: upt_Suc)
    also have "\<dots> \<longleftrightarrow> z \<in> {zlo..<Suc zhi} \<and> (\<exists>c \<in> set (clips source bb). range_has (clip_range merc c z) z x y)"
      using in_clip_range_z by blast
    finally show ?thesis by (auto simp: wanted_tile_def zb list_ex_iff)
  qed
  show "(\<exists>s \<in> set (covered_ranges merc source bb zmin zmax). range_has s z x y) \<longleftrightarrow>
      wanted_tile merc source bb zmin zmax (z, x, y)"
    using D(1)[unfolded mem] by (auto simp del: upt_Suc simp: covered_ranges_eq zb wanted_tile_def)
  show "\<forall>s \<in> set (covered_ranges merc source bb zmin zmax). wf_range s"
    using D(2) by (auto simp del: upt_Suc simp: covered_ranges_eq zb)
  show "distinct (tiles_iter merc source bb zmin zmax)"
    using D(3) by (simp del: upt_Suc add: tiles_iter_def covered_ranges_eq zb)
qed

lemma tile_count_length:
  assumes "projection_ok merc"
  shows "tile_count_in_bbox merc source bb zmin zmax = length (tiles_iter merc source bb zmin zmax)"
proof -
  have "foldl (\<lambda>count r. count + (tr_x1 r - tr_x0 r + 1) * (tr_y1 r - tr_y0 r + 1)) k rs =
      k + length (concat (map range_tiles rs))" if "\<forall>r \<in> set rs. wf_range r" for rs k
    using that by (induction rs arbitrary: k) (auto simp: length_range_tiles)
  from this[OF covered_ranges_facts(2)[OF assms], of 0] show ?thesis
    by (simp add: tile_count_in_bbox_def tiles_iter_def)
qed

lemma tiles_iter_set:
  assumes "projection_ok merc"
  shows "set (tiles_iter merc source bb zmin zmax) = {t. wanted_tile merc source bb zmin zmax t}"
proof -
  have "(z, x, y) \<in> set (tiles_iter merc source bb zmin zmax) \<longleftrightarrow>
      wanted_tile merc source bb zmin zmax (z, x, y)" for z x y
    unfolding covered_ranges_facts(1)[OF assms, symmetric] tiles_iter_def set_concat set_map
    using set_range_tiles by blast
  then show ?thesis by auto
qed

section \<open>Properties\<close>

lemma wanted_finite: "{t. wanted_tile merc source bb zmin zmax t} \<subseteq> (\<Union>z \<in> {..24}. {z} \<times> ({..<2 ^ z} \<times> {..<2 ^ z}))"
proof -
  have "z \<le> 24 \<and> x < 2 ^ z \<and> y < 2 ^ z" if w: "wanted_tile merc source bb zmin zmax (z, x, y)" for z x y
  proof -
    obtain c where "range_has (clip_range merc c z) z x y" using w by (auto simp: wanted_tile_def list_ex_iff)
    moreover obtain w' s' e' n' where c: "c = (w', s', e', n')" by (cases c)
    ultimately have "x \<le> fst (tile_for_lng_lat merc e' s' z)" "y \<le> snd (tile_for_lng_lat merc e' s' z)"
      by (simp_all add: range_has_def clip_range_fields)
    with tile_lt[of merc e' s' z] have "x < 2 ^ z" "y < 2 ^ z" by linarith+
    moreover have "z \<le> 24" using w by (auto simp: wanted_tile_def zoom_bounds_def MAX_EFFECTIVE_ZOOM_def)
    ultimately show ?thesis by blast
  qed
  then show ?thesis by auto
qed


lemma mercator_above: "64 \<le> MAX_MERCATOR_LAT"
proof -
  have p: "(2 :: rat) powi 6 = 64" by (simp add: power_int_def)
  have "2 powi bin_exp 64 < (2 :: rat) powi (6 + 1)" "(2 :: rat) powi 6 < 2 powi (bin_exp 64 + 1)"
    using bin_exp_bounds[of 64] p powi_less_iff[of 6 7] by simp_all
  then have e: "bin_exp 64 = 6" by (simp only: powi_less_iff)
  have u: "64 / (2 :: rat) powi (- 46) = of_int (2 ^ 52)" by (simp add: power_int_def power_one_over)
  have "round_f64 64 = of_int (round_even (64 / 2 powi (- 46))) * 2 powi (- 46)"
    unfolding round_f64_def unit_exp_def e by simp
  also have "\<dots> = 64" unfolding u round_even_int by (simp add: power_int_def power_one_over)
  finally show ?thesis using round_f64_mono[of 64 "850511287798066 / 10000000000000"]
    by (simp add: MAX_MERCATOR_LAT_def)
qed

text \<open>A linear stand-in for the projection.\<close>

fun ex_merc :: "f64 \<Rightarrow> f64" where
  "ex_merc (Fin a) = Fin (1 / 2 - a / 180)"
| "ex_merc PInf = NInf"
| "ex_merc NInf = PInf"
| "ex_merc NaN = NaN"

definition ex_source :: chart_source where
  "ex_source = \<lparr>src_id = ''s'', src_title = ''S'', upstream = Arcgis ''https://h/x'', tile_size = 256,
     minzoom = 0, maxzoom = 18, vector_maxzoom = None, bounds = None, coverage = None,
     max_age_seconds = None, attribution = []\<rparr>"

lemma ex_merc_ok: "projection_ok ex_merc"
proof -
  have "fle (ex_merc b) (ex_merc a)" if "fle a b" for a b
    using that by (cases a; cases b) auto
  then show ?thesis by (simp add: projection_ok_def)
qed


text \<open>
  No point of a clipped box is missed: the tile that holds it, as the same projection computes it, is
  among the tiles enumerated at every zoom allowed.
\<close>

theorem tiles_cover_points:
  assumes "projection_ok merc" "(w, s, e, n) \<in> set (clips source bb)"
    and "fle w lng" "fle lng e" "fle s lat" "fle lat n"
    and "fst (zoom_bounds source zmin zmax) \<le> z" "z \<le> snd (zoom_bounds source zmin zmax)"
  shows "(z, tile_for_lng_lat merc lng lat z) \<in> set (tiles_iter merc source bb zmin zmax)"
proof -
  obtain x y where xy: "tile_for_lng_lat merc lng lat z = (x, y)" by (cases "tile_for_lng_lat merc lng lat z")
  have "range_has (clip_range merc (w, s, e, n) z) z x y"
    using tile_x_mono[OF assms(3), of merc n z lat] tile_x_mono[OF assms(4), of merc lat z s]
      tile_y_antimono[OF assms(1) assms(6), of w z lng] tile_y_antimono[OF assms(1) assms(5), of lng z e]
    by (simp add: range_has_def clip_range_fields xy)
  then have "wanted_tile merc source bb zmin zmax (z, x, y)"
    using assms(2,7,8) by (auto simp: wanted_tile_def list_ex_iff)
  then show ?thesis unfolding xy tiles_iter_set[OF assms(1)] by simp
qed

lemma tiles_cover_points_witness:
  "(3, tile_for_lng_lat ex_merc (Fin 5) (Fin 5) 3)
     \<in> set (tiles_iter ex_merc ex_source (Fin 0, Fin 0, Fin 10, Fin 10) 0 6)"
proof -
  have M: "10 < MAX_MERCATOR_LAT" "- MAX_MERCATOR_LAT < 0" using mercator_above by simp_all
  then have "(Fin 0, Fin 0, Fin 10, Fin 10) \<in> set (clips ex_source (Fin 0, Fin 0, Fin 10, Fin 10))"
    by (simp add: clips_def ex_source_def flt_def feq_def fmax_def fmin_def List.map_filter_def Let_def)
  from tiles_cover_points[OF ex_merc_ok this, of "Fin 5" "Fin 5" 0 6 3]
  show ?thesis by (simp add: zoom_bounds_def ex_source_def MAX_EFFECTIVE_ZOOM_def)
qed

end
