(* ===== verification/Warm_Jobs.thy ===== *)
theory Warm_Jobs
  imports Style_Assets Geom
begin

text \<open>
  The registry of warm jobs (\<open>container/tilecache/src/warm.rs\<close>, first half): the identifiers, the admission
  of a request, cancellation, snapshots and the reaping of finished jobs. \<open>start_warm\<close> runs under the
  configuration lock and counts and inserts under the registry lock, so it is one step; the driver's own
  changes of a job and the release of its region are separate steps, and the machine at the end of the
  theory interleaves them freely. \<open>locked id\<close> says that some task holds the job's mutex when
  \<open>try_lock\<close> asks.
\<close>

section \<open>Constants and identifiers\<close>

definition WARM_TILE_HARD_CAP :: nat where "WARM_TILE_HARD_CAP = 2000000"
definition MAX_WARM_SOURCES :: nat where "MAX_WARM_SOURCES = 64"
definition WARM_JOB_TTL_SECS :: int where "WARM_JOB_TTL_SECS = 3600"
definition MAX_RETAINED_WARM_JOBS :: nat where "MAX_RETAINED_WARM_JOBS = 128"

definition valid_region_id :: "string \<Rightarrow> bool" where
  "valid_region_id rid \<longleftrightarrow>
     rid = POSITION_WARM_REGION_ID
     \<or> (rid \<noteq> [] \<and> length rid \<le> 128 \<and> rid \<noteq> BASEMAP_ASSETS_REGION_ID
        \<and> \<not> starts_with rid STAGING_REGION_PREFIX
        \<and> list_all (\<lambda>c. is_ascii_alphanumeric c \<or> c \<in> {CHR ''.'', CHR ''_'', CHR ''-''}) rid)"

text \<open>\<open>rsplit_once('-')\<close>\<close>

definition rsplit_dash :: "string \<Rightarrow> (string \<times> string) option" where
  "rsplit_dash s =
     (if CHR ''-'' \<in> set s
      then Some (rev (tl (dropWhile (\<lambda>c. c \<noteq> CHR ''-'') (rev s))), rev (takeWhile (\<lambda>c. c \<noteq> CHR ''-'') (rev s)))
      else None)"

definition valid_job_id :: "string \<Rightarrow> bool" where
  "valid_job_id job_id \<longleftrightarrow>
     (case strip_prefix ''warm-'' job_id of
        None \<Rightarrow> False
      | Some rest \<Rightarrow> (case rsplit_dash rest of
          None \<Rightarrow> False
        | Some (boot, order) \<Rightarrow>
            length boot = 32 \<and> list_all is_ascii_hexdigit boot \<and> order \<noteq> [] \<and> length order \<le> 20
            \<and> list_all is_ascii_digit order \<and> undec 0 order \<le> u64_max))"

text \<open>\<open>format!("warm-{}-{order}", state.boot_id)\<close>\<close>

definition warm_id :: "string \<Rightarrow> nat \<Rightarrow> string" where
  "warm_id boot order = ''warm-'' @ boot @ ''-'' @ dec order"

section \<open>Admission\<close>

record warm_request =
  wq_sources :: "chart_source list"
  wq_bbox :: bbox
  wq_additional :: "bbox option"
  wq_minzoom :: nat
  wq_maxzoom :: nat
  wq_region :: "string option"

datatype bbox_fault = Invalid_bbox "bbox list" | No_intersection

datatype start_error =
    Unknown_source string | Bad_bbox bbox_fault | Bad_zoom nat nat | Too_many nat | Too_many_jobs
  | Too_many_style_sources nat | All_sources_time_dynamic "string list" | Region_busy | Bad_region
  | Shutting_down

record run_spec =
  rn_sources :: "chart_source list"
  rn_bboxes :: "bbox list"
  rn_zmin :: nat
  rn_zmax :: nat
  rn_region :: "string option"
  rn_job :: string
  rn_generation :: nat

fun bad_warm_bbox :: "bbox \<Rightarrow> bool" where
  "bad_warm_bbox (b0, b1, b2, b3) \<longleftrightarrow>
     \<not> (is_finite b0 \<and> is_finite b1 \<and> is_finite b2 \<and> is_finite b3)
     \<or> flt b0 (Fin (- 180)) \<or> flt (Fin 180) b0 \<or> flt b2 (Fin (- 180)) \<or> flt (Fin 180) b2
     \<or> flt b1 (Fin (- 90)) \<or> flt (Fin 90) b1 \<or> flt b3 (Fin (- 90)) \<or> flt (Fin 90) b3
     \<or> feq b0 b2 \<or> (flt b2 b0 \<and> feq (fabs (fsub b0 b2)) (Fin 360)) \<or> fle b3 b1"

definition is_style :: "chart_source \<Rightarrow> bool" where
  "is_style s \<longleftrightarrow> (case upstream s of Style _ _ \<Rightarrow> True | _ \<Rightarrow> False)"

definition count_boxes :: "(f64 \<Rightarrow> f64) \<Rightarrow> warm_request \<Rightarrow> bbox list \<Rightarrow> chart_source \<Rightarrow> nat" where
  "count_boxes merc req bbs s = sum_list (map (\<lambda>b. tile_count_in_bbox merc s b (wq_minzoom req) (wq_maxzoom req)) bbs)"

text \<open>A style counts as one sub-source at the smaller of its two maximum zooms.\<close>

definition style_clamped :: "chart_source \<Rightarrow> chart_source" where
  "style_clamped s = s\<lparr>maxzoom := min (case vector_maxzoom s of Some m \<Rightarrow> m | None \<Rightarrow> maxzoom s) (maxzoom s)\<rparr>"

record resolution =
  rs_total :: nat
  rs_styles :: nat
  rs_skipped :: "string list"
  rs_sources :: "chart_source list"
  rs_seen :: "string list"

definition resolve_one :: "(f64 \<Rightarrow> f64) \<Rightarrow> warm_request \<Rightarrow> bbox list \<Rightarrow> (string \<rightharpoonup> chart_source)
    \<Rightarrow> string \<Rightarrow> resolution \<Rightarrow> start_error + resolution" where
  "resolve_one merc req bbs known sid acc =
     (if sid \<in> set (rs_seen acc) then Inr acc
      else
        let a = acc\<lparr>rs_seen := sid # rs_seen acc\<rparr>
        in case known sid of
             None \<Rightarrow> Inl (Unknown_source sid)
           | Some s \<Rightarrow>
               if is_volatile s then Inr (a\<lparr>rs_skipped := rs_skipped a @ [sid]\<rparr>)
               else if is_style s then
                 (let n = rs_styles a + 1
                  in if MAX_LEARNED_STYLE_ENTRIES < n then Inl (Too_many_style_sources n)
                     else Inr (a\<lparr>rs_sources := rs_sources a @ [s], rs_styles := n,
                                 rs_total := rs_total a + count_boxes merc req bbs (style_clamped s)\<rparr>))
               else Inr (a\<lparr>rs_sources := rs_sources a @ [s],
                           rs_total := rs_total a + count_boxes merc req bbs s\<rparr>))"

fun resolve_all :: "(f64 \<Rightarrow> f64) \<Rightarrow> warm_request \<Rightarrow> bbox list \<Rightarrow> (string \<rightharpoonup> chart_source)
    \<Rightarrow> string list \<Rightarrow> resolution \<Rightarrow> start_error + resolution" where
  "resolve_all merc req bbs known [] acc = Inr acc"
| "resolve_all merc req bbs known (sid # sids) acc =
     bindE (resolve_one merc req bbs known sid acc) (resolve_all merc req bbs known sids)"

definition no_resolution :: resolution where
  "no_resolution = \<lparr>rs_total = 0, rs_styles = 0, rs_skipped = [], rs_sources = [], rs_seen = []\<rparr>"

text \<open>The checks before the registry is touched.\<close>

definition admit_request :: "(f64 \<Rightarrow> f64) \<Rightarrow> warm_request \<Rightarrow> app_state \<Rightarrow> start_error + resolution \<times> bbox list" where
  "admit_request merc req st =
     (if shutdown_requested st then Inl Shutting_down
      else if wq_sources req = [] \<or> MAX_WARM_SOURCES < length (wq_sources req) then Inl (Unknown_source ''no sources'')
      else if wq_maxzoom req < wq_minzoom req then Inl (Bad_zoom (wq_minzoom req) (wq_maxzoom req))
      else
        let bbs = wq_bbox req # (case wq_additional req of Some b \<Rightarrow> [b] | None \<Rightarrow> [])
        in if list_ex bad_warm_bbox bbs then Inl (Bad_bbox (Invalid_bbox bbs))
           else if (case wq_region req of Some r \<Rightarrow> \<not> valid_region_id r | None \<Rightarrow> False) then Inl Bad_region
           else bindE (resolve_all merc req bbs (sources st) (map src_id (wq_sources req)) no_resolution) (\<lambda>rs.
             if rs_total rs = 0
             then Inl (if rs_skipped rs \<noteq> [] then All_sources_time_dynamic (rs_skipped rs) else Bad_bbox No_intersection)
             else if WARM_TILE_HARD_CAP < rs_total rs then Inl (Too_many (rs_total rs))
             else Inr (rs, bbs)))"

section \<open>The registry\<close>

definition reap :: "(string \<Rightarrow> bool) \<Rightarrow> int \<Rightarrow> (string \<times> warm_job) list \<Rightarrow> (string \<times> warm_job) list" where
  "reap locked now jobs =
     (let kept = filter (\<lambda>(i, j). locked i \<or>
            (case wj_finished_at j of Some t \<Rightarrow> now - t < WARM_JOB_TTL_SECS | None \<Rightarrow> True)) jobs
      in if length kept \<le> MAX_RETAINED_WARM_JOBS then kept
         else
           let finished = sort_key snd (map (\<lambda>(i, j). (i, wj_order j))
                 (filter (\<lambda>(i, j). \<not> locked i \<and> wj_finished_at j \<noteq> None) kept));
               gone = map fst (take (length kept - MAX_RETAINED_WARM_JOBS) finished)
           in filter (\<lambda>p. fst p \<notin> set gone) kept)"

definition new_job :: "app_state \<Rightarrow> resolution \<Rightarrow> warm_request \<Rightarrow> int \<Rightarrow> warm_job" where
  "new_job st rs req now =
     \<lparr>wj_total = rs_total rs, wj_done = 0, wj_skipped = 0, wj_bytes = 0, wj_errors = 0, wj_state = Running,
      wj_cancel = False, wj_finished_at = None, wj_region_id = wq_region req, wj_created_at = now,
      wj_order = warm_seq st\<rparr>"

definition active_count :: "(string \<Rightarrow> bool) \<Rightarrow> (string \<times> warm_job) list \<Rightarrow> nat" where
  "active_count locked jobs = length (filter (\<lambda>(i, j). locked i \<or> wj_state j = Running) jobs)"

definition start_warm :: "(f64 \<Rightarrow> f64) \<Rightarrow> (string \<Rightarrow> bool) \<Rightarrow> int \<Rightarrow> warm_request \<Rightarrow> app_state
    \<Rightarrow> (start_error + string \<times> run_spec) \<times> app_state" where
  "start_warm merc locked now req st =
     (case admit_request merc req st of
        Inl e \<Rightarrow> (Inl e, st)
      | Inr (rs, bbs) \<Rightarrow>
          if (case wq_region req of Some r \<Rightarrow> r \<in> set (active_warm_regions st) | None \<Rightarrow> False)
          then (Inl Region_busy, st)
          else
            let jid = warm_id (boot_id st) (warm_seq st);
                st1 = st\<lparr>warm_seq := warm_seq st + 1, warm_jobs := reap locked now (warm_jobs st)\<rparr>
            in if MAX_ACTIVE_WARM_JOBS \<le> active_count locked (warm_jobs st1)
               then (Inl Too_many_jobs, st1)
               else (Inr (jid, \<lparr>rn_sources = rs_sources rs, rn_bboxes = bbs, rn_zmin = wq_minzoom req,
                              rn_zmax = wq_maxzoom req, rn_region = wq_region req, rn_job = jid,
                              rn_generation = config_generation st\<rparr>),
                     st1\<lparr>warm_jobs := AList.update jid (new_job st rs req now) (warm_jobs st1),
                         active_warm_regions := (case wq_region req of
                             Some r \<Rightarrow> r # active_warm_regions st | None \<Rightarrow> active_warm_regions st)\<rparr>))"

text \<open>
  The start of a job whose client leaves after its region is marked: waiting for the registry, or, with the registry full, for the
  set of regions to take the mark back.
\<close>

datatype start_wait = Registry_lock | Unmark_lock

definition start_warm_cut :: "(f64 \<Rightarrow> f64) \<Rightarrow> (string \<Rightarrow> bool) \<Rightarrow> int \<Rightarrow> warm_request \<Rightarrow> start_wait \<Rightarrow> app_state \<Rightarrow> app_state option" where
  "start_warm_cut merc locked now req w st =
     (case admit_request merc req st of
        Inl _ \<Rightarrow> None
      | Inr _ \<Rightarrow>
          if (case wq_region req of Some r \<Rightarrow> r \<in> set (active_warm_regions st) | None \<Rightarrow> False) then None
          else
            let st1 = st\<lparr>warm_seq := warm_seq st + 1,
                        active_warm_regions := (case wq_region req of
                            Some r \<Rightarrow> r # active_warm_regions st | None \<Rightarrow> active_warm_regions st)\<rparr>
            in (case w of
                  Registry_lock \<Rightarrow> Some st1
                | Unmark_lock \<Rightarrow>
                    let st2 = st1\<lparr>warm_jobs := reap locked now (warm_jobs st1)\<rparr>
                    in if wq_region req \<noteq> None \<and> MAX_ACTIVE_WARM_JOBS \<le> active_count locked (warm_jobs st2)
                       then Some st2 else None))"

section \<open>Progress and cancellation\<close>

record warm_progress =
  wp_total :: nat
  wp_done :: nat
  wp_skipped :: nat
  wp_bytes :: int
  wp_errors :: nat
  wp_state :: warm_state

definition progress :: "warm_job \<Rightarrow> warm_progress" where
  "progress j = \<lparr>wp_total = wj_total j, wp_done = wj_done j, wp_skipped = wj_skipped j, wp_bytes = wj_bytes j,
     wp_errors = wj_errors j, wp_state = wj_state j\<rparr>"

definition warm_snapshot :: "app_state \<Rightarrow> string \<Rightarrow> warm_progress option" where
  "warm_snapshot st jid = map_option progress (map_of (warm_jobs st) jid)"

definition newer :: "string \<Rightarrow> string \<times> warm_job \<Rightarrow> (string \<times> nat \<times> warm_progress) option
    \<Rightarrow> (string \<times> nat \<times> warm_progress) option" where
  "newer rid p newest =
     (case p of (i, j) \<Rightarrow>
        if wj_region_id j \<noteq> Some rid then newest
        else (case newest of
            None \<Rightarrow> Some (i, wj_order j, progress j)
          | Some (_, order, _) \<Rightarrow> if order < wj_order j then Some (i, wj_order j, progress j) else newest))"

definition warm_snapshot_for_region :: "app_state \<Rightarrow> string \<Rightarrow> (string \<times> warm_progress) option" where
  "warm_snapshot_for_region st rid =
     map_option (\<lambda>(i, _, p). (i, p)) (fold (newer rid) (warm_jobs st) None)"

definition update_jobs :: "(string \<times> warm_job \<Rightarrow> bool) \<Rightarrow> (warm_job \<Rightarrow> warm_job) \<Rightarrow> app_state \<Rightarrow> app_state" where
  "update_jobs P f st = st\<lparr>warm_jobs := map (\<lambda>p. if P p then (fst p, f (snd p)) else p) (warm_jobs st)\<rparr>"

definition cancel_warm :: "string \<Rightarrow> app_state \<Rightarrow> bool \<times> app_state" where
  "cancel_warm jid st =
     (case map_of (warm_jobs st) jid of
        None \<Rightarrow> (False, st)
      | Some _ \<Rightarrow> (True, update_jobs (\<lambda>p. fst p = jid) (\<lambda>j. j\<lparr>wj_cancel := True\<rparr>) st))"

definition cancel_all_warms :: "app_state \<Rightarrow> app_state" where
  "cancel_all_warms st =
     update_jobs (\<lambda>_. True) (\<lambda>j. j\<lparr>wj_cancel := True\<rparr>) (st\<lparr>shutdown_requested := True\<rparr>)"

text \<open>\<open>polls i\<close> is the set of active regions the \<open>i\<close>th of the 120 polls sees.\<close>

fun region_drained :: "(nat \<Rightarrow> string list) \<Rightarrow> string \<Rightarrow> nat \<Rightarrow> bool" where
  "region_drained polls rid 0 = False"
| "region_drained polls rid (Suc n) = (if rid \<notin> set (polls (119 - n)) then True else region_drained polls rid n)"

definition cancel_region_warms :: "(nat \<Rightarrow> string list) \<Rightarrow> string \<Rightarrow> app_state \<Rightarrow> bool \<times> app_state" where
  "cancel_region_warms polls rid st =
     (region_drained polls rid 120,
      update_jobs (\<lambda>p. wj_region_id (snd p) = Some rid \<and> wj_state (snd p) = Running) (\<lambda>j. j\<lparr>wj_cancel := True\<rparr>) st)"

text \<open>
  \<open>acquire_warm_permit\<close>: one element per turn of the loop, whether cancellation or shutdown is seen and
  how the timed acquire ends. \<open>None\<close> when the listed turns did not end the wait.
\<close>

datatype acquire = Granted | Closed | Elapsed

fun acquire_warm_permit :: "(bool \<times> acquire) list \<Rightarrow> bool option" where
  "acquire_warm_permit [] = None"
| "acquire_warm_permit ((stop, a) # turns) =
     (if stop then Some False
      else case a of Granted \<Rightarrow> Some True | Closed \<Rightarrow> Some False | Elapsed \<Rightarrow> acquire_warm_permit turns)"

section \<open>The driver's steps\<close>

text \<open>The end of a run: the final state and its time, then, as a separate step, the release of the region.\<close>

definition finish_job :: "string \<Rightarrow> warm_state \<Rightarrow> int \<Rightarrow> app_state \<Rightarrow> app_state" where
  "finish_job jid final now st =
     update_jobs (\<lambda>p. fst p = jid) (\<lambda>j. j\<lparr>wj_state := final, wj_finished_at := Some now\<rparr>) st"

definition release_region :: "string \<Rightarrow> app_state \<Rightarrow> app_state" where
  "release_region rid st = st\<lparr>active_warm_regions := removeAll rid (active_warm_regions st)\<rparr>"

text \<open>What a driver may do to its running job in between: the five counters.\<close>

definition count_job :: "string \<Rightarrow> nat \<Rightarrow> nat \<Rightarrow> nat \<Rightarrow> int \<Rightarrow> nat \<Rightarrow> app_state \<Rightarrow> app_state" where
  "count_job jid tot n sk bs er st =
     update_jobs (\<lambda>p. fst p = jid)
       (\<lambda>j. j\<lparr>wj_total := tot, wj_done := wj_done j + n, wj_skipped := wj_skipped j + sk,
             wj_bytes := wj_bytes j + bs, wj_errors := wj_errors j + er\<rparr>) st"

end
