(* ===== verification/Routes.thy ===== *)
theory Routes
  imports Config Geocode Cache_Stats Warm_Jobs
begin

text \<open>
  The rest of the HTTP surface (\<open>container/tilecache/src/routes.rs\<close>): admission, health and statistics, the
  region and warm routes, the tile route, and the composition of the middleware with the router. A handler
  is a function of the shared state; what it starts in the background is part of its result. Extraction of
  paths and bodies is the router's (axum) and has happened: a \<open>control_request\<close> is a request that matched.
\<close>

section \<open>Admission\<close>

definition MAX_ACTIVE_HEALTH_REQUESTS :: nat where "MAX_ACTIVE_HEALTH_REQUESTS = 2"

record admission =
  ad_requests :: nat
  ad_health :: nat
  ad_wait_ms :: nat

definition new_admission :: "nat \<Rightarrow> admission" where
  "new_admission wait = \<lparr>ad_requests = MAX_ACTIVE_REQUESTS, ad_health = MAX_ACTIVE_HEALTH_REQUESTS, ad_wait_ms = wait\<rparr>"

text \<open>
  A permit now, or for an ordinary request within the wait: \<open>waited\<close> is what the semaphores are when the wait
  ends with a permit, \<open>None\<close> when it times out.
\<close>

definition take_permit :: "bool \<Rightarrow> admission \<Rightarrow> admission option" where
  "take_permit is_health a =
     (if is_health
      then (if ad_health a = 0 then None else Some (a\<lparr>ad_health := ad_health a - 1\<rparr>))
      else (if ad_requests a = 0 then None else Some (a\<lparr>ad_requests := ad_requests a - 1\<rparr>)))"

definition acquire_request :: "bool \<Rightarrow> (admission \<Rightarrow> admission option) \<Rightarrow> admission \<Rightarrow> admission option" where
  "acquire_request is_health waited a =
     (case take_permit is_health a of
        Some a' \<Rightarrow> Some a'
      | None \<Rightarrow>
          if is_health \<or> ad_wait_ms a = 0 then None
          else Option.bind (waited a) (take_permit is_health))"

definition release_request :: "bool \<Rightarrow> admission \<Rightarrow> admission" where
  "release_request is_health a =
     (if is_health then a\<lparr>ad_health := ad_health a + 1\<rparr> else a\<lparr>ad_requests := ad_requests a + 1\<rparr>)"

definition busy_response :: http_response where
  "busy_response = (text_response 503 ''tile cache is busy'')\<lparr>headers :=
     [(''retry-after'', ''1''), (''content-type'', ''text/plain; charset=utf-8'')]\<rparr>"

section \<open>Health and statistics\<close>

definition health_route :: "(json \<Rightarrow> byte list) \<Rightarrow> task \<Rightarrow> app_state \<Rightarrow> http_response" where
  "health_route show_json t st =
     (let ready = (joined t \<and> probe (task_env t) (cache st) = Inr ())
      in json_response show_json (if ready then 200 else 503)
           (JObj [(''status'', JStr (if ready then ''ok'' else ''degraded'')), (''databaseReady'', JBool ready),
             (''configured'', JBool (configured st))]))"

text \<open>What each query of the statistics task meets.\<close>

record stats_env =
  sv_returned :: bool
  sv_available :: "nat option"
  sv_count :: "db_error option"
  sv_region :: "db_error option"
  sv_real :: cache_env
  sv_sources :: "db_error option"
  sv_reusable :: "db_error + nat"

record cache_figures =
  fg_rows :: int
  fg_bytes :: int
  fg_pinned :: int
  fg_position :: int
  fg_real :: int
  fg_sources :: "source_stats list"
  fg_reusable :: nat

definition stats_work :: "stats_env \<Rightarrow> tile_cache \<Rightarrow> (db_error + cache_figures) \<times> tile_cache" where
  "stats_work env c =
     (case sv_count env of
        Some e \<Rightarrow> (Inl e, c)
      | None \<Rightarrow> (case sv_region env of
        Some e \<Rightarrow> (Inl e, c)
      | None \<Rightarrow> (case real_region_pinned_bytes (sv_real env) POSITION_WARM_REGION_ID c of
        (Inl e, c') \<Rightarrow> (Inl e, c')
      | (Inr saved, c') \<Rightarrow> (case sv_sources env of
        Some e \<Rightarrow> (Inl e, c')
      | None \<Rightarrow> (case sv_reusable env of
        Inl e \<Rightarrow> (Inl e, c')
      | Inr re \<Rightarrow>
          (case stats c of (n, b, p) \<Rightarrow>
             (Inr \<lparr>fg_rows = n, fg_bytes = b, fg_pinned = p, fg_position = region_bytes (conn c) POSITION_WARM_REGION_ID,
                fg_real = saved, fg_sources = per_source_stats (conn c), fg_reusable = re\<rparr>, c')))))))"

definition disk_pressure :: "nat option \<Rightarrow> nat \<Rightarrow> bool option" where
  "disk_pressure av re = map_option (\<lambda>a. \<not> has_headroom a re 0) av"

definition jopt :: "('a \<Rightarrow> json) \<Rightarrow> 'a option \<Rightarrow> json" where
  "jopt f x = (case x of Some v \<Rightarrow> f v | None \<Rightarrow> JNull)"

definition upstream_entry :: "health_snapshot \<Rightarrow> string \<times> json" where
  "upstream_entry h = (hs_source h, JObj [(''slow'', JBool (0 < hs_streak h)),
     (''timeoutSecs'', JPos ((unat (hs_timeout_ms h) + 999) div 1000)), (''lastTimeoutAt'', jint (hs_last_timeout_at h))])"

definition stats_json :: "stats_env \<Rightarrow> cache_figures \<Rightarrow> app_state \<Rightarrow> json" where
  "stats_json env f st =
     (let r = live_regions_budget st; p = live_position_warm_budget st; av = sv_available env
      in JObj [(''rows'', jint (fg_rows f)), (''bytes'', jint (fg_bytes f)), (''cap'', jint (live_cap_bytes st)),
        (''pinnedBytes'', jint (fg_pinned f)), (''scrollBytes'', jint (max 0 (fg_bytes f - fg_pinned f))),
        (''regionsBudgetBytes'', jint r), (''positionWarmBudgetBytes'', jint p), (''positionWarmBytes'', jint (fg_position f)),
        (''regionsFreeBytes'', jint (max 0 ((r - p) - fg_real f))),
        (''perSourceAvgBytes'', JObj (List.map_filter (\<lambda>s. map_option (\<lambda>a. (sst_source s, JFloat a)) (sst_average s)) (fg_sources f))),
        (''bySource'', JArr (map (\<lambda>s. JObj [(''source'', JStr (sst_source s)), (''bytes'', jint (sst_scroll_bytes s)),
           (''rows'', JPos (sst_scroll_rows s))]) (filter (\<lambda>s. 0 < sst_scroll_rows s) (fg_sources f)))),
        (''upstream'', JObj (map upstream_entry (snapshot (health st)))), (''configured'', JBool (configured st)),
        (''availableBytes'', jopt JPos av), (''sqliteReusableBytes'', JPos (fg_reusable f)),
        (''effectiveAvailableBytes'', jopt (\<lambda>a. JPos (sat_u64 (a + fg_reusable f))) av),
        (''minimumHeadroomBytes'', JPos MIN_FREE_HEADROOM_BYTES), (''diskPressure'', jopt JBool (disk_pressure av (fg_reusable f))),
        (''diagnostics'', JObj [(''diskPressureEvents'', JPos (disk_pressure_events (cache st))),
           (''warmRejections'', JPos (warm_rejections st)), (''configPushes'', JPos (config_pushes st)),
           (''cacheOperationErrors'', JPos (operation_error_events (cache st)))])])"

definition stats_route :: "(json \<Rightarrow> byte list) \<Rightarrow> stats_env \<Rightarrow> app_state \<Rightarrow> http_response \<times> app_state" where
  "stats_route show_json env st =
     (case cache_task (sv_returned env) (stats_work env) (cache st) of
        (None, c) \<Rightarrow> (plain_response 500, st\<lparr>cache := c\<rparr>)
      | (Some f, c) \<Rightarrow> let st' = st\<lparr>cache := c\<rparr> in (json_response show_json 200 (stats_json env f st'), st'))"

section \<open>Scroll tiles and regions\<close>

definition clear_scroll :: "(json \<Rightarrow> byte list) \<Rightarrow> bool \<Rightarrow> (nat \<Rightarrow> faults) \<Rightarrow> (db_error + unit) \<Rightarrow> app_state \<Rightarrow> http_response \<times> app_state" where
  "clear_scroll show_json returned fls reclaimed st =
     (case cache_task returned (clear_unpinned fls reclaimed) (cache st) of
        (Some (b, n), c) \<Rightarrow> (json_response show_json 200 (JObj [(''freedBytes'', jint b), (''freedRows'', JPos n)]), st\<lparr>cache := c\<rparr>)
      | (None, c) \<Rightarrow> (plain_response 500, st\<lparr>cache := c\<rparr>))"

text \<open>A read-only query that can fail.\<close>

definition query :: "db_error option \<Rightarrow> (db \<Rightarrow> 'a) \<Rightarrow> tile_cache \<Rightarrow> (db_error + 'a) \<times> tile_cache" where
  "query failure f c = (case failure of Some e \<Rightarrow> (Inl e, c) | None \<Rightarrow> (Inr (f (conn c)), c))"

definition region_bytes_route :: "(json \<Rightarrow> byte list) \<Rightarrow> bool \<Rightarrow> db_error option \<Rightarrow> string \<Rightarrow> app_state \<Rightarrow> http_response \<times> app_state" where
  "region_bytes_route show_json returned failure rid st =
     (if \<not> valid_region_id rid then (plain_response 400, st)
      else case cache_task returned (query failure (\<lambda>d. region_bytes d rid)) (cache st) of
          (Some b, c) \<Rightarrow> (json_response show_json 200 (JObj [(''bytes'', jint b)]), st\<lparr>cache := c\<rparr>)
        | (None, c) \<Rightarrow> (plain_response 500, st\<lparr>cache := c\<rparr>))"

definition all_region_bytes_route :: "(json \<Rightarrow> byte list) \<Rightarrow> bool \<Rightarrow> db_error option \<Rightarrow> app_state \<Rightarrow> http_response \<times> app_state" where
  "all_region_bytes_route show_json returned failure st =
     (case cache_task returned (query failure all_region_bytes) (cache st) of
        (Some rs, c) \<Rightarrow> (json_response show_json 200 (JObj [(''regions'', JObj (map (\<lambda>(i, b). (i, jint b)) rs))]), st\<lparr>cache := c\<rparr>)
      | (None, c) \<Rightarrow> (plain_response 500, st\<lparr>cache := c\<rparr>))"

record region_delete_env =
  rd_polls :: "nat \<Rightarrow> string list"
  rd_waited :: "app_state \<Rightarrow> app_state"
  rd_task :: task
  rd_evict :: cache_env

definition delete_region_route :: "region_delete_env \<Rightarrow> string \<Rightarrow> app_state \<Rightarrow> http_response \<times> app_state" where
  "delete_region_route env rid st =
     (if \<not> valid_region_id rid \<or> rid = POSITION_WARM_REGION_ID \<or> rid = BASEMAP_ASSETS_REGION_ID then (plain_response 403, st)
      else case cancel_region_warms (rd_polls env) rid st of
          (drained, st0) \<Rightarrow>
            let st1 = rd_waited env st0
            in if \<not> drained then (plain_response 409, st1)
               else
                 let cap = live_cap_bytes st1;
                     work = (\<lambda>c. case delete_region (task_env (rd_task env)) rid c of
                         (Inl e, c') \<Rightarrow> (Inl e, c')
                       | (Inr _, c') \<Rightarrow> (Inr (), log_cache_err (evict_to (rd_evict env) cap c')))
                 in (case cache_task (joined (rd_task env)) work (cache st1) of
                       (Some _, c) \<Rightarrow> (plain_response 204, st1\<lparr>cache := c\<rparr>)
                     | (None, c) \<Rightarrow> (plain_response 500, st1\<lparr>cache := c\<rparr>)))"

section \<open>Tiles\<close>

text \<open>\<open>StatusCode::from_u16\<close>: three digits.\<close>

definition status_of :: "nat \<Rightarrow> nat" where
  "status_of n = (if 100 \<le> n \<and> n < 1000 then n else 404)"

definition tile_response_of :: "(string \<Rightarrow> bool) \<Rightarrow> int \<Rightarrow> tile_lookup \<Rightarrow> http_response" where
  "tile_response_of legal now l =
     (let remaining = (\<lambda>fetched. remaining_max_age (tl_max_age l) fetched now)
      in case tl_outcome l of
           Hit t \<Rightarrow> tile_http_response_with_max_age legal (tr_content_type t) (tr_etag t) (tr_stale t) (tr_body t) None
             (remaining (tr_fetched_at t))
         | Not_modified etag stale fetched \<Rightarrow>
             tile_http_response_with_max_age legal [] etag stale [] (Some etag) (remaining fetched)
         | Empty n \<Rightarrow> plain_response (status_of n)
         | Not_allowed \<Rightarrow> plain_response 404
         | Bad_request e \<Rightarrow> plain_response 400
         | Unavailable \<Rightarrow> plain_response 502)"

definition tile_route :: "(byte list \<Rightarrow> byte list) \<Rightarrow> (rat \<Rightarrow> string) \<Rightarrow> (string \<Rightarrow> bool) \<Rightarrow> wire \<Rightarrow> request_env \<Rightarrow> int
    \<Rightarrow> string \<Rightarrow> nat \<Rightarrow> nat \<Rightarrow> nat \<Rightarrow> string option \<Rightarrow> app_state \<Rightarrow> http_response \<times> spawned list \<times> app_state" where
  "tile_route sha display legal w rq now src z x y if_none_match st =
     (case get_tile sha display w rq src z x y if_none_match st of
        (l, sp, st') \<Rightarrow> (tile_response_of legal now l, sp, st'))"

section \<open>Warm jobs\<close>

record warm_body =
  wb_sources :: "string list"
  wb_bbox :: bbox
  wb_additional_bbox :: "bbox option"
  wb_minzoom :: nat
  wb_maxzoom :: nat
  wb_region_id :: "string option"

definition placeholder :: "warm_body \<Rightarrow> string \<Rightarrow> chart_source" where
  "placeholder b i = \<lparr>src_id = i, src_title = [], upstream = Xyz [], tile_size = 256, minzoom = wb_minzoom b,
     maxzoom = wb_maxzoom b, vector_maxzoom = None, bounds = None, coverage = None, max_age_seconds = None, attribution = []\<rparr>"

definition warm_request_of :: "warm_body \<Rightarrow> warm_request" where
  "warm_request_of b = \<lparr>wq_sources = map (placeholder b) (wb_sources b), wq_bbox = wb_bbox b,
     wq_additional = wb_additional_bbox b, wq_minzoom = wb_minzoom b, wq_maxzoom = wb_maxzoom b, wq_region = wb_region_id b\<rparr>"

text \<open>\<open>message\<close> prints the text of an error of \<open>start_warm\<close>.\<close>

definition start_error_response :: "(start_error \<Rightarrow> string) \<Rightarrow> start_error \<Rightarrow> http_response" where
  "start_error_response message e =
     (case e of
        Unknown_source i \<Rightarrow> plain_response 404
      | Too_many_jobs \<Rightarrow> plain_response 429
      | Region_busy \<Rightarrow> plain_response 409
      | Shutting_down \<Rightarrow> plain_response 503
      | _ \<Rightarrow> text_response 400 (message e))"

definition count_rejection :: "app_state \<Rightarrow> app_state" where
  "count_rejection st = st\<lparr>warm_rejections := warm_rejections st + 1\<rparr>"

record warm_start_env =
  wt_locked :: "string \<Rightarrow> bool"
  wt_now :: int

definition warm_start :: "(f64 \<Rightarrow> f64) \<Rightarrow> (json \<Rightarrow> byte list) \<Rightarrow> (start_error \<Rightarrow> string) \<Rightarrow> warm_start_env \<Rightarrow> warm_body
    \<Rightarrow> app_state \<Rightarrow> http_response \<times> run_spec option \<times> app_state" where
  "warm_start merc show_json message env b st =
     (if wb_sources b = [] \<or> MAX_WARM_SOURCES < length (wb_sources b) then (plain_response 400, None, st)
      else case start_warm merc (wt_locked env) (wt_now env) (warm_request_of b) st of
          (Inr (jid, spec), st') \<Rightarrow> (json_response show_json 200 (JObj [(''jobId'', JStr jid)]), Some spec, st')
        | (Inl e, st') \<Rightarrow>
            (start_error_response message e, None, if e = Shutting_down then st' else count_rejection st'))"

text \<open>\<open>show_progress\<close> is the derived JSON of a snapshot, with the job's identifier for a region's.\<close>

definition warm_status :: "(warm_progress \<Rightarrow> json) \<Rightarrow> (json \<Rightarrow> byte list) \<Rightarrow> string \<Rightarrow> app_state \<Rightarrow> http_response" where
  "warm_status show_progress show_json jid st =
     (if \<not> valid_job_id jid then plain_response 400
      else case warm_snapshot st jid of
          Some p \<Rightarrow> json_response show_json 200 (show_progress p)
        | None \<Rightarrow> plain_response 404)"

definition warm_status_for_region :: "(string \<times> warm_progress \<Rightarrow> json) \<Rightarrow> (json \<Rightarrow> byte list) \<Rightarrow> string \<Rightarrow> app_state \<Rightarrow> http_response" where
  "warm_status_for_region show_job show_json rid st =
     (if \<not> valid_region_id rid then plain_response 400
      else case warm_snapshot_for_region st rid of
          Some p \<Rightarrow> json_response show_json 200 (show_job p)
        | None \<Rightarrow> plain_response 404)"

definition warm_cancel :: "string \<Rightarrow> app_state \<Rightarrow> http_response \<times> app_state" where
  "warm_cancel jid st =
     (if \<not> valid_job_id jid then (plain_response 400, st)
      else case cancel_warm jid st of
          (True, st') \<Rightarrow> (plain_response 204, st')
        | (False, st') \<Rightarrow> (plain_response 404, st'))"

end
