(* ===== verification/Startup.thy ===== *)
theory Startup
  imports Routes
begin

text \<open>
  The process entry (\<open>container/tilecache/src/main.rs\<close>) and the construction of the shared state
  (\<open>AppState::new\<close> and \<open>GuardedResolver\<close> in \<open>container/tilecache/src/state.rs\<close>): the environment variables
  with their fallbacks, the cache directory, the opening of the database with its one recreation, the
  startup eviction, the health check of the container and the drain at shutdown.
\<close>

section \<open>Environment variables\<close>

text \<open>\<open>std::env::var\<close>: \<open>None\<close> when the variable is unset or not Unicode.\<close>

type_synonym vars = "string \<Rightarrow> string option"

text \<open>\<open>str::parse\<close> of the standard library for \<open>i64\<close> and \<open>u16\<close>: an optional sign, at least one digit, no overflow.\<close>

definition parse_digits :: "string \<Rightarrow> nat option" where
  "parse_digits s = (if s \<noteq> [] \<and> list_all is_ascii_digit s then Some (undec 0 s) else None)"

definition parse_i64 :: "string \<Rightarrow> int option" where
  "parse_i64 s =
     (case strip_prefix ''-'' s of
        Some t \<Rightarrow> (case parse_digits t of Some n \<Rightarrow> if i64_min \<le> - int n then Some (- int n) else None | None \<Rightarrow> None)
      | None \<Rightarrow>
          (case parse_digits (case strip_prefix ''+'' s of Some t \<Rightarrow> t | None \<Rightarrow> s) of
             Some n \<Rightarrow> if int n \<le> i64_max then Some (int n) else None
           | None \<Rightarrow> None))"

definition parse_u16 :: "string \<Rightarrow> nat option" where
  "parse_u16 s =
     (case parse_digits (case strip_prefix ''+'' s of Some t \<Rightarrow> t | None \<Rightarrow> s) of
        Some n \<Rightarrow> if n < 2 ^ 16 then Some n else None
      | None \<Rightarrow> None)"

definition env_parsed :: "(string \<Rightarrow> 'a option) \<Rightarrow> vars \<Rightarrow> string \<Rightarrow> 'a \<Rightarrow> 'a" where
  "env_parsed parse vars key def = opt_or (Option.bind (vars key) parse) def"

definition DEFAULT_CAP_BYTES :: int where "DEFAULT_CAP_BYTES = 2147483648"

definition tilecache_port :: "vars \<Rightarrow> nat" where
  "tilecache_port vars = env_parsed parse_u16 vars ''TILECACHE_PORT'' 8080"

definition startup_db :: "vars \<Rightarrow> string" where
  "startup_db vars = opt_or (vars ''TILECACHE_DB'') ''/data/tilecache.sqlite''"

definition startup_cap :: "vars \<Rightarrow> int" where
  "startup_cap vars =
     (let cap = env_parsed parse_i64 vars ''TILECACHE_CAP_BYTES'' DEFAULT_CAP_BYTES
      in if 0 < cap then cap else DEFAULT_CAP_BYTES)"

definition startup_ttl :: "vars \<Rightarrow> int" where
  "startup_ttl vars =
     (let ttl = env_parsed parse_i64 vars ''TILECACHE_SCROLL_TTL_SECS'' 0
      in if 0 \<le> ttl \<and> ttl \<le> 365 * 86400 then ttl else 0)"

definition startup_knobs :: "vars \<Rightarrow> knobs" where
  "startup_knobs vars = default_knobs\<lparr>cap_bytes := startup_cap vars, scroll_ttl_secs := startup_ttl vars,
     allow_private_egress := (vars ''TILECACHE_ALLOW_PRIVATE'' = Some ''1'')\<rparr>"

section \<open>The shared state\<close>

text \<open>The token of \<open>AppState::new\<close>: an empty variable is no token.\<close>

definition startup_token :: "vars \<Rightarrow> string option" where
  "startup_token vars =
     (case vars ''TILECACHE_CONTROL_TOKEN'' of Some v \<Rightarrow> if v = [] then None else Some v | None \<Rightarrow> None)"

text \<open>\<open>boot\<close> is the identifier drawn by the \<open>uuid\<close> package.\<close>

definition new_app_state :: "vars \<Rightarrow> string \<Rightarrow> tile_cache \<Rightarrow> knobs \<Rightarrow> app_state" where
  "new_app_state vars boot c kn =
     \<lparr>cache = c, sources = (\<lambda>_. None), public_base = [], style_states = [], knobs = kn, flights = no_inflight,
      fill_permits = MAX_FILL_TASKS, touch_permits = MAX_TOUCH_TASKS, health = new_health (upstream_base_timeout_ms kn),
      warm_jobs = [], active_warm_regions = [], warm_seq = 0, boot_id = boot, live_cap_bytes = cap_bytes kn,
      live_regions_budget = 0, live_position_warm_budget = 0, live_scroll_ttl_secs = scroll_ttl_secs kn,
      configured = False, config_generation = 0, control_token = startup_token vars,
      geocoding_enabled = (vars ''TILECACHE_GEOCODING_ENABLED'' \<noteq> Some ''0''),
      geocoder = \<lparr>gc_last_request = None, gc_cache = []\<rparr>, shutdown_requested = False, assets_warming = False,
      warm_rejections = 0, config_pushes = 0\<rparr>"

text \<open>The resolver of the HTTP client: \<open>addrs\<close> is what the system's lookup returned for the name.\<close>

definition guarded_resolve :: "bool \<Rightarrow> ip_addr list \<Rightarrow> ip_addr list" where
  "guarded_resolve allow addrs = filter (\<lambda>a. allow \<or> \<not> is_forbidden_ip a) addrs"

section \<open>The database\<close>

definition is_corrupt :: "db_error \<Rightarrow> bool" where
  "is_corrupt e \<longleftrightarrow> e = DatabaseCorrupt \<or> e = NotADatabase"

text \<open>
  One opening: its environment, what the \<open>auto_vacuum\<close> pragma reads before and after the vacuum, and the
  vacuum's failure.
\<close>

record db_opening =
  op_env :: cache_env
  op_mode :: int
  op_vacuum :: "db_error option"
  op_migrated :: int

definition open_db :: "db_opening \<Rightarrow> db \<Rightarrow> db_error + tile_cache" where
  "open_db how d = open_with_vacuum (op_env how) (op_mode how) (op_vacuum how) (op_migrated how) d"

text \<open>
  \<open>left\<close> is the database the path holds after the three removals, whose failures the code ignores: a new
  empty one when the file is gone. \<open>None\<close> is a panic.
\<close>

definition open_or_recreate :: "db_opening \<Rightarrow> db_opening \<Rightarrow> db \<Rightarrow> db \<Rightarrow> tile_cache option" where
  "open_or_recreate first second d left =
     (case open_db first d of
        Inr c \<Rightarrow> Some c
      | Inl e \<Rightarrow>
          if \<not> is_corrupt e then None
          else (case open_db second left of Inr c \<Rightarrow> Some c | Inl _ \<Rightarrow> None))"

text \<open>\<open>create_dir_all\<close>: every prefix becomes a directory, unless the call fails, which is only logged.\<close>

definition create_dir_all :: "bool \<Rightarrow> string list \<Rightarrow> file_system \<Rightarrow> file_system" where
  "create_dir_all succeeds dir fs =
     (if succeeds then (\<lambda>p. if take (length p) dir = p then Some True else fs p) else fs)"

text \<open>The cache directory is moved from the older release before it is created. A path is its components.\<close>

definition prepare_directory :: "(file_system \<Rightarrow> bool) \<Rightarrow> bool \<Rightarrow> string list \<Rightarrow> file_system \<Rightarrow> file_system" where
  "prepare_directory rename_succeeds created db_path fs =
     (if db_path = [] then fs
      else create_dir_all created (butlast db_path) (migrate_legacy_cache_dir rename_succeeds (butlast db_path) fs))"

section \<open>Boot\<close>

record boot_env =
  bo_vars :: vars
  bo_first :: db_opening
  bo_second :: db_opening
  bo_left :: db
  bo_evict :: cache_env
  bo_id :: string

text \<open>\<open>None\<close>: the process panicked before it served anything.\<close>

definition boot :: "boot_env \<Rightarrow> db \<Rightarrow> app_state option" where
  "boot b d =
     map_option (\<lambda>c. new_app_state (bo_vars b) (bo_id b) (log_cache_err (evict_to (bo_evict b) (startup_cap (bo_vars b)) c))
       (startup_knobs (bo_vars b)))
     (open_or_recreate (bo_first b) (bo_second b) d (bo_left b))"

section \<open>The health check\<close>

definition contains_crlf :: "byte list \<Rightarrow> bool" where
  "contains_crlf b = list_ex (\<lambda>i. b ! i = 13 \<and> b ! Suc i = 10) [0..<length b - 1]"

text \<open>
  The reads of the response, each at most 64 bytes: \<open>None\<close> is an error, an empty one the end of the stream
  (as is the end of the list: the next read has failed).
\<close>

fun read_status :: "byte list \<Rightarrow> byte list option list \<Rightarrow> byte list" where
  "read_status buf [] = buf"
| "read_status buf (None # rs) = buf"
| "read_status buf (Some c # rs) =
     (if 1024 \<le> length buf \<or> c = [] then buf
      else if contains_crlf (buf @ c) then buf @ c
      else read_status (buf @ c) rs)"

definition status_line_ok :: "byte list" where
  "status_line_ok = map (\<lambda>c. of_nat (code c)) ''HTTP/1.1 200''"

record probe_env =
  pb_connected :: bool
  pb_written :: bool
  pb_reads :: "byte list option list"

definition healthcheck :: "probe_env \<Rightarrow> nat" where
  "healthcheck p =
     (if \<not> pb_connected p \<or> \<not> pb_written p then 1
      else if take (length status_line_ok) (read_status [] (pb_reads p)) = status_line_ok then 0 else 1)"

section \<open>Shutdown\<close>

text \<open>
  The waits at the end: \<open>counts\<close> is the number of tasks seen at the start and at each wake-up before the
  timeout.
\<close>

fun drained :: "nat list \<Rightarrow> bool" where
  "drained [] = False"
| "drained (n # ns) = (if n = 0 then True else drained ns)"

definition wait_for_warms :: "nat list \<Rightarrow> bool" where "wait_for_warms counts = drained counts"
definition wait_for_fills :: "nat list \<Rightarrow> bool" where "wait_for_fills counts = drained counts"

text \<open>The handler of the signal, which then lets the server finish its requests.\<close>

definition shutdown :: "app_state \<Rightarrow> app_state" where
  "shutdown st = cancel_all_warms st"

end
