(* ===== verification/Cache_Machine.thy ===== *)
theory Cache_Machine
  imports Cache_Regions
begin

text \<open>
  The tile cache as one machine: every public operation is an event, an event carries the failures and
  the free space its call meets, and the instances of the contracts of \<open>Prelude\<close> on it. Behind them,
  the properties of the cache that the rest of the program relies on.
\<close>

section \<open>Events\<close>

datatype cache_op =
    Op_get cache_env tile_key
  | Op_put cache_env tile_key cached_tile bool int
  | Op_touch cache_env tile_key int
  | Op_evict cache_env int
  | Op_sweep "nat \<Rightarrow> faults" int int
  | Op_clear "nat \<Rightarrow> faults" "db_error + unit"
  | Op_put_many cache_env "warm_row list" int int "string option" int
  | Op_pin_fresh cache_env tile_key int int int pin_budgets "string option"
  | Op_pin_region cache_env tile_key int "string option"
  | Op_delete_region cache_env string
  | Op_promote cache_env "(string \<times> string) list" int int int
  | Op_cleanup cache_env
  | Op_real_bytes cache_env

fun step_cache :: "cache_op \<Rightarrow> tile_cache \<Rightarrow> tile_cache" where
  "step_cache (Op_get env k) c = snd (get env k c)"
| "step_cache (Op_put env k t p now) c = snd (put env k t p now c)"
| "step_cache (Op_touch env k now) c = snd (touch env k now c)"
| "step_cache (Op_evict env cap) c = snd (evict_to env cap c)"
| "step_cache (Op_sweep fls ttl now) c = snd (sweep_aged_unpinned fls ttl now c)"
| "step_cache (Op_clear fls rc) c = snd (clear_unpinned fls rc c)"
| "step_cache (Op_put_many env rows budget cap region now) c =
     snd (put_many_pinned env rows budget cap region now c)"
| "step_cache (Op_pin_fresh env k now fs ns budgets region) c =
     snd (pin_if_fresh_capped env k now fs ns budgets region c)"
| "step_cache (Op_pin_region env k budget region) c = snd (pin_for_region env k budget region c)"
| "step_cache (Op_delete_region env rid) c = snd (delete_region env rid c)"
| "step_cache (Op_promote env reps rb pb cap) c = snd (promote_staged_regions env reps rb pb cap c)"
| "step_cache (Op_cleanup env) c = snd (cleanup_abandoned_staging env c)"
| "step_cache (Op_real_bytes env) c = snd (real_region_pinned_bytes env POSITION_WARM_REGION_ID c)"

text \<open>
  The events the invariant covers: stored sizes are not negative, a promotion never renames a region to
  itself, and the recount that three operations run after their commit does not fail (when it does,
  the rows have changed and the counters have not).
\<close>

fun op_admissible :: "cache_op \<Rightarrow> bool" where
  "op_admissible (Op_put env k t p now) \<longleftrightarrow> 0 \<le> bytes t"
| "op_admissible (Op_put_many env rows budget cap region now) \<longleftrightarrow> list_all (\<lambda>r. 0 \<le> bytes (wr_tile r)) rows"
| "op_admissible (Op_delete_region env rid) \<longleftrightarrow> faults env S_recount = None"
| "op_admissible (Op_promote env reps rb pb cap) \<longleftrightarrow>
     faults env S_recount = None \<and> list_all (\<lambda>p. fst p \<noteq> snd p) reps"
| "op_admissible (Op_cleanup env) \<longleftrightarrow> faults env S_recount = None"
| "op_admissible _ \<longleftrightarrow> True"

lemma step_cache_inv: "op_admissible e \<Longrightarrow> cache_inv c \<Longrightarrow> cache_inv (step_cache e c)"
  by (cases e) (simp_all add: inv_intro list_all_iff)

interpretation tc: machine step_cache op_admissible cache_inv
  by unfold_locales (rule step_cache_inv)

section \<open>Sequences that respect a cap\<close>

text \<open>
  The events that bound the pinned bytes: those of a warm run with budgets inside the cap, and every
  operation that pins nothing. A fill (\<open>put\<close>) may grow a row that is already pinned and has no gate, and
  \<open>pin_for_region\<close> has no physical budget.
\<close>

fun op_within :: "int \<Rightarrow> cache_op \<Rightarrow> bool" where
  "op_within cap (Op_put env k t p now) \<longleftrightarrow> False"
| "op_within cap (Op_pin_region env k budget region) \<longleftrightarrow> False"
| "op_within cap (Op_put_many env rows budget cap' region now) \<longleftrightarrow> cap' \<le> cap"
| "op_within cap (Op_pin_fresh env k now fs ns budgets region) \<longleftrightarrow> physical_budget budgets \<le> cap"
| "op_within cap (Op_promote env reps rb pb cap') \<longleftrightarrow> cap' \<le> cap"
| "op_within cap _ \<longleftrightarrow> True"

lemma put_many_pinned_le:
  assumes inv: "cache_inv c" and nn: "\<forall>r \<in> set rows. 0 \<le> bytes (wr_tile r)"
  shows "pinned_bytes (snd (put_many_pinned env rows budget cap region now c)) \<le> max cap (pinned_bytes c)"
proof (cases "put_many_pinned env rows budget cap region now c")
  case (Pair res c')
  from Pair show ?thesis
  proof (cases rule: put_many_cases)
    case (batch acc freed d)
    note E = put_batch_effect[OF inv nn batch(1)]
    from E(1)[unfolded batch_inv_def] batch(3) Pair show ?thesis by simp
  qed (use Pair in simp)
qed

lemma pin_fresh_pinned_le:
  "pinned_bytes (snd (pin_if_fresh_capped env k now fs ns budgets region c))
    \<le> max (physical_budget budgets) (pinned_bytes c)"
proof (cases "pin_if_fresh_capped env k now fs ns budgets region c")
  case (Pair res c')
  from Pair show ?thesis
  proof (cases rule: pin_if_fresh_cases)
    case (pin r)
    from pin(5) show ?thesis
    proof (cases rule: pin_locked_cases)
      case ok
      with pin(4) Pair show ?thesis by auto
    qed (use Pair in simp)
  qed (use Pair in simp)
qed

lemma demote_pinned_le:
  assumes "bytes_nonneg d"
  shows "pinned_sum (demote_unreferenced (delete_joins P d)) \<le> pinned_sum d"
proof -
  have "pinned_sum (demote_unreferenced (delete_joins P d)) =
      tsum (\<lambda>r. row_pinned (if row_pinned r \<and> \<not> referenced (delete_joins P d) (row_key r)
         then r\<lparr>row_pinned := False\<rparr> else r)) d"
    unfolding demote_unreferenced_def tsum_set_pinned_any by simp
  also have "\<dots> \<le> pinned_sum d" using assms by (rule tsum_mono) (simp split: if_splits)
  finally show ?thesis .
qed

lemma demoting_pinned_le:
  assumes "cache_inv c"
  shows "pinned_bytes (snd (delete_region env rid c)) \<le> pinned_bytes c"
    "pinned_bytes (snd (cleanup_abandoned_staging env c)) \<le> pinned_bytes c"
  using demote_pinned_le[OF cache_invD(2)[OF assms]] cache_invD(4)[OF assms]
  by (auto simp: delete_region_def cleanup_abandoned_staging_def cleanup_abandoned_staging_conn_def Let_def
      split: option.splits sum.splits)

lemma promote_pinned_le:
  "pinned_bytes (snd (promote_staged_regions env reps rb pb cap c)) \<le> max cap (pinned_bytes c)"
  by (cases "promote_staged_regions env reps rb pb cap c") (auto elim!: promote_staged_cases)

lemma pinned_unchanged:
  "pinned_bytes (snd (get env k c)) = pinned_bytes c"
  "pinned_bytes (snd (touch env k now c)) = pinned_bytes c"
  "pinned_bytes (snd (real_region_pinned_bytes env p c)) = pinned_bytes c"
  by (auto simp: get_def touch_def real_region_pinned_bytes_def Let_def split: option.splits)

lemma evict_pinned: "pinned_bytes (snd (evict_to env cap c)) = pinned_bytes c"
  by (cases "evict_to env cap c") (auto dest!: evict_to_cases simp: Let_def)

lemma sweep_pinned:
  assumes "cache_inv c"
  shows "pinned_bytes (snd (sweep_aged_unpinned fls ttl now c)) = pinned_bytes c"
    "pinned_bytes (snd (clear_unpinned fls rc c)) = pinned_bytes c"
proof -
  show "pinned_bytes (snd (sweep_aged_unpinned fls ttl now c)) = pinned_bytes c"
    using aged.chunks_effect[OF assms]
    by (cases "delete_unpinned_chunks (aged_select (now - ttl)) fls 0 0 0 c")
      (simp add: sweep_aged_unpinned_def)
  show "pinned_bytes (snd (clear_unpinned fls rc c)) = pinned_bytes c"
    using scroll.chunks_effect[OF assms]
    by (cases "delete_unpinned_chunks unpinned_select fls 0 0 0 c")
      (auto simp: clear_unpinned_def split: sum.splits)
qed

lemma step_pinned_le:
  assumes "0 \<le> cap" "op_admissible e \<and> op_within cap e" "cache_inv c" "pinned_bytes c \<le> cap"
  shows "pinned_bytes (step_cache e c) \<le> cap"
proof (cases e)
  case (Op_put_many env rows budget cap' region now)
  with assms put_many_pinned_le[OF assms(3), of rows env budget cap' region now] show ?thesis
    by (auto simp: list_all_iff)
next
  case (Op_pin_fresh env k now fs ns budgets region)
  with assms pin_fresh_pinned_le[of env k now fs ns budgets region c] show ?thesis by auto
next
  case (Op_promote env reps rb pb cap')
  with assms promote_pinned_le[of env reps rb pb cap' c] show ?thesis by auto
qed (use assms in \<open>simp_all add: pinned_unchanged evict_pinned sweep_pinned order.trans[OF demoting_pinned_le(1)]
      order.trans[OF demoting_pinned_le(2)]\<close>)

interpretation capped_tc: bounded_machine step_cache "\<lambda>e. op_admissible e \<and> op_within (int cap) e"
  cache_inv pinned_bytes "int cap" for cap
  by unfold_locales (auto intro: step_cache_inv step_pinned_le[where cap = "int cap"])

section \<open>The rows as a keyed store\<close>

definition store_row :: "tile_key \<Rightarrow> cached_tile \<Rightarrow> db \<Rightarrow> db" where
  "store_row k t d = upsert \<lparr>row_key = k, row_tile = t, row_pinned = pinned_at d k\<rparr> d"

definition evict_rows :: "int \<Rightarrow> db \<Rightarrow> db" where
  "evict_rows deficit d = delete_rows (\<lambda>r. row_key r \<in> row_key ` set (evicted d deficit)) d"

lemma tile_at_delete:
  assumes "distinct (map row_key (tiles d))" "tile_at (delete_rows P d) k = Some t"
  shows "tile_at d k = Some t"
  using assms(2) by (auto simp: tile_at_def find_row_delete[OF assms(1)] split: option.splits if_splits)

lemma store_row_ok: "db_ok d \<Longrightarrow> db_ok (store_row k t d)"
  unfolding store_row_def by (rule db_ok_upsert) (auto simp: pinned_at_def)

lemma evict_rows_ok:
  assumes "db_ok d" shows "db_ok (evict_rows f d)"
  unfolding evict_rows_def
  by (rule db_ok_delete_rows[OF assms])
    (use key_selected[OF db_okD(1)[OF assms] evicted_facts(1)[OF assms]] evicted_facts(3)[OF assms] in blast)

interpretation rows: keyed_store tile_at store_row evict_rows db_ok
proof unfold_locales
  fix d k t j assume "db_ok d"
  show "tile_at (store_row k t d) j = (if j = k then Some t else tile_at d j)"
    by (simp add: store_row_def tile_at_upsert)
next
  fix d f j t assume "db_ok d" and "tile_at (evict_rows f d) j = Some t"
  then show "tile_at d j = Some t" using tile_at_delete db_okD(1) by (auto simp: evict_rows_def)
qed (simp_all add: store_row_ok evict_rows_ok)

lemma put_is_store_row:
  assumes "put env k t False now c = (Inr Stored, c')"
  shows "conn c' = store_row k (t\<lparr>last_access := now\<rparr>) (conn c)"
  using put_stored[OF assms] by (simp add: store_row_def)

lemma evict_is_evict_rows:
  assumes "evict_to env cap c = (r, c')"
  shows "conn c' = conn c \<or> conn c' = evict_rows (total_bytes c - eviction_target cap) (conn c)"
  using evict_to_cases[OF assms] by (auto simp: evict_rows_def Let_def)

section \<open>A batch seen from outside\<close>

lemma in_category_pinned:
  assumes ok: "db_ok d" and r: "r \<in> set (tiles d)" and m: "key_in_category_conn d (row_key r) region"
  shows "row_pinned r"
proof (cases region)
  case None
  with m in_category_None[OF db_okD(1)[OF ok]] row_pinned_at[OF db_okD(1)[OF ok] r] show ?thesis by simp
next
  case (Some rid)
  with m have "referenced d (row_key r)"
    by (auto simp: key_in_category_conn_def in_position_def in_real_region_def referenced_def list_ex_iff
        split: if_splits)
  from db_ok_referenced[OF ok this] row_pinned_at[OF db_okD(1)[OF ok] r] show ?thesis by simp
qed

lemma tsum_filter_pinned:
  assumes "\<And>r. r \<in> set (tiles d) \<Longrightarrow> P r \<Longrightarrow> row_pinned r"
  shows "tsum P d = sum_of row_bytes (filter P (filter row_pinned (tiles d)))"
proof -
  have "filter P (tiles d) = filter (\<lambda>r. row_pinned r \<and> P r) (tiles d)"
    by (rule filter_cong) (use assms in auto)
  then show ?thesis by (simp add: tsum_def)
qed

lemma category_same_pinned:
  assumes ok: "db_ok d" "db_ok d'" and f: "filter row_pinned (tiles d') = filter row_pinned (tiles d)"
    and j: "region_tiles d' = region_tiles d"
  shows "category_bytes_conn d' region = category_bytes_conn d region"
proof -
  have mem: "key_in_category_conn d' (row_key r) region = key_in_category_conn d (row_key r) region"
    if r: "r \<in> set (filter row_pinned (tiles d))" for r
  proof (cases region)
    case None
    have "r \<in> set (tiles d)" "r \<in> set (tiles d')" using r f by (auto dest!: arg_cong[where f = set])
    with None show ?thesis
      by (simp add: in_category_None[OF db_okD(1)[OF ok(1)]] in_category_None[OF db_okD(1)[OF ok(2)]]
          row_pinned_at[OF db_okD(1)[OF ok(1)], symmetric] row_pinned_at[OF db_okD(1)[OF ok(2)], symmetric])
  next
    case (Some rid)
    then show ?thesis by (simp add: key_in_category_conn_def in_position_def in_real_region_def j)
  qed
  have "category_bytes_conn d' region = sum_of row_bytes
      (filter (\<lambda>r. key_in_category_conn d' (row_key r) region) (filter row_pinned (tiles d)))"
    unfolding category_is_tsum[OF db_okD(1)[OF ok(2)]] f[symmetric]
    by (rule tsum_filter_pinned) (rule in_category_pinned[OF ok(2)])
  also have "\<dots> = sum_of row_bytes
      (filter (\<lambda>r. key_in_category_conn d (row_key r) region) (filter row_pinned (tiles d)))"
    by (rule arg_cong[where f = "sum_of row_bytes"], rule filter_cong[OF refl], rule mem)
  also have "\<dots> = category_bytes_conn d region"
    unfolding category_is_tsum[OF db_okD(1)[OF ok(1)]]
    by (rule tsum_filter_pinned[symmetric]) (rule in_category_pinned[OF ok(1)])
  finally show ?thesis .
qed

interpretation pinned_rows: keyed_store tile_at "\<lambda>k t d. store_pinned region k t (last_access t) d"
  evict_rows db_ok for region
proof unfold_locales
  fix d k t j assume "db_ok d"
  show "tile_at (store_pinned region k t (last_access t) d) j = (if j = k then Some t else tile_at d j)"
    by (simp add: tile_at_def find_store_pinned)
next
  fix d f j t assume "db_ok d" and "tile_at (evict_rows f d) j = Some t"
  then show "tile_at d j = Some t" by (rule rows.lookup_shrink)
qed (simp_all add: store_pinned_ok evict_rows_ok)

lemma store_prefix_tiles:
  assumes "db_ok d"
  shows "tile_at (store_prefix cx rows d) j =
    (case map_of (rev (map (\<lambda>r. (wr_key r, (wr_tile r)\<lparr>last_access := bc_now cx\<rparr>)) rows)) j of
       Some t \<Rightarrow> Some t | None \<Rightarrow> tile_at d j)"
proof -
  have "store_prefix cx rows d = fold (\<lambda>(k, t). store_pinned (bc_region cx) k t (last_access t))
      (map (\<lambda>r. (wr_key r, (wr_tile r)\<lparr>last_access := bc_now cx\<rparr>)) rows) d" for d
    by (induction rows arbitrary: d) (simp_all add: store_prefix_def store_pinned_def pinned_row_def)
  then show ?thesis using pinned_rows.stores_last[OF assms, of "bc_region cx"] by simp
qed

text \<open>A batch that returned: the rows it stored, and the rows it left.\<close>

lemma put_many_result:
  assumes inv: "cache_inv c" and nn: "\<forall>r \<in> set rows. 0 \<le> bytes (wr_tile r)"
    and run: "put_many_pinned env rows budget cap region now c = (Inr out, c')"
  obtains (none) "out = DISK_PRESSURE" "conn c' = conn c" "total_bytes c' = total_bytes c"
      "pinned_bytes c' = pinned_bytes c"
  | (some) cx acc where "bc_budget cx = budget" "bc_cap cx = cap" "bc_region cx = region" "bc_now cx = now"
      "batch_inv cx (conn c) acc" "bc_pinned_base cx = pinned_bytes c"
      "bc_category_base cx = category_bytes_conn (conn c) region"
      "acc_db acc = store_prefix cx (take (pm_stored out) rows) (conn c)" "pm_stored out \<le> length rows"
      "pm_capped out \<longleftrightarrow> pm_stored out < length rows"
      "db_ok (conn c')" "filter row_pinned (tiles (conn c')) = filter row_pinned (tiles (acc_db acc))"
      "region_tiles (conn c') = region_tiles (acc_db acc)"
      "pinned_bytes c' = pinned_sum (acc_db acc)"
      "total_bytes c' \<le> cap \<or> total_bytes c' = pinned_bytes c'"
  using run
proof (cases rule: put_many_cases)
  case same
  with none show ?thesis by simp
next
  case (batch acc freed d)
  let ?cx = "\<lparr>bc_budget = budget, bc_cap = cap, bc_region = region, bc_now = now,
         bc_pinned_base = pinned_bytes c, bc_category_base = category_bytes_conn (conn c) region\<rparr>"
  note E = put_batch_effect[OF inv nn batch(1), simplified]
  from batch(1) have pr: "put_rows (faults env) ?cx 0 rows \<lparr>acc_db = conn c, added = 0, reported_added = 0,
      pinned_added = 0, category_added = 0, stored = 0, capped = False\<rparr> = Inr acc"
    by (rule put_batch_cases)
  from put_rows_prefix[OF pr] obtain n where n: "n \<le> length rows" "stored acc = n"
      "acc_db acc = store_prefix ?cx (take n rows) (conn c)" "capped acc \<longleftrightarrow> n < length rows" by auto
  have pe: "pinned_sum (acc_db acc) = pinned_bytes c + pinned_added acc"
    using E(1) unfolding batch_inv_def by simp
  show ?thesis
    by (rule some[of ?cx acc]) (use E n batch(2,3) pe in simp_all)
qed

lemma put_many_error:
  assumes "put_many_pinned env rows budget cap region now c = (Inl e, c')"
  shows "conn c' = conn c \<and> total_bytes c' = total_bytes c \<and> pinned_bytes c' = pinned_bytes c"
  using assms by (cases rule: put_many_cases) simp_all

end
