(* ===== verification/Cache_Claims.thy ===== *)
theory Cache_Claims
  imports Cache_Machine
begin

text \<open>
  The properties of the tile cache, each with a concrete instance where it has hypotheses. The example
  cache holds one pinned row of a saved region and two unpinned rows.
\<close>

section \<open>An example\<close>

definition ex_tile :: "int \<Rightarrow> int \<Rightarrow> cached_tile" where
  "ex_tile b a = \<lparr>content_type = ''image/png'', strong_etag = ''e'', upstream_validator = None,
     status = 200, fetched_at = a, last_access = a, bytes = b, blob = Some []\<rparr>"

definition ex_env :: cache_env where
  "ex_env = \<lparr>available = None, reusable = None, faults = (\<lambda>_. None)\<rparr>"

definition ex_db :: db where
  "ex_db = \<lparr>tiles = [\<lparr>row_key = (''s'', 0, 0, 0), row_tile = ex_tile 100 10, row_pinned = True\<rparr>,
       \<lparr>row_key = (''s'', 1, 0, 0), row_tile = ex_tile 200 20, row_pinned = False\<rparr>,
       \<lparr>row_key = (''s'', 1, 0, 1), row_tile = ex_tile 300 5, row_pinned = False\<rparr>],
     region_tiles = [(''r1'', (''s'', 0, 0, 0))], learned_styles = [], user_version = SCHEMA_VERSION\<rparr>"

definition ex_cache :: tile_cache where
  "ex_cache = \<lparr>conn = ex_db, total_bytes = 600, pinned_bytes = 100, real_region_cache = 0,
     regions_dirty = True, disk_pressure_events = 0, operation_error_events = 0\<rparr>"

lemmas ex_defs = ex_tile_def ex_env_def ex_db_def ex_cache_def

lemma ex_db_ok: "db_ok ex_db" "bytes_nonneg ex_db" "user_version ex_db = SCHEMA_VERSION"
  by (simp_all add: ex_defs db_ok_def joins_pinned_def bytes_nonneg_def row_bytes_def)

lemma ex_cache_inv: "cache_inv ex_cache"
  using ex_db_ok by (simp add: inv_defs ex_cache_def) (simp add: ex_defs tsum_def row_bytes_def)

definition ex_row :: "tile_key \<Rightarrow> int \<Rightarrow> warm_row" where
  "ex_row k b = \<lparr>wr_key = k, wr_tile = ex_tile b 30\<rparr>"

section \<open>The counters\<close>


definition ex_opened :: tile_cache where
  "ex_opened = \<lparr>conn = ex_db, total_bytes = 600, pinned_bytes = 100, real_region_cache = 0,
     regions_dirty = True, disk_pressure_events = 0, operation_error_events = 0\<rparr>"

lemma ex_open: "open_with_vacuum ex_env 2 None 2 ex_db = Inr ex_opened"
  by (simp add: open_with_vacuum_def run_stmt_def ensure_incremental_auto_vacuum_def ensure_schema_def
      cleanup_abandoned_staging_conn_def demote_unreferenced_def delete_joins_def set_pinned_def
      referenced_def starts_with_def STAGING_REGION_PREFIX_def ex_opened_def ex_defs tsum_def row_bytes_def)


text \<open>
  C8: A sequence of operations whose budgets lie inside a cap never takes the pinned bytes above the
  cap, and an eviction to that cap after it leaves the whole cache at or below it.
\<close>

theorem warm_run_stays_capped:
  assumes "list_all (\<lambda>e. op_admissible e \<and> op_within (int cap) e) ops"
    and "cache_inv c" and "pinned_bytes c \<le> int cap"
    and "evict_to env (int cap) (fold step_cache ops c) = (Inr (), c')"
  shows "pinned_bytes c' \<le> int cap \<and> total_bytes c' \<le> int cap"
proof -
  let ?c = "fold step_cache ops c"
  have inv: "cache_inv ?c" by (rule capped_tc.run_invar[OF assms(1,2)])
  have pin: "pinned_bytes ?c \<le> int cap" by (rule capped_tc.run_bounded[OF assms(1-3)])
  have pin': "pinned_bytes c' = pinned_bytes ?c"
    using evict_pinned[of env "int cap" ?c] assms(4) by simp
  have inv': "cache_inv c'" using evict_to_inv[OF inv, of env "int cap"] assms(4) by simp
  from evict_to_effect(1)[OF inv assms(4)] pin pin' all_pinned_total[OF inv'] show ?thesis by auto
qed

definition ex_capped_ops :: "cache_op list" where
  "ex_capped_ops = [Op_put_many ex_env [ex_row (''s'', 2, 0, 0) 150, ex_row (''s'', 2, 0, 1) 900] 1000 500 (Some ''r2'') 40,
     Op_delete_region ex_env ''r1'']"

lemma warm_run_stays_capped_witness:
  "pinned_bytes (snd (evict_to ex_env (int 500) (fold step_cache ex_capped_ops ex_cache))) \<le> int 500
   \<and> total_bytes (snd (evict_to ex_env (int 500) (fold step_cache ex_capped_ops ex_cache))) \<le> int 500"
  by (rule warm_run_stays_capped[where ops = ex_capped_ops and c = ex_cache and env = ex_env])
    (simp add: ex_capped_ops_def ex_row_def ex_tile_def ex_env_def, rule ex_cache_inv, simp add: ex_cache_def,
     simp add: evict_to_def evict_unpinned_within_def ex_env_def Let_def)

section \<open>Eviction\<close>

text \<open>
  C12: An eviction that returns normally leaves the total at or below the cap, or only pinned rows;
  no pinned row and no region row changes; every unpinned row it keeps was accessed no earlier than
  every row it deletes; and it deletes no more than needed: had the last row it deleted been kept,
  the total would exceed the eviction target.
\<close>

theorem evict_to_lru:
  assumes "cache_inv c" "evict_to env cap c = (Inr (), c')"
  shows "(total_bytes c' \<le> cap \<or> (\<forall>r \<in> set (tiles (conn c')). row_pinned r)) \<and>
    filter row_pinned (tiles (conn c')) = filter row_pinned (tiles (conn c)) \<and>
    region_tiles (conn c') = region_tiles (conn c) \<and>
    (\<forall>v \<in> set (tiles (conn c)) - set (tiles (conn c')). \<forall>s \<in> set (tiles (conn c')).
       \<not> row_pinned s \<longrightarrow> last_access (row_tile v) \<le> last_access (row_tile s)) \<and>
    (c' \<noteq> c \<longrightarrow> (\<exists>v \<in> set (tiles (conn c)) - set (tiles (conn c')).
       eviction_target cap < total_bytes c' + row_bytes v))"
  using evict_to_effect(1,2,3,5)[OF assms] evict_to_minimal[OF assms] by blast

lemma evict_to_lru_witness:
  "let c' = snd (evict_to ex_env 400 ex_cache)
   in map row_key (tiles (conn c')) = [(''s'', 0, 0, 0), (''s'', 1, 0, 0)] \<and>
      region_tiles (conn c') = region_tiles (conn ex_cache)"
proof -
  have run: "evict_to ex_env 400 ex_cache = (Inr (), snd (evict_to ex_env 400 ex_cache))"
    by (simp add: evict_to_def evict_unpinned_within_def ex_env_def Let_def)
  have "map row_key (tiles (conn (snd (evict_to ex_env 400 ex_cache)))) = [(''s'', 0, 0, 0), (''s'', 1, 0, 0)]"
    by (simp add: evict_to_def evict_unpinned_within_def lru_order_def eviction_target_def sat_i64_def
        EVICTION_HYSTERESIS_BYTES_def i64_max_def i64_min_def delete_rows_def row_bytes_def ex_defs Let_def)
  with evict_to_lru[OF ex_cache_inv run] show ?thesis unfolding Let_def by blast
qed

text \<open>
  C35: A tile that was stored is read back as stored (with the access time of the store) as long as it
  is in the cache, also after an eviction to any cap; and no other key's tile is changed by the two.
\<close>

theorem put_then_get:
  assumes "cache_inv c" "put env k t False now c = (Inr Stored, c1)" "0 \<le> bytes t"
    and "evict_to env' cap c1 = (r, c2)" "faults env'' S_lookup = None"
  shows "get env'' k c1 = (Inr (Some (t\<lparr>last_access := now\<rparr>)), c1) \<and>
    fst (get env'' k c2) \<in> {Inr None, Inr (Some (t\<lparr>last_access := now\<rparr>))} \<and>
    (\<forall>j. j \<noteq> k \<longrightarrow> tile_at (conn c1) j = tile_at (conn c) j \<and>
       tile_at (conn c2) j \<in> {None, tile_at (conn c) j})"
proof -
  let ?t = "t\<lparr>last_access := now\<rparr>"
  have ok: "db_ok (conn c)" by (rule cache_invD(1)[OF assms(1)])
  note c1 = put_is_store_row[OF assms(2)]
  have l1: "tile_at (conn c1) j = (if j = k then Some ?t else tile_at (conn c) j)" for j
    unfolding c1 by (rule rows.lookup_store[OF ok])
  have ok1: "db_ok (conn c1)" unfolding c1 by (rule rows.store_invar[OF ok])
  have l2: "tile_at (conn c2) j \<in> {None, tile_at (conn c1) j}" for j
  proof (cases "tile_at (conn c2) j")
    case (Some v)
    from evict_is_evict_rows[OF assms(4)] show ?thesis
    proof
      assume e: "conn c2 = evict_rows (total_bytes c1 - eviction_target cap) (conn c1)"
      from rows.lookup_shrink[OF ok1 Some[unfolded e]] Some show ?thesis by simp
    qed simp
  qed simp
  show ?thesis
    using l1 l2[of k] by (simp add: get_tile_at[OF assms(5)]) (metis insertE l2 singletonD)
qed

lemma put_then_get_witness:
  "let c1 = snd (put ex_env (''s'', 3, 0, 0) (ex_tile 40 30) False 31 ex_cache)
   in fst (get ex_env (''s'', 3, 0, 0) (snd (evict_to ex_env 300 c1)))
      \<in> {Inr None, Inr (Some ((ex_tile 40 30)\<lparr>last_access := 31\<rparr>))}"
proof -
  let ?c1 = "snd (put ex_env (''s'', 3, 0, 0) (ex_tile 40 30) False 31 ex_cache)"
  have "put ex_env (''s'', 3, 0, 0) (ex_tile 40 30) False 31 ex_cache = (Inr Stored, ?c1)"
    by (simp add: put_def ex_defs find_row_def has_disk_headroom_conn_def Let_def)
  from put_then_get[OF ex_cache_inv this _ surjective_pairing[of "evict_to ex_env 300 ?c1"], of ex_env]
  show ?thesis by (simp add: Let_def ex_tile_def ex_env_def)
qed

section \<open>The batched pinned store\<close>

text \<open>
  C22: A batch of pinned rows never takes the pinned bytes above the physical cap nor its category above
  its budget, unless they were above it before; it leaves the total at or below the cap or with nothing
  unpinned left to evict (unless it stopped for disk pressure); and no row that was pinned before it
  is unpinned or evicted by it.
\<close>

theorem put_many_budgets:
  assumes "cache_inv c" "\<forall>r \<in> set rows. 0 \<le> bytes (wr_tile r)"
    and "put_many_pinned env rows budget cap region now c = (Inr out, c')"
  shows "pinned_bytes c' \<le> max cap (pinned_bytes c) \<and>
    category_bytes_conn (conn c') region \<le> max budget (category_bytes_conn (conn c) region) \<and>
    (out \<noteq> DISK_PRESSURE \<longrightarrow> total_bytes c' \<le> cap \<or> total_bytes c' = pinned_bytes c') \<and>
    (\<forall>k. pinned_at (conn c) k \<longrightarrow> pinned_at (conn c') k)"
  using assms
proof (cases rule: put_many_result)
  case (some cx acc)
  have bi: "db_ok (acc_db acc)" "pinned_sum (acc_db acc) \<le> max cap (pinned_bytes c)"
    "category_bytes_conn (acc_db acc) region \<le> max budget (category_bytes_conn (conn c) region)"
    using some(5)[unfolded batch_inv_def] some(1-4,6,7) by simp_all
  have keep: "pinned_at (conn c) k \<Longrightarrow> pinned_at (acc_db acc) k" for k
    using some(5) unfolding batch_inv_def by blast
  have "category_bytes_conn (conn c') region = category_bytes_conn (acc_db acc) region"
    by (rule category_same_pinned[OF bi(1) some(11-13)])
  moreover have "pinned_at (acc_db acc) k \<Longrightarrow> pinned_at (conn c') k" for k
    using pinned_at_filter[OF some(12) db_okD(1)[OF bi(1)] db_okD(1)[OF some(11)]] by blast
  ultimately show ?thesis using bi keep some(14,15) by (simp only: simp_thms) blast
qed simp

definition ex_batch :: "(db_error + put_many_outcome) \<times> tile_cache" where
  "ex_batch = put_many_pinned ex_env [ex_row (''s'', 2, 0, 0) 150, ex_row (''s'', 2, 0, 1) 900]
     1000 500 (Some ''r2'') 40 ex_cache"

lemma ex_batch_run: "ex_batch = (Inr \<lparr>pm_stored = 1, pm_bytes_added = 150, pm_capped = True\<rparr>, snd ex_batch)"
  unfolding ex_batch_def put_many_pinned_def ex_env_def ex_cache_def ex_db_def ex_row_def ex_tile_def
  by code_simp

lemma put_many_budgets_witness:
  "pinned_bytes (snd ex_batch) \<le> max 500 (pinned_bytes ex_cache)
   \<and> category_bytes_conn (conn (snd ex_batch)) (Some ''r2'') \<le> max 1000 (category_bytes_conn (conn ex_cache) (Some ''r2''))"
  using put_many_budgets[OF ex_cache_inv _ ex_batch_run[unfolded ex_batch_def]]
  by (simp add: ex_batch_def ex_row_def ex_tile_def)

text \<open>
  C33: A batch that returns stored a prefix of its rows: all of them unless it reports being capped,
  in which case it stored strictly fewer (none on disk pressure). Each stored key then holds the last
  tile given for it, stamped with the time of the batch, is pinned, and belongs to the region the batch
  was for. A batch that fails changes no row and no counter.
\<close>

theorem put_many_effect:
  assumes "cache_inv c" "\<forall>r \<in> set rows. 0 \<le> bytes (wr_tile r)"
    and "put_many_pinned env rows budget cap region now c = (res, c')"
  shows "case res of
      Inl e \<Rightarrow> conn c' = conn c \<and> total_bytes c' = total_bytes c \<and> pinned_bytes c' = pinned_bytes c
    | Inr out \<Rightarrow>
        (out = DISK_PRESSURE \<and> conn c' = conn c) \<or>
        (pm_stored out \<le> length rows \<and> (pm_capped out \<longleftrightarrow> pm_stored out < length rows) \<and>
         (\<forall>r \<in> set (take (pm_stored out) rows).
            tile_at (conn c') (wr_key r) = map_of (rev (map (\<lambda>r. (wr_key r, (wr_tile r)\<lparr>last_access := now\<rparr>))
              (take (pm_stored out) rows))) (wr_key r) \<and>
            pinned_at (conn c') (wr_key r) \<and>
            (\<forall>rid. region = Some rid \<longrightarrow> wr_key r \<in> region_keys (conn c') rid)))"
proof (cases res)
  case (Inl e)
  with put_many_error assms(3) show ?thesis by simp
next
  case (Inr out)
  have run: "put_many_pinned env rows budget cap region now c = (Inr out, c')" using assms(3) Inr by simp
  from assms(1,2) run show ?thesis
  proof (cases rule: put_many_result)
    case (some cx acc)
    let ?rs = "take (pm_stored out) rows"
    let ?m = "map_of (rev (map (\<lambda>r. (wr_key r, (wr_tile r)\<lparr>last_access := now\<rparr>)) ?rs))"
    have ok: "db_ok (acc_db acc)" using some(5) by (simp add: batch_inv_def)
    have keep: "pinned_at (acc_db acc) k \<Longrightarrow> pinned_at (conn c') k \<and> find_row (conn c') k = find_row (acc_db acc) k" for k
      by (rule pinned_at_filter[OF some(12) db_okD(1)[OF ok] db_okD(1)[OF some(11)]])
    have "tile_at (conn c') (wr_key r) = ?m (wr_key r) \<and> pinned_at (conn c') (wr_key r) \<and>
       (\<forall>rid. region = Some rid \<longrightarrow> wr_key r \<in> region_keys (conn c') rid)" if r: "r \<in> set ?rs" for r
    proof -
      have p: "pinned_at (acc_db acc) (wr_key r)" unfolding some(8) by (rule store_prefix_facts(1)[OF r])
      have "?m (wr_key r) \<noteq> None" unfolding map_of_eq_None_iff using r by (simp add: image_image)
      then have "tile_at (acc_db acc) (wr_key r) = ?m (wr_key r)"
        unfolding some(8) store_prefix_tiles[OF cache_invD(1)[OF assms(1)]] some(4)
        by (auto split: option.splits)
      with keep[OF p] have "tile_at (conn c') (wr_key r) = ?m (wr_key r)" by (simp add: tile_at_def)
      moreover have "wr_key r \<in> region_keys (conn c') rid" if "region = Some rid" for rid
        using store_prefix_facts(3)[OF r, of cx rid "conn c"] some(3,8,13) that
        by (simp add: region_keys_def)
      ultimately show ?thesis using keep[OF p] by blast
    qed
    with Inr some(9,10) show ?thesis by simp
  qed (use Inr in simp)
qed

lemma put_many_effect_witness:
  "pinned_at (conn (snd ex_batch)) (''s'', 2, 0, 0) \<and> (''s'', 2, 0, 0) \<in> region_keys (conn (snd ex_batch)) ''r2''
   \<and> tile_at (conn (snd ex_batch)) (''s'', 2, 0, 0) = Some ((ex_tile 150 30)\<lparr>last_access := 40\<rparr>)"
  using put_many_effect[OF ex_cache_inv _ ex_batch_run[unfolded ex_batch_def]]
  by (simp add: ex_batch_def ex_row_def ex_tile_def DISK_PRESSURE_def)

section \<open>Regions\<close>

text \<open>
  C24: Deleting a region removes exactly its keys: every other region keeps its keys, no tile's content
  and no byte of the total changes, and afterwards a tile is pinned exactly when some other region
  still holds it.
\<close>

theorem delete_region_effect:
  assumes "cache_inv c" "delete_region env rid c = (Inr (), c')"
  shows "region_keys (conn c') rid = {} \<and>
    (\<forall>other. other \<noteq> rid \<longrightarrow> region_keys (conn c') other = region_keys (conn c) other) \<and>
    (\<forall>k. tile_at (conn c') k = tile_at (conn c) k) \<and> total_bytes c' = total_bytes c \<and>
    (\<forall>k. pinned_at (conn c') k \<longleftrightarrow> (\<exists>other. other \<noteq> rid \<and> k \<in> region_keys (conn c) other)) \<and>
    pinned_bytes c' = pinned_sum (conn c')"
proof -
  note f = demote_facts[OF cache_invD(1,2)[OF assms(1)], of "\<lambda>i. i = rid"]
  show ?thesis unfolding delete_region_ok[OF assms(2)] using f(4-6) by simp
qed

lemma delete_region_effect_witness:
  "\<not> pinned_at (conn (snd (delete_region ex_env ''r1'' ex_cache))) (''s'', 0, 0, 0)"
proof -
  have "delete_region ex_env ''r1'' ex_cache = (Inr (), snd (delete_region ex_env ''r1'' ex_cache))"
    by (simp add: delete_region_def ex_env_def Let_def)
  from delete_region_effect[OF ex_cache_inv this] show ?thesis
    by (simp add: region_keys_def ex_cache_def ex_db_def)
qed

text \<open>
  C9: A promotion of staged regions is all or nothing. When it reports success every target region
  holds exactly the keys its staging region held and the staging regions are gone, no other region
  and no tile's content changes, and the pinned bytes and both categories are inside the budgets it
  was given; otherwise the rows and counters are those it started from (unless only the recount
  after its commit failed).
\<close>

theorem promotion_all_or_nothing:
  assumes "cache_inv c" "proper_replacements reps"
    and "promote_staged_regions env reps real_budget position_budget cap c = (res, c')"
    and "faults env S_recount = None"
  shows "(res \<noteq> Inr True \<and> c' = c) \<or>
    (res = Inr True \<and>
     (\<forall>(s, t) \<in> set reps. region_keys (conn c') t = region_keys (conn c) s \<and> region_keys (conn c') s = {}) \<and>
     (\<forall>rid. rid \<notin> set (map fst reps) \<union> set (map snd reps) \<longrightarrow>
        region_keys (conn c') rid = region_keys (conn c) rid) \<and>
     (\<forall>k. tile_at (conn c') k = tile_at (conn c) k) \<and>
     cache_inv c' \<and> pinned_bytes c' \<le> cap \<and>
     category_bytes_conn (conn c') (Some BASEMAP_ASSETS_REGION_ID) \<le> real_budget \<and>
     category_bytes_conn (conn c') (Some POSITION_WARM_REGION_ID) \<le> position_budget)"
  using assms(3)
proof (cases rule: promote_staged_cases)
  case promoted
  have "cache_inv c'"
    using promote_staged_inv[OF assms(1) proper_ne[OF assms(2)] assms(4), of real_budget position_budget cap] assms(3)
    by simp
  with promoted promote_all_keys[OF assms(2) cache_invD(1,2)[OF assms(1)]]
    promote_all_ok[OF proper_ne[OF assms(2)] cache_invD(1,2)[OF assms(1)]]
  show ?thesis by auto
qed (use assms(4) in simp_all)

definition ex_staged :: tile_cache where
  "ex_staged = ex_cache\<lparr>conn := ex_db\<lparr>region_tiles := [(''__warm_staging__1'', (''s'', 0, 0, 0))]\<rparr>\<rparr>"

lemma promotion_all_or_nothing_witness:
  "region_keys (conn (snd (promote_staged_regions ex_env [(''__warm_staging__1'', ''r9'')] 1000 1000 1000 ex_staged))) ''r9''
     = {(''s'', 0, 0, 0)}"
proof -
  let ?p = "promote_staged_regions ex_env [(''__warm_staging__1'', ''r9'')] 1000 1000 1000 ex_staged"
  have inv: "cache_inv ex_staged"
    using ex_cache_inv
    by (simp add: inv_defs ex_staged_def ex_cache_def)
      (simp add: ex_defs tsum_def row_bytes_def db_ok_def joins_pinned_def bytes_nonneg_def)
  have pr: "proper_replacements [(''__warm_staging__1'', ''r9'')]"
    by (simp add: proper_replacements_def)
  have ok: "fst ?p = Inr True"
    unfolding ex_staged_def ex_cache_def ex_db_def ex_tile_def ex_env_def by code_simp
  from promotion_all_or_nothing[OF inv pr surjective_pairing[of ?p]] ok
  show ?thesis by (auto simp: ex_env_def region_keys_def ex_staged_def)
qed

section \<open>Sweep, pin and memo\<close>

text \<open>
  C37: A sweep that returns deleted exactly the unpinned rows whose last access is older than the
  lifetime, whatever the number of chunks it took: the rows it keeps are the others in their order,
  the bytes and rows it reports are those it removed, and regions and pinned bytes are unchanged.
  A sweep with no failing statement does return.
\<close>

theorem sweep_exact:
  assumes "cache_inv c" "0 < ttl"
  shows "(\<forall>b n c'. sweep_aged_unpinned fls ttl now c = (Inr (b, n), c') \<longrightarrow>
      tiles (conn c') = filter (\<lambda>r. row_pinned r \<or> now - ttl \<le> last_access (row_tile r)) (tiles (conn c)) \<and>
      total_bytes c' = total_bytes c - b \<and> length (tiles (conn c')) + n = length (tiles (conn c)) \<and>
      region_tiles (conn c') = region_tiles (conn c) \<and> pinned_bytes c' = pinned_bytes c) \<and>
    ((\<forall>i s. fls i s = None) \<longrightarrow> (\<exists>b n. fst (sweep_aged_unpinned fls ttl now c) = Inr (b, n)))"
proof -
  have s: "sweep_aged_unpinned fls ttl now c = delete_unpinned_chunks (aged_select (now - ttl)) fls 0 0 0 c"
    using assms(2) by (simp add: sweep_aged_unpinned_def)
  have "(\<lambda>r :: tile_row. \<not> (\<not> row_pinned r \<and> last_access (row_tile r) < now - ttl))
      = (\<lambda>r. row_pinned r \<or> now - ttl \<le> last_access (row_tile r))" by auto
  with aged.chunks_effect[OF assms(1), of "now - ttl" fls 0 0 0] have
    "delete_unpinned_chunks (aged_select (now - ttl)) fls 0 0 0 c = (Inr (b, n), c') \<Longrightarrow>
      tiles (conn c') = filter (\<lambda>r. row_pinned r \<or> now - ttl \<le> last_access (row_tile r)) (tiles (conn c)) \<and>
      total_bytes c' = total_bytes c - b \<and> length (tiles (conn c')) + n = length (tiles (conn c)) \<and>
      region_tiles (conn c') = region_tiles (conn c) \<and> pinned_bytes c' = pinned_bytes c" for b n c'
    by (simp add: not_less) metis
  with aged.chunks_succeed[of fls "now - ttl" 0 0 0 c] show ?thesis unfolding s by blast
qed

lemma sweep_exact_witness:
  "\<exists>b n. fst (sweep_aged_unpinned (\<lambda>_ _. None) 10 100 ex_cache) = Inr (b, n)"
  using sweep_exact[OF ex_cache_inv, of 10 "\<lambda>_ _. None" 100] by simp

text \<open>
  A pin of a cached row happens only for a row that is there and fresh (or a fresh failure), and
  only within both budgets: afterwards the category and the pinned bytes are inside their budgets
  or no larger than before, the row is pinned with unchanged content, and every other result of the
  call leaves the cache as it was.
\<close>

theorem pin_if_fresh_gates:
  assumes "cache_inv c"
    and "pin_if_fresh_capped env k now fresh_secs negative_ttl budgets region c = (res, c')"
  shows "if res = Inr FPinned
    then cache_inv c' \<and> pinned_at (conn c') k \<and> (\<forall>j. tile_at (conn c') j = tile_at (conn c) j) \<and>
      (\<exists>t. tile_at (conn c) k = Some t \<and>
        now - fetched_at t < (if status t = 200 then fresh_secs else negative_ttl)) \<and>
      category_bytes_conn (conn c') region \<le> max (category_budget budgets) (category_bytes_conn (conn c) region) \<and>
      pinned_bytes c' \<le> max (physical_budget budgets) (pinned_bytes c)
    else c' = c"
  using assms(2)
proof (cases rule: pin_if_fresh_cases)
  case (pin r)
  note P = pin_key_facts[OF cache_invD(1,2)[OF assms(1)] pin(1), of region]
  have inv: "cache_inv c'"
    using pin_if_fresh_capped_inv[OF assms(1), of env k now fresh_secs negative_ttl budgets region] assms(2) by simp
  from pin(5) show ?thesis
  proof (cases rule: pin_locked_cases)
    case ok
    have "category_bytes_conn (conn c') region \<le> max (category_budget budgets) (category_bytes_conn (conn c) region)"
      unfolding ok(2) P(5) using pin(3) by auto
    moreover have "pinned_bytes c' \<le> max (physical_budget budgets) (pinned_bytes c)"
      unfolding ok(4) using pin(4) by auto
    moreover have "\<exists>t. tile_at (conn c) k = Some t \<and>
        now - fetched_at t < (if status t = 200 then fresh_secs else negative_ttl)"
      using pin(1,2) by (auto simp: tile_at_def)
    ultimately show ?thesis using inv pin(6) P(6,7) ok(2) by simp
  qed simp
qed simp

lemma pin_if_fresh_gates_witness:
  "pinned_at (conn (snd (pin_if_fresh_capped ex_env (''s'', 1, 0, 0) 30 60 5
      \<lparr>category_budget = 1000, physical_budget = 1000\<rparr> (Some ''r2'') ex_cache))) (''s'', 1, 0, 0)"
proof -
  let ?p = "pin_if_fresh_capped ex_env (''s'', 1, 0, 0) 30 60 5
      \<lparr>category_budget = 1000, physical_budget = 1000\<rparr> (Some ''r2'') ex_cache"
  have "fst ?p = Inr FPinned"
    unfolding ex_cache_def ex_db_def ex_tile_def ex_env_def by code_simp
  with pin_if_fresh_gates[OF ex_cache_inv surjective_pairing[of ?p]] show ?thesis by simp
qed

text \<open>
  The total of the saved regions that the budget of a warm run is computed from is, at every call
  that returns, the sum over the rows now in the cache that some region outside the position category
  holds, whether the memo was used or recomputed.
\<close>

theorem real_region_total_exact:
  assumes "cache_inv c" "list_all op_admissible ops"
    and "real_region_pinned_bytes env POSITION_WARM_REGION_ID (fold step_cache ops c) = (Inr v, c')"
  shows "v = category_bytes_conn (conn (fold step_cache ops c)) (Some BASEMAP_ASSETS_REGION_ID)
    \<and> conn c' = conn (fold step_cache ops c)"
proof -
  have inv: "cache_inv (fold step_cache ops c)" by (rule tc.run_invar[OF assms(2,1)])
  have "\<not> is_position_region BASEMAP_ASSETS_REGION_ID"
    by (simp add: is_position_region_def BASEMAP_ASSETS_REGION_ID_def POSITION_WARM_REGION_ID_def
        POSITION_STAGING_REGION_PREFIX_def starts_with_def)
  from real_sum_category[OF cache_invD(1)[OF inv] this] real_region_bytes_exact(1,2)[OF inv assms(3)]
  show ?thesis by simp
qed

lemma real_region_total_exact_witness:
  "fst (real_region_pinned_bytes ex_env POSITION_WARM_REGION_ID (fold step_cache [Op_real_bytes ex_env] ex_cache)) = Inr 100
   \<and> category_bytes_conn (conn (fold step_cache [Op_real_bytes ex_env] ex_cache)) (Some BASEMAP_ASSETS_REGION_ID) = 100"
proof -
  let ?c = "fold step_cache [Op_real_bytes ex_env] ex_cache"
  have r: "real_region_pinned_bytes ex_env POSITION_WARM_REGION_ID ?c = (Inr 100, snd (real_region_pinned_bytes ex_env POSITION_WARM_REGION_ID ?c))"
    unfolding ex_cache_def ex_db_def ex_tile_def ex_env_def by code_simp
  from real_region_total_exact[OF ex_cache_inv _ r] arg_cong[OF r, of fst] show ?thesis
    by (simp only: fst_conv list.pred_inject op_admissible.simps simp_thms)
qed

end
