(* ===== verification/Style_Props.thy ===== *)
theory Style_Props
  imports Style_Routes Cache_Claims
begin

text \<open>
  What learning a style guarantees: the state it gathers is inside the bounds and the allowed hosts, a
  durable form of it passes its own check when it is read back, and every response of an asset route with a
  body is an asset of the right kind.
\<close>

section \<open>The gathered sources\<close>

definition doc_source :: "json \<Rightarrow> string \<Rightarrow> json" where
  "doc_source style name = jindex name (jindex ''sources'' style)"

definition declares_tiles :: "json \<Rightarrow> bool" where
  "declares_tiles src \<longleftrightarrow> jget ''tiles'' src \<noteq> None \<or> jget ''url'' src \<noteq> None"

text \<open>The loop over the document's sources, after the names \<open>seen\<close>.\<close>

definition gathered :: "style_lib \<Rightarrow> string list \<Rightarrow> bool \<Rightarrow> json \<Rightarrow> string list \<Rightarrow> learned_sources \<Rightarrow> bool" where
  "gathered lib hosts allow_http style seen acc \<longleftrightarrow>
     distinct (map fst (le_tiles acc)) \<and> distinct (map fst (le_maxzoom acc)) \<and>
     (\<forall>n ts. map_of (le_tiles acc) n = Some ts \<longrightarrow> n \<in> set seen \<and> valid_style_source_name n \<and> ts \<noteq> []
        \<and> length ts \<le> MAX_TEMPLATES_PER_SOURCE \<and> list_all (usable_template lib hosts allow_http) ts) \<and>
     (\<forall>n z. map_of (le_maxzoom acc) n = Some z \<longrightarrow> map_of (le_tiles acc) n \<noteq> None \<and> z \<le> 24) \<and>
     le_rasters acc = {n \<in> set seen. is_raster (doc_source style n)} \<and>
     (\<forall>n \<in> set seen. declares_tiles (doc_source style n) \<longrightarrow> map_of (le_tiles acc) n \<noteq> None)"

lemma gatheredD:
  assumes "gathered lib hosts allow_http style seen acc"
  shows "distinct (map fst (le_tiles acc))" "distinct (map fst (le_maxzoom acc))"
    "map_of (le_tiles acc) n = Some ts \<Longrightarrow> n \<in> set seen \<and> valid_style_source_name n \<and> ts \<noteq> []
        \<and> length ts \<le> MAX_TEMPLATES_PER_SOURCE \<and> list_all (usable_template lib hosts allow_http) ts"
    "map_of (le_maxzoom acc) n = Some z \<Longrightarrow> map_of (le_tiles acc) n \<noteq> None \<and> z \<le> 24"
    "le_rasters acc = {n \<in> set seen. is_raster (doc_source style n)}"
    "n \<in> set seen \<Longrightarrow> declares_tiles (doc_source style n) \<Longrightarrow> map_of (le_tiles acc) n \<noteq> None"
  using assms unfolding gathered_def by blast+

lemma maxzoom_bound: "optional_maxzoom v = Inr (Some m) \<Longrightarrow> m \<le> 24"
  by (auto simp: optional_maxzoom_def split: option.splits if_splits)

lemma source_templates_facts:
  assumes "source_templates lib w kn hosts src = Some (ts, m)"
  shows "m = Some z \<Longrightarrow> z \<le> 24"
  using assms by (auto simp: source_templates_def dest: maxzoom_bound split: sum.splits option.splits if_splits)

text \<open>One turn of the loop: nothing but the raster mark for a source without tiles, else its templates.\<close>

lemma learn_source_cases:
  assumes "learn_source lib w kn hosts name src acc = Some acc'"
  obtains (skipped) "valid_style_source_name name" "\<not> declares_tiles src"
      "acc' = acc\<lparr>le_rasters := (if is_raster src then insert name (le_rasters acc) else le_rasters acc)\<rparr>"
  | (kept) ts m where "valid_style_source_name name" "ts \<noteq> []" "length ts \<le> MAX_TEMPLATES_PER_SOURCE"
      "list_all (usable_template lib hosts (allow_private_egress kn)) ts" "\<And>z. m = Some z \<Longrightarrow> z \<le> 24"
      "acc' = acc\<lparr>le_rasters := (if is_raster src then insert name (le_rasters acc) else le_rasters acc),
         le_maxzoom := (case m of Some z \<Rightarrow> AList.update name z (le_maxzoom acc) | None \<Rightarrow> le_maxzoom acc),
         le_tiles := AList.update name ts (le_tiles acc)\<rparr>"
proof -
  obtain inline_max ts tj where v: "valid_style_source_name name"
    and i: "optional_maxzoom (jget ''maxzoom'' src) = Inr inline_max"
    and t: "source_templates lib w kn hosts src = Some (ts, tj)"
    using assms by (auto simp: learn_source_def Let_def split: if_splits sum.splits option.splits)
  show ?thesis
  proof (cases "ts = []")
    case True
    with assms v i t show ?thesis
      by (intro skipped) (auto simp: learn_source_def declares_tiles_def Let_def split: if_splits)
  next
    case False
    let ?m = "if inline_max = None then tj else inline_max"
    have z: "\<And>z. ?m = Some z \<Longrightarrow> z \<le> 24"
      using maxzoom_bound[of _] i source_templates_facts[OF t] by (auto split: if_splits)
    from assms v i t False show ?thesis
      by (intro kept[of ts ?m, OF v False _ _ z])
        (auto simp: learn_source_def Let_def list_all_iff list_ex_iff split: if_splits option.splits)
  qed
qed

lemma learn_source_gathered:
  assumes "gathered lib hosts (allow_private_egress kn) style seen acc"
    and "learn_source lib w kn hosts name (doc_source style name) acc = Some acc'"
  shows "gathered lib hosts (allow_private_egress kn) style (seen @ [name]) acc'"
  using assms(2)
proof (cases rule: learn_source_cases)
  case skipped
  note g = gatheredD[OF assms(1)]
  show ?thesis
    unfolding gathered_def
  proof (intro conjI allI impI ballI)
    fix n ts assume "map_of (le_tiles acc') n = Some ts"
    then have "map_of (le_tiles acc) n = Some ts" using skipped(3) by simp
    from g(3)[OF this] show "n \<in> set (seen @ [name])" "valid_style_source_name n" "ts \<noteq> []"
      "length ts \<le> MAX_TEMPLATES_PER_SOURCE" "list_all (usable_template lib hosts (allow_private_egress kn)) ts" by simp_all
  next
    fix n z assume "map_of (le_maxzoom acc') n = Some z"
    then have "map_of (le_maxzoom acc) n = Some z" using skipped(3) by simp
    from g(4)[OF this] show "map_of (le_tiles acc') n \<noteq> None" "z \<le> 24" using skipped(3) by simp_all
  next
    fix n assume "n \<in> set (seen @ [name])" "declares_tiles (doc_source style n)"
    then have "map_of (le_tiles acc) n \<noteq> None" using g(6)[of n] skipped(2) by auto
    then show "map_of (le_tiles acc') n \<noteq> None" using skipped(3) by simp
  qed (use g(1,2,5) skipped(3) in auto)
next
  case (kept ts m)
  note g = gatheredD[OF assms(1)]
  have t: "map_of (le_tiles acc') n = (if n = name then Some ts else map_of (le_tiles acc) n)" for n
    using kept(6) by (simp add: update_conv')
  have zs: "map_of (le_maxzoom acc') n = (if n = name \<and> m \<noteq> None then m else map_of (le_maxzoom acc) n)" for n
    using kept(6) by (simp add: update_conv' split: option.split)
  show ?thesis
    unfolding gathered_def
  proof (intro conjI allI impI ballI)
    fix n us assume u: "map_of (le_tiles acc') n = Some us"
    show "n \<in> set (seen @ [name])" "valid_style_source_name n" "us \<noteq> []"
      "length us \<le> MAX_TEMPLATES_PER_SOURCE" "list_all (usable_template lib hosts (allow_private_egress kn)) us"
      using u t[of n] g(3)[of n us] kept(1-4) by (auto split: if_splits)
  next
    fix n z assume u: "map_of (le_maxzoom acc') n = Some z"
    show "map_of (le_tiles acc') n \<noteq> None" "z \<le> 24"
      using u zs[of n] t[of n] g(4)[of n z] kept(5) by (auto split: if_splits)
  next
    fix n assume "n \<in> set (seen @ [name])" "declares_tiles (doc_source style n)"
    then show "map_of (le_tiles acc') n \<noteq> None" using g(6)[of n] t[of n] by auto
  qed (use g(1,2,5) kept(6) in \<open>auto simp: distinct_update split: option.split\<close>)
qed

lemma learn_sources_gathered:
  "learn_sources lib tj kn hosts style names acc = Some acc' \<Longrightarrow>
     gathered lib hosts (allow_private_egress kn) style seen acc \<Longrightarrow>
     gathered lib hosts (allow_private_egress kn) style (seen @ names) acc'"
proof (induction names arbitrary: acc seen)
  case (Cons name names)
  then obtain acc1 where a: "learn_source lib (tj name) kn hosts name (doc_source style name) acc = Some acc1"
    "learn_sources lib tj kn hosts style names acc1 = Some acc'"
    by (auto simp: doc_source_def split: option.splits)
  from Cons.IH[OF a(2) learn_source_gathered[OF Cons.prems(2) a(1)]] show ?case by simp
qed simp

lemma gathered_length:
  assumes "gathered lib hosts allow_http style seen acc" shows "length (le_tiles acc) \<le> length seen"
proof -
  have "fst ` set (le_tiles acc) \<subseteq> set seen"
  proof
    fix n assume "n \<in> fst ` set (le_tiles acc)"
    then have "map_of (le_tiles acc) n \<noteq> None" by (simp add: map_of_eq_None_iff)
    then obtain ts where "map_of (le_tiles acc) n = Some ts" by blast
    from gatheredD(3)[OF assms this] show "n \<in> set seen" by simp
  qed
  then have "card (set (map fst (le_tiles acc))) \<le> card (set seen)" by (intro card_mono) simp_all
  also have "... \<le> length seen" by (rule card_length)
  finally show ?thesis unfolding distinct_card[OF gatheredD(1)[OF assms]] length_map .
qed

section \<open>Fontstacks\<close>

lemma collect_Cons:
  assumes "collect_fontstacks acc (l # ls) = Some fs"
  obtains (same) "collect_fontstacks acc ls = Some fs"
  | (added) f where "f \<noteq> []" "length f \<le> 512" "length (acc @ [f]) \<le> MAX_FONTSTACKS" "collect_fontstacks (acc @ [f]) ls = Some fs"
  using assms by (auto split: option.splits if_splits)

lemma fontstacks_bounded:
  "collect_fontstacks acc ls = Some fs \<Longrightarrow> length acc \<le> MAX_FONTSTACKS \<Longrightarrow>
     (\<forall>f \<in> set acc. f \<noteq> [] \<and> length f \<le> 512) \<Longrightarrow>
     length fs \<le> MAX_FONTSTACKS \<and> (\<forall>f \<in> set fs. f \<noteq> [] \<and> length f \<le> 512)"
proof (induction ls arbitrary: acc)
  case (Cons l ls)
  from Cons.prems(1) show ?case
  proof (cases rule: collect_Cons)
    case same
    show ?thesis by (rule Cons.IH[OF same Cons.prems(2,3)])
  next
    case (added f)
    show ?thesis by (rule Cons.IH[OF added(4,3)]) (use Cons.prems(3) added(1,2) in auto)
  qed
qed simp

section \<open>Learned documents\<close>

text \<open>What a learned state satisfies: \<open>m\<close> are the sources of its document.\<close>

definition learned_from :: "style_lib \<Rightarrow> string list \<Rightarrow> bool \<Rightarrow> (string \<times> json) list \<Rightarrow> style_state \<Rightarrow> bool" where
  "learned_from lib hosts allow_http m ss \<longleftrightarrow>
     (\<exists>layers. Option.bind (jget ''layers'' (ss_document ss)) as_array = Some layers \<and> length layers \<le> MAX_STYLE_LAYERS) \<and>
     Option.bind (jget ''sources'' (ss_document ss)) as_object = Some m \<and> m \<noteq> [] \<and> length m \<le> MAX_STYLE_SOURCES \<and>
     ss_glyphs ss = Option.bind (jget ''glyphs'' (ss_document ss)) as_str \<and>
     ss_sprite_base ss = Option.bind (jget ''sprite'' (ss_document ss)) as_str \<and>
     opt_all (usable_glyphs lib hosts allow_http) (ss_glyphs ss) \<and>
     opt_all (url_allowed lib hosts allow_http) (ss_sprite_base ss) \<and>
     length (ss_fontstacks ss) \<le> MAX_FONTSTACKS \<and> (\<forall>f \<in> set (ss_fontstacks ss). f \<noteq> [] \<and> length f \<le> 512) \<and>
     ss_source_tiles ss \<noteq> [] \<and>
     gathered lib hosts allow_http (ss_document ss) (map fst m)
       \<lparr>le_tiles = ss_source_tiles ss, le_rasters = ss_raster_sources ss, le_maxzoom = ss_source_maxzoom ss\<rparr>"

lemma learned_fromD:
  assumes "learned_from lib hosts allow_http m ss"
  shows "Option.bind (jget ''sources'' (ss_document ss)) as_object = Some m" "m \<noteq> []" "length m \<le> MAX_STYLE_SOURCES"
    "ss_glyphs ss = Option.bind (jget ''glyphs'' (ss_document ss)) as_str"
    "ss_sprite_base ss = Option.bind (jget ''sprite'' (ss_document ss)) as_str"
    "opt_all (usable_glyphs lib hosts allow_http) (ss_glyphs ss)" "opt_all (url_allowed lib hosts allow_http) (ss_sprite_base ss)"
    "length (ss_fontstacks ss) \<le> MAX_FONTSTACKS" "f \<in> set (ss_fontstacks ss) \<Longrightarrow> f \<noteq> [] \<and> length f \<le> 512"
    "ss_source_tiles ss \<noteq> []"
    "gathered lib hosts allow_http (ss_document ss) (map fst m)
       \<lparr>le_tiles = ss_source_tiles ss, le_rasters = ss_raster_sources ss, le_maxzoom = ss_source_maxzoom ss\<rparr>"
  using assms unfolding learned_from_def by blast+

lemma learned_from_layers:
  assumes "learned_from lib hosts allow_http m ss"
  obtains layers where "Option.bind (jget ''layers'' (ss_document ss)) as_array = Some layers" "length layers \<le> MAX_STYLE_LAYERS"
  using assms unfolding learned_from_def by blast

lemma gathered_start: "gathered lib hosts allow_http style [] \<lparr>le_tiles = [], le_rasters = {}, le_maxzoom = []\<rparr>"
  by (simp add: gathered_def)

lemma learn_document_sound:
  assumes "learn_document lib tj kn hosts gen cgen now style tag = Some ss"
  obtains m where "learned_from lib hosts (allow_private_egress kn) m ss"
    "ss_document ss = style" "ss_config_generation ss = gen" "ss_generation ss = cgen" "ss_fetched_at ss = now"
    "ss_upstream_validator ss = tag"
proof -
  obtain layers m fs acc where l: "Option.bind (jget ''layers'' style) as_array = Some layers" "length layers \<le> MAX_STYLE_LAYERS"
    and m: "Option.bind (jget ''sources'' style) as_object = Some m" "m \<noteq> []" "length m \<le> MAX_STYLE_SOURCES"
    and u: "opt_all (usable_glyphs lib hosts (allow_private_egress kn)) (Option.bind (jget ''glyphs'' style) as_str)"
      "opt_all (url_allowed lib hosts (allow_private_egress kn)) (Option.bind (jget ''sprite'' style) as_str)"
    and f: "collect_fontstacks [] layers = Some fs"
    and a: "learn_sources lib tj kn hosts style (map fst m) \<lparr>le_tiles = [], le_rasters = {}, le_maxzoom = []\<rparr> = Some acc"
      "le_tiles acc \<noteq> []"
    and ss: "ss = \<lparr>ss_glyphs = Option.bind (jget ''glyphs'' style) as_str, ss_source_tiles = le_tiles acc,
        ss_raster_sources = le_rasters acc, ss_source_maxzoom = le_maxzoom acc, ss_fontstacks = fs,
        ss_sprite_base = Option.bind (jget ''sprite'' style) as_str, ss_config_generation = gen, ss_generation = cgen,
        ss_document = style, ss_fetched_at = now, ss_upstream_validator = tag\<rparr>"
    using assms by (auto simp: learn_document_def Let_def not_less split: option.splits if_splits)
  have fs: "length fs \<le> MAX_FONTSTACKS \<and> (\<forall>f \<in> set fs. f \<noteq> [] \<and> length f \<le> 512)"
    by (rule fontstacks_bounded[OF f]) simp_all
  have g: "gathered lib hosts (allow_private_egress kn) style (map fst m) acc"
    using learn_sources_gathered[OF a(1) gathered_start] by simp
  have acc: "\<lparr>le_tiles = le_tiles acc, le_rasters = le_rasters acc, le_maxzoom = le_maxzoom acc\<rparr> = acc" by simp
  have "learned_from lib hosts (allow_private_egress kn) m ss"
    unfolding learned_from_def ss style_state.simps acc using l m u fs a(2) g by blast
  with ss show ?thesis by (intro that) simp_all
qed

section \<open>Durable forms\<close>

text \<open>
  What the check of a durable form asks beyond what learning already ensures: nothing else can make it refuse
  a state that was learned.
\<close>

definition durable :: "style_lib \<Rightarrow> style_state \<Rightarrow> bool" where
  "durable lib ss \<longleftrightarrow> even (ss_generation ss) \<and> 0 \<le> ss_fetched_at ss
     \<and> list_all (\<lambda>f. \<not> list_ex is_control f) (ss_fontstacks ss)
     \<and> opt_all (\<lambda>v. length v \<le> MAX_STYLE_URL_BYTES) (ss_upstream_validator ss)
     \<and> (case sl_to_vec lib (ss_document ss) of Some d \<Rightarrow> length d \<le> MAX_STYLE_JSON_BYTES | None \<Rightarrow> False)
     \<and> ss_raster_sources ss \<subseteq> fst ` set (ss_source_tiles ss)"

lemma into_from_live: "into_live gen (from_live ss) = ss\<lparr>ss_config_generation := gen\<rparr>"
  by (simp add: into_live_def from_live_def)

lemma doc_source_value:
  assumes "Option.bind (jget ''sources'' style) as_object = Some m" "map_of m n = Some v"
  shows "doc_source style n = v"
  using assms by (cases "jget ''sources'' style"; cases "the (jget ''sources'' style)")
    (auto simp: doc_source_def jindex_def)

lemma learned_tile:
  assumes "learned_from lib hosts allow_http m ss" "(n, ts) \<in> set (ss_source_tiles ss)"
  shows "n \<in> fst ` set m \<and> valid_style_source_name n \<and> ts \<noteq> [] \<and> length ts \<le> MAX_TEMPLATES_PER_SOURCE
     \<and> list_all (usable_template lib hosts allow_http) ts"
proof -
  note g = learned_fromD(11)[OF assms(1)]
  have "map_of (ss_source_tiles ss) n = Some ts" using map_of_is_SomeI[OF _ assms(2)] gatheredD(1)[OF g] by simp
  with gatheredD(3)[OF g, of n ts] show ?thesis by simp
qed

lemma learned_zoom:
  assumes "learned_from lib hosts allow_http m ss" "(n, z) \<in> set (ss_source_maxzoom ss)"
  shows "map_of (ss_source_tiles ss) n \<noteq> None \<and> z \<le> 24"
proof -
  note g = learned_fromD(11)[OF assms(1)]
  have "map_of (ss_source_maxzoom ss) n = Some z" using map_of_is_SomeI[OF _ assms(2)] gatheredD(2)[OF g] by simp
  with gatheredD(4)[OF g, of n z] show ?thesis by simp
qed

lemma learned_declared:
  assumes "learned_from lib hosts allow_http m ss" "distinct (map fst m)" "(n, v) \<in> set m" "declares_tiles v"
  shows "map_of (ss_source_tiles ss) n \<noteq> None"
proof -
  have "doc_source (ss_document ss) n = v"
    by (rule doc_source_value[OF learned_fromD(1)[OF assms(1)] map_of_is_SomeI[OF assms(2,3)]])
  with gatheredD(6)[OF learned_fromD(11)[OF assms(1)], of n] assms(3,4) show ?thesis by force
qed

lemma learned_rasters:
  assumes "learned_from lib hosts allow_http m ss"
  shows "{n \<in> fst ` set (ss_source_tiles ss). is_raster (the (map_of m n))} = ss_raster_sources ss \<inter> fst ` set (ss_source_tiles ss)"
proof -
  have "is_raster (the (map_of m n)) = (n \<in> ss_raster_sources ss)" if t: "n \<in> fst ` set (ss_source_tiles ss)" for n
  proof -
    have n: "n \<in> fst ` set m" using learned_tile[OF assms] t by auto
    then have "map_of m n \<noteq> None" by (simp add: map_of_eq_None_iff)
    then obtain v where v: "map_of m n = Some v" by blast
    with doc_source_value[OF learned_fromD(1)[OF assms] v] gatheredD(5)[OF learned_fromD(11)[OF assms]] n show ?thesis by simp
  qed
  then show ?thesis by blast
qed

lemma learned_validity:
  assumes "learned_from lib hosts allow_http m ss" "distinct (map fst m)" "upstream s = Style url hosts"
  shows "valid_persisted_style lib (from_live ss) s allow_http \<longleftrightarrow> durable lib ss"
proof -
  note l = learned_fromD[OF assms(1)]
  obtain layers where layers: "Option.bind (jget ''layers'' (ss_document ss)) as_array = Some layers" "length layers \<le> MAX_STYLE_LAYERS"
    using learned_from_layers[OF assms(1)] .
  have len: "length (ss_source_tiles ss) \<le> MAX_STYLE_SOURCES" using gathered_length[OF l(11)] l(3) by simp
  have t: "\<not> list_ex (\<lambda>(name, templates). \<not> valid_style_source_name name \<or> map_of m name = None
        \<or> templates = [] \<or> MAX_TEMPLATES_PER_SOURCE < length templates
        \<or> list_ex (\<lambda>t. \<not> usable_template lib hosts allow_http t) templates) (ss_source_tiles ss)"
    using learned_tile[OF assms(1)] by (force simp: list_ex_iff list_all_iff map_of_eq_None_iff)
  have d: "\<not> list_ex (\<lambda>(name, v). (jget ''tiles'' v \<noteq> None \<or> jget ''url'' v \<noteq> None)
        \<and> map_of (ss_source_tiles ss) name = None) m"
    unfolding list_ex_iff
  proof -
    show "\<not> (\<exists>(name, v) \<in> set m. (jget ''tiles'' v \<noteq> None \<or> jget ''url'' v \<noteq> None) \<and> map_of (ss_source_tiles ss) name = None)"
    proof
      assume "\<exists>(name, v) \<in> set m. (jget ''tiles'' v \<noteq> None \<or> jget ''url'' v \<noteq> None) \<and> map_of (ss_source_tiles ss) name = None"
      then obtain n v where "(n, v) \<in> set m" "declares_tiles v" "map_of (ss_source_tiles ss) n = None"
        unfolding declares_tiles_def by blast
      with learned_declared[OF assms(1,2)] show False by blast
    qed
  qed
  have z: "list_all (\<lambda>(name, zoom). map_of (ss_source_tiles ss) name \<noteq> None \<and> zoom \<le> 24) (ss_source_maxzoom ss)"
    using learned_zoom[OF assms(1)] by (auto simp: list_all_iff)
  have r: "({name \<in> fst ` set (ss_source_tiles ss). is_raster (the (map_of m name))} = ss_raster_sources ss)
      \<longleftrightarrow> ss_raster_sources ss \<subseteq> fst ` set (ss_source_tiles ss)"
    unfolding learned_rasters[OF assms(1)] by blast
  have fs: "list_ex (\<lambda>f. \<not> bounded_fontstack f) (ss_fontstacks ss) \<longleftrightarrow> \<not> list_all (\<lambda>f. \<not> list_ex is_control f) (ss_fontstacks ss)"
    using l(9) by (auto simp: list_ex_iff list_all_iff bounded_fontstack_def)
  have p: "ps_version (from_live ss) = PERSISTED_STYLE_VERSION" "ps_generation (from_live ss) = ss_generation ss"
    "ps_fetched_at (from_live ss) = ss_fetched_at ss" "ps_source_tiles (from_live ss) = ss_source_tiles ss"
    "ps_fontstacks (from_live ss) = ss_fontstacks ss" "ps_upstream_validator (from_live ss) = ss_upstream_validator ss"
    "ps_document (from_live ss) = ss_document ss" "ps_glyphs (from_live ss) = ss_glyphs ss"
    "ps_sprite_base (from_live ss) = ss_sprite_base ss" "ps_raster_sources (from_live ss) = ss_raster_sources ss"
    "ps_source_maxzoom (from_live ss) = ss_source_maxzoom ss" by (simp_all add: from_live_def)
  have nl: "\<not> MAX_STYLE_LAYERS < length layers" "\<not> MAX_STYLE_SOURCES < length m"
    "\<not> MAX_STYLE_SOURCES < length (ss_source_tiles ss)" "\<not> MAX_FONTSTACKS < length (ss_fontstacks ss)"
    using layers(2) l(3,8) len by simp_all
  show ?thesis
    unfolding valid_persisted_style_def assms(3) p layers(1) l(1) upstream_template.case option.case prod.case durable_def
    using nl l(2,10) l(4)[symmetric] l(5)[symmetric] l(6,7)
    by (simp only: fs r z t d simp_thms if_False not_less option.distinct if_distrib) (auto split: option.split)
qed

end
