(* ===== verification/Warm_Job_Props.thy ===== *)
theory Warm_Job_Props
  imports Warm_Jobs
begin

text \<open>
  The registry of warm jobs as a machine: admissions, admissions whose client leaves, cancellations, counter
  updates, the two closing steps of a driver and any change of the rest of the state, in any order. Proved: at most two jobs run,
  no two of them on the same region, the identifiers are fresh and well formed, and the registry is
  bounded.
\<close>

section \<open>The machine\<close>

definition is_running :: "string \<times> warm_job \<Rightarrow> bool" where
  "is_running p \<longleftrightarrow> wj_state (snd p) = Running"

definition running_regions :: "(string \<times> warm_job) list \<Rightarrow> string list" where
  "running_regions jobs = List.map_filter (\<lambda>p. wj_region_id (snd p)) (filter is_running jobs)"

definition region_list :: "string option \<Rightarrow> string list" where
  "region_list r = (case r of Some x \<Rightarrow> [x] | None \<Rightarrow> [])"

text \<open>The second component: regions whose driver has finished its job but not yet released the region.\<close>

type_synonym warm_sys = "app_state \<times> string list"

inductive warm_step :: "warm_sys \<Rightarrow> warm_sys \<Rightarrow> bool" where
  start: "warm_step (st, pd) (snd (start_warm merc locked now req st), pd)"
| abandoned: "start_warm_cut merc locked now req w st = Some st' \<Longrightarrow> warm_step (st, pd) (st', pd)"
| count: "(jid, j) \<in> set (warm_jobs st) \<Longrightarrow> wj_state j = Running \<Longrightarrow>
    warm_step (st, pd) (count_job jid t n sk bs er st, pd)"
| finish: "(jid, j) \<in> set (warm_jobs st) \<Longrightarrow> wj_state j = Running \<Longrightarrow> final \<noteq> Running \<Longrightarrow>
    warm_step (st, pd) (finish_job jid final now st, region_list (wj_region_id j) @ pd)"
| release: "r \<in> set pd \<Longrightarrow> warm_step (st, pd) (release_region r st, removeAll r pd)"
| cancel: "warm_step (st, pd) (snd (cancel_warm jid st), pd)"
| cancel_region: "warm_step (st, pd) (snd (cancel_region_warms polls rid st), pd)"
| cancel_all: "warm_step (st, pd) (cancel_all_warms st, pd)"
| others: "warm_jobs st' = warm_jobs st \<Longrightarrow> active_warm_regions st' = active_warm_regions st \<Longrightarrow>
    warm_seq st' = warm_seq st \<Longrightarrow> boot_id st' = boot_id st \<Longrightarrow> warm_step (st, pd) (st', pd)"

inductive warm_reachable :: "warm_sys \<Rightarrow> bool" where
  init: "warm_jobs st = [] \<Longrightarrow> active_warm_regions st = [] \<Longrightarrow> warm_reachable (st, [])"
| step: "warm_reachable s \<Longrightarrow> warm_step s s' \<Longrightarrow> warm_reachable s'"

inductive_cases warm_stepE: "warm_step s s'"

section \<open>Invariant\<close>

definition job_ok :: "app_state \<Rightarrow> string \<times> warm_job \<Rightarrow> bool" where
  "job_ok st p \<longleftrightarrow> fst p = warm_id (boot_id st) (wj_order (snd p)) \<and> wj_order (snd p) < warm_seq st \<and>
     (wj_finished_at (snd p) = None \<longleftrightarrow> is_running p)"

definition warm_inv :: "warm_sys \<Rightarrow> bool" where
  "warm_inv s \<longleftrightarrow> (case s of (st, pd) \<Rightarrow>
     distinct (map fst (warm_jobs st)) \<and> list_all (job_ok st) (warm_jobs st) \<and>
     length (filter is_running (warm_jobs st)) \<le> MAX_ACTIVE_WARM_JOBS \<and>
     distinct (running_regions (warm_jobs st)) \<and>
     set (running_regions (warm_jobs st)) \<inter> set pd = {} \<and>
     set (running_regions (warm_jobs st)) \<union> set pd \<subseteq> set (active_warm_regions st))"

lemma warm_id_inject: "warm_id b m = warm_id b n \<longleftrightarrow> m = n"
  by (simp add: warm_id_def dec_inject)

lemma running_regions_simps [simp]:
  "running_regions [] = []"
  "running_regions (p # ps) = (if is_running p then region_list (wj_region_id (snd p)) else []) @ running_regions ps"
  "running_regions (ps @ qs) = running_regions ps @ running_regions qs"
  by (simp_all add: running_regions_def region_list_def List.map_filter_def split: option.split)

lemma running_regions_set: "r \<in> set (running_regions jobs) \<longleftrightarrow>
    (\<exists>p \<in> set jobs. is_running p \<and> wj_region_id (snd p) = Some r)"
  by (induction jobs) (auto simp: region_list_def split: option.splits)

text \<open>Removing jobs keeps what the invariant says of the others.\<close>

lemma running_regions_filter:
  "set (running_regions (filter P jobs)) \<subseteq> set (running_regions jobs)"
  unfolding subset_iff running_regions_set set_filter by blast

lemma distinct_running_filter: "distinct (running_regions jobs) \<Longrightarrow> distinct (running_regions (filter P jobs))"
proof (induction jobs)
  case (Cons p ps)
  show ?case
    using Cons running_regions_filter[of P ps] by (auto simp: region_list_def split: option.splits if_splits)
qed simp

lemma reap_filter: "\<exists>P. reap locked now jobs = filter P jobs"
proof (cases "length (filter (\<lambda>(i, j). locked i \<or> (case wj_finished_at j of Some t \<Rightarrow> now - t < WARM_JOB_TTL_SECS | None \<Rightarrow> True)) jobs)
    \<le> MAX_RETAINED_WARM_JOBS")
  case True
  then show ?thesis unfolding reap_def Let_def if_P[OF True] by blast
next
  case False
  then show ?thesis unfolding reap_def Let_def if_not_P[OF False] filter_filter by blast
qed

lemma reap_gone:
  "i \<in> set (map fst (take n (sort_key snd (map (\<lambda>(i, j). (i, wj_order j))
     (filter (\<lambda>(i, j). \<not> locked i \<and> wj_finished_at j \<noteq> None) kept))))) \<Longrightarrow>
   \<exists>j. (i, j) \<in> set kept \<and> wj_finished_at j \<noteq> None"
  unfolding set_map by (fastforce dest!: in_set_takeD)

lemma reap_keeps_unfinished:
  assumes "p \<in> set jobs" "wj_finished_at (snd p) = None" "distinct (map fst jobs)"
  shows "p \<in> set (reap locked now jobs)"
proof -
  obtain i j where p: "p = (i, j)" by (cases p)
  define kept where "kept = filter (\<lambda>(i, j). locked i \<or>
      (case wj_finished_at j of Some t \<Rightarrow> now - t < WARM_JOB_TTL_SECS | None \<Rightarrow> True)) jobs"
  have k: "(i, j) \<in> set kept" using assms(1,2) by (simp add: kept_def p)
  have "i \<notin> set (map fst (take n (sort_key snd (map (\<lambda>(i, j). (i, wj_order j))
     (filter (\<lambda>(i, j). \<not> locked i \<and> wj_finished_at j \<noteq> None) kept)))))" for n
  proof
    assume "i \<in> set (map fst (take n (sort_key snd (map (\<lambda>(i, j). (i, wj_order j))
     (filter (\<lambda>(i, j). \<not> locked i \<and> wj_finished_at j \<noteq> None) kept)))))"
    from reap_gone[OF this] obtain j' where j': "(i, j') \<in> set kept" "wj_finished_at j' \<noteq> None" by blast
    then have "(i, j') \<in> set jobs" by (simp add: kept_def)
    with assms(1,3) p have "j' = j" by (metis eq_key_imp_eq_value)
    with j' assms(2) p show False by simp
  qed
  with k show ?thesis by (simp only: reap_def Let_def kept_def[symmetric] p set_filter split: if_split) simp
qed

lemma reap_bounded:
  assumes "\<forall>p \<in> set jobs. wj_finished_at (snd p) \<noteq> None \<longrightarrow> \<not> locked (fst p)" "distinct (map fst jobs)"
    "length (filter (\<lambda>p. wj_finished_at (snd p) = None) jobs) \<le> MAX_RETAINED_WARM_JOBS"
  shows "length (reap locked now jobs) \<le> MAX_RETAINED_WARM_JOBS"
proof -
  define kept where "kept = filter (\<lambda>(i, j). locked i \<or>
      (case wj_finished_at j of Some t \<Rightarrow> now - t < WARM_JOB_TTL_SECS | None \<Rightarrow> True)) jobs"
  define fin where "fin = filter (\<lambda>(i, j). \<not> locked i \<and> wj_finished_at j \<noteq> None) kept"
  define gone where "gone = map fst (take (length kept - MAX_RETAINED_WARM_JOBS) (sort_key snd (map (\<lambda>(i, j). (i, wj_order j)) fin)))"
  have dk: "distinct (map fst kept)" using assms(2) by (simp add: kept_def distinct_map_filter)
  then have df: "distinct (map fst fin)" by (simp add: fin_def distinct_map_filter)
  have fin_eq: "fin = filter (\<lambda>p. wj_finished_at (snd p) \<noteq> None) kept"
    unfolding fin_def by (rule filter_cong) (use assms(1) in \<open>auto simp: kept_def\<close>)
  have unf: "length (filter (\<lambda>p. wj_finished_at (snd p) = None) kept) \<le> MAX_RETAINED_WARM_JOBS"
  proof -
    have "filter (\<lambda>p. wj_finished_at (snd p) = None) kept = filter (\<lambda>p. wj_finished_at (snd p) = None) jobs"
      unfolding kept_def filter_filter by (rule filter_cong) auto
    with assms(3) show ?thesis by simp
  qed
  have split: "length kept = length (filter (\<lambda>p. wj_finished_at (snd p) = None) kept) + length fin"
    using sum_length_filter_compl[of "\<lambda>p. wj_finished_at (snd p) = None" kept] by (simp add: fin_eq)
  let ?m = "length kept - MAX_RETAINED_WARM_JOBS"
  have m: "?m \<le> length fin" using split unf by simp
  have ms: "mset (map fst (sort_key snd (map (\<lambda>(i, j). (i, wj_order j)) fin))) = mset (map fst fin)"
    by (simp add: comp_def split_def multiset.map_comp)
  have "distinct (map fst (sort_key snd (map (\<lambda>(i, j). (i, wj_order j)) fin)))"
    using df mset_eq_imp_distinct_iff[OF ms] by simp
  then have dg: "distinct gone" unfolding gone_def take_map[symmetric] by (rule distinct_take)
  have lg: "length gone = ?m" using m by (simp add: gone_def)
  have sg: "set gone \<subseteq> fst ` set kept"
    using reap_gone[where n = ?m and kept = kept and locked = locked] unfolding gone_def fin_def by force
  have "length (filter (\<lambda>p. fst p \<notin> set gone) kept) = length kept - length (filter (\<lambda>p. fst p \<in> set gone) kept)"
    using sum_length_filter_compl[of "\<lambda>p. fst p \<in> set gone" kept] by simp
  also have "length (filter (\<lambda>p. fst p \<in> set gone) kept) = card (set gone)"
  proof -
    have "length (filter (\<lambda>p. fst p \<in> set gone) kept) = card (set (map fst (filter (\<lambda>p. fst p \<in> set gone) kept)))"
      using distinct_card[OF distinct_map_filter[OF dk, of "\<lambda>p. fst p \<in> set gone"]] by simp
    also have "set (map fst (filter (\<lambda>p. fst p \<in> set gone) kept)) = set gone" using sg by auto
    finally show ?thesis .
  qed
  also have "card (set gone) = ?m" using distinct_card[OF dg] lg by simp
  finally have "length (filter (\<lambda>p. fst p \<notin> set gone) kept) \<le> MAX_RETAINED_WARM_JOBS" if "MAX_RETAINED_WARM_JOBS < length kept"
    using that by simp
  moreover have "reap locked now jobs = (if length kept \<le> MAX_RETAINED_WARM_JOBS then kept else filter (\<lambda>p. fst p \<notin> set gone) kept)"
    by (simp add: reap_def Let_def kept_def gone_def fin_def)
  ultimately show ?thesis by (simp add: not_le)
qed

section \<open>The steps keep the invariant\<close>

lemma warm_invI:
  assumes "distinct (map fst (warm_jobs st))" "list_all (job_ok st) (warm_jobs st)"
    "length (filter is_running (warm_jobs st)) \<le> MAX_ACTIVE_WARM_JOBS"
    "distinct (running_regions (warm_jobs st))" "set (running_regions (warm_jobs st)) \<inter> set pd = {}"
    "set (running_regions (warm_jobs st)) \<union> set pd \<subseteq> set (active_warm_regions st)"
  shows "warm_inv (st, pd)"
  using assms by (simp add: warm_inv_def)

lemma warm_invD:
  assumes "warm_inv (st, pd)"
  shows "distinct (map fst (warm_jobs st))" "list_all (job_ok st) (warm_jobs st)"
    "length (filter is_running (warm_jobs st)) \<le> MAX_ACTIVE_WARM_JOBS"
    "distinct (running_regions (warm_jobs st))" "set (running_regions (warm_jobs st)) \<inter> set pd = {}"
    "set (running_regions (warm_jobs st)) \<union> set pd \<subseteq> set (active_warm_regions st)"
  using assms by (simp_all add: warm_inv_def)

text \<open>An update that leaves the identity, the state and the region of every job alone changes nothing here.\<close>

definition neutral :: "(warm_job \<Rightarrow> warm_job) \<Rightarrow> bool" where
  "neutral f \<longleftrightarrow> (\<forall>j. wj_state (f j) = wj_state j \<and> wj_region_id (f j) = wj_region_id j \<and>
     wj_order (f j) = wj_order j \<and> wj_finished_at (f j) = wj_finished_at j)"

lemma neutral_running:
  "neutral f \<Longrightarrow> map is_running (map (\<lambda>p. if P p then (fst p, f (snd p)) else p) jobs) = map is_running jobs"
  "neutral f \<Longrightarrow> running_regions (map (\<lambda>p. if P p then (fst p, f (snd p)) else p) jobs) = running_regions jobs"
  "neutral f \<Longrightarrow> length (filter is_running (map (\<lambda>p. if P p then (fst p, f (snd p)) else p) jobs))
     = length (filter is_running jobs)"
  by (induction jobs) (auto simp: neutral_def is_running_def)

lemma neutral_inv:
  assumes inv: "warm_inv (st, pd)" and f: "neutral f" shows "warm_inv (update_jobs P f st, pd)"
proof (rule warm_invI)
  let ?g = "\<lambda>p. if P p then (fst p, f (snd p)) else p"
  have fst: "map fst (map ?g jobs) = map fst jobs" for jobs by (induction jobs) auto
  show "distinct (map fst (warm_jobs (update_jobs P f st)))"
    using warm_invD(1)[OF inv] fst[of "warm_jobs st"] by (simp add: update_jobs_def del: map_map)
  have jk: "job_ok (update_jobs P f st) (?g p)" if "job_ok st p" for p
    using that f by (simp add: job_ok_def neutral_def is_running_def update_jobs_def)
  show "list_all (job_ok (update_jobs P f st)) (warm_jobs (update_jobs P f st))"
    using warm_invD(2)[OF inv] jk unfolding list_all_iff by (fastforce simp: update_jobs_def)
  show "length (filter is_running (warm_jobs (update_jobs P f st))) \<le> MAX_ACTIVE_WARM_JOBS"
    using warm_invD(3)[OF inv]
    using neutral_running(3)[OF f, of P "warm_jobs st"] by (simp add: update_jobs_def)
  have rr: "running_regions (warm_jobs (update_jobs P f st)) = running_regions (warm_jobs st)"
    "active_warm_regions (update_jobs P f st) = active_warm_regions st"
    by (simp_all add: update_jobs_def neutral_running(2)[OF f])
  show "distinct (running_regions (warm_jobs (update_jobs P f st)))"
    "set (running_regions (warm_jobs (update_jobs P f st))) \<inter> set pd = {}"
    "set (running_regions (warm_jobs (update_jobs P f st))) \<union> set pd \<subseteq> set (active_warm_regions (update_jobs P f st))"
    using warm_invD(4-6)[OF inv] by (simp_all only: rr)
qed

lemma neutral_simps [simp]:
  "neutral (\<lambda>j. j\<lparr>wj_cancel := True\<rparr>)"
  "neutral (\<lambda>j. j\<lparr>wj_total := t, wj_done := d j, wj_skipped := s j, wj_bytes := b j, wj_errors := e j\<rparr>)"
  by (simp_all add: neutral_def)

lemma cancel_inv:
  assumes "warm_inv (st, pd)"
  shows "warm_inv (snd (cancel_warm jid st), pd)" "warm_inv (snd (cancel_region_warms polls rid st), pd)"
    "warm_inv (cancel_all_warms st, pd)" "warm_inv (count_job jid t n sk bs er st, pd)"
proof -
  show "warm_inv (snd (cancel_warm jid st), pd)" "warm_inv (snd (cancel_region_warms polls rid st), pd)"
    "warm_inv (count_job jid t n sk bs er st, pd)"
    using assms neutral_inv[OF assms] by (simp_all add: cancel_warm_def cancel_region_warms_def count_job_def split: option.split)
  have "warm_inv (st\<lparr>shutdown_requested := True\<rparr>, pd)"
    using assms by (simp add: warm_inv_def list_all_iff job_ok_def)
  from neutral_inv[OF this] show "warm_inv (cancel_all_warms st, pd)" by (simp add: cancel_all_warms_def)
qed

text \<open>Finishing a running job.\<close>

lemma finish_regions:
  fixes now :: int
  assumes "distinct (map fst jobs)" "(jid, j) \<in> set jobs" "wj_state j = Running" "final \<noteq> Running"
  defines "jobs' \<equiv> map (\<lambda>p. if fst p = jid then (fst p, (snd p)\<lparr>wj_state := final, wj_finished_at := Some now\<rparr>) else p) jobs"
  shows "mset (running_regions jobs) = mset (region_list (wj_region_id j)) + mset (running_regions jobs')"
    and "length (filter is_running jobs') \<le> length (filter is_running jobs)"
    and "map fst jobs' = map fst jobs"
proof -
  show "mset (running_regions jobs) = mset (region_list (wj_region_id j)) + mset (running_regions jobs')"
    using assms(1,2) unfolding jobs'_def
  proof (induction jobs)
    case (Cons p ps)
    show ?case
    proof (cases "fst p = jid")
      case True
      then have p: "p = (jid, j)"
        using Cons.prems by (metis eq_key_imp_eq_value list.set_intros(1) prod.collapse)
      have "map (\<lambda>q. if fst q = jid then (fst q, (snd q)\<lparr>wj_state := final, wj_finished_at := Some now\<rparr>) else q) ps = ps"
        by (rule map_idI) (use Cons.prems True in \<open>force simp: image_iff\<close>)
      with p assms(3,4) show ?thesis by (simp add: is_running_def)
    next
      case False
      with Cons show ?thesis by auto
    qed
  qed simp
  show "length (filter is_running jobs') \<le> length (filter is_running jobs)"
    unfolding jobs'_def using assms(4) by (induction jobs) (auto simp: is_running_def)
  show "map fst jobs' = map fst jobs" unfolding jobs'_def by (induction jobs) auto
qed

lemma finish_job_inv:
  assumes inv: "warm_inv (st, pd)" and j: "(jid, j) \<in> set (warm_jobs st)" "wj_state j = Running" "final \<noteq> Running"
  shows "warm_inv (finish_job jid final now st, region_list (wj_region_id j) @ pd)"
proof -
  note F = finish_regions[OF warm_invD(1)[OF inv] j, of now]
  let ?jobs = "map (\<lambda>p. if fst p = jid then (fst p, (snd p)\<lparr>wj_state := final, wj_finished_at := Some now\<rparr>) else p) (warm_jobs st)"
  have eq: "warm_jobs (finish_job jid final now st) = ?jobs" "active_warm_regions (finish_job jid final now st) = active_warm_regions st"
    "warm_seq (finish_job jid final now st) = warm_seq st" "boot_id (finish_job jid final now st) = boot_id st"
    by (simp_all add: finish_job_def update_jobs_def)
  have un: "set (running_regions (warm_jobs st)) = set (region_list (wj_region_id j)) \<union> set (running_regions ?jobs)"
    using arg_cong[OF F(1), of set_mset] by simp
  have "distinct (region_list (wj_region_id j) @ running_regions ?jobs)"
    using warm_invD(4)[OF inv] mset_eq_imp_distinct_iff[of "running_regions (warm_jobs st)"
        "region_list (wj_region_id j) @ running_regions ?jobs"] F(1) by simp
  then have d: "distinct (running_regions ?jobs)" "set (region_list (wj_region_id j)) \<inter> set (running_regions ?jobs) = {}"
    by (simp_all add: Int_commute)
  show ?thesis
  proof (rule warm_invI, unfold eq)
    show "distinct (map fst ?jobs)" using warm_invD(1)[OF inv] by (simp only: F(3))
    have jk: "job_ok (finish_job jid final now st) (if fst p = jid then (fst p, (snd p)\<lparr>wj_state := final, wj_finished_at := Some now\<rparr>) else p)"
      if "job_ok st p" for p using that j(3) by (simp add: job_ok_def eq is_running_def)
    show "list_all (job_ok (finish_job jid final now st)) ?jobs"
      using warm_invD(2)[OF inv] jk unfolding list_all_iff by fastforce
    show "length (filter is_running ?jobs) \<le> MAX_ACTIVE_WARM_JOBS" using F(2) warm_invD(3)[OF inv] by simp
    show "distinct (running_regions ?jobs)" by (rule d)
    show "set (running_regions ?jobs) \<inter> set (region_list (wj_region_id j) @ pd) = {}"
      using d(2) un warm_invD(5)[OF inv] by auto
    show "set (running_regions ?jobs) \<union> set (region_list (wj_region_id j) @ pd) \<subseteq> set (active_warm_regions st)"
      using un warm_invD(6)[OF inv] by auto
  qed
qed

lemma release_inv:
  assumes "warm_inv (st, pd)" "r \<in> set pd" shows "warm_inv (release_region r st, removeAll r pd)"
  using assms by (auto simp: warm_inv_def release_region_def list_all_iff job_ok_def)

text \<open>An admission: the registry after the reap, and the new job.\<close>

lemma start_cases:
  assumes "start_warm merc locked now req st = (res, st')"
  obtains (refused) e where "res = Inl e" "e \<noteq> Too_many_jobs" "st' = st"
  | (full) "res = Inl Too_many_jobs" "st' = st\<lparr>warm_seq := warm_seq st + 1, warm_jobs := reap locked now (warm_jobs st)\<rparr>"
      "MAX_ACTIVE_WARM_JOBS \<le> active_count locked (reap locked now (warm_jobs st))"
  | (started) rs bbs spec where "res = Inr (warm_id (boot_id st) (warm_seq st), spec)" "admit_request merc req st = Inr (rs, bbs)"
      "set (region_list (wq_region req)) \<inter> set (active_warm_regions st) = {}"
      "active_count locked (reap locked now (warm_jobs st)) < MAX_ACTIVE_WARM_JOBS"
      "spec = \<lparr>rn_sources = rs_sources rs, rn_bboxes = bbs, rn_zmin = wq_minzoom req, rn_zmax = wq_maxzoom req,
         rn_region = wq_region req, rn_job = warm_id (boot_id st) (warm_seq st), rn_generation = config_generation st\<rparr>"
      "st' = st\<lparr>warm_seq := warm_seq st + 1,
         warm_jobs := AList.update (warm_id (boot_id st) (warm_seq st)) (new_job st rs req now) (reap locked now (warm_jobs st)),
         active_warm_regions := region_list (wq_region req) @ active_warm_regions st\<rparr>"
proof (cases "admit_request merc req st")
  case (Inl e)
  moreover have "e \<noteq> Too_many_jobs"
  proof
    assume "e = Too_many_jobs"
    moreover have "resolve_all m q b k sids acc \<noteq> Inl Too_many_jobs" for m q b k sids acc
      by (induction sids arbitrary: acc) (auto simp: resolve_one_def bindE_def Let_def split: sum.split option.split)
    ultimately show False using Inl
      by (auto simp: admit_request_def bindE_def Let_def split: if_splits sum.splits prod.splits)
  qed
  ultimately show ?thesis using assms refused[of e] by (auto simp: start_warm_def)
next
  case (Inr p)
  obtain rs bbs where p: "p = (rs, bbs)" by (cases p)
  show ?thesis
  proof (cases "case wq_region req of Some r \<Rightarrow> r \<in> set (active_warm_regions st) | None \<Rightarrow> False")
    case True
    with assms Inr p refused[of Region_busy] show ?thesis by (auto simp: start_warm_def)
  next
    case False
    then have r: "set (region_list (wq_region req)) \<inter> set (active_warm_regions st) = {}"
      by (simp add: region_list_def split: option.splits)
    show ?thesis
    proof (cases "MAX_ACTIVE_WARM_JOBS \<le> active_count locked (reap locked now (warm_jobs st))")
      case True
      with assms Inr p False full show ?thesis by (simp add: start_warm_def Let_def)
    next
      case nf: False
      with assms Inr p False started[OF _ Inr[unfolded p] r] show ?thesis
        by (auto simp: start_warm_def Let_def region_list_def split: option.splits)
    qed
  qed
qed

lemma active_covers: "length (filter is_running jobs) \<le> active_count locked jobs"
  by (induction jobs) (auto simp: active_count_def is_running_def)

lemma reap_inv:
  assumes "warm_inv (st, pd)"
  shows "warm_inv (st\<lparr>warm_seq := warm_seq st + 1, warm_jobs := reap locked now (warm_jobs st)\<rparr>, pd)"
proof -
  obtain P where P: "reap locked now (warm_jobs st) = filter P (warm_jobs st)" using reap_filter by blast
  show ?thesis
  proof (rule warm_invI, simp_all add: P)
    show "distinct (map fst (filter P (warm_jobs st)))" using warm_invD(1)[OF assms] by (rule distinct_map_filter)
    show "list_all (job_ok (st\<lparr>warm_seq := Suc (warm_seq st), warm_jobs := filter P (warm_jobs st)\<rparr>)) (filter P (warm_jobs st))"
      using warm_invD(2)[OF assms] by (auto simp: list_all_iff job_ok_def)
    have "length (filter (\<lambda>x. P x \<and> is_running x) jobs) \<le> length (filter is_running jobs)" for jobs
      by (induction jobs) auto
    then show "length (filter (\<lambda>x. P x \<and> is_running x) (warm_jobs st)) \<le> MAX_ACTIVE_WARM_JOBS"
      using warm_invD(3)[OF assms] by (rule order.trans)
    show "distinct (running_regions (filter P (warm_jobs st)))" using warm_invD(4)[OF assms] by (rule distinct_running_filter)
    note sub = running_regions_filter[of P "warm_jobs st"]
    show "set (running_regions (filter P (warm_jobs st))) \<inter> set pd = {}" using sub warm_invD(5)[OF assms] by blast
    show "set (running_regions (filter P (warm_jobs st))) \<subseteq> set (active_warm_regions st) \<and> set pd \<subseteq> set (active_warm_regions st)"
      using sub warm_invD(6)[OF assms] by blast
  qed
qed

lemma update_fresh: "k \<notin> fst ` set al \<Longrightarrow> AList.update k v al = al @ [(k, v)]"
  by (induction al) auto

lemma fresh_id:
  assumes "warm_inv (st, pd)" shows "warm_id (boot_id st) (warm_seq st) \<notin> fst ` set (warm_jobs st)"
  using warm_invD(2)[OF assms] by (auto simp: list_all_iff job_ok_def warm_id_inject)

lemma start_inv:
  assumes inv: "warm_inv (st, pd)" shows "warm_inv (snd (start_warm merc locked now req st), pd)"
proof (cases "start_warm merc locked now req st")
  case (Pair res st')
  from Pair show ?thesis
  proof (cases rule: start_cases)
    case refused
    with inv Pair show ?thesis by simp
  next
    case full
    with reap_inv[OF inv] Pair show ?thesis by simp
  next
    case (started rs bbs spec)
    let ?id = "warm_id (boot_id st) (warm_seq st)"
    let ?R = "reap locked now (warm_jobs st)"
    note R = reap_inv[OF inv, of locked now]
    obtain P where P: "?R = filter P (warm_jobs st)" using reap_filter by blast
    have fr: "?id \<notin> fst ` set ?R" using fresh_id[OF inv] by (auto simp: P)
    have run: "is_running (i, new_job st rs req now)" for i by (simp add: is_running_def new_job_def)
    have reg: "wj_region_id (new_job st rs req now) = wq_region req" "wj_order (new_job st rs req now) = warm_seq st"
      "wj_finished_at (new_job st rs req now) = None" by (simp_all add: new_job_def)
    have len: "length (filter is_running ?R) < MAX_ACTIVE_WARM_JOBS"
      using active_covers[of ?R locked] started(4) by simp
    note D = warm_invD[OF R, simplified]
    have dr: "set (region_list (wq_region req)) \<inter> set (running_regions ?R) = {}"
      "set (region_list (wq_region req)) \<inter> set pd = {}" using started(3) D(6) by auto
    have "warm_inv (st', pd)"
    proof (rule warm_invI, simp_all add: started(6) update_fresh[OF fr] run reg)
      show "distinct (map fst ?R) \<and> ?id \<notin> fst ` set ?R" using D(1) fr by simp
      show "list_all (job_ok (st\<lparr>warm_seq := Suc (warm_seq st), warm_jobs := ?R @ [(?id, new_job st rs req now)],
             active_warm_regions := region_list (wq_region req) @ active_warm_regions st\<rparr>)) ?R \<and>
          job_ok (st\<lparr>warm_seq := Suc (warm_seq st), warm_jobs := ?R @ [(?id, new_job st rs req now)],
             active_warm_regions := region_list (wq_region req) @ active_warm_regions st\<rparr>) (?id, new_job st rs req now)"
        using D(2) by (auto simp: list_all_iff job_ok_def reg run)
      show "Suc (length (filter is_running ?R)) \<le> MAX_ACTIVE_WARM_JOBS" using len by simp
      show "distinct (running_regions ?R) \<and> distinct (region_list (wq_region req)) \<and>
          set (running_regions ?R) \<inter> set (region_list (wq_region req)) = {}"
        using D(4) dr by (auto simp: region_list_def split: option.split)
      show "(set (running_regions ?R) \<union> set (region_list (wq_region req))) \<inter> set pd = {}" using D(5) dr by blast
      show "set (running_regions ?R) \<subseteq> set (region_list (wq_region req)) \<union> set (active_warm_regions st) \<and>
          set pd \<subseteq> set (region_list (wq_region req)) \<union> set (active_warm_regions st)" using D(6) by blast
    qed
    with Pair show ?thesis by simp
  qed
qed

text \<open>An admission whose client leaves marks a region and starts no job.\<close>

lemma abandoned_cases:
  assumes "start_warm_cut merc locked now req w st = Some st'"
  shows "set (region_list (wq_region req)) \<inter> set (active_warm_regions st) = {}"
    "\<exists>x. admit_request merc req st = Inr x"
    "active_warm_regions st' = region_list (wq_region req) @ active_warm_regions st"
    "st' = st\<lparr>warm_seq := warm_seq st + 1, active_warm_regions := active_warm_regions st'\<rparr>
     \<or> st' = st\<lparr>warm_seq := warm_seq st + 1, warm_jobs := reap locked now (warm_jobs st), active_warm_regions := active_warm_regions st'\<rparr>"
  using assms by (auto simp: start_warm_cut_def Let_def region_list_def split: sum.splits option.splits if_splits start_wait.splits)

lemma abandoned_inv:
  assumes "warm_inv (st, pd)" "start_warm_cut merc locked now req w st = Some st'"
  shows "warm_inv (st', pd)"
proof -
  note c = abandoned_cases[OF assms(2)]
  have m: "warm_inv (s\<lparr>active_warm_regions := rs @ active_warm_regions s\<rparr>, pd)" if "warm_inv (s, pd)" for s rs
    using that by (auto simp: warm_inv_def list_all_iff job_ok_def)
  have q: "warm_inv (st\<lparr>warm_seq := warm_seq st + 1\<rparr>, pd)" using assms(1) by (auto simp: warm_inv_def list_all_iff job_ok_def)
  from c(4) m[OF q, of "region_list (wq_region req)"] m[OF reap_inv[OF assms(1), of locked now], of "region_list (wq_region req)"]
  show ?thesis unfolding c(3) by auto
qed

lemma warm_reachable_inv: "warm_reachable s \<Longrightarrow> warm_inv s"
proof (induction rule: warm_reachable.induct)
  case (init st)
  then show ?case by (simp add: warm_inv_def)
next
  case (step s s')
  from step.hyps(2) step.IH show ?case
  proof (cases rule: warm_step.cases)
    case (others st' st pd)
    with step.IH show ?thesis by (simp add: warm_inv_def list_all_iff job_ok_def)
  qed (simp_all add: start_inv abandoned_inv cancel_inv finish_job_inv release_inv)
qed

section \<open>A region no driver releases\<close>

text \<open>Marked, with no running job and no driver that will release it.\<close>

definition orphan_region :: "string \<Rightarrow> warm_sys \<Rightarrow> bool" where
  "orphan_region r s \<longleftrightarrow> (case s of (st, pd) \<Rightarrow>
     r \<in> set (active_warm_regions st) \<and> r \<notin> set pd \<and> r \<notin> set (running_regions (warm_jobs st)))"

lemma orphanI: "r \<in> set (active_warm_regions st) \<Longrightarrow> r \<notin> set pd \<Longrightarrow> r \<notin> set (running_regions (warm_jobs st)) \<Longrightarrow>
    orphan_region r (st, pd)"
  by (simp add: orphan_region_def)

lemma reap_regions: "r \<notin> set (running_regions jobs) \<Longrightarrow> r \<notin> set (running_regions (reap locked now jobs))"
  using reap_filter[of locked now jobs] running_regions_filter[of _ jobs] by (metis subsetD)

lemma abandoned_orphan:
  assumes "warm_inv (st, pd)" "start_warm_cut merc locked now req w st = Some st'" "wq_region req = Some r"
  shows "orphan_region r (st', pd)"
proof -
  note c = abandoned_cases[OF assms(2)]
  have r: "r \<notin> set (active_warm_regions st)" using c(1) assms(3) by (simp add: region_list_def)
  then have "r \<notin> set pd" "r \<notin> set (running_regions (warm_jobs st))" using warm_invD(6)[OF assms(1)] by blast+
  with c(3,4) assms(3) reap_regions[of r "warm_jobs st" locked now] show ?thesis
    by (intro orphanI) (auto simp: region_list_def)
qed

lemma neutral_orphan: "neutral f \<Longrightarrow> orphan_region r (update_jobs P f st, pd) = orphan_region r (st, pd)"
  using neutral_running(2)[of f P "warm_jobs st"] by (simp add: orphan_region_def update_jobs_def)

lemma start_orphan:
  assumes "warm_inv (st, pd)" "orphan_region r (st, pd)"
  shows "orphan_region r (snd (start_warm merc locked now req st), pd)"
proof (cases "start_warm merc locked now req st")
  case (Pair res st')
  note o = assms(2)[unfolded orphan_region_def prod.case]
  from Pair show ?thesis
  proof (cases rule: start_cases)
    case refused
    with assms(2) Pair show ?thesis by simp
  next
    case full
    with o reap_regions[of r "warm_jobs st" locked now] Pair show ?thesis by (simp add: orphan_region_def)
  next
    case (started rs bbs spec)
    let ?R = "reap locked now (warm_jobs st)"
    obtain P where P: "?R = filter P (warm_jobs st)" using reap_filter by blast
    have fr: "warm_id (boot_id st) (warm_seq st) \<notin> fst ` set ?R" using fresh_id[OF assms(1)] by (auto simp: P)
    have "r \<notin> set (region_list (wq_region req))" using o started(3) by blast
    with o reap_regions[of r "warm_jobs st" locked now] started(6) Pair show ?thesis
      by (simp add: orphan_region_def update_fresh[OF fr] new_job_def)
  qed
qed

lemma finish_orphan:
  assumes "warm_inv (st, pd)" "orphan_region r (st, pd)" "(jid, j) \<in> set (warm_jobs st)" "wj_state j = Running" "final \<noteq> Running"
  shows "orphan_region r (finish_job jid final now st, region_list (wj_region_id j) @ pd)"
proof -
  let ?jobs = "map (\<lambda>p. if fst p = jid then (fst p, (snd p)\<lparr>wj_state := final, wj_finished_at := Some now\<rparr>) else p) (warm_jobs st)"
  have un: "set (running_regions (warm_jobs st)) = set (region_list (wj_region_id j)) \<union> set (running_regions ?jobs)"
    using arg_cong[OF finish_regions(1)[OF warm_invD(1)[OF assms(1)] assms(3-5), of now], of set_mset] by simp
  have "warm_jobs (finish_job jid final now st) = ?jobs" "active_warm_regions (finish_job jid final now st) = active_warm_regions st"
    by (simp_all add: finish_job_def update_jobs_def)
  with assms(2) un show ?thesis by (auto simp: orphan_region_def)
qed

lemma step_orphan:
  assumes "warm_step s s'" "warm_inv s" "orphan_region r s" shows "orphan_region r s'"
  using assms
proof (cases rule: warm_step.cases)
  case (abandoned merc locked now req w st st' pd)
  note c = abandoned_cases[OF abandoned(3)]
  from assms(3) c(3,4) reap_regions[of r "warm_jobs st" locked now] show ?thesis
    by (auto simp: orphan_region_def abandoned)
next
  case (cancel_all st pd)
  have "orphan_region r (st\<lparr>shutdown_requested := True\<rparr>, pd)" using assms(3) cancel_all by (simp add: orphan_region_def)
  with cancel_all show ?thesis by (simp add: cancel_all_warms_def neutral_orphan)
next
  case (cancel st pd jid)
  with assms(3) show ?thesis by (simp add: cancel_warm_def neutral_orphan split: option.split)
next
  case (release r' pd st)
  with assms(3) show ?thesis by (auto simp: orphan_region_def release_region_def)
next
  case (others st' st pd)
  with assms(3) show ?thesis by (simp add: orphan_region_def)
qed (use assms in \<open>simp_all add: start_orphan finish_orphan cancel_region_warms_def count_job_def neutral_orphan\<close>)

lemma steps_orphan:
  "warm_step\<^sup>*\<^sup>* s s' \<Longrightarrow> warm_reachable s \<Longrightarrow> orphan_region r s \<Longrightarrow> warm_reachable s' \<and> orphan_region r s'"
  by (induction rule: rtranclp_induct) (auto intro: warm_reachable.step step_orphan warm_reachable_inv)

end
