(* ===== verification/Warm_Job_Claims.thy ===== *)
theory Warm_Job_Claims
  imports Warm_Job_Props
begin

text \<open>The properties of the warm-job registry.\<close>

section \<open>Identifiers\<close>

lemma dec_length: "n < 10 ^ Suc k \<Longrightarrow> length (dec n) \<le> Suc k"
proof (induction k arbitrary: n)
  case 0
  then show ?case by (simp add: dec.simps[of n])
next
  case (Suc k)
  show ?case
  proof (cases "n < 10")
    case False
    have "n div 10 < 10 ^ Suc k" using Suc.prems by (simp add: div_less_iff_less_mult)
    from Suc.IH[OF this] False show ?thesis by (simp add: dec.simps[of n])
  qed (simp add: dec.simps[of n])
qed

lemma dash_not_digit: "CHR ''-'' \<notin> set (dec n)"
  using dec_digits[of n] by (auto simp: list_all_iff is_ascii_digit_def code_def)

lemma rsplit_dash_append:
  assumes "CHR ''-'' \<notin> set t" shows "rsplit_dash (b @ CHR ''-'' # t) = Some (b, t)"
proof -
  have "takeWhile (\<lambda>c. c \<noteq> CHR ''-'') (rev t @ CHR ''-'' # rev b) = rev t"
    "dropWhile (\<lambda>c. c \<noteq> CHR ''-'') (rev t @ CHR ''-'' # rev b) = CHR ''-'' # rev b"
    using assms by (auto simp: takeWhile_append dropWhile_append)
  then show ?thesis by (simp add: rsplit_dash_def)
qed

lemma warm_id_valid:
  assumes "length boot = 32" "list_all is_ascii_hexdigit boot" "n \<le> u64_max"
  shows "valid_job_id (warm_id boot n)"
proof -
  have "n < 10 ^ Suc 19" using assms(3) by (simp add: u64_max_def)
  from dec_length[OF this] have "length (dec n) \<le> 20" by simp
  moreover have "strip_prefix ''warm-'' (warm_id boot n) = Some (boot @ ''-'' @ dec n)"
    by (simp add: warm_id_def strip_prefix_Some)
  moreover have "rsplit_dash (boot @ ''-'' @ dec n) = Some (boot, dec n)"
    using rsplit_dash_append[OF dash_not_digit] by simp
  ultimately show ?thesis using assms dec_digits[of n] by (simp add: valid_job_id_def undec_dec)
qed

section \<open>What the resolution keeps\<close>

definition resolution_ok :: "(f64 \<Rightarrow> f64) \<Rightarrow> warm_request \<Rightarrow> bbox list \<Rightarrow> (string \<rightharpoonup> chart_source) \<Rightarrow> resolution \<Rightarrow> bool" where
  "resolution_ok merc req bbs known acc \<longleftrightarrow>
     (\<forall>s \<in> set (rs_sources acc). \<not> is_volatile s \<and> (\<exists>sid \<in> set (rs_seen acc). known sid = Some s)) \<and>
     (\<forall>sid \<in> set (rs_seen acc). case known sid of None \<Rightarrow> False
        | Some s \<Rightarrow> (is_volatile s \<longrightarrow> sid \<in> set (rs_skipped acc)) \<and> (\<not> is_volatile s \<longrightarrow> s \<in> set (rs_sources acc))) \<and>
     rs_styles acc = length (filter is_style (rs_sources acc)) \<and> rs_styles acc \<le> MAX_LEARNED_STYLE_ENTRIES \<and>
     rs_total acc = sum_list (map (\<lambda>s. count_boxes merc req bbs (if is_style s then style_clamped s else s)) (rs_sources acc))"

lemma resolve_one_ok:
  assumes "resolution_ok merc req bbs known acc" "resolve_one merc req bbs known sid acc = Inr acc'"
  shows "resolution_ok merc req bbs known acc' \<and> set (rs_seen acc') = insert sid (set (rs_seen acc))"
  using assms by (auto simp: resolve_one_def resolution_ok_def Let_def split: if_splits option.splits) blast+

lemma resolve_all_ok:
  assumes "resolution_ok merc req bbs known acc" "resolve_all merc req bbs known sids acc = Inr acc'"
  shows "resolution_ok merc req bbs known acc' \<and> set (rs_seen acc') = set sids \<union> set (rs_seen acc)"
  using assms
proof (induction sids arbitrary: acc)
  case (Cons sid sids)
  then obtain a where a: "resolve_one merc req bbs known sid acc = Inr a" "resolve_all merc req bbs known sids a = Inr acc'"
    by (auto simp: bindE_Inr_iff)
  note o = resolve_one_ok[OF Cons.prems(1) a(1)]
  from Cons.IH[OF conjunct1[OF o] a(2)] o show ?case by auto
qed simp

lemma admit_facts:
  assumes "admit_request merc req st = Inr (rs, bbs)"
  shows "resolution_ok merc req bbs (sources st) rs" "set (rs_seen rs) = src_id ` set (wq_sources req)"
    "0 < rs_total rs" "rs_total rs \<le> WARM_TILE_HARD_CAP" "\<not> shutdown_requested st"
    "case wq_region req of Some r \<Rightarrow> valid_region_id r | None \<Rightarrow> True"
proof -
  have "resolution_ok merc req bbs (sources st) no_resolution" by (simp add: resolution_ok_def no_resolution_def)
  moreover have "resolve_all merc req bbs (sources st) (map src_id (wq_sources req)) no_resolution = Inr rs"
    using assms by (auto simp: admit_request_def Let_def bindE_Inr_iff split: if_splits)
  ultimately have R: "resolution_ok merc req bbs (sources st) rs \<and>
      set (rs_seen rs) = set (map src_id (wq_sources req)) \<union> set (rs_seen no_resolution)" by (rule resolve_all_ok)
  from R show "resolution_ok merc req bbs (sources st) rs" "set (rs_seen rs) = src_id ` set (wq_sources req)"
    by (simp_all add: no_resolution_def)
  show "0 < rs_total rs" "rs_total rs \<le> WARM_TILE_HARD_CAP" "\<not> shutdown_requested st"
    "case wq_region req of Some r \<Rightarrow> valid_region_id r | None \<Rightarrow> True"
    using assms by (auto simp: admit_request_def Let_def bindE_Inr_iff split: if_splits option.split)
qed

section \<open>Properties\<close>

text \<open>
  C11: In every state any interleaving of requests, drivers, cancellations and other activity can reach, at
  most two warm jobs run and no two of them write to the same region; every region a running job writes
  to is marked busy, and a request for a busy region is refused without changing anything.
\<close>

theorem warm_jobs_exclusive:
  assumes "warm_reachable (st, pd)"
  shows "length (filter is_running (warm_jobs st)) \<le> 2 \<and>
    distinct (running_regions (warm_jobs st)) \<and>
    set (running_regions (warm_jobs st)) \<subseteq> set (active_warm_regions st) \<and>
    (\<forall>r. wq_region req = Some r \<and> r \<in> set (active_warm_regions st) \<longrightarrow>
       (\<exists>e. start_warm merc locked now req st = (Inl e, st)))"
proof -
  note inv = warm_reachable_inv[OF assms]
  have "\<exists>e. start_warm merc locked now req st = (Inl e, st)"
    if "wq_region req = Some r" "r \<in> set (active_warm_regions st)" for r
    using that by (auto simp: start_warm_def split: sum.split prod.split)
  with warm_invD(3,4,6)[OF inv] show ?thesis by (simp add: MAX_ACTIVE_WARM_JOBS_def)
qed

definition ex_app :: app_state where
  "ex_app = \<lparr>cache = \<lparr>conn = \<lparr>tiles = [], region_tiles = [], learned_styles = [], user_version = SCHEMA_VERSION\<rparr>,
       total_bytes = 0, pinned_bytes = 0, real_region_cache = 0, regions_dirty = True,
       disk_pressure_events = 0, operation_error_events = 0\<rparr>,
     sources = [''noaa'' \<mapsto> ex_xyz], public_base = '''', style_states = [], knobs = default_knobs, flights = no_inflight,
     fill_permits = 8, touch_permits = 16, health = new_health 20000, warm_jobs = [],
     active_warm_regions = [], warm_seq = 0, boot_id = replicate 32 (CHR ''a''), live_cap_bytes = 1000,
     live_regions_budget = 600, live_position_warm_budget = 200, live_scroll_ttl_secs = 0, configured = True,
     config_generation = 0, control_token = None, geocoding_enabled = False, geocoder = \<lparr>gc_last_request = None, gc_cache = []\<rparr>, shutdown_requested = False,
     assets_warming = False, warm_rejections = 0, config_pushes = 0\<rparr>"

definition ex_request :: warm_request where
  "ex_request = \<lparr>wq_sources = [ex_xyz], wq_bbox = (Fin 0, Fin 0, Fin 10, Fin 10), wq_additional = None,
     wq_minzoom = 0, wq_maxzoom = 0, wq_region = Some ''r1''\<rparr>"

lemma warm_jobs_exclusive_witness:
  "length (filter is_running (warm_jobs (snd (start_warm (\<lambda>_. Fin (1 / 2)) (\<lambda>_. False) 50 ex_request ex_app)))) \<le> 2"
proof -
  have "warm_reachable (ex_app, [])" by (rule warm_reachable.init) (simp_all add: ex_app_def)
  then have "warm_reachable (snd (start_warm (\<lambda>_. Fin (1 / 2)) (\<lambda>_. False) 50 ex_request ex_app), [])"
    by (rule warm_reachable.step) (rule warm_step.start)
  from warm_jobs_exclusive[OF this] show ?thesis by blast
qed

text \<open>
  C32: A request that is accepted names a region that is free and valid, its job gets a fresh, well-formed
  identifier and a snapshot of it answers at once; the sources it will enumerate are the catalog's own
  definitions of the requested ones, all of them except the time-dynamic ones, with at most four styles;
  and the projected number of tiles is positive and at most two million.
\<close>

theorem warm_admission_sound:
  assumes "warm_reachable (st, pd)" "length (boot_id st) = 32" "list_all is_ascii_hexdigit (boot_id st)"
    "warm_seq st \<le> u64_max" and "start_warm merc locked now req st = (Inr (jid, spec), st')"
  shows "valid_job_id jid \<and> jid \<notin> fst ` set (warm_jobs st) \<and>
    (\<exists>tot. warm_snapshot st' jid = Some \<lparr>wp_total = tot, wp_done = 0, wp_skipped = 0, wp_bytes = 0, wp_errors = 0, wp_state = Running\<rparr>
       \<and> 0 < tot \<and> tot \<le> 2000000) \<and>
    (\<forall>s. s \<in> set (rn_sources spec) \<longleftrightarrow>
       \<not> is_volatile s \<and> (\<exists>q \<in> set (wq_sources req). sources st (src_id q) = Some s)) \<and>
    length (filter is_style (rn_sources spec)) \<le> 4 \<and>
    (\<forall>r. wq_region req = Some r \<longrightarrow> valid_region_id r \<and> r \<notin> set (active_warm_regions st) \<and> r \<in> set (active_warm_regions st')) \<and>
    rn_generation spec = config_generation st"
  using assms(5)
proof (cases rule: start_cases)
  case (started rs bbs spec')
  note inv = warm_reachable_inv[OF assms(1)]
  have j: "jid = warm_id (boot_id st) (warm_seq st)" "spec = spec'" using started(1) by simp_all
  note A = admit_facts[OF started(2)]
  note R = A(1)[unfolded resolution_ok_def]
  obtain P where P: "reap locked now (warm_jobs st) = filter P (warm_jobs st)" using reap_filter by blast
  have snap: "warm_snapshot st' jid = Some \<lparr>wp_total = rs_total rs, wp_done = 0, wp_skipped = 0, wp_bytes = 0,
      wp_errors = 0, wp_state = Running\<rparr>"
    by (simp add: warm_snapshot_def started(6) j update_conv' progress_def new_job_def)
  have src: "s \<in> set (rn_sources spec) \<longleftrightarrow> \<not> is_volatile s \<and> (\<exists>q \<in> set (wq_sources req). sources st (src_id q) = Some s)" for s
  proof
    assume "s \<in> set (rn_sources spec)"
    then have "s \<in> set (rs_sources rs)" using started(5) j by simp
    with R obtain sid where "\<not> is_volatile s" "sid \<in> set (rs_seen rs)" "sources st sid = Some s" by blast
    with A(2) show "\<not> is_volatile s \<and> (\<exists>q \<in> set (wq_sources req). sources st (src_id q) = Some s)" by auto
  next
    assume a: "\<not> is_volatile s \<and> (\<exists>q \<in> set (wq_sources req). sources st (src_id q) = Some s)"
    then obtain q where q: "q \<in> set (wq_sources req)" "sources st (src_id q) = Some s" by blast
    then have "src_id q \<in> set (rs_seen rs)" using A(2) by blast
    with R q(2) a have "s \<in> set (rs_sources rs)" by fastforce
    then show "s \<in> set (rn_sources spec)" using started(5) j by simp
  qed
  have sty: "length (filter is_style (rn_sources spec)) \<le> 4"
    using R started(5) j by (simp add: MAX_LEARNED_STYLE_ENTRIES_def)
  have reg: "valid_region_id r \<and> r \<notin> set (active_warm_regions st) \<and> r \<in> set (active_warm_regions st')" if "wq_region req = Some r" for r
    using A(6) started(3,6) that by (simp add: region_list_def)
  show ?thesis
    using warm_id_valid[OF assms(2,3,4)] fresh_id[OF inv] snap src sty reg A(3,4) j started(5)
    by (simp add: WARM_TILE_HARD_CAP_def)
qed simp_all

text \<open>At zoom 0 there is one tile, whatever the projection.\<close>

lemma ex_count: "tile_count_in_bbox merc ex_xyz (Fin 0, Fin 0, Fin 10, Fin 10) 0 0 = 1"
proof -
  have M: "10 < MAX_MERCATOR_LAT" "- MAX_MERCATOR_LAT < 0" using mercator_above by simp_all
  then have "clips ex_xyz (Fin 0, Fin 0, Fin 10, Fin 10) = [(Fin 0, Fin 0, Fin 10, Fin 10)]"
    by (simp add: clips_def ex_xyz_def flt_def feq_def fmax_def fmin_def List.map_filter_def Let_def)
  moreover have "tile_for_lng_lat merc a b 0 = (0, 0)" for a b
    by (simp add: tile_for_lng_lat_def Let_def clamp_int_def)
  ultimately show ?thesis
    by (simp add: tile_count_in_bbox_def covered_ranges_def zoom_bounds_def ex_xyz_def Let_def
        disjoint_ranges_def zoom_slabs_def slab_ranges_def MAX_EFFECTIVE_ZOOM_def)
qed

lemma ex_started: "case fst (start_warm (\<lambda>_. Fin (1 / 2)) (\<lambda>_. False) 50 ex_request ex_app) of Inl _ \<Rightarrow> False | Inr _ \<Rightarrow> True"
proof -
  have "valid_region_id ''r1''"
    by (simp add: valid_region_id_def BASEMAP_ASSETS_REGION_ID_def starts_with_def STAGING_REGION_PREFIX_def
        is_ascii_alphanumeric_def is_ascii_lowercase_def is_ascii_digit_def code_def)
  moreover have "\<not> is_volatile ex_xyz" "\<not> is_style ex_xyz" "src_id ex_xyz = ''noaa''"
    by (simp_all add: is_volatile_def is_style_def ex_xyz_def)
  moreover have "\<not> bad_warm_bbox (Fin 0, Fin 0, Fin 10, Fin 10)" by (simp add: flt_def feq_def)
  ultimately have "\<exists>rs bbs. admit_request (\<lambda>_. Fin (1 / 2)) ex_request ex_app = Inr (rs, bbs)"
    by (simp add: admit_request_def ex_request_def ex_app_def MAX_WARM_SOURCES_def resolve_one_def no_resolution_def
        count_boxes_def ex_count Let_def WARM_TILE_HARD_CAP_def del: bad_warm_bbox.simps)
  then show ?thesis
    by (auto simp: start_warm_def ex_request_def ex_app_def Let_def reap_def active_count_def MAX_ACTIVE_WARM_JOBS_def
        MAX_RETAINED_WARM_JOBS_def)
qed

lemma warm_admission_sound_witness:
  "case fst (start_warm (\<lambda>_. Fin (1 / 2)) (\<lambda>_. False) 50 ex_request ex_app) of
     Inl _ \<Rightarrow> False | Inr (jid, spec) \<Rightarrow> valid_job_id jid \<and> length (filter is_style (rn_sources spec)) \<le> 4"
proof -
  obtain res st' where s: "start_warm (\<lambda>_. Fin (1 / 2)) (\<lambda>_. False) 50 ex_request ex_app = (res, st')" by (meson surj_pair)
  with ex_started obtain jid spec where r: "res = Inr (jid, spec)" by (auto split: sum.splits)
  have "warm_reachable (ex_app, [])" by (rule warm_reachable.init) (simp_all add: ex_app_def)
  moreover have "list_all is_ascii_hexdigit (boot_id ex_app)" "length (boot_id ex_app) = 32" "warm_seq ex_app \<le> u64_max"
    by (simp_all add: ex_app_def is_ascii_hexdigit_def code_def list_all_iff)
  ultimately show ?thesis using warm_admission_sound[OF _ _ _ _ s[unfolded r]] s r by simp
qed

text \<open>
  C40: Provided no finished job is locked at that moment, the registry holds at most 129 jobs after every
  admission, whatever it held before, and no job that has not finished is ever dropped from it.
\<close>

theorem registry_is_bounded:
  assumes "warm_reachable (st, pd)" "\<forall>p \<in> set (warm_jobs st). wj_finished_at (snd p) \<noteq> None \<longrightarrow> \<not> locked (fst p)"
    and "start_warm merc locked now req st = (Inr (jid, spec), st')"
  shows "length (warm_jobs st') \<le> 129 \<and>
    (\<forall>p \<in> set (warm_jobs st). wj_finished_at (snd p) = None \<longrightarrow> p \<in> set (warm_jobs st'))"
  using assms(3)
proof (cases rule: start_cases)
  case (started rs bbs spec')
  note inv = warm_reachable_inv[OF assms(1)]
  let ?R = "reap locked now (warm_jobs st)"
  obtain P where P: "?R = filter P (warm_jobs st)" using reap_filter by blast
  have fr: "warm_id (boot_id st) (warm_seq st) \<notin> fst ` set ?R" using fresh_id[OF inv] by (auto simp: P)
  have jobs: "warm_jobs st' = ?R @ [(warm_id (boot_id st) (warm_seq st), new_job st rs req now)]"
    by (simp add: started(6) update_fresh[OF fr])
  have "filter (\<lambda>p. wj_finished_at (snd p) = None) (warm_jobs st) = filter is_running (warm_jobs st)"
    by (rule filter_cong) (use warm_invD(2)[OF inv] in \<open>auto simp: list_all_iff job_ok_def\<close>)
  then have "length (filter (\<lambda>p. wj_finished_at (snd p) = None) (warm_jobs st)) \<le> MAX_RETAINED_WARM_JOBS"
    using warm_invD(3)[OF inv] by (simp add: MAX_ACTIVE_WARM_JOBS_def MAX_RETAINED_WARM_JOBS_def)
  from reap_bounded[OF assms(2) warm_invD(1)[OF inv] this, of now]
  show ?thesis
    using reap_keeps_unfinished[OF _ _ warm_invD(1)[OF inv]] by (auto simp: jobs MAX_RETAINED_WARM_JOBS_def)
qed simp_all

lemma registry_is_bounded_witness:
  "length (warm_jobs (snd (start_warm (\<lambda>_. Fin (1 / 2)) (\<lambda>_. False) 50 ex_request ex_app))) \<le> 129"
proof -
  obtain res st' where s: "start_warm (\<lambda>_. Fin (1 / 2)) (\<lambda>_. False) 50 ex_request ex_app = (res, st')" by (meson surj_pair)
  with ex_started obtain jid spec where r: "res = Inr (jid, spec)" by (auto split: sum.splits)
  have "warm_reachable (ex_app, [])" by (rule warm_reachable.init) (simp_all add: ex_app_def)
  from registry_is_bounded[OF this _ s[unfolded r]] s show ?thesis by (simp add: ex_app_def)
qed

end
