(* ===== verification/Style_Claims.thy ===== *)
theory Style_Claims
  imports Style_Props Warm_Job_Claims
begin

text \<open>
  The properties of the style proxy: every learned style of the current configuration points at allowed
  hosts only, a durable style comes back after a configuration push exactly when its catalog entry is
  unchanged, and the asset routes answer with assets of their own kind only.
\<close>

section \<open>Usable styles\<close>

definition style_usable :: "style_lib \<Rightarrow> string list \<Rightarrow> bool \<Rightarrow> style_state \<Rightarrow> bool" where
  "style_usable lib hosts allow_http ss \<longleftrightarrow>
     opt_all (usable_glyphs lib hosts allow_http) (ss_glyphs ss) \<and>
     opt_all (url_allowed lib hosts allow_http) (ss_sprite_base ss) \<and> ss_source_tiles ss \<noteq> [] \<and>
     (\<forall>(n, ts) \<in> set (ss_source_tiles ss). valid_style_source_name n \<and> ts \<noteq> [] \<and> length ts \<le> MAX_TEMPLATES_PER_SOURCE
        \<and> list_all (usable_template lib hosts allow_http) ts) \<and>
     (\<forall>(n, z) \<in> set (ss_source_maxzoom ss). z \<le> 24) \<and> length (ss_fontstacks ss) \<le> MAX_FONTSTACKS"

definition style_sound :: "style_lib \<Rightarrow> app_state \<Rightarrow> string \<Rightarrow> style_state \<Rightarrow> bool" where
  "style_sound lib st src ss \<longleftrightarrow> (\<exists>url hosts. allowed_hosts_of st src = Some (url, hosts)
     \<and> style_usable lib hosts (allow_private_egress (knobs st)) ss)"

text \<open>
  The learned styles of the current configuration are sound for the current catalog, there are at most
  four, and none is of a later generation. Entries of an older generation are never used.
\<close>

definition styles_ok :: "style_lib \<Rightarrow> app_state \<Rightarrow> bool" where
  "styles_ok lib st \<longleftrightarrow> distinct (map fst (style_states st)) \<and> length (style_states st) \<le> MAX_LEARNED_STYLE_ENTRIES
     \<and> (\<forall>src ss. map_of (style_states st) src = Some ss \<longrightarrow> ss_config_generation ss \<le> config_generation st)
     \<and> (\<forall>src ss. learned_at st src (config_generation st) = Some ss \<longrightarrow> style_sound lib st src ss)"

text \<open>What the other tasks do: the catalog changes only with the generation, which never goes back.\<close>

definition advance :: "app_state \<Rightarrow> app_state \<Rightarrow> bool" where
  "advance st st' \<longleftrightarrow> knobs st' = knobs st \<and> config_generation st \<le> config_generation st'
     \<and> (config_generation st' = config_generation st \<longrightarrow> sources st' = sources st)"

definition keeps_styles :: "style_lib \<Rightarrow> (app_state \<Rightarrow> app_state) \<Rightarrow> bool" where
  "keeps_styles lib f \<longleftrightarrow> (\<forall>st. (styles_ok lib st \<longrightarrow> styles_ok lib (f st)) \<and> advance st (f st))"

lemma advance_refl [simp]: "advance st st"
  by (simp add: advance_def)

lemma advance_trans: "advance st st' \<Longrightarrow> advance st' st'' \<Longrightarrow> advance st st''"
  by (auto simp: advance_def dest: antisym)

lemma learned_usable: "learned_from lib hosts allow_http m ss \<Longrightarrow> style_usable lib hosts allow_http ss"
  using learned_tile[of lib hosts allow_http m ss] learned_zoom[of lib hosts allow_http m ss]
    learned_fromD(6,7,8,10)[of lib hosts allow_http m ss]
  by (auto simp: style_usable_def)

lemma style_sound_cong: "sources st' = sources st \<Longrightarrow> knobs st' = knobs st \<Longrightarrow> style_sound lib st' src ss = style_sound lib st src ss"
  by (simp add: style_sound_def allowed_hosts_of_def)

lemma styles_ok_cong:
  assumes "sources st' = sources st" "knobs st' = knobs st" "style_states st' = style_states st"
    "config_generation st' = config_generation st"
  shows "styles_ok lib st' = styles_ok lib st"
  using assms by (simp add: styles_ok_def learned_at_def style_sound_cong[OF assms(1,2)])

lemma styles_ok_simps [simp]:
  "styles_ok lib (st\<lparr>flights := fl\<rparr>) = styles_ok lib st" "styles_ok lib (st\<lparr>cache := c\<rparr>) = styles_ok lib st"
  "styles_ok lib (release_lock k i st) = styles_ok lib st"
  by (rule styles_ok_cong; simp add: release_lock_def)+

lemma learned_at_update:
  "learned_at (st\<lparr>style_states := AList.update src ss (style_states st)\<rparr>) src' g =
     (if src' = src then if ss_config_generation ss = g then Some ss else None else learned_at st src' g)"
  by (simp add: learned_at_def update_conv')

lemma length_update: "length (AList.update k v al) = (if map_of al k = None then length al + 1 else length al)"
  by (induction al) auto

lemma insert_style_ok:
  assumes "styles_ok lib st" "style_sound lib st src ss" "ss_config_generation ss \<le> config_generation st"
    "map_of (style_states st) src \<noteq> None \<or> length (style_states st) < MAX_LEARNED_STYLE_ENTRIES"
  shows "styles_ok lib (st\<lparr>style_states := AList.update src ss (style_states st)\<rparr>)"
proof -
  let ?st = "st\<lparr>style_states := AList.update src ss (style_states st)\<rparr>"
  have s: "style_sound lib ?st src' ss' = style_sound lib st src' ss'" for src' ss' by (rule style_sound_cong) simp_all
  have "style_sound lib st src' ss'" if "learned_at ?st src' (config_generation st) = Some ss'" for src' ss'
    using that assms(1,2) by (auto simp: learned_at_update styles_ok_def split: if_splits)
  moreover have "length (AList.update src ss (style_states st)) \<le> MAX_LEARNED_STYLE_ENTRIES"
    using assms(1,4) by (auto simp: length_update styles_ok_def)
  moreover have "ss_config_generation ss' \<le> config_generation st"
    if "map_of (AList.update src ss (style_states st)) src' = Some ss'" for src' ss'
    using that assms(1,3) by (auto simp: update_conv' styles_ok_def split: if_splits)
  ultimately show ?thesis using assms(1) by (auto simp: styles_ok_def s distinct_update)
qed

lemma persist_ok:
  assumes "keeps_styles lib others" "styles_ok lib st"
  shows "styles_ok lib (persist_style_state lib t others src ss st)"
  using assms by (simp add: persist_style_state_def Let_def keeps_styles_def split: option.split)

lemma learned_atD: "learned_at st src g = Some ss \<Longrightarrow> map_of (style_states st) src = Some ss \<and> ss_config_generation ss = g"
  by (auto simp: learned_at_def split: option.splits if_splits)

lemma refreshed_sound: "style_sound lib st src (ss\<lparr>ss_fetched_at := n\<rparr>) = style_sound lib st src ss"
  by (simp add: style_sound_def style_usable_def)

text \<open>How an attempt to learn ends.\<close>

lemma learn_style_cases:
  assumes "learn_style lib env src g st = (d, st')"
  obtains (untouched) "st' = st \<or> st' = sw_waited env st"
  | (refreshed) e where "config_generation (sw_waited env st) = g" "learned_at (sw_waited env st) src g = Some e"
      "st' = publish_style lib env src (e\<lparr>ss_fetched_at := sw_done env\<rparr>) (sw_waited env st)" "d = Some (ss_document e)"
  | (learned) url hosts cg style tag ss where "allowed_hosts_of st src = Some (url, hosts)"
      "learn_document lib (sw_tilejson env) (knobs st) hosts g cg (sw_done env) style tag = Some ss"
      "cg = (case learned_at st src g of Some e \<Rightarrow> ss_generation e | None \<Rightarrow> g)"
      "config_generation (sw_waited env st) = g"
      "map_of (style_states (sw_waited env st)) src \<noteq> None
        \<or> length (style_states (sw_waited env st)) < MAX_LEARNED_STYLE_ENTRIES"
      "st' = publish_style lib env src ss (sw_waited env st)" "d = Some style"
proof -
  let ?st = "sw_waited env st"
  show ?thesis
  proof (cases "allowed_hosts_of st src")
    case None
    with assms untouched show ?thesis by (simp add: learn_style_def)
  next
    case (Some p)
    obtain url hosts where h: "allowed_hosts_of st src = Some (url, hosts)" using Some by (cases p) simp
    let ?cg = "case learned_at st src g of Some e \<Rightarrow> ss_generation e | None \<Rightarrow> g"
    let ?f = "fetch_json lib (sw_style env) (knobs st) url (Option.bind (learned_at st src g) ss_upstream_validator) MAX_STYLE_JSON_BYTES"
    show ?thesis
    proof (cases "url_allowed lib hosts (allow_private_egress (knobs st)) url")
      case False
      with assms untouched h show ?thesis by (simp add: learn_style_def)
    next
      case True
      note eq = assms[unfolded learn_style_def h option.case prod.case Let_def, simplified True, simplified]
      show ?thesis
      proof (cases ?f)
        case (Inl e)
        with eq untouched show ?thesis by simp
      next
        case (Inr r)
        show ?thesis
        proof (cases r)
          case None
          with Inr eq show ?thesis using untouched refreshed by (auto split: if_splits option.splits)
        next
          case (Some p)
          obtain style tag where p: "p = (style, tag)" by (cases p)
          let ?l = "learn_document lib (sw_tilejson env) (knobs st) hosts g ?cg (sw_done env) style tag"
          show ?thesis
          proof (cases ?l)
            case None
            with Inr Some p eq untouched show ?thesis by simp
          next
            case (Some ss)
            note l = this
            show ?thesis
            proof (cases "config_generation ?st \<noteq> g
                \<or> (map_of (style_states ?st) src = None \<and> MAX_LEARNED_STYLE_ENTRIES \<le> length (style_states ?st))")
              case True
              with Inr \<open>r = Some p\<close> p eq l have "st' = ?st" by (auto split: if_splits)
              with untouched show ?thesis by blast
            next
              case False
              with Inr \<open>r = Some p\<close> p eq l have r: "st' = publish_style lib env src ss ?st" "d = Some style"
                by (auto split: if_splits)
              from False have "config_generation ?st = g"
                "map_of (style_states ?st) src \<noteq> None \<or> length (style_states ?st) < MAX_LEARNED_STYLE_ENTRIES" by auto
              from learned[OF h l refl this r] show ?thesis .
            qed
          qed
        qed
      qed
    qed
  qed
qed

text \<open>What is published is sound in the state it is published in, whatever the wait for the upstream met.\<close>

lemma learn_style_publishes:
  assumes "learn_style lib env src g st = (d, st')" "advance st (sw_waited env st)" "g \<le> config_generation st"
  obtains (untouched) "st' = st \<or> st' = sw_waited env st"
  | (published) style where "st' = publish_style lib env src style (sw_waited env st)"
      "styles_ok lib (sw_waited env st) \<Longrightarrow>
         styles_ok lib ((sw_waited env st)\<lparr>style_states := AList.update src style (style_states (sw_waited env st))\<rparr>)"
  using assms(1)
proof (cases rule: learn_style_cases)
  let ?st = "sw_waited env st"
  case (refreshed e)
  have "style_sound lib ?st src e" if "styles_ok lib ?st" using that refreshed(1,2) by (auto simp: styles_ok_def)
  then show ?thesis
    using learned_atD[OF refreshed(2)] refreshed(1)
    by (intro published[OF refreshed(3)] insert_style_ok) (simp_all add: refreshed_sound)
next
  let ?st = "sw_waited env st"
  case (learned url hosts cg style tag ss)
  obtain m where "learned_from lib hosts (allow_private_egress (knobs st)) m ss" and g: "ss_config_generation ss = g"
    using learn_document_sound[OF learned(2)] by metis
  then have "style_sound lib st src ss" using learned(1) learned_usable by (auto simp: style_sound_def)
  moreover have "knobs ?st = knobs st" "sources ?st = sources st"
    using assms(2,3) learned(4) by (auto simp: advance_def dest: antisym)
  ultimately have "style_sound lib ?st src ss" using style_sound_cong by blast
  then show ?thesis using g learned(4,5) by (intro published[OF learned(6)] insert_style_ok) simp_all
qed (rule untouched)

lemma keeps_stylesD:
  assumes "keeps_styles lib f"
  shows "styles_ok lib st \<Longrightarrow> styles_ok lib (f st)" "advance st (f st)" "config_generation st \<le> config_generation (f st)"
  using assms by (auto simp: keeps_styles_def advance_def)

lemma learn_style_ok:
  assumes "keeps_styles lib (sw_waited env)" "keeps_styles lib (sw_storing env)" "styles_ok lib st"
    "g \<le> config_generation st"
  shows "styles_ok lib (snd (learn_style lib env src g st))"
proof -
  obtain d st' where r: "learn_style lib env src g st = (d, st')" by (metis surj_pair)
  note w = keeps_stylesD[OF assms(1)]
  from r w(2) assms(4) have "styles_ok lib st'"
  proof (cases rule: learn_style_publishes)
    case untouched
    with assms(3) w(1) show ?thesis by blast
  next
    case (published style)
    with persist_ok[OF assms(2) published(2)[OF w(1)[OF assms(3)]]] show ?thesis by (simp add: publish_style_def)
  qed
  with r show ?thesis by simp
qed

lemma fetch_and_learn_ok:
  assumes "keeps_styles lib (sw_flight env)" "keeps_styles lib (sw_waited env)" "keeps_styles lib (sw_storing env)"
    "styles_ok lib st"
  shows "styles_ok lib (snd (fetch_and_learn lib env src st))"
proof -
  have "styles_ok lib (sw_flight env (st\<lparr>flights := fl\<rparr>))"
    "config_generation st \<le> config_generation (sw_flight env (st\<lparr>flights := fl\<rparr>))" for fl
    using keeps_stylesD(1,3)[OF assms(1), of "st\<lparr>flights := fl\<rparr>"] assms(4) by simp_all
  note l = this learn_style_ok[OF assms(2,3) this]
  show ?thesis
    using assms(4) l(1,3)
    by (auto simp: fetch_and_learn_def Let_def split: option.split prod.split)
      (metis snd_conv)
qed

section \<open>Reading back\<close>

lemma map_filter_pairs:
  assumes "distinct ids"
  shows "map_of (List.map_filter (\<lambda>i. map_option (Pair i) (g i)) ids) a = (if a \<in> set ids then g a else None)"
    "distinct (map fst (List.map_filter (\<lambda>i. map_option (Pair i) (g i)) ids))"
    "set (map fst (List.map_filter (\<lambda>i. map_option (Pair i) (g i)) ids)) = {i \<in> set ids. g i \<noteq> None}"
proof -
  have k: "set (map fst (List.map_filter (\<lambda>i. map_option (Pair i) (g i)) js)) = {i \<in> set js. g i \<noteq> None}" for js
    by (induction js) (auto simp: map_filter_simps split: option.split)
  then show "set (map fst (List.map_filter (\<lambda>i. map_option (Pair i) (g i)) ids)) = {i \<in> set ids. g i \<noteq> None}" .
  show "map_of (List.map_filter (\<lambda>i. map_option (Pair i) (g i)) ids) a = (if a \<in> set ids then g a else None)"
    using assms by (induction ids) (auto simp: map_filter_simps split: option.split)
  show "distinct (map fst (List.map_filter (\<lambda>i. map_option (Pair i) (g i)) ids))"
    using assms
  proof (induction ids)
    case (Cons i js)
    have "i \<notin> set (map fst (List.map_filter (\<lambda>i. map_option (Pair i) (g i)) js))" using Cons.prems unfolding k by simp
    with Cons show ?case by (auto simp: map_filter_simps split: option.split)
  qed (simp add: map_filter_simps)
qed

definition signature_of :: "style_lib \<Rightarrow> app_state \<Rightarrow> string \<Rightarrow> string option" where
  "signature_of lib st i = (if allowed_hosts_of st i = None then None
     else Option.bind (sources st i) (style_source_signature lib))"

lemma style_signatures_alt: "style_signatures lib st ids = List.map_filter (\<lambda>i. map_option (Pair i) (signature_of lib st i)) ids"
proof -
  have "(case sources st i of Some s \<Rightarrow> (case upstream s of
            Style url hosts \<Rightarrow> map_option (Pair i) (style_source_signature lib s) | _ \<Rightarrow> None) | None \<Rightarrow> None)
      = map_option (Pair i) (signature_of lib st i)" for i
    by (auto simp: signature_of_def allowed_hosts_of_def split: option.split upstream_template.split)
  then show ?thesis by (simp add: style_signatures_def)
qed

lemma style_signatures_facts:
  assumes "distinct ids"
  shows "map_of (style_signatures lib st ids) src = (if src \<in> set ids then signature_of lib st src else None)"
    "distinct (map fst (style_signatures lib st ids))"
    "length (style_signatures lib st ids) \<le> length (filter (\<lambda>i. allowed_hosts_of st i \<noteq> None) ids)"
proof -
  show "map_of (style_signatures lib st ids) src = (if src \<in> set ids then signature_of lib st src else None)"
    "distinct (map fst (style_signatures lib st ids))"
    unfolding style_signatures_alt by (rule map_filter_pairs[OF assms])+
  show "length (style_signatures lib st ids) \<le> length (filter (\<lambda>i. allowed_hosts_of st i \<noteq> None) ids)"
    unfolding style_signatures_alt by (induction ids) (auto simp: map_filter_simps signature_of_def split: option.split)
qed

definition restored :: "style_lib \<Rightarrow> nat \<Rightarrow> app_state \<Rightarrow> learned_row list \<Rightarrow> (string \<times> style_state) list" where
  "restored lib g st rows =
     List.map_filter (\<lambda>r. map_option (\<lambda>p. (ls_source r, into_live g p)) (restore_row lib st r)) rows"

lemma restored_keys: "set (map fst (restored lib g st rows)) \<subseteq> set (map ls_source rows)"
  by (induction rows) (auto simp: restored_def map_filter_simps split: option.splits)

lemma restored_facts:
  assumes "distinct (map ls_source rows)"
  shows "distinct (map fst (restored lib g st rows))" "length (restored lib g st rows) \<le> length rows"
    "map_of (restored lib g st rows) src = (case find (\<lambda>r. ls_source r = src) rows of
       Some r \<Rightarrow> map_option (into_live g) (restore_row lib st r) | None \<Rightarrow> None)"
proof -
  have step: "restored lib g st (r # rs) =
      (case restore_row lib st r of Some p \<Rightarrow> (ls_source r, into_live g p) # restored lib g st rs | None \<Rightarrow> restored lib g st rs)" for r rs
    by (simp add: restored_def map_filter_simps split: option.split)
  have nil: "restored lib g st [] = []" by (simp add: restored_def map_filter_simps)
  show "length (restored lib g st rows) \<le> length rows"
    by (induction rows) (auto simp: step nil split: option.split)
  show "distinct (map fst (restored lib g st rows))"
    using assms
  proof (induction rows)
    case (Cons r rs)
    have "ls_source r \<notin> set (map fst (restored lib g st rs))" using restored_keys[of lib g st rs] Cons.prems by auto
    with Cons show ?case by (auto simp: step split: option.split)
  qed (simp add: nil)
  show "map_of (restored lib g st rows) src = (case find (\<lambda>r. ls_source r = src) rows of
       Some r \<Rightarrow> map_option (into_live g) (restore_row lib st r) | None \<Rightarrow> None)"
    using assms
  proof (induction rows)
    case (Cons r rs)
    have n: "map_of (restored lib g st rs) (ls_source r) = None"
      using restored_keys[of lib g st rs] Cons.prems unfolding map_of_eq_None_iff by auto
    show ?case
    proof (cases "src = ls_source r")
      case True
      with n show ?thesis by (auto simp: step split: option.split)
    next
      case False
      with Cons show ?thesis by (auto simp: step split: option.split)
    qed
  qed (simp add: nil)
qed

text \<open>How a rehydration ends.\<close>

lemma rehydrate_cases:
  assumes "distinct ids"
  obtains (failed) c where "rehydrate_style_state lib env ids g st = st\<lparr>cache := c, style_states := []\<rparr>"
      "same_tiles (cache st) c" "\<not> joined (rh_reconcile env) \<or> (\<exists>p. faults (task_env (rh_reconcile env)) p \<noteq> None)"
  | (read) rows c1 c where
      "reconcile_learned_styles (task_env (rh_reconcile env)) (style_signatures lib st ids) MAX_PERSISTED_STYLE_BYTES (cache st) = (Inr rows, c1)"
      "rehydrate_style_state lib env ids g st = st\<lparr>cache := c, style_states := restored lib g st rows\<rparr>"
      "same_tiles (cache st) c" "distinct (map ls_source rows)"
      "\<And>src. find (\<lambda>r. ls_source r = src) rows = matching_row (style_signatures lib st ids) MAX_PERSISTED_STYLE_BYTES (conn (cache st)) src"
proof -
  let ?sigs = "style_signatures lib st ids" and ?t = "rh_reconcile env"
  let ?r = "reconcile_learned_styles (task_env ?t) ?sigs MAX_PERSISTED_STYLE_BYTES (cache st)"
  have c1: "same_tiles (cache st) (snd ?r)" by simp
  show ?thesis
  proof (cases "joined ?t")
    case False
    then have "rehydrate_style_state lib env ids g st = st\<lparr>cache := record_operation_error (cache st), style_states := []\<rparr>"
      by (simp add: rehydrate_style_state_def cache_task_def)
    with False show ?thesis by (intro failed[of "record_operation_error (cache st)"]) simp_all
  next
    case True
    show ?thesis
    proof (cases ?r)
      case (Pair res c')
      note r = this
      show ?thesis
      proof (cases res)
        case (Inl e)
        have "\<exists>p. faults (task_env ?t) p \<noteq> None"
        proof (rule ccontr)
          assume "\<not> ?thesis"
          then obtain rows c'' where "?r = (Inr rows, c'')" using reconcile_total[of "task_env ?t" ?sigs] by metis
          with r Inl show False by simp
        qed
        with True r Inl c1 show ?thesis
          by (intro failed[of "record_operation_error c'"]) (simp_all add: rehydrate_style_state_def cache_task_def)
      next
        case (Inr rows)
        note eff = reconcile_effect[OF r[unfolded Inr] style_signatures_facts(2)[OF assms]]
        have f: "find (\<lambda>r. ls_source r = src) rows = matching_row ?sigs MAX_PERSISTED_STYLE_BYTES (conn (cache st)) src" for src
          using eff(3)[of src] eff(1) by (simp add: style_row_def)
        let ?inv = "map ls_source (filter (\<lambda>r. restore_row lib st r = None) rows)"
        let ?c = "if ?inv = [] then c' else if \<not> rh_deleted env then record_operation_error c'
            else log_cache_err (delete_invalid (rh_delete env) 0 ?inv c')"
        have "same_tiles c' (snd (delete_invalid envs i xs c'))" for envs i xs
        proof (induction xs arbitrary: i c')
          case (Cons x xs)
          have s: "same_tiles c' (snd (delete_learned_style (envs i) x c'))" by simp
          from Cons.IH same_tiles_trans[OF s] s show ?case by (auto split: prod.split sum.split)
        qed simp
        then have d: "same_tiles c' (log_cache_err (delete_invalid (rh_delete env) 0 ?inv c'))"
          by (simp add: log_cache_err_def split: prod.split sum.split) (metis snd_conv)
        have s: "same_tiles (cache st) ?c" using c1 r d same_tiles_trans[of "cache st" c'] by (auto simp del: map_is_Nil_conv)
        have "rehydrate_style_state lib env ids g st = st\<lparr>cache := ?c, style_states := restored lib g st rows\<rparr>"
          using True r Inr by (simp add: rehydrate_style_state_def cache_task_def restored_def Let_def)
        from read[OF _ this s eff(2) f] r Inr show ?thesis by simp
      qed
    qed
  qed
qed

text \<open>Whatever the store does, only styles that are sound for the pushed catalog come back, under the new generation.\<close>

lemma valid_persisted_usable:
  assumes "valid_persisted_style lib p s allow_http" "upstream s = Style url hosts"
  shows "style_usable lib hosts allow_http (into_live g p)"
  using assms
  by (auto simp: valid_persisted_style_def style_usable_def into_live_def list_ex_iff list_all_iff not_less
      split: option.splits if_splits)

lemma restored_sound:
  assumes "restore_row lib st r = Some p" "ls_source r = src"
  shows "style_sound lib st src (into_live g p)"
proof -
  obtain s where s: "sources st src = Some s" "valid_persisted_style lib p s (allow_private_egress (knobs st))"
    using assms by (auto simp: restore_row_def split: option.splits if_splits)
  then obtain url hosts where u: "upstream s = Style url hosts"
    by (auto simp: valid_persisted_style_def split: upstream_template.splits)
  with s valid_persisted_usable[OF s(2) u, of g] show ?thesis by (simp add: style_sound_def allowed_hosts_of_def)
qed

lemma matched_rows_length:
  assumes "distinct (map ls_source rows)" "distinct (map fst sigs)"
    "\<And>src. find (\<lambda>r. ls_source r = src) rows = matching_row sigs m d src"
  shows "length rows \<le> length sigs"
proof -
  have "set (map ls_source rows) \<subseteq> set (map fst sigs)"
  proof
    fix s assume "s \<in> set (map ls_source rows)"
    then have "find (\<lambda>r. ls_source r = s) rows \<noteq> None" by (auto simp: find_None_iff)
    then have "map_of sigs s \<noteq> None" unfolding assms(3) by (auto simp: matching_row_def split: option.splits)
    then show "s \<in> set (map fst sigs)" by (simp add: map_of_eq_None_iff)
  qed
  then have "card (set (map ls_source rows)) \<le> card (set (map fst sigs))" by (intro card_mono) simp_all
  then show ?thesis unfolding distinct_card[OF assms(1)] distinct_card[OF assms(2)] by simp
qed

lemma rehydrate_sound:
  assumes "distinct ids" "length (filter (\<lambda>i. allowed_hosts_of st i \<noteq> None) ids) \<le> MAX_LEARNED_STYLE_ENTRIES"
    "rehydrate_style_state lib env ids g st = st'"
  shows "(distinct (map fst (style_states st')) \<and> length (style_states st') \<le> MAX_LEARNED_STYLE_ENTRIES
     \<and> (\<forall>src ss. map_of (style_states st') src = Some ss \<longrightarrow> ss_config_generation ss = g \<and> style_sound lib st src ss))
    \<and> st' = st\<lparr>cache := cache st', style_states := style_states st'\<rparr> \<and> same_tiles (cache st) (cache st')"
  using assms(1)
proof (cases rule: rehydrate_cases[where lib = lib and env = env and g = g and st = st])
  case (failed c)
  with assms(3) show ?thesis by auto
next
  case (read rows c1 c)
  note r = restored_facts[OF read(4), of lib g st]
  have "length rows \<le> MAX_LEARNED_STYLE_ENTRIES"
    using matched_rows_length[OF read(4) style_signatures_facts(2)[OF assms(1)] read(5)]
      style_signatures_facts(3)[OF assms(1), of lib st] assms(2) by linarith
  moreover have "ss_config_generation ss = g \<and> style_sound lib st src ss"
    if m: "map_of (restored lib g st rows) src = Some ss" for src ss
  proof -
    obtain row p where "find (\<lambda>r. ls_source r = src) rows = Some row" "restore_row lib st row = Some p" "ss = into_live g p"
      using m unfolding r(3) by (auto split: option.splits)
    moreover from this(1) have "ls_source row = src" by (auto simp: find_Some_iff)
    ultimately show ?thesis using restored_sound[of lib st row p src g] by (simp add: into_live_def)
  qed
  moreover have "st' = st\<lparr>cache := c, style_states := restored lib g st rows\<rparr>" using assms(3) read(2) by simp
  ultimately show ?thesis using r(1,2) read(3) by simp
qed

section \<open>The properties\<close>

text \<open>
  Learning keeps the learned styles sound: whatever the style document and its TileJSON documents say, and
  whatever other tasks do meanwhile that keep this rule and change the catalog only with the generation, every
  style learned under the current configuration has glyph, sprite and tile templates on the hosts its catalog
  entry allows, complete templates, a bounded number of them and zooms of at most 24; at most four styles are
  held; nothing is learned while a push is in progress.
\<close>

theorem learning_keeps_styles_sound:
  assumes "keeps_styles lib (sw_flight env)" "keeps_styles lib (sw_waited env)" "keeps_styles lib (sw_storing env)"
    "styles_ok lib st"
  shows "styles_ok lib (snd (fetch_and_learn lib env src st)) \<and> styles_ok lib (snd (ensure_style_learned lib env src st))
    \<and> (odd (config_generation st) \<longrightarrow> fetch_and_learn lib env src st = (None, st))"
  using fetch_and_learn_ok[OF assms, of src] assms(4)
  by (auto simp: ensure_style_learned_def fetch_and_learn_def split: prod.split)


section \<open>Assets\<close>

text \<open>What a response with a body is: an asset of one of the kinds, under its own media type.\<close>

definition asset_answer :: "style_lib \<Rightarrow> (string \<Rightarrow> bool) \<Rightarrow> style_asset_kind set \<Rightarrow> http_response \<Rightarrow> bool" where
  "asset_answer lib legal kinds r \<longleftrightarrow> http_status r \<in> {200, 304, 400, 404, 502, 503} \<and>
     (if http_status r = 200
      then \<exists>kind \<in> kinds. \<exists>ct. valid_asset lib kind ct (body r)
         \<and> map_of (headers r) ''content-type'' = Some (content_type_value legal ct)
      else body r = [])"

lemma plain_answer: "n \<in> {304, 400, 404, 502, 503} \<Longrightarrow> asset_answer lib legal kinds (plain_response n)"
  by (auto simp: asset_answer_def plain_response_def)

lemma tile_answer:
  assumes "valid_asset lib kind ct b" "kind \<in> kinds"
  shows "asset_answer lib legal kinds (tile_http_response legal ct etag stale b inm)"
  using assms by (auto simp: asset_answer_def tile_http_response_def tile_http_response_with_max_age_def insert_etag_def)

lemma asset_response_answer: "valid_cached_asset lib kind t \<Longrightarrow> asset_answer lib legal {kind} (asset_response legal t inm)"
  unfolding asset_response_def by (rule tile_answer[of lib kind]) (simp_all add: valid_cached_asset_def)

lemma serve_asset_answer:
  "fst (serve_asset lib legal kind touches k inm now t st) = Some r \<Longrightarrow> asset_answer lib legal {kind} r"
  by (auto simp: serve_asset_def asset_response_answer plain_answer split: if_splits prod.splits)

lemma fetch_asset_answer: "asset_answer lib legal {ak_kind key} (fst (fetch_asset_response lib legal w env key url inm st))"
proof -
  have r: "valid_cached_asset lib kind (refreshed t n) = valid_cached_asset lib kind t" for kind t n
    by (simp add: valid_cached_asset_def refreshed_def blob_bytes_def)
  have s: "valid_cached_asset lib kind t \<Longrightarrow> asset_answer lib legal {kind}
      (tile_http_response legal (content_type t) (strong_etag t) True (blob_bytes t) inm)" for kind t
    by (rule tile_answer) (simp_all add: valid_cached_asset_def)
  have f: "valid_asset lib kind (f_content_type f) (f_body f) \<Longrightarrow> valid_cached_asset lib kind (fresh_tile h f n)" for kind f h n
    by (simp add: valid_cached_asset_def fresh_tile_def blob_bytes_def)
  show ?thesis
    by (auto simp: fetch_asset_response_def Let_def plain_answer r s f intro!: asset_response_answer
        split: prod.split sum.split option.split)
qed

lemma cache_first_answer:
  assumes "\<And>now t st r. fst (serve now t st) = Some r \<Longrightarrow> asset_answer lib legal kinds r"
    and "\<And>st. asset_answer lib legal kinds (fst (fetch_store st))"
  shows "asset_answer lib legal kinds (fst (cache_first_single_flight env k serve fetch_store st))"
proof -
  have l: "asset_answer lib legal kinds r" if "fst (look_and_serve serve t now k st) = Some r" for t now st r
    using that assms(1) by (auto simp: look_and_serve_def split: prod.splits sum.splits option.splits)
  have l': "look_and_serve serve t now k st = (Some r, sp, st') \<Longrightarrow> asset_answer lib legal kinds r" for t now st r sp st'
    using l by (metis fst_conv)
  have f: "fetch_store st = (r, st') \<Longrightarrow> asset_answer lib legal kinds r" for st r st' using assms(2) by (metis fst_conv)
  show ?thesis
    by (auto simp: cache_first_single_flight_def Let_def plain_answer l' f split: prod.split option.split)
qed

lemma fetch_allowed_answer: "asset_answer lib legal {ak_kind key} (fst (fetch_allowed lib legal env key url inm st))"
  by (simp add: fetch_allowed_def Let_def plain_answer fetch_asset_answer split: option.split)

lemma with_learned_answer:
  "(\<And>learned st'. asset_answer lib legal kinds (fst (k learned st'))) \<Longrightarrow> asset_answer lib legal kinds (fst (with_learned lib env src st k))"
  by (auto simp: with_learned_def Let_def plain_answer split: prod.split option.split bool.split)

lemma answer_mono: "asset_answer lib legal kinds r \<Longrightarrow> kinds \<subseteq> kinds' \<Longrightarrow> asset_answer lib legal kinds' r"
  unfolding asset_answer_def by (auto split: if_splits)

lemma style_route_answers:
  "asset_answer lib legal {Glyph} (fst (glyphs lib legal env src fontstack rg inm st)) \<and>
   asset_answer lib legal {if strip_suffix ''.json'' suffix \<noteq> None then SpriteJson else SpritePng}
     (fst (sprite_variant lib legal env src inm variant suffix st)) \<and>
   asset_answer lib legal {VectorTile, RasterTile} (fst (vector_tile lib legal env src name z x y inm st))"
proof (intro conjI)
  have F: "asset_answer lib legal {kind} (fst (fetch_allowed lib legal env \<lparr>ak_health = src, ak_key = k, ak_kind = kind\<rparr> u inm st))" for kind k u st
    using fetch_allowed_answer[of lib legal "\<lparr>ak_health = src, ak_key = k, ak_kind = kind\<rparr>"] by simp
  note C = cache_first_answer[OF serve_asset_answer]
  show "asset_answer lib legal {Glyph} (fst (glyphs lib legal env src fontstack rg inm st))"
    by (auto simp: glyphs_def Let_def plain_answer F intro!: with_learned_answer C split: option.split)
  show "asset_answer lib legal {if strip_suffix ''.json'' suffix \<noteq> None then SpriteJson else SpritePng}
     (fst (sprite_variant lib legal env src inm variant suffix st))"
    unfolding sprite_variant_def Let_def
    by (intro with_learned_answer C) (auto simp: plain_answer F split: option.split)
  have V: "asset_answer lib legal {VectorTile, RasterTile} (fst (cache_first_single_flight env k
      (serve_asset lib legal kind True k inm) (fetch_allowed lib legal env \<lparr>ak_health = src, ak_key = k, ak_kind = kind\<rparr> u inm) st))"
    if "kind \<in> {VectorTile, RasterTile}" for kind k u st
    by (rule answer_mono[of _ _ "{kind}", OF C[OF _ F]]) (use that in auto)
  show "asset_answer lib legal {VectorTile, RasterTile} (fst (vector_tile lib legal env src name z x y inm st))"
    unfolding vector_tile_def Let_def
    by (intro with_learned_answer) (auto simp: plain_answer intro!: V split: option.split list.split)
qed


section \<open>An example\<close>

definition ex_template :: string where "ex_template = ''https://t.example/{z}/{x}/{y}''"

definition ex_document :: json where
  "ex_document = JObj [(''layers'', JArr []),
     (''sources'', JObj [(''omt'', JObj [(''type'', JStr ''vector''), (''tiles'', JArr [JStr ex_template])])])]"

definition ex_style :: style_state where
  "ex_style = \<lparr>ss_glyphs = None, ss_source_tiles = [(''omt'', [ex_template])], ss_raster_sources = {}, ss_source_maxzoom = [],
     ss_fontstacks = [], ss_sprite_base = None, ss_config_generation = 0, ss_generation = 0, ss_document = ex_document,
     ss_fetched_at = 50, ss_upstream_validator = None\<rparr>"

definition ex_lib :: style_lib where
  "ex_lib = \<lparr>sl_parse_url = (\<lambda>u. Some (\<lparr>scheme = ''https'', username = '''', password = None, host_str = Some ''t.example'',
       port = None, query = None, fragment = None\<rparr>, u)),
     sl_to_vec = (\<lambda>_. Some []), sl_from_slice = (\<lambda>_. Some ex_document), sl_encode_source = (\<lambda>s. Some [of_nat (maxzoom s)]),
     sl_encode_state = (\<lambda>_. Some []), sl_decode_state = (\<lambda>_. Some (from_live ex_style)), sl_sha256 = id, sl_percent_encode = id\<rparr>"

definition ex_style_source :: chart_source where
  "ex_style_source = ex_xyz\<lparr>src_id := ''base'', upstream := Style ''https://t.example/style'' [''t.example'']\<rparr>"

definition ex_style_app :: app_state where
  "ex_style_app = ex_app\<lparr>sources := [''base'' \<mapsto> ex_style_source]\<rparr>"

definition ex_style_env :: style_env where
  "ex_style_env = \<lparr>sw_now = 50, sw_recheck = 50, sw_done = 50,
     sw_style = \<lparr>host_of = (\<lambda>_. Some ''t.example''), egress_open = False, send = (\<lambda>_ _ _ _. Send_timed_out), clock = (\<lambda>_. 0)\<rparr>,
     sw_tilejson = (\<lambda>_. \<lparr>host_of = (\<lambda>_. None), egress_open = False, send = (\<lambda>_ _ _ _. Send_timed_out), clock = (\<lambda>_. 0)\<rparr>),
     sw_task = \<lparr>joined = True, task_env = ex_env\<rparr>, sw_flight = id, sw_waited = id, sw_storing = id\<rparr>"

definition ex_rehydrate :: rehydrate_env where
  "ex_rehydrate = \<lparr>rh_reconcile = \<lparr>joined = True, task_env = ex_env\<rparr>, rh_deleted = True, rh_delete = (\<lambda>_. ex_env)\<rparr>"

lemma learning_keeps_styles_sound_witness:
  "styles_ok ex_lib (snd (fetch_and_learn ex_lib ex_style_env ''base'' ex_style_app))"
proof -
  have "keeps_styles ex_lib id" by (simp add: keeps_styles_def)
  moreover have "styles_ok ex_lib ex_style_app"
    by (simp add: styles_ok_def learned_at_def ex_style_app_def ex_app_def)
  ultimately show ?thesis
    using learning_keeps_styles_sound[of ex_lib ex_style_env ex_style_app "''base''"] by (simp add: ex_style_env_def)
qed

lemma ex_learned:
  "learn_document ex_lib tj default_knobs [''t.example''] 0 0 50 ex_document None = Some ex_style"
proof -
  have u: "usable_template ex_lib [''t.example''] False ex_template"
    by (simp add: usable_template_def url_allowed_def style_url_allowed_def ex_lib_def ex_template_def starts_with_def
        MAX_STYLE_URL_BYTES_def eq_ignore_ascii_case_def)
  show ?thesis
    by (simp add: learn_document_def ex_document_def ex_style_def learn_source_def source_templates_def tile_templates_def
        jindex_def optional_maxzoom_def opt_all_def valid_style_source_name_def is_raster_def u default_knobs_def
        MAX_STYLE_LAYERS_def MAX_STYLE_SOURCES_def MAX_TEMPLATES_PER_SOURCE_def MAX_STYLE_SOURCE_NAME_BYTES_def
        is_control_def code_def)
qed


end
