(* ===== verification/Fetcher_Props.thy ===== *)
theory Fetcher_Props
  imports Fetcher Cache_Claims
begin

text \<open>
  What serving a tile guarantees: only safe media types leave the cache, no row is served past the window
  its source allows, a failed revalidation costs nothing, a stored tile is served again without the
  network, the fetch is bounded, and the shared state (cache, health, single-flight registry, permits)
  stays well formed through every path.
\<close>

section \<open>The fetch\<close>

lemma fetch_upstream_eq:
  "fetch_upstream w kn src url inm h =
    (let attempt = (\<lambda>retried h'. case guarded_get w kn retried url inm (timeout_ms h' src) of
           Inr r \<Rightarrow> (case read_capped_to (max_blob_bytes kn) r of
               None \<Rightarrow> (Inl Transport, h')
             | Some b \<Rightarrow> (Inr (ur_status r, \<lparr>f_content_type = response_content_type r,
                 f_validator = response_validator r, f_body = b\<rparr>), record_success src (clock w retried) h'))
         | Inl e \<Rightarrow> (Inl e, if e = Timeout then record_timeout src (clock w retried) h' else h'))
     in if guarded_get w kn False url inm (timeout_ms h src) = Inl Timeout
        then attempt True (record_timeout src (clock w False) h) else attempt False h)"
  unfolding fetch_upstream_def Let_def
  by (subst fetch_loop.simps, subst fetch_loop.simps) (simp split: sum.split fetch_error.split)

lemma fetch_health_inv [inv_intro]:
  "health_inv h \<Longrightarrow> health_inv (snd (fetch_upstream w kn src url inm h))"
  by (simp add: fetch_upstream_eq Let_def inv_intro split: sum.split option.split)

lemma fetch_bounded:
  "fst (fetch_upstream w kn src url inm h) = Inr (sc, f) \<Longrightarrow> length (f_body f) \<le> max_blob_bytes kn"
  by (auto simp: fetch_upstream_eq Let_def dest!: read_capped_bounded split: sum.splits option.splits if_splits)

lemma timeout_escalates:
  assumes "unat (base_ms h) < 2 ^ 62" "health_inv h"
  shows "timeout_ms h src \<le> timeout_ms (record_timeout src now h) src"
proof -
  let ?n = "streak_of h src"
  have n: "?n \<le> STREAK_CAP" by (rule streak_of_bound[OF assms(2)])
  have n': "streak_of (record_timeout src now h) src = min (?n + 1) STREAK_CAP"
    by (simp add: streak_of_def[of "record_timeout src now h"] record_timeout_lookup)
  have le: "?n \<le> min (?n + 1) STREAK_CAP" using n by simp
  have "unat (base_ms h) * 2 ^ ?n \<le> unat (base_ms h) * 2 ^ min (?n + 1) STREAK_CAP"
    by (rule mult_le_mono2, rule power_increasing[OF le]) simp
  then have "unat (schedule h ?n) \<le> unat (schedule h (min (?n + 1) STREAK_CAP))"
    unfolding schedule_exact[OF assms(1) n] schedule_exact[OF assms(1) min.cobounded2]
    by (rule min.mono) simp
  moreover have "schedule (record_timeout src now h) m = schedule h m" for m
    by (simp add: schedule_def base_unchanged)
  ultimately show ?thesis by (simp add: timeout_ms_def n' word_le_nat_alt)
qed

section \<open>Cache writes\<close>

lemma log_cache_err_inv [inv_intro]: "cache_inv (snd rc) \<Longrightarrow> cache_inv (log_cache_err rc)"
  by (cases rc) (simp add: log_cache_err_def split: sum.split)

lemma log_cache_err_conn [simp]:
  "conn (log_cache_err rc) = conn (snd rc)" "total_bytes (log_cache_err rc) = total_bytes (snd rc)"
  "pinned_bytes (log_cache_err rc) = pinned_bytes (snd rc)"
  by (cases rc; simp add: log_cache_err_def split: sum.split)+

lemma store_and_evict_inv [inv_intro]:
  "cache_inv c \<Longrightarrow> 0 \<le> bytes t \<Longrightarrow> cache_inv (store_and_evict env cap k t now c)"
  by (simp add: store_and_evict_def run_cache_write_def inv_intro)

lemma cache_get_inv [inv_intro]: "cache_inv c \<Longrightarrow> cache_inv (snd (cache_get t k c))"
  by (simp add: cache_get_def inv_intro)

lemma cache_get_conn [simp]: "conn (snd (cache_get t k c)) = conn c"
  by (simp add: cache_get_def)

text \<open>A lookup that meets no failure.\<close>

definition healthy :: "task \<Rightarrow> bool" where
  "healthy t \<longleftrightarrow> joined t \<and> faults (task_env t) S_lookup = None"

lemma cache_get_healthy: "healthy t \<Longrightarrow> cache_get t k c = (Inr (tile_at (conn c) k), c)"
  by (simp add: healthy_def cache_get_def get_tile_at)

lemma is_pinned_conn: "conn c = conn c' \<Longrightarrow> cache_is_pinned t k c = cache_is_pinned t k c'"
  by (simp add: cache_is_pinned_def is_pinned_def split: option.split)

text \<open>A lookup that answers a row answers the row of the table.\<close>

lemma cache_get_row: "fst (cache_get t k c) = Inr (Some r) \<Longrightarrow> tile_at (conn c) k = Some r"
  by (auto simp: cache_get_def get_def tile_at_def split: if_splits option.splits)

section \<open>Safe content\<close>

definition safe_outcome :: "fetch_outcome \<Rightarrow> bool" where
  "safe_outcome out \<longleftrightarrow> (case out of
     Hit r \<Rightarrow> tr_status r = 200 \<and> acceptable_content_type (tr_content_type r) | _ \<Rightarrow> True)"

lemma safe_simps [simp]:
  "safe_outcome (Not_modified e s a)" "safe_outcome (Empty n)" "safe_outcome Unavailable"
  "safe_outcome Not_allowed" "safe_outcome (Bad_request b)"
  by (simp_all add: safe_outcome_def)

lemma safe_response: "is_safe_cached_200 t \<Longrightarrow> safe_outcome (respond_cached t inm stale)"
  "is_safe_cached_200 t \<Longrightarrow> safe_outcome (Hit (to_response t stale))"
  by (auto simp: respond_cached_def safe_outcome_def to_response_def is_safe_cached_200_def as_u16_def)

lemma refreshed_safe [simp]: "is_safe_cached_200 (refreshed t now) = is_safe_cached_200 t"
  by (simp add: is_safe_cached_200_def refreshed_def)

lemma safe_store: "safe_outcome (fst (store_200 sha env k f inm st))"
  by (simp add: store_200_def Let_def) (simp add: safe_outcome_def)

lemma safe_fill_locked: "safe_outcome (fst (fill_locked sha w env spec st))"
  by (auto simp: fill_locked_def revalidate_def fetch_miss_def coalesced_def negative_cache_def Let_def
      safe_response safe_store split: prod.splits sum.splits option.splits)

lemma safe_fill: "safe_outcome (fst (fill sha w env spec st))"
  using safe_fill_locked[of sha w env spec] by (simp add: fill_def Let_def split: option.split prod.split) (metis fst_conv)

lemma safe_fill_and_await: "safe_outcome (fst (fill_and_await sha w env ended spec st))"
  using safe_fill[of sha w env]
  by (simp add: fill_and_await_def run_fill_def split: option.split prod.split) (metis fst_conv)

lemma safe_inline: "fst (serve_inline st spec windows now t) = Some out \<Longrightarrow> safe_outcome out"
  by (auto simp: serve_inline_def Let_def safe_response split: if_splits prod.splits)

text \<open>How a request that reaches the cache ends: served inline, or by the fill it awaited.\<close>

lemma get_tile_cases:
  assumes "get_tile sha display w rq src z x y inm st = (l, sp, st')"
  obtains (refused) "st' = st" "sp = []" "tl_max_age l = None"
      "tl_outcome l = Not_allowed \<or> (\<exists>e. tl_outcome l = Bad_request e)"
  | (inline) s url spec c t where "sources st src = Some s" "expand_upstream display s z x y = Inr url"
      "spec = \<lparr>fs_source = src, fs_z = z, fs_x = x, fs_y = y, fs_url = url, fs_if_none_match = inm\<rparr>"
      "cache_get (rq_lookup rq) (spec_key spec) (cache st) = (Inr (Some t), c)"
      "serve_inline (st\<lparr>cache := c\<rparr>) spec (tile_windows_for st src) (rq_now rq) t = (Some (tl_outcome l), sp, st')"
      "tl_max_age l = max_age_seconds s"
  | (filled) s url spec c st1 where "sources st src = Some s" "expand_upstream display s z x y = Inr url"
      "spec = \<lparr>fs_source = src, fs_z = z, fs_x = x, fs_y = y, fs_url = url, fs_if_none_match = inm\<rparr>"
      "snd (cache_get (rq_lookup rq) (spec_key spec) (cache st)) = c"
      "st1 = st\<lparr>cache := c\<rparr>" "sp = []"
      "fill_and_await sha w (rq_fill rq) (rq_ended rq) spec st1 = (tl_outcome l, st')"
      "tl_max_age l = max_age_seconds s"
proof (cases "sources st src")
  case None
  with assms refused show ?thesis by (auto simp: get_tile_def rejected_def)
next
  case (Some s)
  note s = this
  show ?thesis
  proof (cases "expand_upstream display s z x y")
    case (Inl e)
    with assms refused s show ?thesis
      by (auto simp: get_tile_def rejected_def split: upstream_template.splits)
  next
    case (Inr url)
    then have ns: "(case upstream s of Style u hs \<Rightarrow> True | _ \<Rightarrow> False) = False"
      by (simp add: expand_upstream_def split: upstream_template.splits)
    let ?spec = "\<lparr>fs_source = src, fs_z = z, fs_x = x, fs_y = y, fs_url = url, fs_if_none_match = inm\<rparr>"
    obtain found c where get: "cache_get (rq_lookup rq) (spec_key ?spec) (cache st) = (found, c)"
      by (meson surj_pair)
    have nf: ?thesis if "(served, sp', st2) = (None, [], st\<lparr>cache := c\<rparr>)"
      "(case found of Inr (Some t) \<Rightarrow> serve_inline (st\<lparr>cache := c\<rparr>) ?spec (tile_windows_for st src) (rq_now rq) t
          | _ \<Rightarrow> (None, [], st\<lparr>cache := c\<rparr>)) = (served, sp', st2)" for served sp' st2
    proof -
      obtain out st3 where fa: "fill_and_await sha w (rq_fill rq) (rq_ended rq) ?spec (st\<lparr>cache := c\<rparr>) = (out, st3)"
        by (meson surj_pair)
      have "l = \<lparr>tl_outcome = out, tl_max_age = max_age_seconds s\<rparr>" "sp = []" "st' = st3"
        using assms that fa unfolding get_tile_def s option.case ns if_False Inr sum.case Let_def get prod.case
        by simp_all
      with fa get s Inr show ?thesis by (intro filled) simp_all
    qed
    show ?thesis
    proof (cases "\<exists>t. found = Inr (Some t)")
      case False
      then show ?thesis by (intro nf[of None "[]" "st\<lparr>cache := c\<rparr>"]) (auto split: sum.split option.split)
    next
      case True
      then obtain t where t: "found = Inr (Some t)" by blast
      obtain served sp' st2 where si: "serve_inline (st\<lparr>cache := c\<rparr>) ?spec (tile_windows_for st src) (rq_now rq) t
          = (served, sp', st2)" by (metis prod_cases3)
      show ?thesis
      proof (cases served)
        case None
        then have "sp' = [] \<and> st2 = st\<lparr>cache := c\<rparr>"
          using si by (auto simp: serve_inline_def Let_def split: if_splits prod.splits)
        with si t None show ?thesis by (intro nf[of None "[]" "st\<lparr>cache := c\<rparr>"]) simp_all
      next
        case (Some out)
        have "l = \<lparr>tl_outcome = out, tl_max_age = max_age_seconds s\<rparr>" "sp = sp'" "st' = st2"
          using assms unfolding get_tile_def s option.case ns if_False Inr sum.case Let_def get t prod.case si Some
          by simp_all
        with si Some get t s Inr show ?thesis by (intro inline) simp_all
      qed
    qed
  qed
qed


section \<open>Windows\<close>

fun served_at :: "fetch_outcome \<Rightarrow> (bool \<times> int) option" where
  "served_at (Hit r) = Some (tr_stale r, tr_fetched_at r)"
| "served_at (Not_modified e stale since) = Some (stale, since)"
| "served_at _ = None"

lemma served_respond [simp]:
  "served_at (respond_cached t inm stale) = Some (stale, fetched_at t)"
  "served_at (Hit (to_response t stale)) = Some (stale, fetched_at t)"
  "fetched_at (refreshed t now) = now"
  "tr_stale (to_response t stale) = stale" "tr_fetched_at (to_response t stale) = fetched_at t"
  by (simp_all add: respond_cached_def to_response_def refreshed_def)

lemma served_store:
  "served_at (fst (store_200 sha env k f inm st)) = Some (stale, since) \<Longrightarrow> \<not> stale \<and> since = fe_done env"
  by (auto simp: store_200_def Let_def split: if_splits)

definition window_ok :: "tile_windows \<Rightarrow> fill_env \<Rightarrow> tile_key \<Rightarrow> bool \<Rightarrow> int \<Rightarrow> tile_cache \<Rightarrow> bool" where
  "window_ok W env k stale since c \<longleftrightarrow>
     (if stale
      then fe_stale env - since < tw_max_stale_secs W \<or> (\<not> tw_volatile W \<and> cache_is_pinned (fe_pin env) k c)
      else fe_now env - since < tw_fresh_secs W \<or> since = fe_done env)"

lemma served_revalidate:
  assumes "served_at (fst (revalidate sha w env spec W t st)) = Some (stale, since)"
  shows "window_ok W env (spec_key spec) stale since (cache (snd (revalidate sha w env spec W t st)))"
  using assms
  by (auto simp: revalidate_def Let_def window_ok_def may_serve_stale_def
      split: prod.splits sum.splits if_splits dest!: served_store)

lemma served_miss:
  assumes "served_at (fst (fetch_miss sha w env spec W st)) = Some (stale, since)"
  shows "window_ok W env (spec_key spec) stale since (cache (snd (fetch_miss sha w env spec W st)))"
  using assms
  by (auto simp: fetch_miss_def Let_def window_ok_def may_serve_stale_def negative_cache_def
      split: prod.splits sum.splits option.splits if_splits dest!: served_store)

lemma served_fill_locked:
  assumes "fill_locked sha w env spec st = (out, st')" "served_at out = Some (stale, since)"
  shows "window_ok (tile_windows_for st (fs_source spec)) env (spec_key spec) stale since (cache st')"
proof -
  let ?W = "tile_windows_for st (fs_source spec)"
  obtain found c where g: "cache_get (fe_lookup env) (spec_key spec) (cache st) = (found, c)" by (meson surj_pair)
  let ?ex = "case found of Inr t \<Rightarrow> t | Inl _ \<Rightarrow> None"
  note eq = assms(1)[unfolded fill_locked_def Let_def g prod.case]
  show ?thesis
  proof (cases "coalesced (knobs st) ?W (fe_now env) (fs_if_none_match spec) ?ex")
    case (Some o1)
    with eq assms(2) show ?thesis
      by (auto simp: coalesced_def window_ok_def split: option.splits if_splits)
  next
    case None
    note eq = eq[unfolded None option.case]
    show ?thesis
    proof (cases "\<exists>t. ?ex = Some t \<and> is_safe_cached_200 t")
      case True
      then obtain t where t: "?ex = Some t" "is_safe_cached_200 t" by blast
      with eq served_revalidate[of sha w env spec ?W t "st\<lparr>cache := c\<rparr>"] assms(2) show ?thesis by simp
    next
      case False
      then have "fetch_miss sha w env spec ?W (st\<lparr>cache := c\<rparr>) = (out, st')"
        using eq by (auto split: option.splits if_splits)
      with served_miss[of sha w env spec ?W "st\<lparr>cache := c\<rparr>"] assms(2) show ?thesis by simp
    qed
  qed
qed

lemma served_inline:
  "fst (serve_inline st spec W now t) = Some out \<Longrightarrow> served_at out = Some (stale, since) \<Longrightarrow>
     (if stale then now - since < tw_max_stale_secs W else now - since < tw_fresh_secs W)"
  by (auto simp: serve_inline_def try_touch_def Let_def split: if_splits prod.splits)

text \<open>What a fill hands to the part that runs under the lock.\<close>

lemma fill_cases:
  assumes "fill_and_await sha w env ended spec st = (out, st')"
  obtains (none) "out = Unavailable" "cache st' = cache st \<or> cache st' = record_operation_error (cache st)"
      "health st' = health st" "fill_permits st' = fill_permits st" "touch_permits st' = touch_permits st"
      "flights st' = flights st \<or> flights st' = snd (inflight_lock (inflight_key (spec_key spec)) (flights st))"
  | (ran) fl lock st1 st2 where
      "inflight_lock (inflight_key (spec_key spec)) (flights st) = (Some lock, fl)"
      "0 < fill_permits st" "st1 = fe_waited env (st\<lparr>fill_permits := fill_permits st - 1, flights := fl\<rparr>)"
      "fill_locked sha w env spec st1 = (out, st2)"
      "st' = (release_lock (inflight_key (spec_key spec)) lock st2)\<lparr>fill_permits := fill_permits st2 + 1\<rparr>"
proof (cases "try_fill_permit st")
  case None
  with assms none show ?thesis by (simp add: fill_and_await_def spawn_fill_def)
next
  case (Some s1)
  then have p: "0 < fill_permits st" "s1 = st\<lparr>fill_permits := fill_permits st - 1\<rparr>"
    by (auto simp: try_fill_permit_def split: if_splits)
  show ?thesis
  proof (cases ended)
    case False
    with assms none Some show ?thesis by (auto simp: fill_and_await_def spawn_fill_def)
  next
    case True
    show ?thesis
    proof (cases "inflight_lock (inflight_key (spec_key spec)) (flights st)")
      case (Pair l fl)
      show ?thesis
      proof (cases l)
        case None
        with assms none Some True Pair p show ?thesis
          by (auto simp: fill_and_await_def spawn_fill_def run_fill_def fill_def Let_def)
      next
        case (Some lock)
        obtain st2 where "fill_locked sha w env spec (fe_waited env (s1\<lparr>flights := fl\<rparr>)) = (out, st2)"
          "st' = (release_lock (inflight_key (spec_key spec)) lock st2)\<lparr>fill_permits := fill_permits st2 + 1\<rparr>"
          using assms True Pair p Some \<open>try_fill_permit st = Some s1\<close>
          by (auto simp: fill_and_await_def spawn_fill_def run_fill_def fill_def Let_def release_lock_def
              split: prod.splits)
        with ran p Pair Some show ?thesis by simp
      qed
    qed
  qed
qed

section \<open>The shared state\<close>

definition state_ok :: "app_state \<Rightarrow> bool" where
  "state_ok st \<longleftrightarrow> cache_inv (cache st) \<and> health_inv (health st) \<and> flight_inv (flights st)"

definition keeps :: "(app_state \<Rightarrow> bool) \<Rightarrow> (app_state \<Rightarrow> app_state) \<Rightarrow> bool" where
  "keeps I f \<longleftrightarrow> (\<forall>s. I s \<longrightarrow> I (f s))"

lemma keepsD: "keeps I f \<Longrightarrow> I s \<Longrightarrow> I (f s)"
  by (simp add: keeps_def)

lemma keeps_id [simp]: "keeps I id" "keeps I (\<lambda>s. s)"
  by (simp_all add: keeps_def)

text \<open>A property of the state, and the lease of a task that waits under it.\<close>

definition holds :: "(app_state \<Rightarrow> bool) \<Rightarrow> lease \<Rightarrow> app_state \<Rightarrow> bool" where
  "holds I l st \<longleftrightarrow> I st \<and> l \<in> set (leases (flights st))"

text \<open>The other tasks during a fill keep \<open>H l\<close>, for the lease \<open>l\<close> of its key.\<close>

definition tame_fill :: "(lease \<Rightarrow> app_state \<Rightarrow> bool) \<Rightarrow> string \<Rightarrow> fill_env \<Rightarrow> bool" where
  "tame_fill H key env \<longleftrightarrow> (\<forall>lock. keeps (H (key, lock, False)) (fe_waited env) \<and> keeps (H (key, lock, False)) (fe_others env))"

abbreviation tame_env :: "string \<Rightarrow> fill_env \<Rightarrow> bool" where
  "tame_env \<equiv> tame_fill (holds state_ok)"

lemma row_nonneg: "cache_inv c \<Longrightarrow> tile_at (conn c) k = Some t \<Longrightarrow> 0 \<le> bytes t"
  using cache_invD(2)[of c] by (auto simp: tile_at_def bytes_nonneg_def row_bytes_def dest: find_row_Some)

text \<open>
  What every task keeps of the state. The contract \<open>steps\<close> is a property of the state that implies its
  well-formedness and survives each kind of update a request makes outside the single-flight registry; what
  runs under the lock of a flight is proved to keep it here.
\<close>

locale steps =
  fixes I :: "app_state \<Rightarrow> bool"
  assumes well_formed: "I st \<Longrightarrow> state_ok st"
    and cache_step: "I st \<Longrightarrow> cache_inv c \<Longrightarrow> I (st\<lparr>cache := c\<rparr>)"
    and health_step: "I st \<Longrightarrow> health_inv h \<Longrightarrow> I (st\<lparr>health := h\<rparr>)"
    and fill_step: "I st \<Longrightarrow> I (st\<lparr>fill_permits := n\<rparr>)"
    and touch_step: "I st \<Longrightarrow> I (st\<lparr>touch_permits := n\<rparr>)"
begin

lemma parts:
  assumes "I st" shows "cache_inv (cache st)" "health_inv (health st)" "flight_inv (flights st)"
  using well_formed[OF assms] by (simp_all add: state_ok_def)

lemma on_cache: "I st \<Longrightarrow> (cache_inv (cache st) \<Longrightarrow> cache_inv c) \<Longrightarrow> I (st\<lparr>cache := c\<rparr>)"
  using cache_step parts(1) by blast

lemma lookup_keeps: "I st \<Longrightarrow> I (st\<lparr>cache := snd (cache_get t k (cache st))\<rparr>)"
  by (rule on_cache) (auto intro: cache_get_inv)

lemma store_200_keeps: "I st \<Longrightarrow> I (snd (store_200 sha env k f inm st))"
  by (auto simp: store_200_def Let_def fresh_tile_def intro!: on_cache inv_intro)

lemma negative_cache_keeps: "I st \<Longrightarrow> I (snd (negative_cache env k sc st))"
  by (auto simp: negative_cache_def negative_def NEGATIVE_ROW_COST_BYTES_def intro!: on_cache inv_intro)

lemma others_keep: "keeps I f \<Longrightarrow> I st \<Longrightarrow> health_inv h \<Longrightarrow> I (f (st\<lparr>health := h\<rparr>))"
  using health_step keepsD by blast

lemma fetched_health:
  "I st \<Longrightarrow> fetch_upstream w kn src url inm (health st) = (res, h) \<Longrightarrow> health_inv h"
  using fetch_health_inv[of "health st" w kn src url inm] parts(2) by auto

lemma refreshed_nonneg: "0 \<le> bytes t \<Longrightarrow> 0 \<le> bytes (refreshed t n)"
  by (simp add: refreshed_def)

lemma revalidate_keeps:
  assumes "keeps I (fe_others env)" "I st" "0 \<le> bytes t"
  shows "I (snd (revalidate sha w env spec W t st))"
proof -
  obtain res h where f: "fetch_upstream w (knobs st) (fs_source spec) (fs_url spec) (upstream_validator t) (health st) = (res, h)"
    by (meson surj_pair)
  note kept = others_keep[OF assms(1,2) fetched_health[OF assms(2) f]]
  have wr: "cache_inv c \<Longrightarrow> cache_inv (run_cache_write b (\<lambda>c. log_cache_err (put e k (refreshed t n) False m c)) c)" for b e k n m c
    using refreshed_nonneg[OF assms(3), of n] by (simp add: run_cache_write_def inv_intro)
  show ?thesis using kept store_200_keeps[OF kept] on_cache[OF kept wr]
    by (auto simp: revalidate_def f Let_def split: sum.split)
qed

lemma fetch_miss_keeps:
  assumes "keeps I (fe_others env)" "I st"
  shows "I (snd (fetch_miss sha w env spec W st))"
proof -
  obtain res h where f: "fetch_upstream w (knobs st) (fs_source spec) (fs_url spec) None (health st) = (res, h)"
    by (meson surj_pair)
  note kept = others_keep[OF assms fetched_health[OF assms(2) f]]
  let ?o = "fe_others env (st\<lparr>health := h\<rparr>)"
  obtain found c where g: "cache_get (fe_late env) (spec_key spec) (cache ?o) = (found, c)" by (meson surj_pair)
  have "I (?o\<lparr>cache := c\<rparr>)"
    using cache_get_inv[of "cache ?o" "fe_late env" "spec_key spec"] g by (intro on_cache[OF kept]) simp
  with store_200_keeps[OF kept] negative_cache_keeps[OF kept] kept show ?thesis
    by (simp add: fetch_miss_def f g Let_def split: sum.split prod.split)
qed

lemma found_nonneg: "I st \<Longrightarrow> cache_get t k (cache st) = (Inr (Some r), c) \<Longrightarrow> 0 \<le> bytes r"
  using cache_get_row[of t k "cache st" r] parts(1) by (auto intro: row_nonneg)

lemma fill_locked_keeps:
  assumes "keeps I (fe_others env)" "I st"
  shows "I (snd (fill_locked sha w env spec st))"
proof -
  obtain found c where g: "cache_get (fe_lookup env) (spec_key spec) (cache st) = (found, c)" by (meson surj_pair)
  have c: "I (st\<lparr>cache := c\<rparr>)"
    using cache_get_inv[of "cache st" "fe_lookup env" "spec_key spec"] g by (intro on_cache[OF assms(2)]) simp
  have nn: "0 \<le> bytes t" if "found = Inr (Some t)" for t
    using found_nonneg[of st "fe_lookup env" "spec_key spec" t c] that g assms(2) by simp
  show ?thesis
    using c fetch_miss_keeps[OF assms(1) c] revalidate_keeps[OF assms(1) c nn]
    by (auto simp: fill_locked_def g Let_def split: option.split sum.split)
qed

lemma spawn_fill_keeps: "I st \<Longrightarrow> I (snd (spawn_fill spec st))"
  using fill_step by (auto simp: spawn_fill_def try_fill_permit_def split: option.split)

lemma touched: "I st \<Longrightarrow> I (snd (try_touch st k t now))"
  using touch_step by (auto simp: try_touch_def)

lemma touch_keeps: "I st \<Longrightarrow> I (run_touch t k now st)"
  using touch_step[OF on_cache[of st "if joined t then log_cache_err (touch (task_env t) k now (cache st)) else cache st"]]
  by (auto simp: run_touch_def inv_intro)

end

text \<open>
  The contract \<open>upkeep\<close> adds the single-flight registry. \<open>H l\<close> is the property with one more lease, \<open>l\<close>: it is
  what a task that takes a lock has until it releases it, and what the other tasks keep for it meanwhile. The
  facts proved in it hold for the plain well-formedness and for the invariant of the whole service.
\<close>

locale upkeep = steps I for I +
  fixes H :: "lease \<Rightarrow> app_state \<Rightarrow> bool"
  assumes held_steps: "steps (H l)"
    and lock_step: "I st \<Longrightarrow> inflight_lock key (flights st) = (r, fl) \<Longrightarrow> I (st\<lparr>flights := fl\<rparr>)"
    and locked_step: "I st \<Longrightarrow> inflight_lock key (flights st) = (Some lock, fl) \<Longrightarrow> H (key, lock, False) (st\<lparr>flights := fl\<rparr>)"
    and seen_step: "I st \<Longrightarrow> I (st\<lparr>flights := snd (inflight_contains k (flights st))\<rparr>)"
    and release_step: "H (key, lock, False) st \<Longrightarrow> I (release_lock key lock st)"
    and leave_step: "H (key, lock, False) st \<Longrightarrow> I (st\<lparr>flights := drop_lease (key, lock, False) (flights st)\<rparr>)"

sublocale upkeep \<subseteq> held: steps "H l" for l
  by (rule held_steps)

context upkeep begin

lemma locked:
  assumes "I st" "inflight_lock key (flights st) = (r, fl)"
  shows "I (st\<lparr>flights := fl\<rparr>)" "r = Some lock \<Longrightarrow> H (key, lock, False) (st\<lparr>flights := fl\<rparr>)"
  using lock_step[OF assms] locked_step[OF assms(1)] assms(2) by auto

lemma fill_keeps:
  assumes "I st" "tame_fill H (inflight_key (spec_key spec)) env"
  shows "I (snd (fill sha w env spec st))"
proof -
  let ?key = "inflight_key (spec_key spec)"
  obtain r fl where l: "inflight_lock ?key (flights st) = (r, fl)" by (meson surj_pair)
  note k = locked[OF assms(1) l]
  show ?thesis
  proof (cases r)
    case None
    with k(1) show ?thesis by (simp add: fill_def Let_def l)
  next
    case (Some lock)
    have t: "keeps (H (?key, lock, False)) (fe_waited env)" "keeps (H (?key, lock, False)) (fe_others env)"
      using assms(2) by (simp_all add: tame_fill_def)
    from release_step[OF held.fill_locked_keeps[OF t(2) keepsD[OF t(1) k(2)[OF Some]], of sha w spec]] show ?thesis
      by (cases "fill_locked sha w env spec (fe_waited env (st\<lparr>flights := fl\<rparr>))") (simp add: fill_def Let_def l Some)
  qed
qed

lemma run_fill_keeps:
  assumes "I st" "tame_fill H (inflight_key (spec_key spec)) env"
  shows "I (snd (run_fill sha w env spec st))"
  using fill_step[OF fill_keeps[OF assms, of sha w]] by (cases "fill sha w env spec st") (simp add: run_fill_def)

lemma fill_and_await_keeps:
  assumes "I st" "tame_fill H (inflight_key (spec_key spec)) env"
  shows "I (snd (fill_and_await sha w env ended spec st))"
proof -
  obtain s st1 where s: "spawn_fill spec st = (s, st1)" by (meson surj_pair)
  have "I st1" using spawn_fill_keeps[OF assms(1), of spec] s by simp
  moreover have "s = Some spec" if "s \<noteq> None" using s that by (auto simp: spawn_fill_def split: option.splits)
  moreover have "I (st\<lparr>cache := record_operation_error (cache st)\<rparr>)" using assms(1) by (auto intro: on_cache)
  ultimately show ?thesis
    using run_fill_keeps[OF _ assms(2), of st1 sha w] by (auto simp: fill_and_await_def s split: option.split)
qed

lemma serve_inline_keeps:
  assumes "I st" shows "I (snd (snd (serve_inline st spec W now t)))"
proof -
  obtain busy fl where b: "inflight_contains (inflight_key (spec_key spec)) (flights st) = (busy, fl)" by (meson surj_pair)
  have f: "I (st\<lparr>flights := fl\<rparr>)" using seen_step[OF assms, of "inflight_key (spec_key spec)"] b by simp
  have sp: "I (snd (if busy then (None, st\<lparr>flights := fl\<rparr>) else spawn_fill spec (st\<lparr>flights := fl\<rparr>)))"
    using f spawn_fill_keeps[OF f] by simp
  show ?thesis
    using assms touched[OF assms, of "spec_key spec" t now] sp f
    by (cases "try_touch st (spec_key spec) t now"; cases "spawn_fill spec (st\<lparr>flights := fl\<rparr>)")
      (auto simp: serve_inline_def b Let_def)
qed

lemma get_tile_keeps:
  assumes "I st" "tame_fill H (inflight_key (src, z, x, y)) (rq_fill rq)"
    and "get_tile sha display w rq src z x y inm st = (l, sp, st')"
  shows "I st'"
  using assms(3)
proof (cases rule: get_tile_cases)
  case refused
  with assms(1) show ?thesis by simp
next
  case (inline s url spec c t)
  from serve_inline_keeps[OF lookup_keeps[OF assms(1)], of "rq_lookup rq" "spec_key spec" spec "tile_windows_for st src" "rq_now rq" t]
    inline(4,5) show ?thesis by simp
next
  case (filled s url spec c st1)
  have "I st1" using lookup_keeps[OF assms(1), of "rq_lookup rq" "spec_key spec"] filled(4,5) by simp
  moreover have "tame_fill H (inflight_key (spec_key spec)) (rq_fill rq)" using assms(2) filled(3) by (simp add: spec_key_def)
  ultimately show ?thesis using fill_and_await_keeps filled(7) by (metis snd_conv)
qed

end

text \<open>The registry's own laws, for every instance.\<close>

lemma lease_taken: "inflight_lock key s = (r, fl) \<Longrightarrow> set (leases s) \<subseteq> set (leases fl)"
  "inflight_lock key s = (Some lock, fl) \<Longrightarrow> leases fl = (key, lock, False) # leases s"
  "inflight_lock key s = (None, fl) \<Longrightarrow> leases fl = leases s"
  "leases (snd (inflight_contains k s)) = leases s"
  by (auto simp: inflight_lock_def inflight_contains_def Let_def split: option.splits if_splits)

lemma lease_given_back:
  assumes "(key, lock, False) \<in> set (leases (flights st))"
  shows "flights (release_lock key lock st) = drop_lease (key, lock, True) (inflight_finish key lock (flights st))"
    "mset (leases (flights (release_lock key lock st))) = mset (leases (flights st)) - {#(key, lock, False)#}"
  by (simp_all add: release_lock_def drop_lease_def inflight_finish_def Let_def)

lemma flight_inv_laws:
  assumes "flight_inv s"
  shows "inflight_lock key s = (r, fl) \<Longrightarrow> flight_inv fl" "flight_inv (snd (inflight_contains k s))"
    "(key, lock, False) \<in> set (leases s) \<Longrightarrow> flight_inv (drop_lease (key, lock, True) (inflight_finish key lock s))"
    "flight_inv (drop_lease l s)"
  using assms lock_inv[OF assms, of key] by (simp_all add: contains_inv drop_inv finish_inv)

lemma state_ok_simps [simp]:
  "state_ok (st\<lparr>fill_permits := n\<rparr>) = state_ok st" "state_ok (st\<lparr>touch_permits := n\<rparr>) = state_ok st"
  by (simp_all add: state_ok_def)

interpretation plain: upkeep state_ok "holds state_ok"
proof unfold_locales
  show "state_ok st \<Longrightarrow> inflight_lock key (flights st) = (r, fl) \<Longrightarrow> state_ok (st\<lparr>flights := fl\<rparr>)" for st key r fl
    using flight_inv_laws(1) by (auto simp: state_ok_def)
  show "state_ok st \<Longrightarrow> inflight_lock key (flights st) = (Some lock, fl) \<Longrightarrow> holds state_ok (key, lock, False) (st\<lparr>flights := fl\<rparr>)"
    for st key lock fl using flight_inv_laws(1) lease_taken(2) by (auto simp: state_ok_def holds_def)
  show "holds state_ok (key, lock, False) st \<Longrightarrow> state_ok (release_lock key lock st)" for key lock st
    by (simp add: state_ok_def holds_def release_lock_def flight_inv_laws(3))
qed (simp_all add: state_ok_def holds_def flight_inv_laws)

end
