(* ===== verification/Upkeep.thy ===== *)
theory Upkeep
  imports Style_Claims Fetcher_Props
begin

text \<open>
  The contract \<open>upkeep\<close> for the routes of the style proxy (\<open>container/tilecache/src/style.rs\<close>): serving and
  fetching an asset under its flight, learning a style and reading the styles back. \<open>style_upkeep\<close> extends
  the contract by the updates of the learned styles that keep them sound.
\<close>

lemma cache_task_inv:
  "cache_inv c \<Longrightarrow> cache_inv (snd (work c)) \<Longrightarrow> cache_inv (snd (cache_task b work c))"
  by (cases "work c") (auto simp: cache_task_def split: sum.split)

text \<open>The other tasks while an asset route waits: for its flight and for the upstream.\<close>

definition tame_asset :: "(app_state \<Rightarrow> bool) \<Rightarrow> (lease \<Rightarrow> app_state \<Rightarrow> bool) \<Rightarrow> route_env \<Rightarrow> bool" where
  "tame_asset I H env \<longleftrightarrow> (\<forall>l. keeps (H l) (ae_flight env) \<and> keeps (H l) (fe_others (ae_fill env))) \<and> keeps I (ae_late env)"

lemma tame_assetD:
  assumes "tame_asset I H env"
  shows "keeps (H l) (ae_flight env)" "keeps (H l) (fe_others (ae_fill env))" "keeps I (ae_late env)"
  using assms unfolding tame_asset_def by blast+

text \<open>The other tasks while a style is learned: for the flight, the upstream and the store.\<close>

definition tame_style :: "(lease \<Rightarrow> app_state \<Rightarrow> bool) \<Rightarrow> style_env \<Rightarrow> bool" where
  "tame_style H env \<longleftrightarrow> (\<forall>l. keeps (H l) (sw_flight env) \<and> keeps (H l) (sw_waited env) \<and> keeps (H l) (sw_storing env)
     \<and> (\<forall>s. H l s \<longrightarrow> advance s (sw_flight env s) \<and> advance s (sw_waited env s)))"

section \<open>Serving an asset\<close>

lemma look_and_serve_keeps:
  assumes "P st" "\<And>s. P s \<Longrightarrow> P (s\<lparr>cache := snd (cache_get t k (cache s))\<rparr>)" "\<And>r s. P s \<Longrightarrow> P (snd (snd (serve now r s)))"
  shows "P (snd (snd (look_and_serve serve t now k st)))"
proof -
  obtain found c where g: "cache_get t k (cache st) = (found, c)" by (meson surj_pair)
  with assms(2)[OF assms(1)] have "P (st\<lparr>cache := c\<rparr>)" by simp
  with assms(3) show ?thesis by (simp add: look_and_serve_def g split: sum.split option.split)
qed

context steps begin

lemma task_keeps:
  assumes "I st" "\<And>c. cache_inv c \<Longrightarrow> cache_inv (snd (work c))" "cache_task b work (cache st) = (x, c)"
  shows "I (st\<lparr>cache := c\<rparr>)"
  using cache_task_inv[of "cache st" work b] parts(1)[OF assms(1)] assms(2,3)
  by (intro cache_step[OF assms(1)]) simp

lemma serve_asset_keeps:
  "I st \<Longrightarrow> I (snd (snd (serve_asset lib legal kind tch k inm now t st)))"
  using touch_step by (simp add: serve_asset_def try_touch_def split: prod.split)

lemma store_asset_keeps: "I st \<Longrightarrow> 0 \<le> bytes t \<Longrightarrow> I (store_asset env k t st)"
  by (auto simp: store_asset_def intro!: on_cache inv_intro)

lemma fetch_asset_keeps:
  assumes "keeps I (fe_others env)" "I st"
  shows "I (snd (fetch_asset_response lib legal w env key url inm st))"
proof -
  obtain found c where g: "cache_get (fe_lookup env) (ak_key key) (cache st) = (found, c)" by (meson surj_pair)
  have c: "I (st\<lparr>cache := c\<rparr>)" using lookup_keeps[OF assms(2), of "fe_lookup env" "ak_key key"] g by simp
  define old where "old = (case found of
      Inr (Some t) \<Rightarrow> if valid_cached_asset lib (ak_kind key) t then Some t else None | _ \<Rightarrow> None)"
  have nn: "0 \<le> bytes t" if "old = Some t" for t
    using found_nonneg[of st "fe_lookup env" "ak_key key" t c] that g assms(2)
    by (auto simp: old_def split: sum.splits option.splits if_splits)
  obtain res h where f: "fetch_upstream w (knobs st) (ak_health key) url (Option.bind old upstream_validator) (health st) = (res, h)"
    by (meson surj_pair)
  have k: "I (fe_others env (st\<lparr>cache := c, health := h\<rparr>))"
    using others_keep[OF assms(1) c fetched_health[OF assms(2) f]] by simp
  show ?thesis
    using k store_asset_keeps[OF k] refreshed_nonneg[OF nn]
    by (simp add: fetch_asset_response_def g old_def[symmetric] f Let_def fresh_tile_def negative_def
        NEGATIVE_ROW_COST_BYTES_def split: sum.split option.split)
qed

lemma fetch_allowed_keeps:
  assumes "keeps I (fe_others (ae_fill env))" "I st"
  shows "I (snd (fetch_allowed lib legal env key url inm st))"
  using fetch_asset_keeps[OF assms] assms(2) by (simp add: fetch_allowed_def Let_def)

end

context upkeep begin

text \<open>The whole scaffold: what runs under the lock keeps the lease, so its release is legal.\<close>

lemma single_flight_keeps:
  assumes "I st" "\<And>l. keeps (H l) (ae_flight env)"
    and "\<And>now r s. I s \<Longrightarrow> I (snd (snd (serve now r s)))"
    and "\<And>l now r s. H l s \<Longrightarrow> H l (snd (snd (serve now r s)))"
    and "\<And>l s. H l s \<Longrightarrow> H l (snd (fetch_store s))"
  shows "I (snd (snd (cache_first_single_flight env k serve fetch_store st)))"
proof -
  obtain r sp st1 where a: "look_and_serve serve (ae_first env) (ae_now env) k st = (r, sp, st1)" by (metis prod.exhaust)
  have st1: "I st1"
    using look_and_serve_keeps[of I st "ae_first env" k serve "ae_now env", OF assms(1) lookup_keeps assms(3)] by (simp add: a)
  obtain lk fl where l: "inflight_lock (inflight_key k) (flights st1) = (lk, fl)" by (meson surj_pair)
  note locked = locked[OF st1 l]
  show ?thesis
  proof (cases "r = None \<and> lk \<noteq> None")
    case False
    with st1 locked(1) show ?thesis
      by (auto simp: cache_first_single_flight_def a l Let_def split: option.split)
  next
    case True
    then obtain lock where lk: "lk = Some lock" "r = None" by blast
    let ?l = "(inflight_key k, lock, False)"
    obtain r2 sp2 st2 where b:
      "look_and_serve serve (ae_second env) (ae_recheck env) k (ae_flight env (st1\<lparr>flights := fl\<rparr>)) = (r2, sp2, st2)"
      by (metis prod.exhaust)
    have h: "H ?l st2"
      using look_and_serve_keeps[of "H ?l" _ "ae_second env" k serve "ae_recheck env",
          OF keepsD[OF assms(2) locked(2)[OF lk(1)]] held.lookup_keeps assms(4)] b by simp
    from release_step[OF h] release_step[OF assms(5)[OF h]] show ?thesis
      by (simp add: cache_first_single_flight_def a l lk b Let_def case_prod_unfold split: option.split)
  qed
qed

lemma asset_route_keeps:
  assumes "I st" "tame_asset I H env" "\<And>l s. H l s \<Longrightarrow> H l (snd (fetch_store s))"
  shows "I (snd (snd (cache_first_single_flight env k (serve_asset lib legal kind tch k inm) fetch_store st)))"
  by (rule single_flight_keeps[OF assms(1) tame_assetD(1)[OF assms(2)] serve_asset_keeps held.serve_asset_keeps assms(3)])

text \<open>The routes, given that learning keeps the property.\<close>

lemma with_learned_keeps:
  assumes "I (snd (ensure_style_learned lib (ae_style env) src st))" "tame_asset I H env"
    and "\<And>learned s. I s \<Longrightarrow> I (snd (snd (rest learned s)))"
  shows "I (snd (snd (with_learned lib env src st rest)))"
  using assms(1,3) keepsD[of I "ae_late env"] assms(2)
  by (auto simp: with_learned_def Let_def tame_asset_def split: prod.split bool.split option.split)

lemma tame_fetch: "tame_asset I H env \<Longrightarrow> H l s \<Longrightarrow> H l (snd (fetch_allowed lib legal env key url inm s))"
  by (rule held.fetch_allowed_keeps[OF tame_assetD(2)])

lemma style_routes_keep:
  assumes "I st" "I (snd (ensure_style_learned lib (ae_style env) src st))" "tame_asset I H env"
  shows "I (snd (snd (glyphs lib legal env src fontstack rg inm st)))"
    and "I (snd (snd (sprite_variant lib legal env src inm variant suffix st)))"
    and "I (snd (snd (vector_tile lib legal env src name z x y inm st)))"
  using assms(1) with_learned_keeps[OF assms(2,3)] asset_route_keeps[OF _ assms(3)] tame_fetch[OF assms(3)]
  unfolding glyphs_def sprite_variant_def vector_tile_def Let_def
  by (auto split: option.split list.split intro!: with_learned_keeps[OF assms(2,3)] asset_route_keeps[OF _ assms(3)]
      tame_fetch[OF assms(3)])

lemma style_doc_keeps:
  assumes "I st" "I (snd (fetch_and_learn lib env src st))" "keeps I late"
  shows "I (snd (style_doc lib legal env late now src inm st))"
  using assms(1,2) keepsD[OF assms(3)]
  by (auto simp: style_doc_def Let_def split: option.split prod.split)

end

section \<open>Learning\<close>

text \<open>\<open>style_upkeep\<close>: the learned styles can be changed, provided that the change keeps them sound.\<close>

locale style_upkeep = upkeep I H for I H +
  fixes lib :: style_lib
  assumes styles_step: "H l st \<Longrightarrow> (styles_ok lib st \<Longrightarrow> styles_ok lib (st\<lparr>style_states := ss\<rparr>)) \<Longrightarrow> H l (st\<lparr>style_states := ss\<rparr>)"
begin

lemma persist_keeps:
  assumes "H l st" "H l (others st)" shows "H l (persist_style_state lib t others src style st)"
  using assms by (auto simp: persist_style_state_def Let_def intro!: held.on_cache cache_task_inv style_ops_inv(1) split: option.split)

lemma learn_keeps:
  assumes "tame_style H env" "H l st" "g \<le> config_generation st"
  shows "H l (snd (learn_style lib env src g st))"
proof -
  have t: "keeps (H l) (sw_waited env)" "keeps (H l) (sw_storing env)" "advance st (sw_waited env st)"
    using assms(1,2) unfolding tame_style_def by blast+
  note w = keepsD[OF t(1) assms(2)]
  obtain d st' where r: "learn_style lib env src g st = (d, st')" by (meson surj_pair)
  from r t(3) assms(3) have "H l st'"
  proof (cases rule: learn_style_publishes)
    case untouched
    with assms(2) w show ?thesis by blast
  next
    case (published style)
    have u: "H l ((sw_waited env st)\<lparr>style_states := AList.update src style (style_states (sw_waited env st))\<rparr>)"
      by (rule styles_step[OF w]) (rule published(2))
    show ?thesis unfolding published(1) publish_style_def by (rule persist_keeps[OF u]) (rule keepsD[OF t(2) u])
  qed
  with r show ?thesis by simp
qed

text \<open>The state under the lock, after the wait for it.\<close>

lemma learn_locked:
  assumes "I st" "tame_style H env" "inflight_lock key (flights st) = (Some lock, fl)"
  shows "H (key, lock, False) (sw_flight env (st\<lparr>flights := fl\<rparr>))"
    "config_generation st \<le> config_generation (sw_flight env (st\<lparr>flights := fl\<rparr>))"
proof -
  note h = locked_step[OF assms(1,3)]
  have t: "keeps (H (key, lock, False)) (sw_flight env)" "advance (st\<lparr>flights := fl\<rparr>) (sw_flight env (st\<lparr>flights := fl\<rparr>))"
    using assms(2) h unfolding tame_style_def by blast+
  show "H (key, lock, False) (sw_flight env (st\<lparr>flights := fl\<rparr>))" by (rule keepsD[OF t(1) h])
  show "config_generation st \<le> config_generation (sw_flight env (st\<lparr>flights := fl\<rparr>))" using t(2) by (simp add: advance_def)
qed

lemma learning_keeps:
  assumes "I st" "tame_style H env"
  shows "I (snd (fetch_and_learn lib env src st))" "I (snd (ensure_style_learned lib env src st))"
proof -
  let ?key = "''style-learn:'' @ dec (config_generation st) @ '':'' @ src"
  obtain lk fl where l: "inflight_lock ?key (flights st) = (lk, fl)" by (meson surj_pair)
  show f: "I (snd (fetch_and_learn lib env src st))"
  proof (cases lk)
    case None
    with assms(1) lock_step[OF assms(1) l] l show ?thesis
      by (simp add: fetch_and_learn_def Let_def split: option.split)
  next
    case (Some lock)
    note h = learn_locked[OF assms l[unfolded Some]]
    from release_step[OF h(1)] release_step[OF learn_keeps[OF assms(2) h]] assms(1) l Some show ?thesis
      by (simp add: fetch_and_learn_def Let_def case_prod_unfold split: option.split)
  qed
  then show "I (snd (ensure_style_learned lib env src st))"
    using assms(1) by (auto simp: ensure_style_learned_def split: prod.split)
qed

end

section \<open>Reading the styles back\<close>

lemma delete_invalid_keeps: "cache_inv c \<Longrightarrow> cache_inv (snd (delete_invalid envs i srcs c))"
proof (induction srcs arbitrary: i c)
  case (Cons src srcs)
  from style_ops_inv(3)[OF Cons.prems, of "envs i" src] Cons.IH show ?case
    by (cases "delete_learned_style (envs i) src c") (simp split: sum.split)
qed simp

text \<open>For a property that does not speak of the learned styles.\<close>

locale style_free = steps +
  assumes free_step: "I st \<Longrightarrow> I (st\<lparr>style_states := ss\<rparr>)"
begin

lemma rehydrate_keeps:
  assumes "I st" shows "I (rehydrate_style_state lib env ids g st)"
proof -
  obtain rows c where r: "cache_task (joined (rh_reconcile env)) (reconcile_learned_styles (task_env (rh_reconcile env))
      (style_signatures lib st ids) MAX_PERSISTED_STYLE_BYTES) (cache st) = (rows, c)" by (meson surj_pair)
  have c: "cache_inv c"
    using cache_task_inv[of "cache st" "reconcile_learned_styles (task_env (rh_reconcile env)) (style_signatures lib st ids)
      MAX_PERSISTED_STYLE_BYTES"] style_ops_inv(2) parts(1)[OF assms] r by (metis snd_conv)
  have "I (st\<lparr>cache := x, style_states := ss\<rparr>)" if "cache_inv x" for x ss
    using free_step[OF cache_step[OF assms that]] by simp
  with c delete_invalid_keeps[OF c] show ?thesis
    by (simp add: rehydrate_style_state_def r Let_def inv_intro split: option.split)
qed

end

interpretation plain: style_upkeep state_ok "holds state_ok" lib for lib
  by unfold_locales (simp add: state_ok_def holds_def)

interpretation plain: style_free state_ok
  by unfold_locales (simp add: state_ok_def)

end
