(* ===== verification/Warm_Tiles.thy ===== *)
theory Warm_Tiles
  imports Warm_Jobs Style_Assets Fetcher
begin

text \<open>
  The parts of a warm run (\<open>container/tilecache/src/warm.rs\<close>, second half): the budgets, the pin of a tile
  that is already cached, the fetch of one tile, and the driver's steps on its batch and its job
  (\<open>flush\<close>, \<open>accumulate\<close>). Other tasks act where the code waits, as functions of the environment.
\<close>

section \<open>Budgets\<close>

definition effective_budget :: "app_state \<Rightarrow> string option \<Rightarrow> int" where
  "effective_budget st rid =
     (let cap = live_cap_bytes st; r = live_regions_budget st; p = live_position_warm_budget st;
          raw = (if rid = Some POSITION_WARM_REGION_ID then p else r - p)
      in max 0 (min raw cap))"

definition replacement_budget :: "app_state \<Rightarrow> string option \<Rightarrow> int \<Rightarrow> int" where
  "replacement_budget st rid credit =
     min (sat_i64 (effective_budget st rid + max 0 credit)) (max 0 (live_cap_bytes st))"

section \<open>Sources\<close>

record warm_source =
  ws_source :: chart_source
  ws_health_id :: string

definition sub_sources :: "chart_source \<Rightarrow> style_state \<Rightarrow> warm_source list" where
  "sub_sources s learned =
     (let registry_max = (case vector_maxzoom s of Some m \<Rightarrow> m | None \<Rightarrow> maxzoom s)
      in List.map_filter (\<lambda>(name, templates).
           case templates of
             [] \<Rightarrow> None
           | template # _ \<Rightarrow>
               let native = (case map_of (ss_source_maxzoom learned) name of Some m \<Rightarrow> m | None \<Rightarrow> registry_max)
               in Some \<lparr>ws_source = s\<lparr>src_id := vector_cache_source_at (src_id s) name (ss_generation learned),
                          upstream := Xyz template, maxzoom := min registry_max native, vector_maxzoom := None\<rparr>,
                        ws_health_id = src_id s\<rparr>) (ss_source_tiles learned))"

text \<open>\<open>ensure\<close> is \<open>ensure_style_learned\<close> as the run meets it: whether it succeeds, and the state after it.\<close>

fun expand_sources :: "(string \<Rightarrow> app_state \<Rightarrow> bool \<times> app_state) \<Rightarrow> chart_source list \<Rightarrow> app_state
    \<Rightarrow> warm_source list option \<times> app_state" where
  "expand_sources ensure [] st = (Some [], st)"
| "expand_sources ensure (s # ss) st =
     (if \<not> is_style s
      then (case expand_sources ensure ss st of
              (rest, st') \<Rightarrow> (map_option (\<lambda>ws. \<lparr>ws_source = s, ws_health_id = src_id s\<rparr> # ws) rest, st'))
      else (case ensure (src_id s) st of
          (False, st1) \<Rightarrow> (None, st1)
        | (True, st1) \<Rightarrow>
            (case map_of (style_states st1) (src_id s) of
               None \<Rightarrow> (None, st1)
             | Some learned \<Rightarrow>
                 if ss_source_tiles learned = [] then (None, st1)
                 else (case expand_sources ensure ss st1 of
                         (rest, st') \<Rightarrow> (map_option (\<lambda>ws. sub_sources s learned @ ws) rest, st')))))"

definition expand_warm_sources :: "(string \<Rightarrow> app_state \<Rightarrow> bool \<times> app_state) \<Rightarrow> chart_source list \<Rightarrow> app_state
    \<Rightarrow> warm_source list option \<times> app_state" where
  "expand_warm_sources ensure ss st =
     (case expand_sources ensure ss st of
        (Some (w # ws), st') \<Rightarrow> (Some (w # ws), st')
      | (_, st') \<Rightarrow> (None, st'))"

section \<open>One tile\<close>

definition pin_fresh_for_warm :: "task \<Rightarrow> int \<Rightarrow> tile_key \<Rightarrow> string option \<Rightarrow> int \<Rightarrow> app_state
    \<Rightarrow> fresh_pin_outcome option \<times> app_state" where
  "pin_fresh_for_warm t now k region cat_budget st =
     (case cache_task (joined t)
         (pin_if_fresh_capped (task_env t) k now (kn_fresh_secs (knobs st)) (negative_ttl_secs (knobs st))
            \<lparr>category_budget = cat_budget, physical_budget = live_cap_bytes st\<rparr> region) (cache st) of
        (out, c) \<Rightarrow> (out, st\<lparr>cache := c\<rparr>))"

datatype warm_result = W_tile warm_row | W_negative warm_row | W_skipped | W_capped | W_error | W_cancelled

record region_ctx =
  rg_target :: "string option"
  rg_storage :: "string option"
  rg_credit :: int

text \<open>
  What one tile task meets. \<open>we_cancelled\<close>: the poll saw a cancellation before the fetch ended; what the
  abandoned fetch did to the health table by then is part of \<open>we_others\<close>.
\<close>

record warm_env =
  we_pin :: task
  we_pin_at :: int
  we_repin :: task
  we_repin_at :: int
  we_done :: int
  we_cancelled :: bool
  we_waited :: "app_state \<Rightarrow> app_state"
  we_others :: "app_state \<Rightarrow> app_state"

definition warm_row_of :: "(byte list \<Rightarrow> byte list) \<Rightarrow> tile_key \<Rightarrow> fetched \<Rightarrow> int \<Rightarrow> warm_row" where
  "warm_row_of sha256 k f now = \<lparr>wr_key = k, wr_tile = fresh_tile sha256 f now\<rparr>"

definition classify :: "(byte list \<Rightarrow> byte list) \<Rightarrow> knobs \<Rightarrow> tile_key \<Rightarrow> int \<Rightarrow> fetch_error + nat \<times> fetched \<Rightarrow> warm_result" where
  "classify sha256 kn k now res =
     (case res of
        Inl _ \<Rightarrow> W_error
      | Inr (sc, f) \<Rightarrow>
          if sc = 200
          then (if max_blob_bytes kn < length (f_body f) \<or> \<not> acceptable_content_type (f_content_type f)
                then W_error else W_tile (warm_row_of sha256 k f now))
          else if sc = 404 \<or> sc = 204 then W_negative \<lparr>wr_key = k, wr_tile = negative (int sc) now\<rparr>
          else W_error)"

definition warm_fetch :: "(byte list \<Rightarrow> byte list) \<Rightarrow> (rat \<Rightarrow> string) \<Rightarrow> wire \<Rightarrow> warm_env \<Rightarrow> warm_source \<Rightarrow> tile_key
    \<Rightarrow> app_state \<Rightarrow> warm_result \<times> app_state" where
  "warm_fetch sha256 display w env ws k st =
     (case k of (_, z, x, y) \<Rightarrow>
        (case expand_upstream display (ws_source ws) z x y of
           Inl _ \<Rightarrow> (W_error, st)
         | Inr url \<Rightarrow>
             if we_cancelled env then (W_cancelled, we_others env st)
             else (case fetch_upstream w (knobs st) (ws_health_id ws) url None (health st) of
                 (res, h) \<Rightarrow> (classify sha256 (knobs st) k (we_done env) res, we_others env (st\<lparr>health := h\<rparr>)))))"

definition warm_one :: "(byte list \<Rightarrow> byte list) \<Rightarrow> (rat \<Rightarrow> string) \<Rightarrow> wire \<Rightarrow> warm_env \<Rightarrow> warm_source
    \<Rightarrow> nat \<times> nat \<times> nat \<Rightarrow> region_ctx \<Rightarrow> app_state \<Rightarrow> warm_result \<times> app_state" where
  "warm_one sha256 display w env ws tile region st =
     (let k = (src_id (ws_source ws), tile);
          budget = (\<lambda>s. replacement_budget s (rg_target region) (rg_credit region))
      in case pin_fresh_for_warm (we_pin env) (we_pin_at env) k (rg_storage region) (budget st) st of
           (Some FPinned, st1) \<Rightarrow> (W_skipped, st1)
         | (Some FCapped, st1) \<Rightarrow> (W_capped, st1)
         | (_, st1) \<Rightarrow>
             (case inflight_lock (inflight_key k) (flights st1) of
                (None, fl) \<Rightarrow> (W_error, st1\<lparr>flights := fl\<rparr>)
              | (Some lock, fl) \<Rightarrow>
                  let st2 = we_waited env (st1\<lparr>flights := fl\<rparr>);
                      (out, st3) =
                        (case pin_fresh_for_warm (we_repin env) (we_repin_at env) k (rg_storage region) (budget st2) st2 of
                           (Some FPinned, s) \<Rightarrow> (W_skipped, s)
                         | (Some FCapped, s) \<Rightarrow> (W_capped, s)
                         | (_, s) \<Rightarrow> warm_fetch sha256 display w env ws k s)
                  in (out, release_lock (inflight_key k) lock st3)))"

section \<open>The batch\<close>

definition WARM_BATCH :: nat where "WARM_BATCH = 64"

definition warm_batch_should_flush :: "warm_row list \<Rightarrow> bool" where
  "warm_batch_should_flush batch \<longleftrightarrow>
     WARM_BATCH \<le> length batch \<or> int WARM_BATCH_BYTES \<le> sum_of (\<lambda>r. max 0 (bytes (wr_tile r))) batch"

text \<open>The driver's own variables: the batch, the state it will end in, and the tasks it spawned and has not
  joined (its \<open>JoinSet\<close>). The counters are in the job.\<close>

type_synonym warm_task = "warm_source \<times> nat \<times> nat \<times> nat"

record driver =
  dv_batch :: "warm_row list"
  dv_final :: warm_state
  dv_tasks :: "warm_task list"

record run_ctx =
  rc_job :: string
  rc_region :: region_ctx

text \<open>\<open>fl_waited\<close>: what the other tasks do between the reading of the budgets and the write itself.\<close>

record flush_env =
  fl_task :: task
  fl_now :: int
  fl_waited :: "app_state \<Rightarrow> app_state"

definition job_of :: "string \<Rightarrow> app_state \<Rightarrow> warm_job option" where
  "job_of jid st = map_of (warm_jobs st) jid"

definition on_job :: "string \<Rightarrow> (warm_job \<Rightarrow> warm_job) \<Rightarrow> app_state \<Rightarrow> app_state" where
  "on_job jid f st = update_jobs (\<lambda>p. fst p = jid) f st"

definition add_error :: "warm_job \<Rightarrow> warm_job" where
  "add_error j = j\<lparr>wj_errors := wj_errors j + 1\<rparr>"

definition flush :: "run_ctx \<Rightarrow> flush_env \<Rightarrow> driver \<times> app_state \<Rightarrow> bool \<times> driver \<times> app_state" where
  "flush cx env = (\<lambda>(d, st).
     let rows = dv_batch d;
         d1 = d\<lparr>dv_batch := []\<rparr>;
         budget = replacement_budget st (rg_target (rc_region cx)) (rg_credit (rc_region cx));
         cap = live_cap_bytes st;
         st0 = fl_waited env st
     in if \<not> joined (fl_task env)
        then (True, d1, on_job (rc_job cx) add_error (st0\<lparr>cache := record_operation_error (cache st0)\<rparr>))
        else (case put_many_pinned (task_env (fl_task env)) rows budget cap (rg_storage (rc_region cx)) (fl_now env) (cache st0) of
            (Inl e, c) \<Rightarrow> (True, d1, on_job (rc_job cx) add_error (st0\<lparr>cache := record_operation_error c\<rparr>))
          | (Inr out, c) \<Rightarrow>
              let st1 = on_job (rc_job cx) (\<lambda>j. j\<lparr>wj_done := wj_done j + pm_stored out,
                           wj_bytes := wj_bytes j + pm_bytes_added out\<rparr>) (st0\<lparr>cache := c\<rparr>)
              in if pm_capped out then (False, d1\<lparr>dv_final := Capped\<rparr>, st1) else (True, d1, st1)))"

definition accumulate :: "run_ctx \<Rightarrow> flush_env \<Rightarrow> warm_result \<Rightarrow> driver \<times> app_state \<Rightarrow> bool \<times> driver \<times> app_state" where
  "accumulate cx env res = (\<lambda>(d, st).
     let push = (\<lambda>row. let d1 = d\<lparr>dv_batch := dv_batch d @ [row]\<rparr>
                  in if warm_batch_should_flush (dv_batch d1) then flush cx env (d1, st) else (True, d1, st))
     in case res of
          W_tile row \<Rightarrow> push row
        | W_negative row \<Rightarrow> push row
        | W_skipped \<Rightarrow> (True, d, on_job (rc_job cx) (\<lambda>j. j\<lparr>wj_skipped := wj_skipped j + 1\<rparr>) st)
        | W_capped \<Rightarrow> (False, d\<lparr>dv_final := Capped\<rparr>, st)
        | W_error \<Rightarrow> (True, d, on_job (rc_job cx) add_error st)
        | W_cancelled \<Rightarrow> (False, d\<lparr>dv_final := Cancelled\<rparr>, st))"

end
