(* ===== verification/Warm_Assets.thy ===== *)
theory Warm_Assets
  imports Warm_Tiles
begin

text \<open>
  The basemap asset stage of a warm run (\<open>stage_basemap_assets\<close> and what it calls in
  \<open>container/tilecache/src/warm.rs\<close>): the list of glyph ranges and sprite variants of the learned styles, the
  fetch of one of them, the batches, and the staging region they are pinned under.
\<close>

section \<open>Tasks and their ends\<close>

text \<open>
  A spawned task ends with its value or by a panic. An event of a \<open>JoinSet\<close> says which of the tasks ends
  (\<open>je_pick\<close>, an index taken modulo their number), what that task and everything running beside it did to
  the shared state up to its end (\<open>je_run\<close>), and what the flush it may cause meets.
\<close>

datatype 'r ended = Finished 'r | Crashed

record ('t, 'r) join_event =
  je_pick :: nat
  je_run :: "'t \<Rightarrow> app_state \<Rightarrow> 'r ended \<times> app_state"
  je_flush :: flush_env

definition picked :: "nat \<Rightarrow> 't list \<Rightarrow> 't" where
  "picked i ts = ts ! (i mod length ts)"

definition unpicked :: "nat \<Rightarrow> 't list \<Rightarrow> 't list" where
  "unpicked i ts = take (i mod length ts) ts @ drop (Suc (i mod length ts)) ts"

definition job_cancelled :: "string \<Rightarrow> app_state \<Rightarrow> bool" where
  "job_cancelled jid st \<longleftrightarrow> (case job_of jid st of Some j \<Rightarrow> wj_cancel j | None \<Rightarrow> False)"

definition set_cancel :: "string \<Rightarrow> app_state \<Rightarrow> app_state" where
  "set_cancel jid st = on_job jid (\<lambda>j. j\<lparr>wj_cancel := True\<rparr>) st"

definition stopping :: "string \<Rightarrow> app_state \<Rightarrow> bool" where
  "stopping jid st \<longleftrightarrow> job_cancelled jid st \<or> shutdown_requested st"

text \<open>The bytes a region holds now, 0 when they cannot be read: what its replacement will release.\<close>

definition credit_of :: "task \<Rightarrow> string \<Rightarrow> app_state \<Rightarrow> int" where
  "credit_of t rid st =
     (if joined t \<and> faults (task_env t) S_count = None then region_bytes (conn (cache st)) rid else 0)"

section \<open>The assets of the styles\<close>

definition GLYPH_RANGE_END :: nat where "GLYPH_RANGE_END = 12288"
definition GLYPH_RANGE_STEP :: nat where "GLYPH_RANGE_STEP = 256"

record asset_job =
  aj_cache_source :: string
  aj_style_source :: string
  aj_x :: nat
  aj_url :: string
  aj_kind :: style_asset_kind
  aj_allowed :: "string list"

definition range_starts :: "nat list" where
  "range_starts = map (\<lambda>i. i * GLYPH_RANGE_STEP) [0 ..< GLYPH_RANGE_END div GLYPH_RANGE_STEP]"

definition glyph_jobs :: "(string \<Rightarrow> string) \<Rightarrow> string \<Rightarrow> string list \<Rightarrow> nat \<Rightarrow> string \<Rightarrow> string \<Rightarrow> asset_job list" where
  "glyph_jobs encode src allowed generation template fontstack =
     map (\<lambda>start. \<lparr>aj_cache_source = glyph_cache_source_at src fontstack generation, aj_style_source = src,
            aj_x = start,
            aj_url = expand_glyph_url encode template fontstack (dec start @ ''-'' @ dec (start + GLYPH_RANGE_STEP - 1) @ ''.pbf''),
            aj_kind = Glyph, aj_allowed = allowed\<rparr>) range_starts"

definition sprite_kind :: "string \<Rightarrow> style_asset_kind" where
  "sprite_kind suffix = (if strip_suffix ''.json'' suffix \<noteq> None then SpriteJson else SpritePng)"

definition sprite_jobs :: "string \<Rightarrow> string list \<Rightarrow> nat \<Rightarrow> string \<Rightarrow> asset_job list" where
  "sprite_jobs src allowed generation base =
     map (\<lambda>(i, suffix). \<lparr>aj_cache_source = sprite_cache_source_at src generation, aj_style_source = src, aj_x = i,
            aj_url = base @ suffix, aj_kind = sprite_kind suffix, aj_allowed = allowed\<rparr>) SPRITE_VARIANTS"

definition style_jobs :: "(string \<Rightarrow> string) \<Rightarrow> app_state \<Rightarrow> string \<Rightarrow> asset_job list option" where
  "style_jobs encode st src =
     (case map_of (style_states st) src of
        None \<Rightarrow> None
      | Some s \<Rightarrow>
          (case map_option upstream (sources st src) of
             Some (Style url allowed) \<Rightarrow>
               Some ((case ss_glyphs s of
                        Some template \<Rightarrow> concat (map (glyph_jobs encode src allowed (ss_generation s) template) (ss_fontstacks s))
                      | None \<Rightarrow> []) @
                     (case ss_sprite_base s of
                        Some base \<Rightarrow> sprite_jobs src allowed (ss_generation s) base
                      | None \<Rightarrow> []))
           | _ \<Rightarrow> None))"

fun asset_jobs :: "(string \<Rightarrow> string) \<Rightarrow> app_state \<Rightarrow> string list \<Rightarrow> asset_job list option" where
  "asset_jobs encode st [] = Some []"
| "asset_jobs encode st (s # ss) =
     (case style_jobs encode st s of
        None \<Rightarrow> None
      | Some js \<Rightarrow> map_option (\<lambda>rest. js @ rest) (asset_jobs encode st ss))"

section \<open>One asset\<close>

datatype asset_stop = Stop_capped | Stop_failed

record asset_env =
  ae_stopped :: bool
  ae_lookup :: task
  ae_pin :: task
  ae_pin_at :: int
  ae_cancelled :: bool
  ae_done :: int
  ae_others :: "app_state \<Rightarrow> app_state"

definition asset_key :: "asset_job \<Rightarrow> tile_key" where
  "asset_key job = (aj_cache_source job, 0, aj_x job, 0)"

definition body_of :: "cached_tile \<Rightarrow> byte list" where
  "body_of t = (case blob t of Some b \<Rightarrow> b | None \<Rightarrow> [])"

definition fetch_asset :: "(byte list \<Rightarrow> byte list) \<Rightarrow> (byte list \<Rightarrow> bool) \<Rightarrow> wire \<Rightarrow> asset_env \<Rightarrow> asset_job
    \<Rightarrow> app_state \<Rightarrow> (asset_stop + warm_row option) \<times> app_state" where
  "fetch_asset sha256 is_json w env job st =
     (if ae_cancelled env then (Inl Stop_failed, ae_others env st)
      else (case fetch_upstream w (knobs st) (aj_style_source job) (aj_url job) None (health st) of
          (res, h) \<Rightarrow>
            (case res of
               Inl _ \<Rightarrow> Inl Stop_failed
             | Inr (sc, f) \<Rightarrow>
                 if sc = 200
                 then (if valid_style_asset is_json (aj_kind job) (f_content_type f) (f_body f)
                       then Inr (Some (warm_row_of sha256 (asset_key job) f (ae_done env))) else Inl Stop_failed)
                 else if sc = 404 \<or> sc = 204 then Inr None else Inl Stop_failed,
             ae_others env (st\<lparr>health := h\<rparr>))))"

definition warm_one_asset :: "(byte list \<Rightarrow> byte list) \<Rightarrow> (byte list \<Rightarrow> bool) \<Rightarrow> (string \<Rightarrow> (parsed_url \<times> string) option)
    \<Rightarrow> wire \<Rightarrow> asset_env \<Rightarrow> string \<Rightarrow> int \<Rightarrow> asset_job \<Rightarrow> app_state \<Rightarrow> (asset_stop + warm_row option) \<times> app_state" where
  "warm_one_asset sha256 is_json parse w env region budget job st =
     (if ae_stopped env then (Inl Stop_failed, st)
      else (case cache_get (ae_lookup env) (asset_key job) (cache st) of
          (found, c) \<Rightarrow>
            let st1 = st\<lparr>cache := c\<rparr>;
                usable = (case found of
                    Inr (Some t) \<Rightarrow> status t = 200 \<longrightarrow> valid_style_asset is_json (aj_kind job) (content_type t) (body_of t)
                  | Inr None \<Rightarrow> True
                  | Inl _ \<Rightarrow> False);
                rest = (\<lambda>s. if style_url_allowed parse (aj_url job) (aj_allowed job) (allow_private_egress (knobs s))
                            then fetch_asset sha256 is_json w env job s else (Inl Stop_failed, s))
            in if usable
               then (case pin_fresh_for_warm (ae_pin env) (ae_pin_at env) (asset_key job) (Some region) budget st1 of
                    (Some FPinned, s) \<Rightarrow> (Inr None, s)
                  | (Some FMissingOrStale, s) \<Rightarrow> rest s
                  | (Some FCapped, s) \<Rightarrow> (Inl Stop_capped, s)
                  | (None, s) \<Rightarrow> (Inl Stop_failed, s))
               else rest st1))"

section \<open>Batches of assets\<close>

record asset_driver =
  ad_batch :: "warm_row list"
  ad_stop :: "asset_stop option"
  ad_tasks :: "asset_job list"

definition flush_pinned :: "flush_env \<Rightarrow> string \<Rightarrow> int \<Rightarrow> asset_driver \<times> app_state \<Rightarrow> asset_stop option \<times> asset_driver \<times> app_state" where
  "flush_pinned env region budget = (\<lambda>(d, st).
     let rows = ad_batch d; cap = live_cap_bytes st; st0 = fl_waited env st; d1 = d\<lparr>ad_batch := []\<rparr>
     in if \<not> joined (fl_task env)
        then (Some Stop_failed, d1, st0\<lparr>cache := record_operation_error (cache st0)\<rparr>)
        else (case put_many_pinned (task_env (fl_task env)) rows budget cap (Some region) (fl_now env) (cache st0) of
            (Inl e, c) \<Rightarrow> (Some Stop_failed, d1, st0\<lparr>cache := record_operation_error c\<rparr>)
          | (Inr out, c) \<Rightarrow> (if pm_capped out then Some Stop_capped else None, d1, st0\<lparr>cache := c\<rparr>)))"

definition accept_asset :: "flush_env \<Rightarrow> string \<Rightarrow> int \<Rightarrow> (asset_stop + warm_row option) ended
    \<Rightarrow> asset_driver \<times> app_state \<Rightarrow> asset_stop option \<times> asset_driver \<times> app_state" where
  "accept_asset env region budget res = (\<lambda>(d, st).
     case res of
       Finished (Inr (Some row)) \<Rightarrow>
         let d1 = d\<lparr>ad_batch := ad_batch d @ [row]\<rparr>
         in if warm_batch_should_flush (ad_batch d1) then flush_pinned env region budget (d1, st) else (None, d1, st)
     | Finished (Inr None) \<Rightarrow> (None, d, st)
     | Finished (Inl reason) \<Rightarrow> (Some reason, d, st)
     | Crashed \<Rightarrow> (Some Stop_failed, d, st\<lparr>cache := record_operation_error (cache st)\<rparr>))"

type_synonym asset_event = "(asset_job, asset_stop + warm_row option) join_event"

text \<open>One task of the set ends and its result is accepted, or dropped once the stage has stopped.\<close>

definition join_asset :: "string \<Rightarrow> int \<Rightarrow> asset_event \<Rightarrow> asset_driver \<times> app_state \<Rightarrow> asset_driver \<times> app_state" where
  "join_asset region budget ev = (\<lambda>(d, st).
     case je_run ev (picked (je_pick ev) (ad_tasks d)) st of
       (res, st1) \<Rightarrow>
         let d1 = d\<lparr>ad_tasks := unpicked (je_pick ev) (ad_tasks d)\<rparr>
         in if ad_stop d \<noteq> None then (d1, st1)
            else (case accept_asset (je_flush ev) region budget res (d1, st1) of
                    (stop, d2, st2) \<Rightarrow> (d2\<lparr>ad_stop := stop\<rparr>, st2)))"

fun drain_assets :: "string \<Rightarrow> int \<Rightarrow> asset_event list \<Rightarrow> asset_driver \<times> app_state \<Rightarrow> asset_driver \<times> app_state" where
  "drain_assets region budget [] s = s"
| "drain_assets region budget (ev # evs) s =
     (if ad_tasks (fst s) = [] \<or> ad_stop (fst s) \<noteq> None then s
      else drain_assets region budget evs (join_asset region budget ev s))"

record asset_turn =
  at_waited :: "app_state \<Rightarrow> app_state"
  at_permitted :: bool
  at_ends :: "asset_event list"

fun spawn_assets :: "string \<Rightarrow> int \<Rightarrow> (nat \<Rightarrow> asset_turn) \<Rightarrow> nat \<Rightarrow> asset_job list
    \<Rightarrow> asset_driver \<times> app_state \<Rightarrow> asset_driver \<times> app_state" where
  "spawn_assets region budget turns i [] s = s"
| "spawn_assets region budget turns i (j # js) (d, st) =
     (let tu = turns i; st1 = at_waited tu st
      in if \<not> at_permitted tu then (d\<lparr>ad_stop := Some Stop_failed\<rparr>, st1)
         else (case drain_assets region budget (at_ends tu) (d\<lparr>ad_tasks := ad_tasks d @ [j]\<rparr>, st1) of
             (d2, st2) \<Rightarrow> if ad_stop d2 \<noteq> None then (d2, st2)
                         else spawn_assets region budget turns (Suc i) js (d2, st2)))"

lemma length_unpicked [simp]: "ts \<noteq> [] \<Longrightarrow> length (unpicked i ts) = length ts - 1"
proof -
  assume "ts \<noteq> []"
  then have "i mod length ts < length ts" by simp
  then show ?thesis by (simp add: unpicked_def del: mod_less_divisor)
qed

lemma ad_tasks_accept:
  "accept_asset env region budget res (d, st) = (stop, d', st') \<Longrightarrow> ad_tasks d' = ad_tasks d"
  by (auto simp: accept_asset_def flush_pinned_def Let_def split: ended.splits sum.splits option.splits prod.splits if_splits)

lemma ad_tasks_join [simp]:
  "ad_tasks (fst (join_asset region budget ev s)) = unpicked (je_pick ev) (ad_tasks (fst s))"
  by (cases s) (auto simp: join_asset_def Let_def dest: ad_tasks_accept split: prod.splits)

function join_assets :: "string \<Rightarrow> int \<Rightarrow> (nat \<Rightarrow> asset_event) \<Rightarrow> nat \<Rightarrow> asset_driver \<times> app_state \<Rightarrow> asset_driver \<times> app_state" where
  "join_assets region budget evs i s =
     (if ad_tasks (fst s) = [] then s else join_assets region budget evs (Suc i) (join_asset region budget (evs i) s))"
  by auto
termination by (relation "measure (\<lambda>(_, _, _, _, s). length (ad_tasks (fst s)))") auto

declare join_assets.simps [simp del]

section \<open>The stage\<close>

text \<open>The wait for the single-flight flag: what happens between two polls; \<open>None\<close> while it has not ended.\<close>

fun claim_assets :: "string \<Rightarrow> (app_state \<Rightarrow> app_state) list \<Rightarrow> app_state \<Rightarrow> bool option \<times> app_state" where
  "claim_assets jid polls st =
     (if \<not> assets_warming st then (Some True, st\<lparr>assets_warming := True\<rparr>)
      else if stopping jid st then (Some False, st)
      else (case polls of [] \<Rightarrow> (None, st) | p # ps \<Rightarrow> claim_assets jid ps (p st)))"

record stage_env =
  sg_polls :: "(app_state \<Rightarrow> app_state) list"
  sg_credit :: task
  sg_turns :: "nat \<Rightarrow> asset_turn"
  sg_joins :: "nat \<Rightarrow> asset_event"
  sg_tail :: flush_env
  sg_discard :: task

definition asset_region :: "string \<Rightarrow> string" where
  "asset_region jid = STAGING_REGION_PREFIX @ ''assets-'' @ jid"

definition finish_assets :: "flush_env \<Rightarrow> string \<Rightarrow> string \<Rightarrow> int \<Rightarrow> asset_driver \<times> app_state \<Rightarrow> asset_driver \<times> app_state" where
  "finish_assets env jid region budget = (\<lambda>(d, st).
     let d1 = (if stopping jid st \<and> ad_stop d = None then d\<lparr>ad_stop := Some Stop_failed\<rparr> else d)
     in if ad_stop d1 = None \<and> ad_batch d1 \<noteq> []
        then (case flush_pinned env region budget (d1, st) of (stop, d2, st2) \<Rightarrow> (d2\<lparr>ad_stop := stop\<rparr>, st2))
        else (d1, st))"

text \<open>A region deleted by a task whose outcome is not looked at.\<close>

definition discard_region :: "task \<Rightarrow> string \<Rightarrow> app_state \<Rightarrow> app_state" where
  "discard_region t rid st =
     (if joined t then st\<lparr>cache := snd (delete_region (task_env t) rid (cache st))\<rparr> else st)"

definition stage_claimed :: "(string \<Rightarrow> string) \<Rightarrow> stage_env \<Rightarrow> string list \<Rightarrow> string \<Rightarrow> app_state
    \<Rightarrow> (asset_stop + string) \<times> app_state" where
  "stage_claimed encode env style_sources jid st =
     (if stopping jid st then (Inl Stop_failed, st)
      else
        let region = asset_region jid;
            budget = replacement_budget st (Some BASEMAP_ASSETS_REGION_ID) (credit_of (sg_credit env) BASEMAP_ASSETS_REGION_ID st)
        in (case asset_jobs encode st style_sources of
              None \<Rightarrow> (Inl Stop_failed, st)
            | Some jobs \<Rightarrow>
                (case finish_assets (sg_tail env) jid region budget
                   (join_assets region budget (sg_joins env) 0
                     (spawn_assets region budget (sg_turns env) 0 jobs (\<lparr>ad_batch = [], ad_stop = None, ad_tasks = []\<rparr>, st))) of
                   (d, st2) \<Rightarrow>
                     (case ad_stop d of
                        Some reason \<Rightarrow> (Inl reason, discard_region (sg_discard env) region st2)
                      | None \<Rightarrow> (Inr region, st2)))))"

text \<open>The flag is reset on every exit. \<open>None\<close>: still waiting for it.\<close>

definition stage_basemap_assets :: "(string \<Rightarrow> string) \<Rightarrow> stage_env \<Rightarrow> string list \<Rightarrow> string \<Rightarrow> app_state
    \<Rightarrow> (asset_stop + string) option \<times> app_state" where
  "stage_basemap_assets encode env style_sources jid st =
     (case claim_assets jid (sg_polls env) st of
        (None, st1) \<Rightarrow> (None, st1)
      | (Some False, st1) \<Rightarrow> (Some (Inl Stop_failed), st1)
      | (Some True, st1) \<Rightarrow>
          (case stage_claimed encode env style_sources jid st1 of
             (r, st2) \<Rightarrow> (Some r, st2\<lparr>assets_warming := False\<rparr>)))"

end
