(* ===== verification/Warm_Run.thy ===== *)
theory Warm_Run
  imports Warm_Assets
begin

text \<open>
  The warm driver (\<open>run\<close> in \<open>container/tilecache/src/warm.rs\<close>): the enumeration with its bounded tasks, the
  drain, the join of what is left, the tail flush and its checks, the asset stage, the promotion and the
  cleanup. Every wait has a function in the environment for what the other tasks do meanwhile; the job and
  its cancellation flag are the ones of the registry, which never drops an unfinished job.
\<close>

section \<open>Enumerating and joining\<close>

type_synonym warm_event = "(warm_task, warm_result) join_event"

definition job_errors :: "string \<Rightarrow> app_state \<Rightarrow> nat" where
  "job_errors jid st = (case job_of jid st of Some j \<Rightarrow> wj_errors j | None \<Rightarrow> 0)"

text \<open>One end of a task during the enumeration; \<open>False\<close> breaks out of it.\<close>

definition drain_one :: "run_ctx \<Rightarrow> warm_event \<Rightarrow> driver \<times> app_state \<Rightarrow> bool \<times> driver \<times> app_state" where
  "drain_one cx ev = (\<lambda>(d, st).
     case je_run ev (picked (je_pick ev) (dv_tasks d)) st of
       (res, st1) \<Rightarrow>
         let d1 = d\<lparr>dv_tasks := unpicked (je_pick ev) (dv_tasks d)\<rparr>
         in (case res of
               Finished f \<Rightarrow>
                 (case accumulate cx (je_flush ev) f (d1, st1) of
                    (go, d2, st2) \<Rightarrow> if go then (True, d2, st2) else (False, d2, set_cancel (rc_job cx) st2))
             | Crashed \<Rightarrow>
                 (False, d1\<lparr>dv_final := Error\<rparr>, set_cancel (rc_job cx) (on_job (rc_job cx) add_error st1))))"

fun drain :: "run_ctx \<Rightarrow> warm_event list \<Rightarrow> driver \<times> app_state \<Rightarrow> bool \<times> driver \<times> app_state" where
  "drain cx [] s = (True, s)"
| "drain cx (ev # evs) s =
     (if dv_tasks (fst s) = [] then (True, s)
      else (case drain_one cx ev s of (go, s') \<Rightarrow> if go then drain cx evs s' else (False, s')))"

record turn =
  tu_waited :: "app_state \<Rightarrow> app_state"
  tu_acquired :: "app_state \<Rightarrow> app_state"
  tu_permitted :: bool
  tu_ends :: "warm_event list"

fun enumerate :: "run_ctx \<Rightarrow> nat \<Rightarrow> (nat \<Rightarrow> turn) \<Rightarrow> nat \<Rightarrow> warm_task list \<Rightarrow> driver \<times> app_state \<Rightarrow> driver \<times> app_state" where
  "enumerate cx gen turns i [] s = s"
| "enumerate cx gen turns i (t # ts) (d, st) =
     (let tu = turns i; st1 = tu_waited tu st
      in if config_generation st1 \<noteq> gen then (d\<lparr>dv_final := Error\<rparr>, st1)
         else if job_cancelled (rc_job cx) st1 then (d\<lparr>dv_final := Cancelled\<rparr>, st1)
         else
           let st2 = tu_acquired tu st1
           in if \<not> tu_permitted tu
              then (d\<lparr>dv_final := (if job_cancelled (rc_job cx) st2 then Cancelled else Error)\<rparr>, st2)
              else (case drain cx (tu_ends tu) (d\<lparr>dv_tasks := dv_tasks d @ [t]\<rparr>, st2) of
                  (go, s') \<Rightarrow> if go then enumerate cx gen turns (Suc i) ts s' else s'))"

definition notice_cancel :: "run_ctx \<Rightarrow> driver \<times> app_state \<Rightarrow> driver \<times> app_state" where
  "notice_cancel cx = (\<lambda>(d, st).
     (if job_cancelled (rc_job cx) st \<and> dv_final d = Done then d\<lparr>dv_final := Cancelled\<rparr> else d, st))"

text \<open>One turn of the join: the waits that timed out, each followed by a look at the flag, then the end of a task.\<close>

record join_turn =
  jt_waits :: "(app_state \<Rightarrow> app_state) list"
  jt_event :: warm_event

definition join_waits :: "run_ctx \<Rightarrow> join_turn \<Rightarrow> driver \<times> app_state \<Rightarrow> driver \<times> app_state" where
  "join_waits cx jt s = fold (\<lambda>w (d, st). notice_cancel cx (d, w st)) (jt_waits jt) (notice_cancel cx s)"

definition join_one :: "run_ctx \<Rightarrow> warm_event \<Rightarrow> driver \<times> app_state \<Rightarrow> driver \<times> app_state" where
  "join_one cx ev = (\<lambda>(d, st).
     case je_run ev (picked (je_pick ev) (dv_tasks d)) st of
       (res, st1) \<Rightarrow>
         let d1 = d\<lparr>dv_tasks := unpicked (je_pick ev) (dv_tasks d)\<rparr>
         in (case res of
               Finished f \<Rightarrow>
                 if dv_final d1 = Done
                 then (case accumulate cx (je_flush ev) f (d1, st1) of
                         (go, d2, st2) \<Rightarrow> (d2, if go then st2 else set_cancel (rc_job cx) st2))
                 else (d1, st1)
             | Crashed \<Rightarrow> (d1\<lparr>dv_final := Error\<rparr>, on_job (rc_job cx) add_error st1)))"

lemma dv_tasks_flush: "flush cx env (d, st) = (go, d', st') \<Longrightarrow> dv_tasks d' = dv_tasks d"
  by (auto simp: flush_def Let_def split: sum.splits prod.splits if_splits)

lemma dv_tasks_accumulate: "accumulate cx env res (d, st) = (go, d', st') \<Longrightarrow> dv_tasks d' = dv_tasks d"
  by (auto simp: accumulate_def Let_def split: warm_result.splits if_splits dest: dv_tasks_flush)

lemma dv_tasks_join [simp]: "dv_tasks (fst (join_one cx ev s)) = unpicked (je_pick ev) (dv_tasks (fst s))"
  by (cases s) (auto simp: join_one_def Let_def dest: dv_tasks_accumulate split: prod.splits ended.splits)

lemma dv_tasks_notice [simp]: "dv_tasks (fst (notice_cancel cx s)) = dv_tasks (fst s)"
  by (cases s) (simp add: notice_cancel_def)

lemma dv_tasks_waits [simp]: "dv_tasks (fst (join_waits cx jt s)) = dv_tasks (fst s)"
proof -
  have "dv_tasks (fst (fold (\<lambda>w (d, st). notice_cancel cx (d, w st)) ws s)) = dv_tasks (fst s)" for ws s
    by (induction ws arbitrary: s) (auto split: prod.split)
  then show ?thesis by (simp add: join_waits_def)
qed

function join_loop :: "run_ctx \<Rightarrow> (nat \<Rightarrow> join_turn) \<Rightarrow> nat \<Rightarrow> driver \<times> app_state \<Rightarrow> driver \<times> app_state" where
  "join_loop cx joins i s =
     (let s1 = join_waits cx (joins i) s
      in if dv_tasks (fst s1) = [] then s1
         else join_loop cx joins (Suc i) (join_one cx (jt_event (joins i)) s1))"
  by auto
termination by (relation "measure (\<lambda>(_, _, _, s). length (dv_tasks (fst s)))") auto

declare join_loop.simps [simp del]

section \<open>The end of the tiles\<close>

definition settle_errors :: "run_ctx \<Rightarrow> driver \<times> app_state \<Rightarrow> driver \<times> app_state" where
  "settle_errors cx = (\<lambda>(d, st).
     (if dv_final d = Done \<and> 0 < job_errors (rc_job cx) st then d\<lparr>dv_final := Error\<rparr> else d, st))"

definition flush_tail :: "run_ctx \<Rightarrow> flush_env \<Rightarrow> driver \<times> app_state \<Rightarrow> driver \<times> app_state" where
  "flush_tail cx env = (\<lambda>(d, st).
     if dv_final d = Done \<and> dv_batch d \<noteq> [] then snd (flush cx env (d, st)) else (d, st))"

definition settle_total :: "run_ctx \<Rightarrow> driver \<times> app_state \<Rightarrow> driver \<times> app_state" where
  "settle_total cx = (\<lambda>(d, st).
     (case job_of (rc_job cx) st of
        Some j \<Rightarrow>
          if dv_final d = Done \<and> sat_u64 (wj_done j + wj_skipped j) \<noteq> wj_total j then d\<lparr>dv_final := Error\<rparr> else d
      | None \<Rightarrow> d, st))"

definition settle_generation :: "nat \<Rightarrow> driver \<times> app_state \<Rightarrow> driver \<times> app_state" where
  "settle_generation gen = (\<lambda>(d, st).
     (if dv_final d = Done \<and> config_generation st \<noteq> gen then d\<lparr>dv_final := Error\<rparr> else d, st))"

section \<open>Assets, promotion, cleanup\<close>

text \<open>\<open>None\<close> when the wait for the asset flag has not ended.\<close>

definition run_assets :: "(string \<Rightarrow> string) \<Rightarrow> stage_env \<Rightarrow> run_ctx \<Rightarrow> string list \<Rightarrow> driver \<times> app_state
    \<Rightarrow> (string option \<times> driver \<times> app_state) option" where
  "run_assets encode env cx styles = (\<lambda>(d, st).
     if dv_final d \<noteq> Done \<or> styles = [] then Some (None, d, st)
     else (case stage_basemap_assets encode env styles (rc_job cx) st of
         (None, st1) \<Rightarrow> None
       | (Some (Inr staging), st1) \<Rightarrow> Some (Some staging, d, st1)
       | (Some (Inl stop), st1) \<Rightarrow>
           Some (None,
             if job_cancelled (rc_job cx) st1 then (d\<lparr>dv_final := Cancelled\<rparr>, st1)
             else (case stop of
                 Stop_capped \<Rightarrow> (d\<lparr>dv_final := Capped\<rparr>, st1)
               | Stop_failed \<Rightarrow> (d\<lparr>dv_final := Error\<rparr>, on_job (rc_job cx) add_error st1)))))"

definition replacements_of :: "region_ctx \<Rightarrow> string option \<Rightarrow> (string \<times> string) list" where
  "replacements_of region assets =
     (case (rg_storage region, rg_target region) of (Some s, Some t) \<Rightarrow> [(s, t)] | _ \<Rightarrow> []) @
     (case assets of Some s \<Rightarrow> [(s, BASEMAP_ASSETS_REGION_ID)] | None \<Rightarrow> [])"

text \<open>The promotion, under the configuration lock: \<open>locked\<close> is what happened while the lock was awaited.\<close>

definition promote_run :: "task \<Rightarrow> (app_state \<Rightarrow> app_state) \<Rightarrow> nat \<Rightarrow> (string \<times> string) list
    \<Rightarrow> driver \<times> app_state \<Rightarrow> driver \<times> app_state" where
  "promote_run t locked gen reps = (\<lambda>(d, st).
     if dv_final d \<noteq> Done \<or> reps = [] then (d, st)
     else
       let st1 = locked st
       in if config_generation st1 \<noteq> gen then (d\<lparr>dv_final := Error\<rparr>, st1)
          else
            let cap = max 0 (live_cap_bytes st1);
                regions = max 0 (min (live_regions_budget st1) cap);
                position = max 0 (min (live_position_warm_budget st1) regions)
            in if \<not> joined t
               then (d\<lparr>dv_final := Error\<rparr>, st1\<lparr>cache := record_operation_error (cache st1)\<rparr>)
               else (case promote_staged_regions (task_env t) reps (max 0 (regions - position)) position cap (cache st1) of
                   (Inr True, c) \<Rightarrow> (d, st1\<lparr>cache := c\<rparr>)
                 | (Inr False, c) \<Rightarrow> (d\<lparr>dv_final := Capped\<rparr>, st1\<lparr>cache := c\<rparr>)
                 | (Inl e, c) \<Rightarrow> (d\<lparr>dv_final := Error\<rparr>, st1\<lparr>cache := record_operation_error c\<rparr>)))"

definition cleanup_staging :: "(string \<Rightarrow> task) \<Rightarrow> string \<times> string \<Rightarrow> app_state \<Rightarrow> app_state" where
  "cleanup_staging tasks = (\<lambda>(staging, _) st.
     let t = tasks staging
     in if \<not> joined t then st\<lparr>cache := record_operation_error (cache st)\<rparr>
        else st\<lparr>cache := log_cache_err (delete_region (task_env t) staging (cache st))\<rparr>)"

definition cleanup_run :: "(string \<Rightarrow> task) \<Rightarrow> (string \<times> string) list \<Rightarrow> driver \<times> app_state \<Rightarrow> app_state" where
  "cleanup_run tasks reps = (\<lambda>(d, st).
     if dv_final d = Done then st else fold (cleanup_staging tasks) reps st)"

section \<open>The run\<close>

record run_env =
  re_started :: "app_state \<Rightarrow> app_state"
  re_credit :: task
  re_ensure :: "string \<Rightarrow> app_state \<Rightarrow> bool \<times> app_state"
  re_turns :: "nat \<Rightarrow> turn"
  re_joins :: "nat \<Rightarrow> join_turn"
  re_tail :: flush_env
  re_stage :: stage_env
  re_staged :: "app_state \<Rightarrow> app_state"
  re_locked :: "app_state \<Rightarrow> app_state"
  re_promote :: task
  re_cleanup :: "string \<Rightarrow> task"
  re_end :: int

definition staging_region :: "string \<Rightarrow> string \<Rightarrow> string" where
  "staging_region jid rid =
     (if rid = POSITION_WARM_REGION_ID then POSITION_STAGING_REGION_PREFIX else STAGING_REGION_PREFIX) @ jid"

definition run_tasks :: "(f64 \<Rightarrow> f64) \<Rightarrow> run_spec \<Rightarrow> warm_source list \<Rightarrow> warm_task list" where
  "run_tasks merc spec ws =
     concat (map (\<lambda>s. concat (map (\<lambda>b. map (Pair s) (tiles_iter merc (ws_source s) b (rn_zmin spec) (rn_zmax spec)))
       (rn_bboxes spec))) ws)"

definition expanded_total :: "(f64 \<Rightarrow> f64) \<Rightarrow> run_spec \<Rightarrow> warm_source list \<Rightarrow> nat" where
  "expanded_total merc spec ws =
     sum_list (concat (map (\<lambda>s. map (\<lambda>b. tile_count_in_bbox merc (ws_source s) b (rn_zmin spec) (rn_zmax spec))
       (rn_bboxes spec)) ws))"

definition end_run :: "run_spec \<Rightarrow> warm_state \<Rightarrow> int \<Rightarrow> app_state \<Rightarrow> app_state" where
  "end_run spec final now st =
     (let st1 = finish_job (rn_job spec) final now st
      in case rn_region spec of Some r \<Rightarrow> release_region r st1 | None \<Rightarrow> st1)"

text \<open>What comes before the tiles: the tasks and the context, or the early end.\<close>

definition prepare :: "(f64 \<Rightarrow> f64) \<Rightarrow> run_env \<Rightarrow> run_spec \<Rightarrow> app_state
    \<Rightarrow> (app_state + run_ctx \<times> warm_task list \<times> app_state)" where
  "prepare merc env spec st =
     (if config_generation st \<noteq> rn_generation spec then Inl (end_run spec Error (re_end env) st)
      else
        let region = \<lparr>rg_target = rn_region spec, rg_storage = map_option (staging_region (rn_job spec)) (rn_region spec),
                      rg_credit = (case rn_region spec of Some r \<Rightarrow> credit_of (re_credit env) r st | None \<Rightarrow> 0)\<rparr>
        in (case expand_warm_sources (re_ensure env) (rn_sources spec) st of
              (None, st1) \<Rightarrow> Inl (end_run spec Error (re_end env) (on_job (rn_job spec) add_error st1))
            | (Some ws, st1) \<Rightarrow>
                let tot = expanded_total merc spec ws; st2 = on_job (rn_job spec) (\<lambda>j. j\<lparr>wj_total := tot\<rparr>) st1
                in if tot = 0 \<or> WARM_TILE_HARD_CAP < tot then Inl (end_run spec Error (re_end env) st2)
                   else Inr (\<lparr>rc_job = rn_job spec, rc_region = region\<rparr>, run_tasks merc spec ws, st2)))"

definition run_tiles :: "run_env \<Rightarrow> nat \<Rightarrow> run_ctx \<Rightarrow> warm_task list \<Rightarrow> app_state \<Rightarrow> driver \<times> app_state" where
  "run_tiles env gen cx tasks st =
     settle_generation gen (settle_total cx (settle_errors cx (flush_tail cx (re_tail env) (settle_errors cx
       (join_loop cx (re_joins env) 0
         (enumerate cx gen (re_turns env) 0 tasks (\<lparr>dv_batch = [], dv_final = Done, dv_tasks = []\<rparr>, st)))))))"

definition conclude :: "run_env \<Rightarrow> run_spec \<Rightarrow> run_ctx \<Rightarrow> string option \<Rightarrow> driver \<times> app_state \<Rightarrow> warm_state \<times> app_state" where
  "conclude env spec cx assets = (\<lambda>(d, st).
     let reps = replacements_of (rc_region cx) assets;
         (d1, st1) = promote_run (re_promote env) (re_locked env) (rn_generation spec) reps
                       (settle_generation (rn_generation spec) (d, re_staged env st));
         st2 = cleanup_run (re_cleanup env) reps (d1, st1)
     in (dv_final d1, end_run spec (dv_final d1) (re_end env) st2))"

definition run :: "(f64 \<Rightarrow> f64) \<Rightarrow> (string \<Rightarrow> string) \<Rightarrow> run_env \<Rightarrow> run_spec \<Rightarrow> app_state \<Rightarrow> (warm_state \<times> app_state) option" where
  "run merc encode env spec st =
     (case prepare merc env spec (re_started env st) of
        Inl st1 \<Rightarrow> Some (Error, st1)
      | Inr (cx, tasks, st1) \<Rightarrow>
          map_option (\<lambda>(assets, s). conclude env spec cx assets s)
            (run_assets encode (re_stage env) cx (map src_id (filter is_style (rn_sources spec)))
              (run_tiles env (rn_generation spec) cx tasks st1)))"

end
