(* ===== verification/Warm_Run_Props.thy ===== *)
theory Warm_Run_Props
  imports Warm_Run Cache_Claims
begin

text \<open>
  What a warm run keeps: the cache well formed, the keys of every region but its own staging ones, and,
  while nothing has gone wrong, every tile of its tasks either staged, in the batch or in flight.
\<close>

section \<open>Regions and the cache operations of a run\<close>

abbreviation keys :: "app_state \<Rightarrow> string \<Rightarrow> tile_key set" where
  "keys st rid \<equiv> region_keys (conn (cache st)) rid"

lemma store_prefix_keys:
  "region_keys (store_prefix cx rows d) rid =
     region_keys d rid \<union> (if bc_region cx = Some rid then wr_key ` set rows else {})"
proof (induction rows arbitrary: d)
  case (Cons r rows)
  have "region_keys (store_pinned (bc_region cx) (wr_key r) (wr_tile r) (bc_now cx) d) rid =
      region_keys d rid \<union> (if bc_region cx = Some rid then {wr_key r} else {})"
    by (cases "bc_region cx") (auto simp: region_keys_def store_pinned_joins)
  with Cons show ?case by (auto simp: store_prefix_def)
qed (simp add: store_prefix_def)

lemma put_many_keys:
  assumes inv: "cache_inv c" and nn: "\<forall>r \<in> set rows. 0 \<le> bytes (wr_tile r)"
    and run: "put_many_pinned env rows budget cap region now c = (res, c')"
  shows "region_keys (conn c) rid \<subseteq> region_keys (conn c') rid"
    "region_keys (conn c') rid \<subseteq> region_keys (conn c) rid \<union> (if region = Some rid then wr_key ` set rows else {})"
    "res = Inr out \<Longrightarrow> \<not> pm_capped out \<Longrightarrow> region = Some rid \<Longrightarrow> wr_key ` set rows \<subseteq> region_keys (conn c') rid"
proof -
  have "region_keys (conn c) rid \<subseteq> region_keys (conn c') rid
    \<and> region_keys (conn c') rid \<subseteq> region_keys (conn c) rid \<union> (if region = Some rid then wr_key ` set rows else {})
    \<and> (\<forall>out. res = Inr out \<and> \<not> pm_capped out \<and> region = Some rid \<longrightarrow> wr_key ` set rows \<subseteq> region_keys (conn c') rid)"
  proof (cases res)
    case (Inl e)
    with put_many_error run show ?thesis by auto
  next
    case (Inr out)
    from inv nn run[unfolded Inr] show ?thesis
    proof (cases rule: put_many_result)
      case none
      with Inr show ?thesis by (auto simp: DISK_PRESSURE_def)
    next
      case (some cx acc)
      have k: "region_keys (conn c') rid = region_keys (store_prefix cx (take (pm_stored out) rows) (conn c)) rid"
        using some(8,13) by (simp add: region_keys_def)
      have t: "\<not> pm_capped out \<Longrightarrow> take (pm_stored out) rows = rows" using some(9,10) by simp
      show ?thesis
        unfolding k store_prefix_keys some(3) using Inr t by (auto dest: in_set_takeD)
    qed
  qed
  then show "region_keys (conn c) rid \<subseteq> region_keys (conn c') rid"
    "region_keys (conn c') rid \<subseteq> region_keys (conn c) rid \<union> (if region = Some rid then wr_key ` set rows else {})"
    "res = Inr out \<Longrightarrow> \<not> pm_capped out \<Longrightarrow> region = Some rid \<Longrightarrow> wr_key ` set rows \<subseteq> region_keys (conn c') rid"
    by blast+
qed

lemma delete_region_keys:
  assumes inv: "cache_inv c" and rc: "faults env S_recount = None"
  shows "cache_inv (snd (delete_region env rid c))"
    "other \<noteq> rid \<Longrightarrow> region_keys (conn (snd (delete_region env rid c))) other = region_keys (conn c) other"
    "fst (delete_region env rid c) = Inr () \<Longrightarrow> region_keys (conn (snd (delete_region env rid c))) rid = {}"
  using delete_region_inv[OF inv rc] demote_facts(5)[OF cache_invD(1,2)[OF inv], of "\<lambda>i. i = rid"]
  by (auto simp: delete_region_def Let_def split: option.splits)

lemma pin_fresh_keys:
  assumes inv: "cache_inv (cache st)" and run: "pin_fresh_for_warm t now k region b st = (out, st')"
  shows "cache_inv (cache st')" "keys st rid \<subseteq> keys st' rid"
    "keys st' rid \<subseteq> keys st rid \<union> (if region = Some rid then {k} else {})"
    "out = Some FPinned \<Longrightarrow> region = Some rid \<Longrightarrow> k \<in> keys st' rid"
proof -
  let ?b = "\<lparr>category_budget = b, physical_budget = live_cap_bytes st\<rparr>"
  let ?p = "pin_if_fresh_capped (task_env t) k now (kn_fresh_secs (knobs st)) (negative_ttl_secs (knobs st)) ?b region"
  have pin: "region_keys (pin_key region k d) rid = region_keys d rid \<union> (if region = Some rid then {k} else {})" for d region
    by (cases region) (auto simp: pin_key_def region_keys_def insert_join_def set_pinned_def Let_def)
  obtain res c where p: "?p (cache st) = (res, c)" by (cases "?p (cache st)")
  have c: "cache_inv c" using pin_if_fresh_capped_inv[OF inv] p by (metis snd_conv)
  have k: "conn c = conn (cache st) \<or> conn c = pin_key region k (conn (cache st))"
    "res = Inr FPinned \<Longrightarrow> conn c = pin_key region k (conn (cache st))"
    using p by (auto elim!: pin_if_fresh_cases pin_locked_cases)
  have st': "out = None \<and> (st' = st\<lparr>cache := record_operation_error (cache st)\<rparr> \<or> st' = st\<lparr>cache := record_operation_error c\<rparr>)
      \<or> (\<exists>v. res = Inr v \<and> out = Some v \<and> st' = st\<lparr>cache := c\<rparr>)"
    using run p by (auto simp: pin_fresh_for_warm_def cache_task_def split: if_splits sum.splits)
  have rec: "cache_inv (record_operation_error x) = cache_inv x" "conn (record_operation_error x) = conn x" for x
    by (simp_all add: record_operation_error_def inv_defs)
  show "cache_inv (cache st')" using st' inv c by (auto simp: rec)
  show "keys st rid \<subseteq> keys st' rid" using st' k(1) by (auto simp: rec pin)
  show "keys st' rid \<subseteq> keys st rid \<union> (if region = Some rid then {k} else {})" using st' k(1) by (auto simp: rec pin)
  show "out = Some FPinned \<Longrightarrow> region = Some rid \<Longrightarrow> k \<in> keys st' rid" using st' k(2) by (auto simp: pin)
qed

section \<open>What a step of a run may change\<close>

text \<open>
  \<open>advances s K kept st st'\<close>: from a well-formed cache to a well-formed one, the staging region \<open>s\<close> only
  grows, by keys of \<open>K\<close>, and the regions in \<open>kept\<close> keep their keys.
\<close>

definition advances :: "string \<Rightarrow> tile_key set \<Rightarrow> string set \<Rightarrow> app_state \<Rightarrow> app_state \<Rightarrow> bool" where
  "advances s K kept st st' \<longleftrightarrow>
     (cache_inv (cache st) \<longrightarrow> cache_inv (cache st') \<and> keys st s \<subseteq> keys st' s \<and> keys st' s \<subseteq> keys st s \<union> K
        \<and> (\<forall>r \<in> kept. keys st' r = keys st r))"

lemma advances_refl [simp]: "advances s K kept st st"
  by (simp add: advances_def)

lemma advances_trans: "advances s K kept a b \<Longrightarrow> advances s K kept b c \<Longrightarrow> advances s K kept a c"
  by (auto simp: advances_def)

lemma advances_cache:
  "cache st' = cache st \<Longrightarrow> advances s K kept st st'"
  by (simp add: advances_def)

lemma advances_conn:
  assumes "cache_inv (cache st) \<Longrightarrow> cache_inv (cache st')" "conn (cache st') = conn (cache st)"
  shows "advances s K kept st st'"
  using assms by (simp add: advances_def)

definition counters :: "string \<Rightarrow> app_state \<Rightarrow> (nat \<times> nat \<times> nat \<times> nat) option" where
  "counters jid st = map_option (\<lambda>j. (wj_total j, wj_done j, wj_skipped j, wj_errors j)) (job_of jid st)"

lemma job_errors_counters: "job_errors jid st = (case counters jid st of Some (_, _, _, e) \<Rightarrow> e | None \<Rightarrow> 0)"
  by (simp add: job_errors_def counters_def split: option.split)

text \<open>The other tasks: they leave the staging region to this run, and the counters of its job alone.\<close>

definition calm :: "string \<Rightarrow> string \<Rightarrow> tile_key set \<Rightarrow> string set \<Rightarrow> (app_state \<Rightarrow> app_state) \<Rightarrow> bool" where
  "calm jid s K kept f \<longleftrightarrow> (\<forall>st. advances s K kept st (f st) \<and> counters jid (f st) = counters jid st)"

lemma calm_id [simp]: "calm jid s K kept id" "calm jid s K kept (\<lambda>st. st)"
  by (simp_all add: calm_def)

lemma calm_errors: "calm jid s K kept f \<Longrightarrow> job_errors jid (f st) = job_errors jid st"
  by (simp add: calm_def job_errors_counters)

definition key_of :: "warm_task \<Rightarrow> tile_key" where
  "key_of t = (src_id (ws_source (fst t)), snd t)"

text \<open>What a tile task does up to its end: it pins at most its own key, and its result is about its own tile.\<close>

definition task_fits :: "string \<Rightarrow> string \<Rightarrow> tile_key set \<Rightarrow> string set
    \<Rightarrow> (warm_task \<Rightarrow> app_state \<Rightarrow> warm_result ended \<times> app_state) \<Rightarrow> bool" where
  "task_fits jid s K kept f \<longleftrightarrow>
     (\<forall>t st. key_of t \<in> K \<longrightarrow>
        advances s K kept st (snd (f t st)) \<and> counters jid (snd (f t st)) = counters jid st \<and>
        (case fst (f t st) of
           Finished (W_tile row) \<Rightarrow> wr_key row = key_of t \<and> 0 \<le> bytes (wr_tile row)
         | Finished (W_negative row) \<Rightarrow> wr_key row = key_of t \<and> 0 \<le> bytes (wr_tile row)
         | Finished W_skipped \<Rightarrow> cache_inv (cache st) \<longrightarrow> key_of t \<in> keys (snd (f t st)) s
         | _ \<Rightarrow> True))"

definition event_fits :: "string \<Rightarrow> string \<Rightarrow> tile_key set \<Rightarrow> string set \<Rightarrow> warm_event \<Rightarrow> bool" where
  "event_fits jid s K kept ev \<longleftrightarrow> task_fits jid s K kept (je_run ev) \<and> calm jid s K kept (fl_waited (je_flush ev))"

definition turn_fits :: "string \<Rightarrow> string \<Rightarrow> tile_key set \<Rightarrow> string set \<Rightarrow> turn \<Rightarrow> bool" where
  "turn_fits jid s K kept tu \<longleftrightarrow> calm jid s K kept (tu_waited tu) \<and> calm jid s K kept (tu_acquired tu)
     \<and> (\<forall>ev \<in> set (tu_ends tu). event_fits jid s K kept ev)"

definition join_fits :: "string \<Rightarrow> string \<Rightarrow> tile_key set \<Rightarrow> string set \<Rightarrow> join_turn \<Rightarrow> bool" where
  "join_fits jid s K kept jt \<longleftrightarrow>
     (\<forall>w \<in> set (jt_waits jt). calm jid s K kept w) \<and> event_fits jid s K kept (jt_event jt)"

lemma counters_on_job:
  "counters jid (on_job jid f st) =
     map_option (\<lambda>j. (wj_total (f j), wj_done (f j), wj_skipped (f j), wj_errors (f j))) (job_of jid st)"
proof -
  have "map_of (map (\<lambda>p. if fst p = jid then (fst p, f (snd p)) else p) xs) jid = map_option f (map_of xs jid)" for xs
    by (induction xs) auto
  then show ?thesis
    by (cases "map_of (warm_jobs st) jid") (simp_all add: counters_def job_of_def on_job_def update_jobs_def)
qed

lemma cache_on_job [simp]: "cache (on_job jid f st) = cache st" "cache (set_cancel jid st) = cache st"
  "config_generation (on_job jid f st) = config_generation st"
  by (simp_all add: on_job_def set_cancel_def update_jobs_def)

lemma errors_set_cancel [simp]: "job_errors jid (set_cancel jid st) = job_errors jid st"
  by (simp add: job_errors_counters set_cancel_def counters_on_job) (simp add: counters_def)

lemma advances_jobs [simp]:
  "advances s K kept st (on_job jid f st') = advances s K kept st st'"
  "advances s K kept st (set_cancel jid st') = advances s K kept st st'"
  by (simp_all add: advances_def)

lemma job_of_on_job: "job_of jid (on_job jid f st) = map_option f (job_of jid st)"
proof -
  have "map_of (map (\<lambda>p. if fst p = jid then (fst p, f (snd p)) else p) xs) jid = map_option f (map_of xs jid)" for xs
    by (induction xs) auto
  then show ?thesis by (simp add: job_of_def on_job_def update_jobs_def)
qed

lemma job_of_cache [simp]: "job_of jid (st\<lparr>cache := c\<rparr>) = job_of jid st"
  by (simp add: job_of_def)

lemma errors_cache [simp]: "job_errors jid (st\<lparr>cache := c\<rparr>) = job_errors jid st"
  by (simp add: job_errors_def)

lemma errors_add: "job_of jid st \<noteq> None \<Longrightarrow> 0 < job_errors jid (on_job jid add_error st)"
  by (auto simp: job_errors_def job_of_on_job add_error_def split: option.split)

lemma errors_counted:
  "(\<And>j. wj_errors (f j) = wj_errors j) \<Longrightarrow> job_errors jid (on_job jid f st) = job_errors jid st"
  by (simp add: job_errors_def job_of_on_job split: option.split)

lemma record_error_inv [simp]:
  "cache_inv (record_operation_error x) = cache_inv x" "conn (record_operation_error x) = conn x"
  by (simp_all add: record_operation_error_def inv_defs)

section \<open>The driver's steps\<close>

definition sound :: "string \<Rightarrow> string \<Rightarrow> tile_key set \<Rightarrow> string set \<Rightarrow> app_state \<Rightarrow> tile_key set \<Rightarrow> driver \<times> app_state \<Rightarrow> bool" where
  "sound jid s K kept st0 S = (\<lambda>(d, st).
     cache_inv (cache st) \<and> advances s K kept st0 st \<and> job_of jid st \<noteq> None \<and>
     (\<forall>row \<in> set (dv_batch d). wr_key row \<in> K \<and> 0 \<le> bytes (wr_tile row)) \<and> key_of ` set (dv_tasks d) \<subseteq> K \<and>
     (dv_final d = Done \<and> job_errors jid st = 0 \<longrightarrow>
        S \<subseteq> keys st s \<union> wr_key ` set (dv_batch d) \<union> key_of ` set (dv_tasks d)))"

lemma soundI:
  assumes "cache_inv (cache st)" "advances s K kept st0 st" "job_of jid st \<noteq> None"
    and "\<And>row. row \<in> set (dv_batch d) \<Longrightarrow> wr_key row \<in> K \<and> 0 \<le> bytes (wr_tile row)"
    and "key_of ` set (dv_tasks d) \<subseteq> K"
    and "dv_final d = Done \<Longrightarrow> job_errors jid st = 0 \<Longrightarrow>
      S \<subseteq> keys st s \<union> wr_key ` set (dv_batch d) \<union> key_of ` set (dv_tasks d)"
  shows "sound jid s K kept st0 S (d, st)"
  using assms unfolding sound_def by simp

lemma soundD:
  assumes "sound jid s K kept st0 S (d, st)"
  shows "cache_inv (cache st)" "advances s K kept st0 st" "job_of jid st \<noteq> None"
    "\<And>row. row \<in> set (dv_batch d) \<Longrightarrow> wr_key row \<in> K \<and> 0 \<le> bytes (wr_tile row)"
    "key_of ` set (dv_tasks d) \<subseteq> K"
    "dv_final d = Done \<Longrightarrow> job_errors jid st = 0 \<Longrightarrow>
      S \<subseteq> keys st s \<union> wr_key ` set (dv_batch d) \<union> key_of ` set (dv_tasks d)"
  using assms unfolding sound_def by simp_all

text \<open>Once a run will not end as done nothing is owed for any tile.\<close>

lemma sound_lost:
  "sound jid s K kept st0 S (d, st) \<Longrightarrow> dv_final d' \<noteq> Done \<Longrightarrow> dv_batch d' = dv_batch d \<Longrightarrow> dv_tasks d' = dv_tasks d
   \<Longrightarrow> sound jid s K kept st0 S' (d', st)"
  unfolding sound_def by simp

text \<open>A step that changes the state, not the driver: it advances, keeps the job and loses no error.\<close>

lemma sound_step:
  assumes "sound jid s K kept st0 S (d, st)" "advances s K kept st st'" "job_of jid st' \<noteq> None"
    and "job_errors jid st' = 0 \<Longrightarrow> job_errors jid st = 0"
  shows "sound jid s K kept st0 S (d, st')"
proof (rule soundI)
  note D = soundD[OF assms(1)]
  show "advances s K kept st0 st'" by (rule advances_trans[OF D(2) assms(2)])
  show "cache_inv (cache st')" using assms(2) D(1) by (simp add: advances_def)
  show "S \<subseteq> keys st' s \<union> wr_key ` set (dv_batch d) \<union> key_of ` set (dv_tasks d)"
    if "dv_final d = Done" "job_errors jid st' = 0"
    using D(6)[OF that(1) assms(4)[OF that(2)]] assms(2) D(1) by (auto simp: advances_def)
qed (use assms(3) soundD(4,5)[OF assms(1)] in blast)+

lemma counters_job: "counters jid st' = counters jid st \<Longrightarrow> job_of jid st' \<noteq> None \<longleftrightarrow> job_of jid st \<noteq> None"
  by (cases "job_of jid st"; cases "job_of jid st'") (simp_all add: counters_def)

lemma sound_calm:
  assumes "sound jid s K kept st0 S (d, st)" "calm jid s K kept f"
  shows "sound jid s K kept st0 S (d, f st)"
proof (rule sound_step[OF assms(1)])
  have c: "counters jid (f st) = counters jid st" using assms(2) by (simp add: calm_def)
  show "job_of jid (f st) \<noteq> None" using counters_job[OF c] soundD(3)[OF assms(1)] by simp
  show "job_errors jid (f st) = 0 \<Longrightarrow> job_errors jid st = 0" using c by (simp add: job_errors_counters)
qed (use assms(2) in \<open>simp add: calm_def\<close>)

lemma picked_cover: "ts \<noteq> [] \<Longrightarrow> set ts = insert (picked i ts) (set (unpicked i ts))"
proof -
  assume "ts \<noteq> []"
  then have "i mod length ts < length ts" by simp
  then have "ts = take (i mod length ts) ts @ picked i ts # drop (Suc (i mod length ts)) ts"
    unfolding picked_def by (rule id_take_nth_drop)
  then have "set ts = set (take (i mod length ts) ts @ picked i ts # drop (Suc (i mod length ts)) ts)" by simp
  then show ?thesis by (simp add: unpicked_def)
qed

lemma sound_add_error:
  "sound jid s K kept st0 S (d, st) \<Longrightarrow> sound jid s K kept st0 S' (d, on_job jid add_error st)"
  using errors_add[of jid st] unfolding sound_def by (auto simp: job_of_on_job)

lemma sound_on_job:
  "sound jid s K kept st0 S (d, st) \<Longrightarrow> (\<And>j. wj_errors (f j) = wj_errors j) \<Longrightarrow> sound jid s K kept st0 S (d, on_job jid f st)"
  using errors_counted[of f jid st] unfolding sound_def by (auto simp: job_of_on_job)

lemma sound_set_cancel: "sound jid s K kept st0 S (d, st) \<Longrightarrow> sound jid s K kept st0 S (d, set_cancel jid st)"
  unfolding set_cancel_def by (rule sound_on_job) simp_all

text \<open>
  The contract of a run's staging: its batches are stored under the staging region, which is none of the
  regions it must keep. The steps of the driver are proved sound from it.
\<close>

locale staged_run =
  fixes cx :: run_ctx and s :: string and K :: "tile_key set" and kept :: "string set"
  assumes storage: "rg_storage (rc_region cx) = Some s"
    and apart: "s \<notin> kept"
begin

lemma put_advances:
  assumes "cache_inv (cache st)" "\<And>r. r \<in> set rows \<Longrightarrow> wr_key r \<in> K \<and> 0 \<le> bytes (wr_tile r)"
    and "put_many_pinned env rows b cap (Some s) now (cache st) = (res, c)"
  shows "advances s K kept st (st\<lparr>cache := c\<rparr>)"
proof -
  have nn: "\<forall>r \<in> set rows. 0 \<le> bytes (wr_tile r)" using assms(2) by blast
  note k = put_many_keys[OF assms(1) nn assms(3)]
  have "cache_inv c" using put_many_inv[OF assms(1) nn] assms(3) by (metis snd_conv)
  moreover have "keys st s \<subseteq> region_keys (conn c) s" by (rule k(1))
  moreover have "region_keys (conn c) s \<subseteq> keys st s \<union> K" using k(2)[of s] assms(2) by auto
  moreover have "region_keys (conn c) r = keys st r" if "r \<in> kept" for r
    using k(1,2)[of r] that apart by (auto split: if_splits)
  ultimately show ?thesis by (simp add: advances_def)
qed

lemma flush_sound:
  assumes snd: "sound (rc_job cx) s K kept st0 S (d, st)" and w: "calm (rc_job cx) s K kept (fl_waited env)"
    and run: "flush cx env (d, st) = (go, d', st')"
  shows "sound (rc_job cx) s K kept st0 S (d', st') \<and> (\<not> go \<longrightarrow> dv_final d' \<noteq> Done) \<and> dv_batch d' = []"
proof -
  let ?st = "fl_waited env st" and ?jid = "rc_job cx" and ?d = "d\<lparr>dv_batch := []\<rparr>"
  note S = soundD[OF sound_calm[OF snd w]]
  have bad: "sound ?jid s K kept st0 S (?d, on_job ?jid add_error (?st\<lparr>cache := c\<rparr>))"
    if "cache_inv c" "conn c = conn (cache ?st)" for c
  proof (rule soundI)
    show "advances s K kept st0 (on_job ?jid add_error (?st\<lparr>cache := c\<rparr>))"
      using that advances_trans[OF S(2) advances_conn[of ?st "?st\<lparr>cache := c\<rparr>"]] by simp
    show "S \<subseteq> X" if "job_errors ?jid (on_job ?jid add_error (?st\<lparr>cache := c\<rparr>)) = 0" for X
      using errors_add[of ?jid "?st\<lparr>cache := c\<rparr>"] S(3) that by simp
  qed (use that S(3,5) in \<open>simp_all add: job_of_on_job\<close>)
  show ?thesis
  proof (cases "joined (fl_task env)")
    case False
    with run bad[of "record_operation_error (cache ?st)"] S(1) show ?thesis by (auto simp: flush_def Let_def)
  next
    case True
    obtain res c where p: "put_many_pinned (task_env (fl_task env)) (dv_batch d)
        (replacement_budget st (rg_target (rc_region cx)) (rg_credit (rc_region cx))) (live_cap_bytes st)
        (Some s) (fl_now env) (cache ?st) = (res, c)" by (metis surj_pair)
    note adv = put_advances[OF S(1) S(4) p]
    have inv: "cache_inv c" using adv S(1) by (simp add: advances_def)
    show ?thesis
    proof (cases res)
      case (Inl e)
      have "conn c = conn (cache ?st)" using put_many_error[OF p[unfolded Inl]] by blast
      with bad[of "record_operation_error c"] inv run True p Inl storage show ?thesis
        by (auto simp: flush_def Let_def)
    next
      case (Inr out)
      let ?f = "\<lambda>j. j\<lparr>wj_done := wj_done j + pm_stored out, wj_bytes := wj_bytes j + pm_bytes_added out\<rparr>"
      let ?st' = "on_job ?jid ?f (?st\<lparr>cache := c\<rparr>)"
      have r: "st' = ?st'" "go = (\<not> pm_capped out)" "d' = (if pm_capped out then ?d\<lparr>dv_final := Capped\<rparr> else ?d)"
        using run True p Inr storage by (auto simp: flush_def Let_def split: if_splits)
      have d': "dv_batch d' = []" "dv_tasks d' = dv_tasks d" using r(3) by simp_all
      have "sound ?jid s K kept st0 S (d', ?st')"
      proof (rule soundI)
        show "advances s K kept st0 ?st'" using advances_trans[OF S(2) adv] by simp
        show "S \<subseteq> keys ?st' s \<union> wr_key ` set (dv_batch d') \<union> key_of ` set (dv_tasks d')"
          if "dv_final d' = Done" "job_errors ?jid ?st' = 0"
        proof -
          have nc: "\<not> pm_capped out" using that(1) r(3) by auto
          have "job_errors ?jid ?st = 0" using that(2) by (simp add: errors_counted)
          moreover have "dv_final d = Done" using that(1) r(3) nc by simp
          ultimately have "S \<subseteq> keys ?st s \<union> wr_key ` set (dv_batch d) \<union> key_of ` set (dv_tasks d)" by (intro S(6))
          moreover have "wr_key ` set (dv_batch d) \<subseteq> region_keys (conn c) s"
            using put_many_keys(3)[OF S(1) _ p Inr nc] S(4) by blast
          moreover have "keys ?st s \<subseteq> region_keys (conn c) s" using adv S(1) by (simp add: advances_def)
          ultimately show ?thesis using r(3) nc by auto
        qed
      qed (use inv S(3,5) d' in \<open>auto simp: job_of_on_job\<close>)
      with r show ?thesis by simp
    qed
  qed
qed

text \<open>One task of the set ended: what it owed is in the staging region or in the batch, or the run has failed.\<close>

lemma task_ended:
  assumes snd: "sound (rc_job cx) s K kept st0 S (d, st)" and ne: "dv_tasks d \<noteq> []"
    and ev: "event_fits (rc_job cx) s K kept ev"
    and r: "je_run ev (picked (je_pick ev) (dv_tasks d)) st = (res, st1)"
  defines "d1 \<equiv> d\<lparr>dv_tasks := unpicked (je_pick ev) (dv_tasks d)\<rparr>"
  shows "res = Crashed \<or> dv_final d \<noteq> Done \<Longrightarrow> dv_final d' \<noteq> Done \<Longrightarrow> dv_batch d' = dv_batch d1 \<Longrightarrow> dv_tasks d' = dv_tasks d1
      \<Longrightarrow> sound (rc_job cx) s K kept st0 S' (d', st1)"
    "res = Finished f \<Longrightarrow> accumulate cx (je_flush ev) f (d1, st1) = (go, d', st')
      \<Longrightarrow> sound (rc_job cx) s K kept st0 S (d', st') \<and> (\<not> go \<longrightarrow> dv_final d' \<noteq> Done)"
proof -
  let ?t = "picked (je_pick ev) (dv_tasks d)" and ?jid = "rc_job cx"
  note cover = picked_cover[OF ne, of "je_pick ev"]
  note D = soundD[OF snd]
  have tK: "key_of ?t \<in> K" using D(5) cover by auto
  have sub: "key_of ` set (dv_tasks d1) \<subseteq> K" using D(5) cover by (auto simp: d1_def)
  have fit: "advances s K kept st st1" "counters ?jid st1 = counters ?jid st"
    "case res of
       Finished (W_tile row) \<Rightarrow> wr_key row = key_of ?t \<and> 0 \<le> bytes (wr_tile row)
     | Finished (W_negative row) \<Rightarrow> wr_key row = key_of ?t \<and> 0 \<le> bytes (wr_tile row)
     | Finished W_skipped \<Rightarrow> cache_inv (cache st) \<longrightarrow> key_of ?t \<in> keys st1 s
     | _ \<Rightarrow> True"
  proof -
    note F = ev[unfolded event_fits_def task_fits_def, THEN conjunct1, rule_format, OF tK, of st, unfolded r fst_conv snd_conv]
    show "advances s K kept st st1" "counters ?jid st1 = counters ?jid st" using F by simp_all
    show "case res of
       Finished (W_tile row) \<Rightarrow> wr_key row = key_of ?t \<and> 0 \<le> bytes (wr_tile row)
     | Finished (W_negative row) \<Rightarrow> wr_key row = key_of ?t \<and> 0 \<le> bytes (wr_tile row)
     | Finished W_skipped \<Rightarrow> cache_inv (cache st) \<longrightarrow> key_of ?t \<in> keys st1 s
     | _ \<Rightarrow> True" using F by blast
  qed
  have w: "calm ?jid s K kept (fl_waited (je_flush ev))" using ev by (simp add: event_fits_def)
  have job: "job_of ?jid st1 \<noteq> None" using counters_job[OF fit(2)] D(3) by simp
  have err: "job_errors ?jid st1 = job_errors ?jid st" using fit(2) by (simp add: job_errors_counters)
  have inv: "cache_inv (cache st1)" using fit(1) D(1) by (simp add: advances_def)
  note adv = advances_trans[OF D(2) fit(1)]
  have base: "sound ?jid s K kept st0 S' (d', st1)"
    if "dv_batch d' = dv_batch d1 \<or> (\<exists>row. dv_batch d' = dv_batch d1 @ [row] \<and> wr_key row = key_of ?t \<and> 0 \<le> bytes (wr_tile row))"
      "dv_tasks d' = dv_tasks d1" "dv_final d' = Done \<Longrightarrow> job_errors ?jid st1 = 0 \<Longrightarrow>
         S' \<subseteq> keys st1 s \<union> wr_key ` set (dv_batch d') \<union> key_of ` set (dv_tasks d')" for d' S'
  proof (rule soundI[OF inv adv job])
    show "\<And>row. row \<in> set (dv_batch d') \<Longrightarrow> wr_key row \<in> K \<and> 0 \<le> bytes (wr_tile row)"
      using that(1) D(4) tK by (auto simp: d1_def)
  qed (use that(2,3) sub in auto)
  show "sound ?jid s K kept st0 S' (d', st1)"
    if "res = Crashed \<or> dv_final d \<noteq> Done" "dv_final d' \<noteq> Done" "dv_batch d' = dv_batch d1" "dv_tasks d' = dv_tasks d1"
    by (rule base) (use that in simp_all)
  have owed: "S \<subseteq> keys st1 s \<union> wr_key ` set (dv_batch d) \<union> insert (key_of ?t) (key_of ` set (dv_tasks d1))"
    if "dv_final d = Done" "job_errors ?jid st1 = 0"
    using D(6) that err cover fit(1) D(1) by (auto simp: d1_def advances_def)
  have pushed: "sound ?jid s K kept st0 S (d1\<lparr>dv_batch := dv_batch d1 @ [row]\<rparr>, st1)"
    if "wr_key row = key_of ?t" "0 \<le> bytes (wr_tile row)" for row
    by (rule base) (use that owed in \<open>auto simp: d1_def\<close>)
  have push: "sound ?jid s K kept st0 S (d', st') \<and> (\<not> go \<longrightarrow> dv_final d' \<noteq> Done)"
    if "wr_key row = key_of ?t" "0 \<le> bytes (wr_tile row)"
      "(let d2 = d1\<lparr>dv_batch := dv_batch d1 @ [row]\<rparr>
        in if warm_batch_should_flush (dv_batch d2) then flush cx (je_flush ev) (d2, st1) else (True, d2, st1)) = (go, d', st')" for row
    using that(3) pushed[OF that(1,2)] flush_sound[OF pushed[OF that(1,2)] w, of go d' st']
    by (auto simp: Let_def split: if_splits)
  show "sound ?jid s K kept st0 S (d', st') \<and> (\<not> go \<longrightarrow> dv_final d' \<noteq> Done)"
    if res: "res = Finished f" and acc: "accumulate cx (je_flush ev) f (d1, st1) = (go, d', st')"
  proof (cases f)
    case (W_tile row)
    with res fit(3) acc show ?thesis by (intro push[of row]) (simp_all add: accumulate_def)
  next
    case (W_negative row)
    with res fit(3) acc show ?thesis by (intro push[of row]) (simp_all add: accumulate_def)
  next
    case W_skipped
    have "sound ?jid s K kept st0 S (d1, st1)"
      by (rule base) (use owed res fit(3) W_skipped D(1) in \<open>auto simp: d1_def\<close>)
    with acc W_skipped show ?thesis by (auto simp: accumulate_def intro: sound_on_job)
  next
    case W_error
    have "sound ?jid s K kept st0 {} (d1, st1)" by (rule base) simp_all
    with acc W_error show ?thesis by (auto simp: accumulate_def intro: sound_add_error)
  next
    case W_capped
    have "sound ?jid s K kept st0 S (d1\<lparr>dv_final := Capped\<rparr>, st1)" by (rule base) simp_all
    with acc W_capped show ?thesis by (auto simp: accumulate_def)
  next
    case W_cancelled
    have "sound ?jid s K kept st0 S (d1\<lparr>dv_final := Cancelled\<rparr>, st1)" by (rule base) simp_all
    with acc W_cancelled show ?thesis by (auto simp: accumulate_def)
  qed
qed

lemma drain_one_sound:
  assumes "sound (rc_job cx) s K kept st0 S (d, st)" "dv_tasks d \<noteq> []" "event_fits (rc_job cx) s K kept ev"
    and "drain_one cx ev (d, st) = (go, d', st')"
  shows "sound (rc_job cx) s K kept st0 S (d', st') \<and> (\<not> go \<longrightarrow> dv_final d' \<noteq> Done)"
proof -
  obtain res st1 where r: "je_run ev (picked (je_pick ev) (dv_tasks d)) st = (res, st1)" by (metis surj_pair)
  note T = task_ended[OF assms(1-3) r]
  show ?thesis
  proof (cases res)
    case (Finished f)
    with assms(4) r T(2)[OF Finished] show ?thesis
      by (auto simp: drain_one_def Let_def split: prod.splits if_splits intro: sound_set_cancel)
  next
    case Crashed
    let ?d = "d\<lparr>dv_tasks := unpicked (je_pick ev) (dv_tasks d), dv_final := Error\<rparr>"
    have "sound (rc_job cx) s K kept st0 S (?d, st1)" by (rule T(1)) (simp_all add: Crashed)
    with assms(4) r Crashed show ?thesis
      by (auto simp: drain_one_def Let_def intro: sound_set_cancel sound_add_error)
  qed
qed

lemma drain_sound:
  "sound (rc_job cx) s K kept st0 S s0 \<Longrightarrow> \<forall>ev \<in> set evs. event_fits (rc_job cx) s K kept ev \<Longrightarrow> drain cx evs s0 = (go, s1)
   \<Longrightarrow> sound (rc_job cx) s K kept st0 S s1 \<and> (\<not> go \<longrightarrow> dv_final (fst s1) \<noteq> Done)"
proof (induction evs arbitrary: s0)
  case (Cons ev evs)
  obtain d st where s0: "s0 = (d, st)" by (cases s0)
  obtain go' d' st' where one: "drain_one cx ev (d, st) = (go', d', st')" by (metis prod_cases3)
  show ?case
  proof (cases "dv_tasks d = []")
    case True
    with Cons.prems show ?thesis by (simp add: s0)
  next
    case False
    note S = drain_one_sound[OF Cons.prems(1)[unfolded s0] False _ one]
    from Cons.prems one False Cons.IH[of "(d', st')"] S show ?thesis
      by (auto simp: s0 split: if_splits)
  qed
qed simp

lemma spawn_sound:
  "sound (rc_job cx) s K kept st0 S (d, st) \<Longrightarrow> key_of t \<in> K
   \<Longrightarrow> sound (rc_job cx) s K kept st0 (insert (key_of t) S) (d\<lparr>dv_tasks := dv_tasks d @ [t]\<rparr>, st)"
  unfolding sound_def by auto

lemma enumerate_sound:
  "sound (rc_job cx) s K kept st0 S (d, st) \<Longrightarrow> key_of ` set ts \<subseteq> K \<Longrightarrow> \<forall>j. turn_fits (rc_job cx) s K kept (turns j)
   \<Longrightarrow> sound (rc_job cx) s K kept st0 (S \<union> key_of ` set ts) (enumerate cx gen turns i ts (d, st))"
proof (induction ts arbitrary: S d st i)
  case (Cons t ts)
  let ?tu = "turns i" and ?jid = "rc_job cx"
  let ?st1 = "tu_waited ?tu st" and ?st2 = "tu_acquired ?tu (tu_waited ?tu st)"
  have f: "calm ?jid s K kept (tu_waited ?tu)" "calm ?jid s K kept (tu_acquired ?tu)"
      "\<forall>ev \<in> set (tu_ends ?tu). event_fits ?jid s K kept ev" using Cons.prems(3) by (simp_all add: turn_fits_def)
  note S1 = sound_calm[OF Cons.prems(1) f(1)]
  note S2 = sound_calm[OF S1 f(2)]
  have tK: "key_of t \<in> K" using Cons.prems(2) by simp
  obtain go d' st' where dr: "drain cx (tu_ends ?tu) (d\<lparr>dv_tasks := dv_tasks d @ [t]\<rparr>, ?st2) = (go, d', st')"
    by (metis prod_cases3)
  note S3 = drain_sound[OF spawn_sound[OF S2 tK] f(3) dr]
  have lost: "sound ?jid s K kept st0 S' (d\<lparr>dv_final := fs\<rparr>, x)"
    if "sound ?jid s K kept st0 S (d, x)" "fs \<noteq> Done" for x fs S'
    by (rule sound_lost[OF that(1)]) (simp_all add: that(2))
  have rest: "sound ?jid s K kept st0 (insert (key_of t) S \<union> key_of ` set ts) (enumerate cx gen turns (Suc i) ts (d', st'))"
    by (rule Cons.IH) (use S3 Cons.prems(2,3) in simp_all)
  have stop: "sound ?jid s K kept st0 S' (d', st')" if "\<not> go" for S'
    by (rule sound_lost[of ?jid s K kept st0 "insert (key_of t) S"]) (use S3 that in simp_all)
  show ?case
    using lost[OF S1] lost[OF S2] rest stop by (auto simp: Let_def dr insert_commute)
qed simp

lemma notice_sound: "sound (rc_job cx) s K kept st0 S x \<Longrightarrow> sound (rc_job cx) s K kept st0 S (notice_cancel cx x)"
  by (cases x) (auto simp: notice_cancel_def elim: sound_lost)

lemma waits_sound:
  assumes "sound (rc_job cx) s K kept st0 S x" "\<forall>w \<in> set (jt_waits jt). calm (rc_job cx) s K kept w"
  shows "sound (rc_job cx) s K kept st0 S (join_waits cx jt x)"
proof -
  have "sound (rc_job cx) s K kept st0 S (fold (\<lambda>w (d, st). notice_cancel cx (d, w st)) ws x)"
    if "sound (rc_job cx) s K kept st0 S x" "\<forall>w \<in> set ws. calm (rc_job cx) s K kept w" for ws x
    using that
  proof (induction ws arbitrary: x)
    case (Cons w ws)
    obtain d st where x: "x = (d, st)" by (cases x)
    have "sound (rc_job cx) s K kept st0 S (notice_cancel cx (d, w st))"
      by (rule notice_sound, rule sound_calm) (use Cons.prems x in simp_all)
    with Cons x show ?case by simp
  qed simp
  then show ?thesis unfolding join_waits_def using notice_sound[OF assms(1)] assms(2) by blast
qed

lemma join_one_sound:
  assumes "sound (rc_job cx) s K kept st0 S (d, st)" "dv_tasks d \<noteq> []" "event_fits (rc_job cx) s K kept ev"
  shows "sound (rc_job cx) s K kept st0 S (join_one cx ev (d, st))"
proof -
  let ?d = "d\<lparr>dv_tasks := unpicked (je_pick ev) (dv_tasks d)\<rparr>"
  obtain res st1 where r: "je_run ev (picked (je_pick ev) (dv_tasks d)) st = (res, st1)" by (metis surj_pair)
  note T = task_ended[OF assms(1-3) r]
  show ?thesis
  proof (cases res)
    case (Finished f)
    obtain go d2 st2 where acc: "accumulate cx (je_flush ev) f (?d, st1) = (go, d2, st2)" by (metis prod_cases3)
    show ?thesis
    proof (cases "dv_final d = Done")
      case True
      with T(2)[OF Finished acc] r Finished acc show ?thesis
        by (auto simp: join_one_def Let_def intro: sound_set_cancel)
    next
      case False
      have "sound (rc_job cx) s K kept st0 S (?d, st1)" by (rule T(1)) (use False in simp_all)
      with r Finished False show ?thesis by (simp add: join_one_def Let_def)
    qed
  next
    case Crashed
    have "sound (rc_job cx) s K kept st0 S (?d\<lparr>dv_final := Error\<rparr>, st1)" by (rule T(1)) (simp_all add: Crashed)
    with r Crashed show ?thesis by (auto simp: join_one_def Let_def intro: sound_add_error)
  qed
qed

lemma join_loop_sound:
  "sound (rc_job cx) s K kept st0 S x \<Longrightarrow> \<forall>i. join_fits (rc_job cx) s K kept (joins i)
   \<Longrightarrow> sound (rc_job cx) s K kept st0 S (join_loop cx joins i x) \<and> dv_tasks (fst (join_loop cx joins i x)) = []"
proof (induction "length (dv_tasks (fst x))" arbitrary: x i rule: less_induct)
  case less
  have f: "\<forall>w \<in> set (jt_waits (joins i)). calm (rc_job cx) s K kept w" "event_fits (rc_job cx) s K kept (jt_event (joins i))"
    using less.prems(2) by (simp_all add: join_fits_def)
  let ?x = "join_waits cx (joins i) x"
  note W = waits_sound[OF less.prems(1) f(1)]
  obtain d st where x: "?x = (d, st)" by (cases ?x)
  have tasks: "dv_tasks (fst x) = dv_tasks d" using dv_tasks_waits[of cx "joins i" x] x by simp
  show ?case
  proof (cases "dv_tasks d = []")
    case True
    with W x show ?thesis by (simp add: join_loop.simps[of cx joins i x] Let_def)
  next
    case False
    let ?y = "join_one cx (jt_event (joins i)) (d, st)"
    have "length (dv_tasks (fst ?y)) < length (dv_tasks (fst x))" using False tasks by simp
    moreover have "sound (rc_job cx) s K kept st0 S ?y"
      by (rule join_one_sound[OF _ False f(2)]) (use W x in simp)
    moreover have "join_loop cx joins i x = join_loop cx joins (Suc i) ?y"
      using False x by (subst join_loop.simps) (simp add: Let_def)
    ultimately show ?thesis using less.hyps[of ?y "Suc i"] less.prems(2) by simp
  qed
qed

text \<open>The tiles of a run: when it is still done after them, every one is in the staging region.\<close>

lemma settle_sound:
  "sound (rc_job cx) s K kept st0 S x \<Longrightarrow> sound (rc_job cx) s K kept st0 S (settle_errors cx x)
     \<and> (dv_final (fst (settle_errors cx x)) = Done \<longrightarrow> job_errors (rc_job cx) (snd (settle_errors cx x)) = 0)"
  "sound (rc_job cx) s K kept st0 S x \<Longrightarrow> sound (rc_job cx) s K kept st0 S (settle_total cx x)"
  "sound (rc_job cx) s K kept st0 S x \<Longrightarrow> sound (rc_job cx) s K kept st0 S (settle_generation gen x)"
  by (cases x; force simp: settle_errors_def settle_total_def settle_generation_def split: option.split elim: sound_lost)+

lemma settle_keeps:
  "snd (settle_errors cx x) = snd x" "snd (settle_total cx x) = snd x" "snd (settle_generation gen x) = snd x"
  "dv_final (fst (settle_total cx x)) = Done \<Longrightarrow> dv_final (fst x) = Done"
  "dv_final (fst (settle_errors cx x)) = Done \<Longrightarrow> dv_final (fst x) = Done"
  "dv_final (fst (settle_generation gen x)) = Done \<Longrightarrow> dv_final (fst x) = Done"
  "dv_batch (fst (settle_total cx x)) = dv_batch (fst x)" "dv_batch (fst (settle_errors cx x)) = dv_batch (fst x)"
  "dv_batch (fst (settle_generation gen x)) = dv_batch (fst x)"
  "dv_tasks (fst (settle_total cx x)) = dv_tasks (fst x)" "dv_tasks (fst (settle_errors cx x)) = dv_tasks (fst x)"
  "dv_tasks (fst (settle_generation gen x)) = dv_tasks (fst x)"
  by (cases x; force simp: settle_errors_def settle_total_def settle_generation_def split: option.splits if_splits)+

lemma tail_sound:
  assumes "sound (rc_job cx) s K kept st0 S x" "calm (rc_job cx) s K kept (fl_waited env)"
  shows "sound (rc_job cx) s K kept st0 S (flush_tail cx env x)
    \<and> (dv_final (fst (flush_tail cx env x)) = Done \<longrightarrow> dv_batch (fst (flush_tail cx env x)) = [])
    \<and> dv_tasks (fst (flush_tail cx env x)) = dv_tasks (fst x)"
proof -
  obtain d st where x: "x = (d, st)" by (cases x)
  obtain go d' st' where f: "flush cx env (d, st) = (go, d', st')" by (metis prod_cases3)
  from flush_sound[OF assms(1)[unfolded x] assms(2) f] dv_tasks_flush[OF f] f assms(1) show ?thesis
    by (auto simp: flush_tail_def x)
qed

lemma tiles_sound:
  assumes "cache_inv (cache st)" "job_of (rc_job cx) st \<noteq> None" "K = key_of ` set tasks"
    and "\<forall>i. turn_fits (rc_job cx) s K kept (re_turns env i)" "\<forall>i. join_fits (rc_job cx) s K kept (re_joins env i)" "calm (rc_job cx) s K kept (fl_waited (re_tail env))"
    and "run_tiles env gen cx tasks st = (d, st')"
  shows "cache_inv (cache st') \<and> advances s K kept st st' \<and> job_of (rc_job cx) st' \<noteq> None
    \<and> (dv_final d = Done \<longrightarrow> K \<subseteq> keys st' s)"
proof -
  let ?d0 = "\<lparr>dv_batch = [], dv_final = Done, dv_tasks = []\<rparr>"
  have "sound (rc_job cx) s K kept st {} (?d0, st)" by (rule soundI) (use assms(1,2) in simp_all)
  from enumerate_sound[OF this _ assms(4), of tasks gen 0] assms(3)
  have E: "sound (rc_job cx) s K kept st K (enumerate cx gen (re_turns env) 0 tasks (?d0, st))" by simp
  note J = join_loop_sound[OF E assms(5), of 0]
  note A = settle_sound(1)[OF J[THEN conjunct1]]
  note T = tail_sound[OF A[THEN conjunct1] assms(6)]
  note B = settle_sound(1)[OF T[THEN conjunct1]]
  note C = settle_sound(3)[OF settle_sound(2)[OF B[THEN conjunct1]], of gen]
  let ?b = "settle_errors cx (flush_tail cx (re_tail env) (settle_errors cx
       (join_loop cx (re_joins env) 0 (enumerate cx gen (re_turns env) 0 tasks (?d0, st)))))"
  have r: "(d, st') = settle_generation gen (settle_total cx ?b)" using assms(7) by (simp add: run_tiles_def)
  have "K \<subseteq> keys st' s" if "dv_final d = Done"
  proof -
    have fin: "dv_final (fst (settle_total cx ?b)) = Done" "dv_final (fst ?b) = Done"
      using that settle_keeps(4,6) r by (metis fst_conv)+
    have e: "job_errors (rc_job cx) (snd ?b) = 0" using B fin(2) by blast
    have bt: "dv_batch (fst ?b) = []" using T settle_keeps(5)[OF fin(2)] settle_keeps(8) by metis
    have tk: "dv_tasks (fst ?b) = []" using T J settle_keeps(11) by metis
    have st': "st' = snd ?b" using r settle_keeps(2,3) by (metis snd_conv)
    show ?thesis using soundD(6)[of "rc_job cx" s K kept st K "fst ?b" "snd ?b"] B fin(2) e bt tk st' by simp
  qed
  with C[folded r] show ?thesis by (auto dest: soundD)
qed

end

end
