(* ===== verification/Warm_Run_Claims.thy ===== *)
theory Warm_Run_Claims
  imports Warm_Run_Props Warm_Job_Claims
begin

text \<open>
  The properties of a warm run: a run that ends as done has replaced its region by exactly the tiles it
  enumerated, and one that ends otherwise has left the region as it was; and what the tile tasks do to make
  that so.
\<close>

section \<open>The asset stage\<close>

definition asset_fits :: "string \<Rightarrow> string \<Rightarrow> tile_key set \<Rightarrow> string set \<Rightarrow> asset_event \<Rightarrow> bool" where
  "asset_fits jid s K kept ev \<longleftrightarrow> calm jid s K kept (fl_waited (je_flush ev)) \<and>
     (\<forall>t st. advances s K kept st (snd (je_run ev t st)) \<and>
        (case fst (je_run ev t st) of Finished (Inr (Some row)) \<Rightarrow> 0 \<le> bytes (wr_tile row) | _ \<Rightarrow> True))"

definition stage_fits :: "string \<Rightarrow> string \<Rightarrow> tile_key set \<Rightarrow> string set \<Rightarrow> stage_env \<Rightarrow> bool" where
  "stage_fits jid s K kept env \<longleftrightarrow>
     (\<forall>f \<in> set (sg_polls env). calm jid s K kept f) \<and>
     (\<forall>i. calm jid s K kept (at_waited (sg_turns env i)) \<and> (\<forall>ev \<in> set (at_ends (sg_turns env i)). asset_fits jid s K kept ev)) \<and>
     (\<forall>i. asset_fits jid s K kept (sg_joins env i)) \<and> calm jid s K kept (fl_waited (sg_tail env)) \<and>
     faults (task_env (sg_discard env)) S_recount = None"

lemma calm_advances: "calm jid s K kept f \<Longrightarrow> advances s K kept st st' \<Longrightarrow> advances s K kept st (f st')"
  using advances_trans[of s K kept st st' "f st'"] by (simp add: calm_def)

lemma advances_same:
  assumes "cache_inv (cache st')" "\<And>r. r \<noteq> ar \<Longrightarrow> keys st' r = keys st r" "ar \<noteq> s" "ar \<notin> kept"
  shows "advances s K kept st st'"
proof -
  have "keys st' s = keys st s" using assms(2)[of s] assms(3) by blast
  moreover have "keys st' r = keys st r" if "r \<in> kept" for r using assms(2)[of r] assms(4) that by blast
  ultimately show ?thesis using assms(1) unfolding advances_def by blast
qed

definition asset_sound :: "string \<Rightarrow> tile_key set \<Rightarrow> string set \<Rightarrow> app_state \<Rightarrow> asset_driver \<times> app_state \<Rightarrow> bool" where
  "asset_sound s K kept st0 = (\<lambda>(d, st).
     cache_inv (cache st) \<and> advances s K kept st0 st \<and> (\<forall>row \<in> set (ad_batch d). 0 \<le> bytes (wr_tile row)))"

lemma discard_advances:
  assumes "cache_inv (cache st)" "advances s K kept st0 st" "faults (task_env t) S_recount = None" "ar \<noteq> s" "ar \<notin> kept"
  shows "cache_inv (cache (discard_region t ar st))" "advances s K kept st0 (discard_region t ar st)"
proof -
  let ?c = "snd (delete_region (task_env t) ar (cache st))"
  note k = delete_region_keys(1)[OF assms(1,3), of ar]
  have same: "region_keys (conn ?c) other = keys st other" if "other \<noteq> ar" for other
    by (rule delete_region_keys(2)[OF assms(1,3) that])
  have "advances s K kept st (discard_region t ar st)"
  proof (cases "joined t")
    case True
    then have c: "cache (discard_region t ar st) = ?c" by (simp add: discard_region_def)
    show ?thesis
    proof (rule advances_same[OF _ _ assms(4,5)])
      show "cache_inv (cache (discard_region t ar st))" unfolding c by (rule k)
      show "keys (discard_region t ar st) r = keys st r" if "r \<noteq> ar" for r unfolding c by (rule same[OF that])
    qed
  qed (simp add: discard_region_def)
  then show "advances s K kept st0 (discard_region t ar st)" by (rule advances_trans[OF assms(2)])
  show "cache_inv (cache (discard_region t ar st))" using k assms(1) by (simp add: discard_region_def)
qed

text \<open>Storing under another region leaves the staging region and the kept ones alone.\<close>

locale other_region =
  fixes ar s :: string and K :: "tile_key set" and kept :: "string set" and jid :: string
  assumes apart: "ar \<noteq> s" "ar \<notin> kept"
begin

lemma flush_pinned_sound:
  assumes "asset_sound s K kept st0 (d, st)" "calm jid s K kept (fl_waited env)"
    and run: "flush_pinned env ar budget (d, st) = (stop, d', st')"
  shows "asset_sound s K kept st0 (d', st')"
proof -
  let ?st = "fl_waited env st"
  have adv: "advances s K kept st0 ?st" and inv: "cache_inv (cache ?st)"
    using assms(1,2) calm_advances[OF assms(2)] by (auto simp: asset_sound_def calm_def advances_def)
  have nn: "\<forall>r \<in> set (ad_batch d). 0 \<le> bytes (wr_tile r)" using assms(1) by (simp add: asset_sound_def)
  have rec: "advances s K kept st0 (?st\<lparr>cache := c\<rparr>)"
    if "advances s K kept st0 (?st\<lparr>cache := c'\<rparr>)" "conn c = conn c'" "cache_inv c = cache_inv c'" for c c'
    using that by (simp add: advances_def)
  obtain res c where p: "put_many_pinned (task_env (fl_task env)) (ad_batch d) budget (live_cap_bytes st) (Some ar)
      (fl_now env) (cache ?st) = (res, c)" by (metis surj_pair)
  note k = put_many_keys[OF inv nn p]
  have ci: "cache_inv c" using put_many_inv[OF inv nn] p by (metis snd_conv)
  have "advances s K kept ?st (?st\<lparr>cache := c\<rparr>)"
  proof -
    have same: "region_keys (conn c) r = keys ?st r" if "r \<noteq> ar" for r
      using k(1)[of r] k(2)[of r] that by (auto split: if_splits)
    have c: "cache (?st\<lparr>cache := c\<rparr>) = c" by simp
    show ?thesis
    proof (rule advances_same[OF _ _ apart])
      show "cache_inv (cache (?st\<lparr>cache := c\<rparr>))" unfolding c by (rule ci)
      show "keys (?st\<lparr>cache := c\<rparr>) r = keys ?st r" if "r \<noteq> ar" for r unfolding c by (rule same[OF that])
    qed
  qed
  then have "advances s K kept st0 (?st\<lparr>cache := c\<rparr>)" by (rule advances_trans[OF adv])
  then show ?thesis
    using run p inv ci adv rec[of "cache ?st" "record_operation_error (cache ?st)"] rec[of c "record_operation_error c"]
    by (auto simp: flush_pinned_def asset_sound_def Let_def advances_def split: if_splits sum.splits)
qed

lemma join_asset_sound:
  assumes "asset_sound s K kept st0 x" "asset_fits jid s K kept ev"
  shows "asset_sound s K kept st0 (join_asset ar budget ev x)"
proof -
  obtain d st where x: "x = (d, st)" by (cases x)
  let ?t = "picked (je_pick ev) (ad_tasks d)" and ?d = "d\<lparr>ad_tasks := unpicked (je_pick ev) (ad_tasks d)\<rparr>"
  obtain res st1 where r: "je_run ev ?t st = (res, st1)" by (metis surj_pair)
  have f: "advances s K kept st st1" "case res of Finished (Inr (Some row)) \<Rightarrow> 0 \<le> bytes (wr_tile row) | _ \<Rightarrow> True"
      "calm jid s K kept (fl_waited (je_flush ev))"
  proof -
    have a: "advances s K kept st (snd (je_run ev ?t st)) \<and>
        (case fst (je_run ev ?t st) of Finished (Inr (Some row)) \<Rightarrow> 0 \<le> bytes (wr_tile row) | _ \<Rightarrow> True)"
      using assms(2) unfolding asset_fits_def by blast
    show "advances s K kept st st1" using a r by simp
    show "case res of Finished (Inr (Some row)) \<Rightarrow> 0 \<le> bytes (wr_tile row) | _ \<Rightarrow> True" using a r by simp
    show "calm jid s K kept (fl_waited (je_flush ev))" using assms(2) by (simp add: asset_fits_def)
  qed
  have S1: "asset_sound s K kept st0 (?d, st1)"
    using assms(1) f(1) advances_trans[of s K kept st0 st st1] by (auto simp: x asset_sound_def advances_def)
  have acc: "asset_sound s K kept st0 (d2, st2)"
    if a: "accept_asset (je_flush ev) ar budget res (?d, st1) = (stop, d2, st2)" for stop d2 st2
  proof -
    have push: "asset_sound s K kept st0 (?d\<lparr>ad_batch := ad_batch ?d @ [row]\<rparr>, st1)"
      if "res = Finished (Inr (Some row))" for row
      using S1 f(2) that by (auto simp: asset_sound_def)
    have crash: "asset_sound s K kept st0 (?d, st1\<lparr>cache := record_operation_error (cache st1)\<rparr>)"
      using S1 by (simp add: asset_sound_def advances_def)
    show ?thesis
      using a S1 push crash flush_pinned_sound[OF push f(3)]
      by (auto simp: accept_asset_def Let_def split: ended.splits sum.splits option.splits if_splits)
  qed
  show ?thesis
    using S1 acc r by (auto simp: join_asset_def x Let_def asset_sound_def split: prod.splits)
qed

lemma drain_assets_sound:
  "asset_sound s K kept st0 x \<Longrightarrow> \<forall>ev \<in> set evs. asset_fits jid s K kept ev
   \<Longrightarrow> asset_sound s K kept st0 (drain_assets ar budget evs x)"
proof (induction evs arbitrary: x)
  case (Cons ev evs)
  have "asset_sound s K kept st0 (join_asset ar budget ev x)"
    by (rule join_asset_sound) (use Cons.prems in simp_all)
  with Cons show ?case by simp
qed simp

lemma asset_sound_calm:
  "asset_sound s K kept st0 (d, st) \<Longrightarrow> calm jid s K kept f \<Longrightarrow> asset_sound s K kept st0 (d, f st)"
  using calm_advances[of jid s K kept f st0 st] by (auto simp: asset_sound_def calm_def advances_def)

lemma spawn_assets_sound:
  "asset_sound s K kept st0 (d, st)
   \<Longrightarrow> \<forall>i. calm jid s K kept (at_waited (turns i)) \<and> (\<forall>ev \<in> set (at_ends (turns i)). asset_fits jid s K kept ev)
   \<Longrightarrow> asset_sound s K kept st0 (spawn_assets ar budget turns i js (d, st))"
proof (induction js arbitrary: d st i)
  case (Cons j js)
  let ?st = "at_waited (turns i) st"
  have S: "asset_sound s K kept st0 (d, ?st)" by (rule asset_sound_calm[OF Cons.prems(1)]) (use Cons.prems(2) in simp)
  then have "asset_sound s K kept st0 (d\<lparr>ad_tasks := ad_tasks d @ [j]\<rparr>, ?st)" by (simp add: asset_sound_def)
  then have D: "asset_sound s K kept st0 (drain_assets ar budget (at_ends (turns i)) (d\<lparr>ad_tasks := ad_tasks d @ [j]\<rparr>, ?st))"
    by (rule drain_assets_sound) (use Cons.prems(2) in simp)
  obtain d2 st2 where dr: "drain_assets ar budget (at_ends (turns i)) (d\<lparr>ad_tasks := ad_tasks d @ [j]\<rparr>, ?st) = (d2, st2)"
    by (metis surj_pair)
  from S D dr Cons.IH[of d2 st2 "Suc i"] Cons.prems(2) show ?case by (auto simp: Let_def asset_sound_def)
qed simp

lemma join_assets_sound:
  "asset_sound s K kept st0 x \<Longrightarrow> \<forall>i. asset_fits jid s K kept (evs i)
   \<Longrightarrow> asset_sound s K kept st0 (join_assets ar budget evs i x)"
proof (induction "length (ad_tasks (fst x))" arbitrary: x i rule: less_induct)
  case less
  show ?case
  proof (cases "ad_tasks (fst x) = []")
    case True
    with less.prems show ?thesis by (simp add: join_assets.simps[of ar budget evs i x])
  next
    case False
    then have "length (ad_tasks (fst (join_asset ar budget (evs i) x))) < length (ad_tasks (fst x))" by simp
    from less.hyps[OF this join_asset_sound[OF less.prems(1)] less.prems(2)] less.prems(2) False show ?thesis
      by (simp add: join_assets.simps[of ar budget evs i x])
  qed
qed

lemma finish_assets_sound:
  assumes "asset_sound s K kept st0 x" "calm jid s K kept (fl_waited env)"
  shows "asset_sound s K kept st0 (finish_assets env jid ar budget x)"
proof -
  obtain d st where x: "x = (d, st)" by (cases x)
  have S: "asset_sound s K kept st0 (d\<lparr>ad_stop := v\<rparr>, st)" for v using assms(1) by (simp add: x asset_sound_def)
  have "asset_sound s K kept st0 (d2\<lparr>ad_stop := v\<rparr>, st2)" if "flush_pinned env ar budget (d, st) = (stop, d2, st2)" for stop d2 st2 v
    using flush_pinned_sound[OF assms(1)[unfolded x] assms(2) that] by (simp add: asset_sound_def)
  with S assms(1) show ?thesis by (auto simp: finish_assets_def x Let_def split: prod.splits)
qed

lemma stage_claimed_sound:
  assumes "ar = asset_region jid" "cache_inv (cache st)" "advances s K kept st0 st" "stage_fits jid s K kept env"
    and run: "stage_claimed encode env styles jid st = (r, st')"
  shows "cache_inv (cache st') \<and> advances s K kept st0 st'"
proof -
  let ?b = "replacement_budget st (Some BASEMAP_ASSETS_REGION_ID) (credit_of (sg_credit env) BASEMAP_ASSETS_REGION_ID st)"
  let ?d = "\<lparr>ad_batch = [], ad_stop = None, ad_tasks = []\<rparr>"
  have F: "\<forall>i. calm jid s K kept (at_waited (sg_turns env i)) \<and> (\<forall>ev \<in> set (at_ends (sg_turns env i)). asset_fits jid s K kept ev)"
      "\<forall>i. asset_fits jid s K kept (sg_joins env i)" "calm jid s K kept (fl_waited (sg_tail env))"
      "faults (task_env (sg_discard env)) S_recount = None"
    using assms(4) by (simp_all add: stage_fits_def)
  have "asset_sound s K kept st0 (?d, st)" using assms(2,3) by (simp add: asset_sound_def)
  then have E: "asset_sound s K kept st0 (finish_assets (sg_tail env) jid ar b (join_assets ar b (sg_joins env) 0
        (spawn_assets ar b (sg_turns env) 0 js (?d, st))))" for b js
    by (intro finish_assets_sound join_assets_sound spawn_assets_sound F)
  show ?thesis
  proof (cases "stopping jid st \<or> asset_jobs encode st styles = None")
    case True
    with run assms(2,3) show ?thesis by (auto simp: stage_claimed_def Let_def split: if_splits)
  next
    case False
    then obtain js where js: "asset_jobs encode st styles = Some js" by auto
    let ?x = "finish_assets (sg_tail env) jid ar ?b (join_assets ar ?b (sg_joins env) 0
        (spawn_assets ar ?b (sg_turns env) 0 js (?d, st)))"
    obtain d2 st2 where x: "?x = (d2, st2)" by (cases ?x)
    have S: "cache_inv (cache st2)" "advances s K kept st0 st2" using E[of ?b js] x by (auto simp: asset_sound_def)
    from run False js x show ?thesis
      using S discard_advances[OF S F(4) apart] by (auto simp: stage_claimed_def Let_def assms(1) split: option.splits)
  qed
qed

lemma claim_sound:
  "cache_inv (cache st) \<Longrightarrow> advances s K kept st0 st \<Longrightarrow> \<forall>f \<in> set polls. calm jid s K kept f
   \<Longrightarrow> claim_assets jid polls st = (b, st') \<Longrightarrow> cache_inv (cache st') \<and> advances s K kept st0 st'"
proof (induction polls arbitrary: st)
  case Nil
  then show ?case by (auto simp: advances_def split: if_splits)
next
  case (Cons p ps)
  have a: "advances s K kept st (p st)" using Cons.prems(3) by (simp add: calm_def)
  have "cache_inv (cache (p st))" "advances s K kept st0 (p st)"
    using a Cons.prems(1) advances_trans[OF Cons.prems(2) a] by (simp_all add: advances_def)
  from Cons.IH[OF this] Cons.prems show ?case by (auto simp: advances_def split: if_splits)
qed

lemma stage_sound:
  assumes "ar = asset_region jid" "cache_inv (cache st)" "advances s K kept st0 st" "stage_fits jid s K kept env"
    and run: "stage_basemap_assets encode env styles jid st = (r, st')"
  shows "cache_inv (cache st') \<and> advances s K kept st0 st'"
proof -
  have F: "\<forall>f \<in> set (sg_polls env). calm jid s K kept f" using assms(4) by (simp add: stage_fits_def)
  obtain b st1 where c: "claim_assets jid (sg_polls env) st = (b, st1)" by (metis surj_pair)
  note C = claim_sound[OF assms(2,3) F c]
  obtain r2 st2 where s: "stage_claimed encode env styles jid st1 = (r2, st2)" by (metis surj_pair)
  have S: "cache_inv (cache st2) \<and> advances s K kept st0 st2"
    by (rule stage_claimed_sound[OF assms(1) _ _ assms(4) s]) (use C in simp_all)
  from run c s C S show ?thesis
    by (auto simp: stage_basemap_assets_def advances_def split: option.splits bool.splits)
qed

lemma run_assets_sound:
  assumes "ar = asset_region (rc_job cx)" "rc_job cx = jid" "cache_inv (cache st)" "advances s K kept st0 st" "stage_fits jid s K kept env"
    and run: "run_assets encode env cx styles (d, st) = Some (assets, d', st')"
  shows "cache_inv (cache st') \<and> advances s K kept st0 st' \<and> (dv_final d' = Done \<longrightarrow> d' = d)
    \<and> (\<forall>a. assets = Some a \<longrightarrow> a = ar)"
proof (cases "dv_final d \<noteq> Done \<or> styles = []")
  case True
  with run assms(3,4) show ?thesis by (auto simp: run_assets_def)
next
  case False
  obtain r st1 where s: "stage_basemap_assets encode env styles jid st = (r, st1)" by (metis surj_pair)
  have ar: "a = asset_region jid" if "r = Some (Inr a)" for a
    using s that by (auto simp: stage_basemap_assets_def stage_claimed_def Let_def split: option.splits bool.splits prod.splits if_splits)
  have S: "cache_inv (cache st1) \<and> advances s K kept st0 st1"
    by (rule stage_sound[OF _ assms(3-5) s]) (use assms(1,2) in simp)
  from run False s S ar assms(1,2) show ?thesis
    by (auto simp: run_assets_def split: option.splits sum.splits asset_stop.splits if_splits)
qed

end

section \<open>The parts of a run\<close>

text \<open>What a run may meet: other tasks that leave its staging region and job alone, and tile tasks that do their work.\<close>

definition fair_run :: "string \<Rightarrow> string \<Rightarrow> tile_key set \<Rightarrow> string set \<Rightarrow> run_env \<Rightarrow> bool" where
  "fair_run jid s K kept env \<longleftrightarrow>
     calm jid s K kept (re_started env) \<and> (\<forall>i. calm jid s K kept (\<lambda>st. snd (re_ensure env i st))) \<and>
     (\<forall>i. turn_fits jid s K kept (re_turns env i)) \<and> (\<forall>i. join_fits jid s K kept (re_joins env i)) \<and>
     calm jid s K kept (fl_waited (re_tail env)) \<and> stage_fits jid s K kept (re_stage env) \<and>
     calm jid s K kept (re_staged env) \<and> calm jid s K kept (re_locked env) \<and>
     faults (task_env (re_promote env)) S_recount = None \<and> (\<forall>r. faults (task_env (re_cleanup env r)) S_recount = None)"

lemma calm_step:
  assumes "calm jid s K kept f" "cache_inv (cache st)" "advances s K kept st0 st" "job_of jid st \<noteq> None"
  shows "cache_inv (cache (f st)) \<and> advances s K kept st0 (f st) \<and> job_of jid (f st) \<noteq> None"
  using assms calm_advances[OF assms(1,3)] counters_job[of jid "f st" st] by (auto simp: calm_def advances_def)

lemma expand_sound:
  "\<forall>i. calm jid s K kept (\<lambda>st. snd (ensure i st)) \<Longrightarrow> cache_inv (cache st) \<Longrightarrow> advances s K kept st0 st \<Longrightarrow> job_of jid st \<noteq> None
   \<Longrightarrow> expand_sources ensure ss st = (r, st')
   \<Longrightarrow> cache_inv (cache st') \<and> advances s K kept st0 st' \<and> job_of jid st' \<noteq> None"
proof (induction ss arbitrary: st r st')
  case (Cons c ss)
  obtain b st1 where e: "ensure (src_id c) st = (b, st1)" by (metis surj_pair)
  have S: "cache_inv (cache st1) \<and> advances s K kept st0 st1 \<and> job_of jid st1 \<noteq> None"
    using calm_step[OF Cons.prems(1)[rule_format, of "src_id c"] Cons.prems(2-4)] e by simp
  obtain r1 st2 where x: "expand_sources ensure ss st = (r1, st2)" by (metis surj_pair)
  obtain r3 st3 where y: "expand_sources ensure ss st1 = (r3, st3)" by (metis surj_pair)
  have "cache_inv (cache st2) \<and> advances s K kept st0 st2 \<and> job_of jid st2 \<noteq> None"
    by (rule Cons.IH[OF Cons.prems(1-4) x])
  moreover have "cache_inv (cache st3) \<and> advances s K kept st0 st3 \<and> job_of jid st3 \<noteq> None"
    by (rule Cons.IH[OF Cons.prems(1) _ _ _ y]) (use S in simp_all)
  ultimately show ?case
    using Cons.prems(5) e x y S by (auto split: if_splits bool.splits option.splits)
qed simp

lemma end_run_cache [simp]: "cache (end_run spec final now st) = cache st"
  by (simp add: end_run_def finish_job_def update_jobs_def release_region_def Let_def split: option.split)

lemma prepare_sound:
  assumes "fair_run (rn_job spec) s K kept env" "cache_inv (cache st)" "advances s K kept st0 st" "job_of (rn_job spec) st \<noteq> None"
  shows "prepare merc env spec st = Inl st' \<Longrightarrow> cache_inv (cache st') \<and> advances s K kept st0 st'"
    "prepare merc env spec st = Inr (cx, tasks, st') \<Longrightarrow> cache_inv (cache st') \<and> advances s K kept st0 st' \<and>
       job_of (rn_job spec) st' \<noteq> None \<and> rc_job cx = rn_job spec \<and> rg_target (rc_region cx) = rn_region spec \<and>
       rg_storage (rc_region cx) = map_option (staging_region (rn_job spec)) (rn_region spec)"
proof -
  have f: "\<forall>i. calm (rn_job spec) s K kept (\<lambda>st. snd (re_ensure env i st))" using assms(1) by (simp add: fair_run_def)
  obtain r st1 where e: "expand_sources (re_ensure env) (rn_sources spec) st = (r, st1)" by (metis surj_pair)
  note E = expand_sound[OF f assms(2-4) e]
  have x: "snd (expand_warm_sources (re_ensure env) (rn_sources spec) st) = st1"
    by (simp add: expand_warm_sources_def e split: option.split list.split)
  show "prepare merc env spec st = Inl st' \<Longrightarrow> cache_inv (cache st') \<and> advances s K kept st0 st'"
    using E x assms(2,3)
    by (auto simp: prepare_def Let_def advances_def split: if_splits option.splits prod.splits)
  show "prepare merc env spec st = Inr (cx, tasks, st') \<Longrightarrow> cache_inv (cache st') \<and> advances s K kept st0 st' \<and>
       job_of (rn_job spec) st' \<noteq> None \<and> rc_job cx = rn_job spec \<and> rg_target (rc_region cx) = rn_region spec \<and>
       rg_storage (rc_region cx) = map_option (staging_region (rn_job spec)) (rn_region spec)"
    using E x by (auto simp: prepare_def Let_def job_of_on_job split: if_splits option.splits prod.splits)
qed

text \<open>The names of the regions a run works with are apart from each other.\<close>

lemma regions_apart:
  assumes "starts_with jid ''warm-''" "\<not> starts_with rid STAGING_REGION_PREFIX" "rid \<noteq> BASEMAP_ASSETS_REGION_ID"
  shows "asset_region jid \<noteq> staging_region jid rid" "asset_region jid \<noteq> rid" "staging_region jid rid \<noteq> rid"
    "staging_region jid rid \<noteq> BASEMAP_ASSETS_REGION_ID" "asset_region jid \<noteq> BASEMAP_ASSETS_REGION_ID"
proof -
  obtain u where jid: "jid = ''warm-'' @ u" using assms(1) by (auto simp: starts_with_iff)
  have st: "starts_with (staging_region jid r) STAGING_REGION_PREFIX" for r
    by (simp add: staging_region_def STAGING_REGION_PREFIX_def POSITION_STAGING_REGION_PREFIX_def starts_with_def)
  have ar: "starts_with (asset_region jid) STAGING_REGION_PREFIX" by (simp add: asset_region_def)
  have b: "\<not> starts_with BASEMAP_ASSETS_REGION_ID STAGING_REGION_PREFIX"
    by (simp add: BASEMAP_ASSETS_REGION_ID_def STAGING_REGION_PREFIX_def starts_with_def)
  show "asset_region jid \<noteq> staging_region jid rid"
    by (simp add: jid asset_region_def staging_region_def STAGING_REGION_PREFIX_def POSITION_STAGING_REGION_PREFIX_def)
  show "asset_region jid \<noteq> rid" "staging_region jid rid \<noteq> rid" using ar st assms(2) by metis+
  show "staging_region jid rid \<noteq> BASEMAP_ASSETS_REGION_ID" "asset_region jid \<noteq> BASEMAP_ASSETS_REGION_ID"
    using ar st b by metis+
qed

text \<open>The promotion and what follows it.\<close>

lemma promote_run_sound:
  assumes inv: "cache_inv (cache st)" and adv: "advances s K kept st0 st" and calm: "calm jid s K kept locked"
    and rc: "faults (task_env t) S_recount = None" and pr: "proper_replacements reps"
    and run: "promote_run t locked gen reps (d, st) = (d', st')"
  shows "cache_inv (cache st')"
    "dv_final d' \<noteq> Done \<Longrightarrow> advances s K kept st0 st'"
    "dv_final d' = Done \<Longrightarrow> (s, rid) \<in> set reps \<Longrightarrow> \<exists>st1. advances s K kept st0 st1 \<and> advances s K kept st st1 \<and> keys st' rid = keys st1 s"
    "dv_final d' = Done \<Longrightarrow> dv_final d = Done"
proof -
  let ?st = "locked st"
  have A: "cache_inv (cache ?st)" "advances s K kept st0 ?st" "advances s K kept st ?st"
    using calm calm_advances[OF calm adv] inv by (auto simp: calm_def advances_def)
  have stay: "advances s K kept st0 (?st\<lparr>cache := c\<rparr>)" "cache_inv c"
    if "cache_inv c = cache_inv (cache ?st)" "conn c = conn (cache ?st)" for c
    using A(1) that advances_trans[OF A(2) advances_conn[of ?st "?st\<lparr>cache := c\<rparr>"]] by simp_all
  define cap where "cap = max 0 (live_cap_bytes ?st)"
  define regions where "regions = max 0 (min (live_regions_budget ?st) cap)"
  define position where "position = max 0 (min (live_position_warm_budget ?st) regions)"
  obtain res c where p: "promote_staged_regions (task_env t) reps (max 0 (regions - position)) position cap (cache ?st) = (res, c)"
    by (metis surj_pair)
  have ci: "cache_inv c" using promote_staged_inv[OF A(1) proper_ne[OF pr] rc] p by (metis snd_conv)
  have same: "c = cache ?st" if "res \<noteq> Inr True" using p rc that by (auto elim: promote_staged_cases)
  have moved: "region_keys (conn c) rid = keys ?st s" if "res = Inr True" "(s, rid) \<in> set reps" for rid
  proof -
    have "conn c = fold promote_one reps (conn (cache ?st))" using p that(1) by (auto elim: promote_staged_cases)
    then show ?thesis using promote_all_keys[OF pr cache_invD(1,2)[OF A(1)]] that(2) by auto
  qed
  have r: "(d' = d \<and> st' = st \<and> (dv_final d \<noteq> Done \<or> reps = [])) \<or>
    (dv_final d = Done \<and> dv_final d' \<noteq> Done \<and> (st' = ?st \<or> st' = ?st\<lparr>cache := record_operation_error (cache ?st)\<rparr>
        \<or> (res \<noteq> Inr True \<and> (st' = ?st\<lparr>cache := c\<rparr> \<or> st' = ?st\<lparr>cache := record_operation_error c\<rparr>)))) \<or>
    (dv_final d = Done \<and> d' = d \<and> res = Inr True \<and> st' = ?st\<lparr>cache := c\<rparr>)"
  proof -
    have val: "(d', st') =
      (if dv_final d \<noteq> Done \<or> reps = [] then (d, st)
       else if config_generation ?st \<noteq> gen then (d\<lparr>dv_final := Error\<rparr>, ?st)
       else if \<not> joined t then (d\<lparr>dv_final := Error\<rparr>, ?st\<lparr>cache := record_operation_error (cache ?st)\<rparr>)
       else (case res of
           Inr True \<Rightarrow> (d, ?st\<lparr>cache := c\<rparr>)
         | Inr False \<Rightarrow> (d\<lparr>dv_final := Capped\<rparr>, ?st\<lparr>cache := c\<rparr>)
         | Inl e \<Rightarrow> (d\<lparr>dv_final := Error\<rparr>, ?st\<lparr>cache := record_operation_error c\<rparr>)))"
      unfolding run[symmetric] promote_run_def Let_def prod.case p[unfolded cap_def regions_def position_def] ..
    consider "dv_final d \<noteq> Done \<or> reps = []"
      | "dv_final d = Done" "reps \<noteq> []" "config_generation ?st \<noteq> gen"
      | "dv_final d = Done" "reps \<noteq> []" "config_generation ?st = gen" "\<not> joined t"
      | "dv_final d = Done" "reps \<noteq> []" "config_generation ?st = gen" "joined t" by blast
    then show ?thesis
    proof cases
      case 1
      with val show ?thesis by (simp only: if_True prod.inject) blast
    next
      case 2
      with val show ?thesis by simp
    next
      case 3
      with val show ?thesis by simp
    next
      case 4
      with val show ?thesis by (cases res) (auto split: bool.splits)
    qed
  qed
  show "cache_inv (cache st')" using r inv A(1) stay(2) ci same by auto
  show "advances s K kept st0 st'" if "dv_final d' \<noteq> Done"
    using r that adv A(2) stay(1)[of "cache ?st"] stay(1)[of "record_operation_error (cache ?st)"] same by auto
  show "dv_final d' = Done \<Longrightarrow> dv_final d = Done" using r by auto
  show "\<exists>st1. advances s K kept st0 st1 \<and> advances s K kept st st1 \<and> keys st' rid = keys st1 s"
    if "dv_final d' = Done" "(s, rid) \<in> set reps"
    using r that A(2,3) moved[OF _ that(2)] by auto
qed

text \<open>The cleanup empties the staging regions and leaves every other region alone.\<close>

lemma cleanup_fold:
  assumes "cache_inv (cache st)" "\<forall>r. faults (task_env (tasks r)) S_recount = None"
  shows "cache_inv (cache (fold (cleanup_staging tasks) reps st))
    \<and> (\<forall>r. keys (fold (cleanup_staging tasks) reps st) r \<subseteq> keys st r)
    \<and> (\<forall>r. r \<notin> fst ` set reps \<longrightarrow> keys (fold (cleanup_staging tasks) reps st) r = keys st r)
    \<and> (\<forall>r \<in> fst ` set reps. joined (tasks r) \<and> (\<forall>p. faults (task_env (tasks r)) p = None)
         \<longrightarrow> keys (fold (cleanup_staging tasks) reps st) r = {})"
  using assms(1)
proof (induction reps arbitrary: st)
  case (Cons p reps)
  obtain sg tg where p: "p = (sg, tg)" by (cases p)
  let ?st = "cleanup_staging tasks p st" and ?e = "task_env (tasks sg)"
  let ?c = "snd (delete_region ?e sg (cache st))"
  have rc: "faults ?e S_recount = None" using assms(2) by blast
  note inv = delete_region_keys(1)[OF Cons.prems rc, of sg]
  note same = delete_region_keys(2)[OF Cons.prems rc]
  have log: "cache_inv (log_cache_err x) = cache_inv (snd x)" "conn (log_cache_err x) = conn (snd x)" for x :: "(db_error + unit) \<times> tile_cache"
    by (auto simp: log_cache_err_def split: prod.splits sum.splits)
  have c: "cache ?st = (if joined (tasks sg) then log_cache_err (delete_region ?e sg (cache st)) else record_operation_error (cache st))"
    by (simp add: cleanup_staging_def p)
  have i1: "cache_inv (cache ?st)" using inv Cons.prems by (simp add: c log)
  have k1: "keys ?st r = keys st r" if "r \<noteq> sg" for r using same[OF that] by (simp add: c log)
  have healthy: "keys ?st sg = {}" if "joined (tasks sg)" "\<forall>p. faults ?e p = None"
  proof -
    have "fst (delete_region ?e sg (cache st)) = Inr ()" using that(2) by (simp add: delete_region_def Let_def)
    from delete_region_keys(3)[OF Cons.prems rc this] show ?thesis using that(1) by (simp add: c log)
  qed
  have k2: "keys ?st sg \<subseteq> keys st sg"
  proof (cases "joined (tasks sg) \<and> fst (delete_region ?e sg (cache st)) = Inr ()")
    case True
    with delete_region_keys(3)[OF Cons.prems rc, of sg] show ?thesis by (simp add: c log)
  next
    case False
    then have "joined (tasks sg) \<Longrightarrow> ?c = cache st" using rc by (auto simp: delete_region_def Let_def split: option.splits)
    then show ?thesis by (simp add: c log)
  qed
  note IH = Cons.IH[OF i1]
  have sub: "keys ?st r \<subseteq> keys st r" for r using k1[of r] k2 by (cases "r = sg") auto
  show ?case
  proof (intro conjI allI ballI impI)
    show "cache_inv (cache (fold (cleanup_staging tasks) (p # reps) st))" using IH by simp
    show "keys (fold (cleanup_staging tasks) (p # reps) st) r \<subseteq> keys st r" for r using IH sub[of r] by auto
    show "keys (fold (cleanup_staging tasks) (p # reps) st) r = keys st r" if "r \<notin> fst ` set (p # reps)" for r
      using IH k1[of r] that p by simp
    show "keys (fold (cleanup_staging tasks) (p # reps) st) r = {}"
      if "r \<in> fst ` set (p # reps)" "joined (tasks r) \<and> (\<forall>q. faults (task_env (tasks r)) q = None)" for r
    proof (cases "r \<in> fst ` set reps")
      case True
      have "keys (fold (cleanup_staging tasks) reps ?st) r = {}" using IH True that(2) by blast
      then show ?thesis by simp
    next
      case False
      with that p have "r = sg" by simp
      with IH healthy that(2) show ?thesis by auto
    qed
  qed
qed simp

lemma calm_inv: "calm jid s K kept f \<Longrightarrow> cache_inv (cache st) \<Longrightarrow> cache_inv (cache (f st))"
  by (simp add: calm_def advances_def)

lemma advances_kept: "advances s K kept st st' \<Longrightarrow> cache_inv (cache st) \<Longrightarrow> r \<in> kept \<Longrightarrow> keys st' r = keys st r"
  by (simp add: advances_def)

text \<open>The staging of a run that replaces a saved region.\<close>

abbreviation ctx_of :: "string \<Rightarrow> string \<Rightarrow> int \<Rightarrow> run_ctx" where
  "ctx_of jid rid credit \<equiv>
     \<lparr>rc_job = jid, rc_region = \<lparr>rg_target = Some rid, rg_storage = Some (staging_region jid rid), rg_credit = credit\<rparr>\<rparr>"

interpretation staging: staged_run "ctx_of jid rid credit" "staging_region jid rid" K "{rid} - {staging_region jid rid}"
  for jid rid credit K
  by unfold_locales simp_all

interpretation assets: other_region "asset_region (''warm-'' @ u)" "staging_region (''warm-'' @ u) rid" K
    "{rid} - {asset_region (''warm-'' @ u)}" "''warm-'' @ u" for u rid K
  by unfold_locales
    (simp_all add: asset_region_def staging_region_def STAGING_REGION_PREFIX_def POSITION_STAGING_REGION_PREFIX_def)

text \<open>A run on a saved region, up to its end: what the promotion found, and what is left.\<close>

lemma region_run:
  assumes inv: "cache_inv (cache st)" and job: "job_of (rn_job spec) st \<noteq> None" and reg: "rn_region spec = Some rid"
    and names: "\<not> starts_with rid STAGING_REGION_PREFIX" "rid \<noteq> BASEMAP_ASSETS_REGION_ID" "starts_with (rn_job spec) ''warm-''"
    and K: "\<And>cx tasks st1. prepare merc env spec (re_started env st) = Inr (cx, tasks, st1) \<Longrightarrow> K = key_of ` set tasks"
    and fair: "fair_run (rn_job spec) (staging_region (rn_job spec) rid) K {rid} env"
    and run: "run merc encode env spec st = Some (final, st')"
  shows "cache_inv (cache st')"
    "final \<noteq> Done \<Longrightarrow> keys st' rid = keys st rid"
    "final = Done \<Longrightarrow> K \<subseteq> keys st' rid \<and> keys st' rid \<subseteq> keys st (staging_region (rn_job spec) rid) \<union> K"
    "final \<noteq> Done \<Longrightarrow> prepare merc env spec (re_started env st) = Inr x \<Longrightarrow>
       joined (re_cleanup env (staging_region (rn_job spec) rid)) \<Longrightarrow>
       (\<forall>p. faults (task_env (re_cleanup env (staging_region (rn_job spec) rid))) p = None) \<Longrightarrow>
       keys st' (staging_region (rn_job spec) rid) = {}"
proof -
  let ?jid = "rn_job spec"
  let ?s = "staging_region ?jid rid" and ?ar = "asset_region ?jid" and ?st0 = "re_started env st"
  note apart = regions_apart[OF names(3,1,2)]
  have kept: "{rid} - {?s} = {rid}" "{rid} - {?ar} = {rid}" using apart by auto
  note F = fair[unfolded fair_run_def]
  have S0: "cache_inv (cache ?st0) \<and> advances ?s K {rid} st ?st0 \<and> job_of ?jid ?st0 \<noteq> None"
    by (rule calm_step) (use F inv job in simp_all)
  have "cache_inv (cache st') \<and> (final \<noteq> Done \<longrightarrow> keys st' rid = keys st rid)
    \<and> (final = Done \<longrightarrow> K \<subseteq> keys st' rid \<and> keys st' rid \<subseteq> keys st ?s \<union> K)
    \<and> (final \<noteq> Done \<and> prepare merc env spec ?st0 = Inr x \<and> joined (re_cleanup env ?s)
         \<and> (\<forall>p. faults (task_env (re_cleanup env ?s)) p = None) \<longrightarrow> keys st' ?s = {})"
  proof (cases "prepare merc env spec ?st0")
    case (Inl st1)
    have "cache_inv (cache st1) \<and> advances ?s K {rid} st st1"
      by (rule prepare_sound(1)[OF fair _ _ _ Inl]) (use S0 in simp_all)
    with run Inl inv show ?thesis by (auto simp: run_def dest: advances_kept)
  next
    case (Inr y)
    obtain cx tasks st1 where y: "y = (cx, tasks, st1)" by (cases y)
    note prep = Inr[unfolded y]
    have P: "cache_inv (cache st1) \<and> advances ?s K {rid} st st1 \<and> job_of ?jid st1 \<noteq> None \<and> rc_job cx = ?jid
       \<and> rg_target (rc_region cx) = Some rid \<and> rg_storage (rc_region cx) = Some ?s"
      using prepare_sound(2)[OF fair S0[THEN conjunct1] S0[THEN conjunct2, THEN conjunct1] S0[THEN conjunct2, THEN conjunct2] prep]
        reg by simp
    then have cx: "cx = ctx_of ?jid rid (rg_credit (rc_region cx))" by simp
    obtain d2 st2 where t: "run_tiles env (rn_generation spec) cx tasks st1 = (d2, st2)" by (metis surj_pair)
    have T: "cache_inv (cache st2) \<and> advances ?s K {rid} st1 st2 \<and> job_of ?jid st2 \<noteq> None
       \<and> (dv_final d2 = Done \<longrightarrow> K \<subseteq> keys st2 ?s)"
      using staging.tiles_sound[of st1 ?jid rid "rg_credit (rc_region cx)" K tasks env, folded cx, unfolded kept] P K[OF prep] F t by simp
    have T': "advances ?s K {rid} st st2" using P T advances_trans by blast
    obtain assets d3 st3 where a: "run_assets encode (re_stage env) cx (map src_id (filter is_style (rn_sources spec))) (d2, st2)
        = Some (assets, d3, st3)"
      using run prep t by (auto simp: run_def)
    obtain u where u: "?jid = ''warm-'' @ u" using names(3) by (auto simp: starts_with_iff)
    have sf: "stage_fits ?jid ?s K {rid} (re_stage env)" using F by blast
    have jc: "rc_job cx = ?jid" using P by blast
    have A: "cache_inv (cache st3) \<and> advances ?s K {rid} st st3 \<and> advances ?s K {rid} st2 st3
        \<and> (dv_final d3 = Done \<longrightarrow> d3 = d2) \<and> (\<forall>b. assets = Some b \<longrightarrow> b = ?ar)"
      using assets.run_assets_sound[of u cx st2 rid K st, folded u, unfolded kept, OF _ jc _ T' sf a]
        assets.run_assets_sound[of u cx st2 rid K st2, folded u, unfolded kept, OF _ jc _ advances_refl sf a] T jc by simp
    let ?reps = "replacements_of (rc_region cx) assets" and ?st4 = "re_staged env st3"
    have cs: "calm ?jid ?s K {rid} (re_staged env)" "calm ?jid ?s K {rid} (re_locked env)" using F by simp_all
    have A': "cache_inv (cache st3)" "advances ?s K {rid} st st3" "advances ?s K {rid} st2 st3" using A by simp_all
    note A4 = calm_inv[OF cs(1) A'(1)] calm_advances[OF cs(1) A'(2)] calm_advances[OF cs(1) A'(3)]
    have rs: "rg_storage (rc_region cx) = Some ?s" "rg_target (rc_region cx) = Some rid" using P by simp_all
    have "assets = None \<or> assets = Some ?ar" using A by (cases assets) simp_all
    then have rv: "?reps = [(?s, rid)] \<or> ?reps = [(?s, rid), (?ar, BASEMAP_ASSETS_REGION_ID)]"
      by (elim disjE) (simp_all add: replacements_of_def rs)
    have reps: "(?s, rid) \<in> set ?reps" "fst ` set ?reps \<subseteq> {?s, ?ar}" using rv by (elim disjE; simp)+
    have pr: "proper_replacements ?reps"
      using rv apart names(2) by (elim disjE) (simp_all add: proper_replacements_def)
    let ?d4 = "fst (settle_generation (rn_generation spec) (d3, ?st4))"
    have d4: "settle_generation (rn_generation spec) (d3, ?st4) = (?d4, ?st4)" "dv_final ?d4 = Done \<Longrightarrow> ?d4 = d3"
      by (auto simp: settle_generation_def split: if_splits)
    obtain d5 st5 where prm: "promote_run (re_promote env) (re_locked env) (rn_generation spec) ?reps (?d4, ?st4) = (d5, st5)"
      by (metis surj_pair)
    have rcp: "faults (task_env (re_promote env)) S_recount = None" "\<forall>r. faults (task_env (re_cleanup env r)) S_recount = None"
      using F by simp_all
    note R = promote_run_sound[OF A4(1,2) cs(2) rcp(1) pr prm]
    have fin: "final = dv_final d5" "cache st' = cache (cleanup_run (re_cleanup env) ?reps (d5, st5))"
      using run prep t a d4(1) prm by (auto simp: run_def conclude_def Let_def)
    show ?thesis
    proof (cases "dv_final d5 = Done")
      case True
      then have ok: "dv_final d2 = Done" using R(4) d4(2) A by auto
      obtain st6 where st6: "advances ?s K {rid} st st6" "advances ?s K {rid} ?st4 st6" "keys st5 rid = keys st6 ?s"
        using R(3)[OF True reps(1)] by blast
      have "advances ?s K {rid} st2 st6" using A4(3) st6(2) by (rule advances_trans)
      then have "K \<subseteq> keys st6 ?s" using T ok by (auto simp: advances_def)
      moreover have "keys st6 ?s \<subseteq> keys st ?s \<union> K" using st6(1) inv by (simp add: advances_def)
      ultimately show ?thesis using fin True R(1) st6(3) by (simp add: cleanup_run_def)
    next
      case False
      note C = cleanup_fold[OF R(1) rcp(2), of ?reps]
      let ?st6 = "fold (cleanup_staging (re_cleanup env)) ?reps st5"
      have "rid \<notin> fst ` set ?reps" using reps(2) apart(2,3) by auto
      then have "keys ?st6 rid = keys st5 rid" using C by blast
      moreover have "keys st5 rid = keys st rid" using advances_kept[OF R(2)[OF False] inv] by simp
      moreover have "?s \<in> fst ` set ?reps" using reps(1) by force
      then have "joined (re_cleanup env ?s) \<and> (\<forall>p. faults (task_env (re_cleanup env ?s)) p = None) \<longrightarrow> keys ?st6 ?s = {}"
        using C by blast
      ultimately show ?thesis using fin False C[THEN conjunct1] by (simp add: cleanup_run_def)
    qed
  qed
  then show "cache_inv (cache st')" "final \<noteq> Done \<Longrightarrow> keys st' rid = keys st rid"
    "final = Done \<Longrightarrow> K \<subseteq> keys st' rid \<and> keys st' rid \<subseteq> keys st ?s \<union> K"
    "final \<noteq> Done \<Longrightarrow> prepare merc env spec ?st0 = Inr x \<Longrightarrow> joined (re_cleanup env ?s) \<Longrightarrow>
       (\<forall>p. faults (task_env (re_cleanup env ?s)) p = None) \<Longrightarrow> keys st' ?s = {}"
    by blast+
qed

section \<open>The tile tasks\<close>

lemma pin_fresh_advances:
  assumes run: "pin_fresh_for_warm t now k (Some s) b st = (out, st')" and "k \<in> K" "s \<notin> kept"
  shows "advances s K kept st st'" "counters jid st' = counters jid st"
    "out = Some FPinned \<Longrightarrow> cache_inv (cache st) \<Longrightarrow> k \<in> keys st' s"
proof -
  show "advances s K kept st st'"
  proof (cases "cache_inv (cache st)")
    case True
    note k = pin_fresh_keys[OF True run]
    have "keys st' r = keys st r" if "r \<in> kept" for r
    proof -
      have "s \<noteq> r" using that assms(3) by blast
      with k(2)[of r] k(3)[of r] show ?thesis by simp
    qed
    moreover have "keys st' s \<subseteq> keys st s \<union> K" using k(3)[of s] assms(2) by auto
    ultimately show ?thesis using k(1) k(2)[of s] unfolding advances_def by blast
  qed (simp add: advances_def)
  show "counters jid st' = counters jid st"
    using run by (auto simp: pin_fresh_for_warm_def counters_def split: prod.splits)
  show "out = Some FPinned \<Longrightarrow> cache_inv (cache st) \<Longrightarrow> k \<in> keys st' s"
    using pin_fresh_keys(4)[OF _ run] by blast
qed

text \<open>A step that is quiet for the run: it advances and leaves the job's counters alone.\<close>

definition quiet :: "string \<Rightarrow> string \<Rightarrow> tile_key set \<Rightarrow> string set \<Rightarrow> app_state \<Rightarrow> app_state \<Rightarrow> bool" where
  "quiet jid s K kept st st' \<longleftrightarrow> advances s K kept st st' \<and> counters jid st' = counters jid st"

lemma quiet_trans: "quiet jid s K kept a b \<Longrightarrow> quiet jid s K kept b c \<Longrightarrow> quiet jid s K kept a c"
  by (auto simp: quiet_def intro: advances_trans)

lemma quiet_calm: "calm jid s K kept f \<Longrightarrow> quiet jid s K kept st (f st)"
  by (simp add: quiet_def calm_def)

lemma quiet_fields [simp]:
  "quiet jid s K kept st (st'\<lparr>flights := fl\<rparr>) = quiet jid s K kept st st'"
  "quiet jid s K kept st (st'\<lparr>health := h\<rparr>) = quiet jid s K kept st st'"
  "quiet jid s K kept st (release_lock key lock st') = quiet jid s K kept st st'"
  by (simp_all add: quiet_def advances_def counters_def job_of_def release_lock_def)

lemma keys_release [simp]: "cache (release_lock key lock st) = cache st"
  by (simp add: release_lock_def)

definition tile_result_ok :: "tile_key \<Rightarrow> warm_result \<Rightarrow> bool" where
  "tile_result_ok k res \<longleftrightarrow>
     (case res of
        W_tile row \<Rightarrow> wr_key row = k \<and> 0 \<le> bytes (wr_tile row) \<and> status (wr_tile row) = 200
          \<and> acceptable_content_type (content_type (wr_tile row))
      | W_negative row \<Rightarrow> wr_key row = k \<and> 0 \<le> bytes (wr_tile row) \<and> status (wr_tile row) \<in> {404, 204} \<and> blob (wr_tile row) = None
      | _ \<Rightarrow> True)"

lemma classify_ok: "tile_result_ok k (classify sha kn k now res) \<and> classify sha kn k now res \<noteq> W_skipped"
  by (auto simp: classify_def tile_result_ok_def warm_row_of_def fresh_tile_def negative_def NEGATIVE_ROW_COST_BYTES_def
      split: sum.splits)

lemma warm_fetch_facts:
  assumes "warm_fetch sha display w env ws k st = (res, st')" "calm jid s K kept (we_others env)"
  shows "tile_result_ok k res \<and> res \<noteq> W_skipped \<and> quiet jid s K kept st st'"
proof -
  obtain src z x y where k: "k = (src, z, x, y)" by (metis prod_cases4)
  have q: "quiet jid s K kept st (we_others env st1)" if "quiet jid s K kept st st1" for st1
    by (rule quiet_trans[OF that quiet_calm[OF assms(2)]])
  have r: "quiet jid s K kept st st" by (simp add: quiet_def)
  have h: "quiet jid s K kept st (we_others env (st\<lparr>health := h\<rparr>))" for h by (rule q) (simp add: r)
  from assms(1) show ?thesis
    using classify_ok[of k sha "knobs st" "we_done env"] q[OF r] r h
    by (auto simp: warm_fetch_def k tile_result_ok_def split: sum.splits if_splits prod.splits)
qed

lemma warm_one_facts:
  assumes reg: "rg_storage region = Some s" "s \<notin> kept" and k: "(src_id (ws_source ws), tile) \<in> K"
    and c: "calm jid s K kept (we_waited env)" "calm jid s K kept (we_others env)"
    and run: "warm_one sha display w env ws tile region st = (res, st')"
  shows "quiet jid s K kept st st' \<and> tile_result_ok (src_id (ws_source ws), tile) res
    \<and> (res = W_skipped \<and> cache_inv (cache st) \<longrightarrow> (src_id (ws_source ws), tile) \<in> keys st' s)"
proof -
  let ?k = "(src_id (ws_source ws), tile)" and ?b = "\<lambda>s. replacement_budget s (rg_target region) (rg_credit region)"
  obtain out1 st1 where p1: "pin_fresh_for_warm (we_pin env) (we_pin_at env) ?k (Some s) (?b st) st = (out1, st1)" by (metis surj_pair)
  note A = pin_fresh_advances[OF p1 k reg(2)]
  have q1: "quiet jid s K kept st st1" using A(1,2) by (simp add: quiet_def)
  obtain lk fl where l: "inflight_lock (inflight_key ?k) (flights st1) = (lk, fl)" by (metis surj_pair)
  let ?st2 = "we_waited env (st1\<lparr>flights := fl\<rparr>)"
  have q2: "quiet jid s K kept st ?st2" by (rule quiet_trans[OF _ quiet_calm[OF c(1)]]) (simp add: q1)
  obtain out2 st3 where p2: "pin_fresh_for_warm (we_repin env) (we_repin_at env) ?k (Some s) (?b ?st2) ?st2 = (out2, st3)" by (metis surj_pair)
  note B = pin_fresh_advances[OF p2 k reg(2)]
  have q3: "quiet jid s K kept st st3" by (rule quiet_trans[OF q2]) (use B(1,2) in \<open>simp add: quiet_def\<close>)
  have inv2: "cache_inv (cache st) \<Longrightarrow> cache_inv (cache ?st2)" using q2 by (simp add: quiet_def advances_def)
  obtain res4 st4 where f: "warm_fetch sha display w env ws ?k st3 = (res4, st4)" by (metis surj_pair)
  note C = warm_fetch_facts[OF f c(2)]
  have q4: "quiet jid s K kept st st4" using quiet_trans[OF q3] C by blast
  from run show ?thesis
    unfolding warm_one_def Let_def reg(1) p1 prod.case
    using A(3) B(3) inv2 q1 q2 q3 q4 C
    by (auto simp: l p2 f tile_result_ok_def split: option.splits fresh_pin_outcome.splits)
qed

section \<open>An example run\<close>

text \<open>A run over the single tile of zoom 0, for a region that holds another tile.\<close>

definition ex_spec :: run_spec where
  "ex_spec = \<lparr>rn_sources = [ex_xyz], rn_bboxes = [(Fin 0, Fin 0, Fin 10, Fin 10)], rn_zmin = 0, rn_zmax = 0,
     rn_region = Some ''r1'', rn_job = ''warm-a-0'', rn_generation = 0\<rparr>"

definition ex_job :: warm_job where
  "ex_job = \<lparr>wj_total = 1, wj_done = 0, wj_skipped = 0, wj_bytes = 0, wj_errors = 0, wj_state = Running, wj_cancel = False,
     wj_finished_at = None, wj_region_id = Some ''r1'', wj_created_at = 40, wj_order = 0\<rparr>"

definition ex_warm :: app_state where
  "ex_warm = ex_app\<lparr>cache := ex_cache, warm_jobs := [(''warm-a-0'', ex_job)], active_warm_regions := [''r1'']\<rparr>"

definition ex_ok :: task where "ex_ok = \<lparr>joined = True, task_env = ex_env\<rparr>"

definition ex_flush :: flush_env where "ex_flush = \<lparr>fl_task = ex_ok, fl_now = 50, fl_waited = id\<rparr>"

definition ex_run_env :: "(warm_task \<Rightarrow> warm_result) \<Rightarrow> run_env" where
  "ex_run_env f = \<lparr>re_started = id, re_credit = ex_ok, re_ensure = (\<lambda>_ st. (True, st)),
     re_turns = (\<lambda>_. \<lparr>tu_waited = id, tu_acquired = id, tu_permitted = True, tu_ends = []\<rparr>),
     re_joins = (\<lambda>_. \<lparr>jt_waits = [], jt_event = \<lparr>je_pick = 0, je_run = (\<lambda>t st. (Finished (f t), st)), je_flush = ex_flush\<rparr>\<rparr>),
     re_tail = ex_flush,
     re_stage = \<lparr>sg_polls = [], sg_credit = ex_ok, sg_turns = (\<lambda>_. \<lparr>at_waited = id, at_permitted = True, at_ends = []\<rparr>),
       sg_joins = (\<lambda>_. \<lparr>je_pick = 0, je_run = (\<lambda>t st. (Crashed, st)), je_flush = ex_flush\<rparr>), sg_tail = ex_flush, sg_discard = ex_ok\<rparr>,
     re_staged = id, re_locked = id, re_promote = ex_ok, re_cleanup = (\<lambda>_. ex_ok), re_end = 60\<rparr>"

definition ex_fetch :: "warm_task \<Rightarrow> warm_result" where
  "ex_fetch t = W_tile (ex_row (key_of t) 100)"

abbreviation ex_tasks :: "warm_task list" where
  "ex_tasks \<equiv> [(\<lparr>ws_source = ex_xyz, ws_health_id = ''noaa''\<rparr>, (0, 0, 0))]"

lemmas ex_run_defs = ex_spec_def ex_job_def ex_warm_def ex_ok_def ex_flush_def ex_run_env_def ex_app_def

lemma ex_tiles: "tiles_iter merc ex_xyz (Fin 0, Fin 0, Fin 10, Fin 10) 0 0 = [(0, 0, 0)]"
proof -
  have M: "10 < MAX_MERCATOR_LAT" "- MAX_MERCATOR_LAT < 0" using mercator_above by simp_all
  then have "clips ex_xyz (Fin 0, Fin 0, Fin 10, Fin 10) = [(Fin 0, Fin 0, Fin 10, Fin 10)]"
    by (simp add: clips_def ex_xyz_def flt_def feq_def fmax_def fmin_def List.map_filter_def Let_def)
  moreover have "tile_for_lng_lat merc a b 0 = (0, 0)" for a b
    by (simp add: tile_for_lng_lat_def Let_def clamp_int_def)
  ultimately show ?thesis
    by (simp add: tiles_iter_def range_tiles_def covered_ranges_def zoom_bounds_def ex_xyz_def Let_def
        disjoint_ranges_def zoom_slabs_def slab_ranges_def MAX_EFFECTIVE_ZOOM_def)
qed

lemma ex_fair:
  assumes "\<And>t. case f t of W_tile row \<Rightarrow> wr_key row = key_of t \<and> 0 \<le> bytes (wr_tile row)
     | W_negative row \<Rightarrow> wr_key row = key_of t \<and> 0 \<le> bytes (wr_tile row) | W_skipped \<Rightarrow> False | _ \<Rightarrow> True"
  shows "fair_run jid s K kept (ex_run_env f)"
proof -
  have "task_fits jid s K kept (\<lambda>t st. (Finished (f t), st))"
    unfolding task_fits_def
  proof (intro allI impI)
    fix t st
    show "advances s K kept st (snd (Finished (f t), st)) \<and> counters jid (snd (Finished (f t), st)) = counters jid st
       \<and> (case fst (Finished (f t), st) of
           Finished (W_tile row) \<Rightarrow> wr_key row = key_of t \<and> 0 \<le> bytes (wr_tile row)
         | Finished (W_negative row) \<Rightarrow> wr_key row = key_of t \<and> 0 \<le> bytes (wr_tile row)
         | Finished W_skipped \<Rightarrow> cache_inv (cache st) \<longrightarrow> key_of t \<in> keys (snd (Finished (f t), st)) s
         | _ \<Rightarrow> True)"
      using assms[of t] by (simp split: warm_result.splits)
  qed
  then show ?thesis
    by (simp add: fair_run_def ex_run_env_def ex_flush_def ex_ok_def ex_env_def turn_fits_def join_fits_def event_fits_def
        stage_fits_def asset_fits_def)
qed

lemma ex_prepare:
  "prepare merc (ex_run_env f) ex_spec (re_started (ex_run_env f) ex_warm) = Inr (ctx_of ''warm-a-0'' ''r1'' 100, ex_tasks, ex_warm)"
proof -
  have s: "\<not> is_style ex_xyz" "src_id ex_xyz = ''noaa''" by (simp_all add: is_style_def ex_xyz_def)
  have c: "credit_of ex_ok ''r1'' ex_warm = 100"
    by (simp add: credit_of_def ex_ok_def ex_env_def ex_warm_def region_bytes_def old_bytes_of_def ex_cache_def ex_db_def
        find_row_def row_bytes_def ex_tile_def)
  have e: "expand_warm_sources (re_ensure (ex_run_env f)) [ex_xyz] ex_warm = (Some [\<lparr>ws_source = ex_xyz, ws_health_id = ''noaa''\<rparr>], ex_warm)"
    by (simp add: expand_warm_sources_def s)
  have g: "config_generation ex_warm = 0" by (simp add: ex_warm_def ex_app_def)
  have j: "on_job ''warm-a-0'' (\<lambda>j. j\<lparr>wj_total := Suc 0\<rparr>) ex_warm = ex_warm"
    by (simp add: on_job_def update_jobs_def ex_warm_def ex_job_def)
  have r: "rn_sources ex_spec = [ex_xyz]" "rn_region ex_spec = Some ''r1''" "rn_job ex_spec = ''warm-a-0''" "rn_generation ex_spec = 0"
    "rn_bboxes ex_spec = [(Fin 0, Fin 0, Fin 10, Fin 10)]" "rn_zmin ex_spec = 0" "rn_zmax ex_spec = 0" by (simp_all add: ex_spec_def)
  have "re_started (ex_run_env f) = id" "re_credit (ex_run_env f) = ex_ok" by (simp_all add: ex_run_env_def)
  then show ?thesis
    by (simp add: prepare_def r g c e j Let_def expanded_total_def run_tasks_def ex_count ex_tiles WARM_TILE_HARD_CAP_def)
qed

section \<open>The example run, evaluated\<close>

definition ex_staged_cache :: tile_cache where
  "ex_staged_cache = snd (put_many_pinned ex_env [ex_row (''noaa'', 0, 0, 0) 100] 500 1000 (Some ''__warm_staging__warm-a-0'') 50 ex_cache)"

lemma ex_put: "put_many_pinned ex_env [ex_row (''noaa'', 0, 0, 0) 100] 500 1000 (Some ''__warm_staging__warm-a-0'') 50 ex_cache
    = (Inr \<lparr>pm_stored = 1, pm_bytes_added = 100, pm_capped = False\<rparr>, ex_staged_cache)"
proof -
  have "fst (put_many_pinned ex_env [ex_row (''noaa'', 0, 0, 0) 100] 500 1000 (Some ''__warm_staging__warm-a-0'') 50 ex_cache)
      = Inr \<lparr>pm_stored = 1, pm_bytes_added = 100, pm_capped = False\<rparr>"
    unfolding put_many_pinned_def ex_env_def ex_cache_def ex_db_def ex_row_def ex_tile_def by code_simp
  then show ?thesis unfolding ex_staged_cache_def by (metis prod.collapse)
qed

lemma ex_promote: "fst (promote_staged_regions ex_env [(''__warm_staging__warm-a-0'', ''r1'')] 400 200 1000 ex_staged_cache) = Inr True"
  unfolding ex_staged_cache_def put_many_pinned_def ex_env_def ex_cache_def ex_db_def ex_row_def ex_tile_def by code_simp

abbreviation ex_cx :: run_ctx where "ex_cx \<equiv> ctx_of ''warm-a-0'' ''r1'' 100"

lemma ex_staging: "staging_region ''warm-a-0'' ''r1'' = ''__warm_staging__warm-a-0''"
  by (simp add: staging_region_def POSITION_WARM_REGION_ID_def STAGING_REGION_PREFIX_def)

lemma ex_run_tiles:
  "run_tiles (ex_run_env ex_fetch) 0 ex_cx ex_tasks ex_warm =
     (\<lparr>dv_batch = [], dv_final = Done, dv_tasks = []\<rparr>,
      ex_warm\<lparr>cache := ex_staged_cache, warm_jobs := [(''warm-a-0'', ex_job\<lparr>wj_done := 1, wj_bytes := 100\<rparr>)]\<rparr>)"
proof -
  let ?env = "ex_run_env ex_fetch" and ?t = "(\<lparr>ws_source = ex_xyz, ws_health_id = ''noaa''\<rparr>, (0, 0, 0)) :: warm_task"
  have k: "key_of ?t = (''noaa'', 0, 0, 0)" by (simp add: key_of_def ex_xyz_def)
  have nc: "\<not> job_cancelled ''warm-a-0'' ex_warm" by (simp add: job_cancelled_def job_of_def ex_warm_def ex_job_def)
  have g: "config_generation ex_warm = 0" by (simp add: ex_warm_def ex_app_def)
  have en: "enumerate ex_cx 0 (re_turns ?env) 0 ex_tasks (\<lparr>dv_batch = [], dv_final = Done, dv_tasks = []\<rparr>, ex_warm)
      = (\<lparr>dv_batch = [], dv_final = Done, dv_tasks = ex_tasks\<rparr>, ex_warm)"
    by (simp add: ex_run_env_def Let_def g nc)
  have sf: "\<not> warm_batch_should_flush [ex_row (''noaa'', 0, 0, 0) 100]"
    by (simp add: warm_batch_should_flush_def WARM_BATCH_def WARM_BATCH_BYTES_def ex_row_def ex_tile_def)
  have jo: "join_loop ex_cx (re_joins ?env) 0 (\<lparr>dv_batch = [], dv_final = Done, dv_tasks = ex_tasks\<rparr>, ex_warm)
      = (\<lparr>dv_batch = [ex_row (''noaa'', 0, 0, 0) 100], dv_final = Done, dv_tasks = []\<rparr>, ex_warm)"
    by (subst join_loop.simps, subst join_loop.simps)
      (simp add: ex_run_env_def Let_def join_waits_def notice_cancel_def nc join_one_def picked_def unpicked_def
        accumulate_def ex_fetch_def k sf)
  have er: "job_errors ''warm-a-0'' ex_warm = 0" by (simp add: job_errors_def job_of_def ex_warm_def ex_job_def)
  have bu: "replacement_budget ex_warm (Some ''r1'') 100 = 500" "live_cap_bytes ex_warm = 1000"
    by (simp_all add: replacement_budget_def effective_budget_def ex_warm_def ex_app_def POSITION_WARM_REGION_ID_def
        sat_i64_def i64_min_def i64_max_def)
  have ca: "cache ex_warm = ex_cache" by (simp add: ex_warm_def)
  let ?st = "ex_warm\<lparr>cache := ex_staged_cache, warm_jobs := [(''warm-a-0'', ex_job\<lparr>wj_done := 1, wj_bytes := 100\<rparr>)]\<rparr>"
  have fl: "flush_tail ex_cx ex_flush (\<lparr>dv_batch = [ex_row (''noaa'', 0, 0, 0) 100], dv_final = Done, dv_tasks = []\<rparr>, ex_warm)
      = (\<lparr>dv_batch = [], dv_final = Done, dv_tasks = []\<rparr>, ?st)"
    by (simp add: flush_tail_def flush_def ex_flush_def ex_ok_def Let_def bu ca ex_staging ex_put on_job_def update_jobs_def)
      (simp add: ex_warm_def ex_job_def)
  have se: "job_errors ''warm-a-0'' ?st = 0" "job_of ''warm-a-0'' ?st = Some (ex_job\<lparr>wj_done := 1, wj_bytes := 100\<rparr>)"
    "config_generation ?st = 0"
    by (simp_all add: job_errors_def job_of_def ex_job_def g)
  have tail: "re_tail ?env = ex_flush" by (simp add: ex_run_env_def)
  have s1: "settle_errors ex_cx (\<lparr>dv_batch = [ex_row (''noaa'', 0, 0, 0) 100], dv_final = Done, dv_tasks = []\<rparr>, ex_warm)
      = (\<lparr>dv_batch = [ex_row (''noaa'', 0, 0, 0) 100], dv_final = Done, dv_tasks = []\<rparr>, ex_warm)"
    by (simp add: settle_errors_def er)
  let ?d = "\<lparr>dv_batch = [], dv_final = Done, dv_tasks = []\<rparr>"
  have s2: "settle_errors ex_cx (?d, ?st) = (?d, ?st)" using se(1) by (simp add: settle_errors_def)
  have s3: "settle_total ex_cx (?d, ?st) = (?d, ?st)"
    using se(2) by (simp add: settle_total_def ex_job_def sat_u64_def u64_max_def)
  have s4: "settle_generation 0 (?d, ?st) = (?d, ?st)" using se(3) by (simp add: settle_generation_def)
  show ?thesis unfolding run_tiles_def en jo s1 tail fl s2 s3 s4 ..
qed

lemma ex_run: "\<exists>st'. run merc encode (ex_run_env ex_fetch) ex_spec ex_warm = Some (Done, st')"
proof -
  let ?st = "ex_warm\<lparr>cache := ex_staged_cache, warm_jobs := [(''warm-a-0'', ex_job\<lparr>wj_done := 1, wj_bytes := 100\<rparr>)]\<rparr>"
  let ?d = "\<lparr>dv_batch = [], dv_final = Done, dv_tasks = []\<rparr>"
  obtain c where p: "promote_staged_regions ex_env [(''__warm_staging__warm-a-0'', ''r1'')] 400 200 1000 ex_staged_cache = (Inr True, c)"
    using ex_promote by (metis prod.collapse)
  have s: "filter is_style (rn_sources ex_spec) = []" "rn_generation ex_spec = 0" by (simp_all add: ex_spec_def is_style_def ex_xyz_def)
  have e: "re_promote (ex_run_env ex_fetch) = ex_ok" "re_locked (ex_run_env ex_fetch) = id" "re_staged (ex_run_env ex_fetch) = id"
    by (simp_all add: ex_run_env_def)
  have b: "config_generation ?st = 0" "live_cap_bytes ?st = 1000" "live_regions_budget ?st = 600" "live_position_warm_budget ?st = 200"
    "cache ?st = ex_staged_cache" by (simp_all add: ex_warm_def ex_app_def)
  have g: "config_generation ex_warm = 0" by (simp add: ex_warm_def ex_app_def)
  have pr: "promote_run ex_ok id 0 [(''__warm_staging__warm-a-0'', ''r1'')] (?d, ?st) = (?d, ?st\<lparr>cache := c\<rparr>)"
    unfolding promote_run_def Let_def id_apply prod.case b
    by (simp add: ex_ok_def p)
  show ?thesis
    unfolding run_def ex_prepare sum.case prod.case s ex_run_tiles run_assets_def
    by (simp add: conclude_def replacements_of_def ex_staging e settle_generation_def b g pr[simplified] s Let_def)
qed

section \<open>Properties\<close>

text \<open>
  C31: A tile task, whatever its waits and its upstream do, pins at most its own tile, under the staging
  region only; it reports a tile as skipped only when that pin is there; a row it hands to the driver is for
  its own tile and is either a 200 of a passive media type or a negative row without a body; it leaves every
  other region, the job's counters and the well-formedness of the cache alone.
\<close>

theorem tile_task_contract:
  assumes "rg_storage region = Some s" "s \<notin> kept"
    and "\<And>t. calm jid s K kept (we_waited (envs t))" "\<And>t. calm jid s K kept (we_others (envs t))"
  shows "task_fits jid s K kept (\<lambda>t st. case warm_one sha display w (envs t) (fst t) (snd t) region st of (r, st') \<Rightarrow> (Finished r, st'))
    \<and> (\<forall>t st. key_of t \<in> K \<longrightarrow> tile_result_ok (key_of t) (fst (warm_one sha display w (envs t) (fst t) (snd t) region st)))"
proof -
  have F: "quiet jid s K kept st st' \<and> tile_result_ok (key_of t) res
      \<and> (res = W_skipped \<and> cache_inv (cache st) \<longrightarrow> key_of t \<in> keys st' s)"
    if "key_of t \<in> K" "warm_one sha display w (envs t) (fst t) (snd t) region st = (res, st')" for t st res st'
    using warm_one_facts[OF assms(1,2) that(1)[unfolded key_of_def] assms(3,4) that(2)] by (simp add: key_of_def)
  have "task_fits jid s K kept (\<lambda>t st. case warm_one sha display w (envs t) (fst t) (snd t) region st of (r, st') \<Rightarrow> (Finished r, st'))"
    unfolding task_fits_def
  proof (intro allI impI)
    fix t st assume k: "key_of t \<in> K"
    obtain res st' where r: "warm_one sha display w (envs t) (fst t) (snd t) region st = (res, st')" by (metis surj_pair)
    from F[OF k r] show "advances s K kept st (snd (case warm_one sha display w (envs t) (fst t) (snd t) region st of (r, st') \<Rightarrow> (Finished r, st')))
       \<and> counters jid (snd (case warm_one sha display w (envs t) (fst t) (snd t) region st of (r, st') \<Rightarrow> (Finished r, st'))) = counters jid st
       \<and> (case fst (case warm_one sha display w (envs t) (fst t) (snd t) region st of (r, st') \<Rightarrow> (Finished r, st')) of
           Finished (W_tile row) \<Rightarrow> wr_key row = key_of t \<and> 0 \<le> bytes (wr_tile row)
         | Finished (W_negative row) \<Rightarrow> wr_key row = key_of t \<and> 0 \<le> bytes (wr_tile row)
         | Finished W_skipped \<Rightarrow> cache_inv (cache st) \<longrightarrow>
             key_of t \<in> keys (snd (case warm_one sha display w (envs t) (fst t) (snd t) region st of (r, st') \<Rightarrow> (Finished r, st'))) s
         | _ \<Rightarrow> True)"
      by (cases res) (simp_all add: r quiet_def tile_result_ok_def)
  qed
  moreover have "tile_result_ok (key_of t) (fst (warm_one sha display w (envs t) (fst t) (snd t) region st))"
    if "key_of t \<in> K" for t st
    using F[OF that surjective_pairing[of "warm_one sha display w (envs t) (fst t) (snd t) region st"]] by blast
  ultimately show ?thesis by blast
qed

text \<open>
  C2: A run that ends as done has replaced its saved region: the region holds exactly the tiles of the run's
  enumeration, every one of them pinned, whatever the order in which the tasks end and the batches are
  written. It is assumed that the staging region was empty, that the tile tasks keep their contract and that
  the other tasks leave this run's staging region, its target and its counters alone.
\<close>

theorem done_run_is_complete:
  assumes "cache_inv (cache st)" "job_of (rn_job spec) st \<noteq> None" "rn_region spec = Some rid"
    and "\<not> starts_with rid STAGING_REGION_PREFIX" "rid \<noteq> BASEMAP_ASSETS_REGION_ID" "starts_with (rn_job spec) ''warm-''"
    and "prepare merc env spec (re_started env st) = Inr (cx, tasks, st1)"
    and "fair_run (rn_job spec) (staging_region (rn_job spec) rid) (key_of ` set tasks) {rid} env"
    and "keys st (staging_region (rn_job spec) rid) = {}"
    and "run merc encode env spec st = Some (Done, st')"
  shows "keys st' rid = key_of ` set tasks \<and> (\<forall>k \<in> key_of ` set tasks. pinned_at (conn (cache st')) k) \<and> cache_inv (cache st')"
proof -
  have K: "\<And>cx' tasks' st2. prepare merc env spec (re_started env st) = Inr (cx', tasks', st2) \<Longrightarrow>
      key_of ` set tasks = key_of ` set tasks'" using assms(7) by simp
  have inv: "cache_inv (cache st')" by (rule region_run(1)[OF assms(1-6) _ assms(8,10)]) (rule K)
  have "key_of ` set tasks \<subseteq> keys st' rid \<and> keys st' rid \<subseteq> keys st (staging_region (rn_job spec) rid) \<union> key_of ` set tasks"
    by (rule region_run(3)[OF assms(1-6) _ assms(8,10) refl]) (rule K)
  with assms(9) have eq: "keys st' rid = key_of ` set tasks" by blast
  have "pinned_at (conn (cache st')) k" if "k \<in> key_of ` set tasks" for k
    using that eq db_ok_referenced[OF cache_invD(1)[OF inv], of k] referenced_keys by blast
  with eq inv show ?thesis by blast
qed


lemma done_run_is_complete_witness:
  "\<exists>st'. run ex_merc id (ex_run_env ex_fetch) ex_spec ex_warm = Some (Done, st') \<and> keys st' ''r1'' = {(''noaa'', 0, 0, 0)}
     \<and> keys ex_warm ''r1'' = {(''s'', 0, 0, 0)}"
proof -
  obtain st' where r: "run ex_merc id (ex_run_env ex_fetch) ex_spec ex_warm = Some (Done, st')"
    using ex_run by blast
  have i: "cache_inv (cache ex_warm)" "job_of (rn_job ex_spec) ex_warm \<noteq> None"
    using ex_cache_inv by (simp_all add: ex_warm_def ex_spec_def job_of_def)
  have n: "rn_region ex_spec = Some ''r1''" "\<not> starts_with ''r1'' STAGING_REGION_PREFIX" "''r1'' \<noteq> BASEMAP_ASSETS_REGION_ID"
    "starts_with (rn_job ex_spec) ''warm-''"
    by (simp_all add: ex_spec_def starts_with_def STAGING_REGION_PREFIX_def BASEMAP_ASSETS_REGION_ID_def)
  have f: "fair_run (rn_job ex_spec) (staging_region (rn_job ex_spec) ''r1'') (key_of ` set ex_tasks) {''r1''} (ex_run_env ex_fetch)"
    by (rule ex_fair) (simp add: ex_fetch_def ex_row_def ex_tile_def)
  have e: "keys ex_warm (staging_region (rn_job ex_spec) ''r1'') = {}" "keys ex_warm ''r1'' = {(''s'', 0, 0, 0)}"
    by (simp_all add: ex_spec_def ex_staging ex_warm_def ex_cache_def ex_db_def region_keys_def)
  have k: "key_of ` set ex_tasks = {(''noaa'', 0, 0, 0)}" by (simp add: key_of_def ex_xyz_def)
  from done_run_is_complete[OF i n(1-4) ex_prepare f e(1) r] r e(2) k show ?thesis by auto
qed

text \<open>The same run when the tile's fetch fails.\<close>

lemma ex_failed_run: "\<exists>st'. run merc encode (ex_run_env (\<lambda>t. W_error)) ex_spec ex_warm = Some (Error, st')"
proof -
  let ?env = "ex_run_env (\<lambda>t. W_error)" and ?d = "\<lparr>dv_batch = [], dv_final = Done, dv_tasks = []\<rparr>"
  let ?st = "on_job ''warm-a-0'' add_error ex_warm"
  have nc: "\<not> job_cancelled ''warm-a-0'' ex_warm" "\<not> job_cancelled ''warm-a-0'' ?st"
    by (simp_all add: job_cancelled_def job_of_on_job) (simp_all add: job_of_def ex_warm_def ex_job_def add_error_def)
  have g: "config_generation ex_warm = 0" "config_generation ?st = 0" by (simp_all add: ex_warm_def ex_app_def)
  have en: "enumerate ex_cx 0 (re_turns ?env) 0 ex_tasks (?d, ex_warm) = (?d\<lparr>dv_tasks := ex_tasks\<rparr>, ex_warm)"
    by (simp add: ex_run_env_def Let_def g nc)
  have jo: "join_loop ex_cx (re_joins ?env) 0 (?d\<lparr>dv_tasks := ex_tasks\<rparr>, ex_warm) = (?d, ?st)"
    by (subst join_loop.simps, subst join_loop.simps)
      (simp add: ex_run_env_def Let_def join_waits_def notice_cancel_def nc join_one_def picked_def unpicked_def accumulate_def)
  have "job_errors ''warm-a-0'' ?st = 1"
    by (simp add: job_errors_def job_of_on_job) (simp add: job_of_def ex_warm_def ex_job_def add_error_def)
  then have se: "settle_errors ex_cx (?d, ?st) = (?d\<lparr>dv_final := Error\<rparr>, ?st)" by (simp add: settle_errors_def)
  have rest: "flush_tail ex_cx (re_tail ?env) (?d\<lparr>dv_final := Error\<rparr>, ?st) = (?d\<lparr>dv_final := Error\<rparr>, ?st)"
    "settle_errors ex_cx (?d\<lparr>dv_final := Error\<rparr>, ?st) = (?d\<lparr>dv_final := Error\<rparr>, ?st)"
    "settle_total ex_cx (?d\<lparr>dv_final := Error\<rparr>, ?st) = (?d\<lparr>dv_final := Error\<rparr>, ?st)"
    "settle_generation 0 (?d\<lparr>dv_final := Error\<rparr>, ?st) = (?d\<lparr>dv_final := Error\<rparr>, ?st)"
    by (simp_all add: flush_tail_def settle_errors_def settle_total_def settle_generation_def split: option.split)
  have tiles: "run_tiles ?env 0 ex_cx ex_tasks ex_warm = (?d\<lparr>dv_final := Error\<rparr>, ?st)"
    unfolding run_tiles_def en jo se rest ..
  have s: "filter is_style (rn_sources ex_spec) = []" "rn_generation ex_spec = 0" by (simp_all add: ex_spec_def is_style_def ex_xyz_def)
  have e: "re_staged ?env = id" by (simp add: ex_run_env_def)
  show ?thesis
    unfolding run_def ex_prepare sum.case prod.case s tiles run_assets_def
    by (simp add: conclude_def e s rest[simplified] promote_run_def Let_def)
qed


lemma tile_task_contract_witness:
  "tile_result_ok (key_of (hd ex_tasks))
     (fst (warm_one (\<lambda>b. b) (\<lambda>_. ''0'')
       \<lparr>host_of = (\<lambda>_. Some ''t.example''), egress_open = False, send = (\<lambda>_ _ _ _. Send_timed_out), clock = (\<lambda>_. 0)\<rparr>
       \<lparr>we_pin = ex_ok, we_pin_at = 50, we_repin = ex_ok, we_repin_at = 50, we_done = 50, we_cancelled = False,
         we_waited = id, we_others = id\<rparr> (fst (hd ex_tasks)) (snd (hd ex_tasks))
       \<lparr>rg_target = Some ''r1'', rg_storage = Some ''st'', rg_credit = 0\<rparr> ex_warm))"
  using tile_task_contract[of "\<lparr>rg_target = Some ''r1'', rg_storage = Some ''st'', rg_credit = 0\<rparr>" "''st''" "{}" "''j''"
      "{key_of (hd ex_tasks)}" "\<lambda>_. \<lparr>we_pin = ex_ok, we_pin_at = 50, we_repin = ex_ok, we_repin_at = 50, we_done = 50,
         we_cancelled = False, we_waited = id, we_others = id\<rparr>"] by simp

end
