(* ===== verification/Warm_Upkeep.thy ===== *)
theory Warm_Upkeep
  imports Upkeep Warm_Run_Claims
begin

text \<open>
  The contract \<open>steps\<close> for a whole warm run (\<open>run\<close> in \<open>container/tilecache/src/warm.rs\<close>): the run keeps
  what every task keeps, whatever its tiles and assets are and however it ends. \<open>warm_steps\<close> extends the
  contract by the updates of the job registry and of the asset flag.
\<close>

section \<open>What a run meets\<close>

abbreviation row_ok :: "warm_row \<Rightarrow> bool" where "row_ok r \<equiv> 0 \<le> bytes (wr_tile r)"

definition tame_tile_event :: "(app_state \<Rightarrow> bool) \<Rightarrow> warm_event \<Rightarrow> bool" where
  "tame_tile_event I ev \<longleftrightarrow> keeps I (fl_waited (je_flush ev)) \<and>
     (\<forall>t s. I s \<longrightarrow> I (snd (je_run ev t s)) \<and>
        (\<forall>r. fst (je_run ev t s) = Finished (W_tile r) \<or> fst (je_run ev t s) = Finished (W_negative r) \<longrightarrow> row_ok r))"

definition tame_asset_event :: "(app_state \<Rightarrow> bool) \<Rightarrow> asset_event \<Rightarrow> bool" where
  "tame_asset_event I ev \<longleftrightarrow> keeps I (fl_waited (je_flush ev)) \<and>
     (\<forall>t s. I s \<longrightarrow> I (snd (je_run ev t s)) \<and> (\<forall>r. fst (je_run ev t s) = Finished (Inr (Some r)) \<longrightarrow> row_ok r))"

abbreviation recounts :: "task \<Rightarrow> bool" where
  "recounts t \<equiv> faults (task_env t) S_recount = None"

definition tame_stage :: "(app_state \<Rightarrow> bool) \<Rightarrow> stage_env \<Rightarrow> bool" where
  "tame_stage I env \<longleftrightarrow> list_all (keeps I) (sg_polls env)
     \<and> (\<forall>i. keeps I (at_waited (sg_turns env i)) \<and> list_all (tame_asset_event I) (at_ends (sg_turns env i)))
     \<and> (\<forall>i. tame_asset_event I (sg_joins env i)) \<and> keeps I (fl_waited (sg_tail env)) \<and> recounts (sg_discard env)"

text \<open>
  The other tasks keep the property wherever the run waits, a tile or asset that arrives has a length, and
  the recount after a change of regions does not fail.
\<close>

definition tame_run :: "(app_state \<Rightarrow> bool) \<Rightarrow> run_env \<Rightarrow> bool" where
  "tame_run I env \<longleftrightarrow> keeps I (re_started env) \<and> (\<forall>src s. I s \<longrightarrow> I (snd (re_ensure env src s)))
     \<and> (\<forall>i. keeps I (tu_waited (re_turns env i)) \<and> keeps I (tu_acquired (re_turns env i))
            \<and> list_all (tame_tile_event I) (tu_ends (re_turns env i)))
     \<and> (\<forall>i. list_all (keeps I) (jt_waits (re_joins env i)) \<and> tame_tile_event I (jt_event (re_joins env i)))
     \<and> keeps I (fl_waited (re_tail env)) \<and> tame_stage I (re_stage env) \<and> keeps I (re_staged env) \<and> keeps I (re_locked env)
     \<and> recounts (re_promote env) \<and> (\<forall>s. recounts (re_cleanup env s))"

definition running :: "(app_state \<Rightarrow> bool) \<Rightarrow> driver \<times> app_state \<Rightarrow> bool" where
  "running I x \<longleftrightarrow> I (snd x) \<and> (\<forall>r \<in> set (dv_batch (fst x)). row_ok r)"

definition staging :: "(app_state \<Rightarrow> bool) \<Rightarrow> asset_driver \<times> app_state \<Rightarrow> bool" where
  "staging I x \<longleftrightarrow> I (snd x) \<and> (\<forall>r \<in> set (ad_batch (fst x)). row_ok r)"

section \<open>Tile and asset tasks\<close>

lemma classify_row: "classify sha kn k now res = W_tile r \<or> classify sha kn k now res = W_negative r \<Longrightarrow> row_ok r"
  by (auto simp: classify_def warm_row_of_def fresh_tile_def negative_def NEGATIVE_ROW_COST_BYTES_def split: sum.splits if_splits)

lemma warm_one_row:
  assumes "warm_one sha display w env ws tile region st = (res, st')" "res = W_tile r \<or> res = W_negative r"
  shows "row_ok r"
proof -
  have f: "row_ok r" if "fst (warm_fetch sha display w env ws k s) = W_tile r \<or> fst (warm_fetch sha display w env ws k s) = W_negative r" for k s
    using that classify_row by (auto simp: warm_fetch_def split: prod.splits sum.splits if_splits)
  show ?thesis
    using assms by (auto simp: warm_one_def Let_def case_prod_unfold intro!: f split: option.splits fresh_pin_outcome.splits)
qed

lemma warm_one_asset_row:
  "fst (warm_one_asset sha is_json parse w env region budget job st) = Inr (Some r) \<Longrightarrow> row_ok r"
  by (auto simp: warm_one_asset_def fetch_asset_def warm_row_of_def fresh_tile_def Let_def
      split: if_splits prod.splits option.splits sum.splits fresh_pin_outcome.splits)

context steps begin

lemma pin_fresh_keeps: "I st \<Longrightarrow> I (snd (pin_fresh_for_warm t now k region budget st))"
  using task_keeps[of st "pin_if_fresh_capped (task_env t) k now (kn_fresh_secs (knobs st)) (negative_ttl_secs (knobs st))
      \<lparr>category_budget = budget, physical_budget = live_cap_bytes st\<rparr> region"] pin_if_fresh_capped_inv
  by (auto simp: pin_fresh_for_warm_def split: prod.split)

lemma warm_fetch_keeps:
  assumes "I st" "keeps I (we_others env)" shows "I (snd (warm_fetch sha display w env ws k st))"
  using assms(1) keepsD[OF assms(2,1)] others_keep[OF assms(2,1) fetched_health[OF assms(1)]]
  by (auto simp: warm_fetch_def split: prod.splits sum.splits)

lemma warm_one_asset_keeps:
  assumes "I st" "keeps I (ae_others env)"
  shows "I (snd (warm_one_asset sha is_json parse w env region budget job st))"
proof -
  have f: "I (snd (fetch_asset sha is_json w env job s))" if "I s" for s
    using keepsD[OF assms(2) that] others_keep[OF assms(2) that fetched_health[OF that]]
    by (auto simp: fetch_asset_def split: prod.splits)
  obtain found c where g: "cache_get (ae_lookup env) (asset_key job) (cache st) = (found, c)" by (meson surj_pair)
  have c: "I (st\<lparr>cache := c\<rparr>)" using lookup_keeps[OF assms(1), of "ae_lookup env" "asset_key job"] g by simp
  obtain r s where p: "pin_fresh_for_warm (ae_pin env) (ae_pin_at env) (asset_key job) (Some region) budget (st\<lparr>cache := c\<rparr>) = (r, s)"
    by (meson surj_pair)
  have "I s" using pin_fresh_keeps[OF c, of "ae_pin env" "ae_pin_at env" "asset_key job" "Some region" budget] p by simp
  with assms(1) c f[OF this] f[OF c] show ?thesis
    by (auto simp: warm_one_asset_def g p Let_def split: option.split fresh_pin_outcome.split)
qed

end

context upkeep begin

lemma warm_one_keeps:
  assumes "I st" "\<And>l. keeps (H l) (we_waited env)" "\<And>l. keeps (H l) (we_others env)"
  shows "I (snd (warm_one sha display w env ws tile region st))"
proof -
  let ?k = "(src_id (ws_source ws), tile)" and ?b = "\<lambda>s. replacement_budget s (rg_target region) (rg_credit region)"
  obtain r1 st1 where p: "pin_fresh_for_warm (we_pin env) (we_pin_at env) ?k (rg_storage region) (?b st) st = (r1, st1)" by (meson surj_pair)
  have s1: "I st1" using pin_fresh_keeps[OF assms(1), of "we_pin env" "we_pin_at env" ?k "rg_storage region" "?b st"] p by simp
  obtain lk fl where l: "inflight_lock (inflight_key ?k) (flights st1) = (lk, fl)" by (meson surj_pair)
  show ?thesis
  proof (cases "lk = None \<or> r1 = Some FPinned \<or> r1 = Some FCapped")
    case True
    with s1 locked(1)[OF s1 l] show ?thesis
      by (auto simp: warm_one_def Let_def p l split: option.split fresh_pin_outcome.split)
  next
    case False
    then obtain lock where lk: "lk = Some lock" by (cases lk) auto
    let ?l = "(inflight_key ?k, lock, False)" and ?st2 = "we_waited env (st1\<lparr>flights := fl\<rparr>)"
    have h: "H ?l ?st2" by (rule keepsD[OF assms(2) locked(2)[OF s1 l lk]])
    obtain r2 s where q: "pin_fresh_for_warm (we_repin env) (we_repin_at env) ?k (rg_storage region) (?b ?st2) ?st2 = (r2, s)" by (meson surj_pair)
    have s: "H ?l s" using held.pin_fresh_keeps[OF h, of "we_repin env" "we_repin_at env" ?k "rg_storage region" "?b ?st2"] q by simp
    note rel = release_step[OF s] release_step[OF held.warm_fetch_keeps[OF s assms(3)], of sha display w ws ?k]
    have r1: "r1 = None \<or> r1 = Some FMissingOrStale" using False by (cases r1; cases "the r1") auto
    show ?thesis
      using rel by (cases r1; cases "the r1") (use r1 in \<open>auto simp: warm_one_def Let_def p l lk q case_prod_unfold
          split: option.split fresh_pin_outcome.split\<close>)
  qed
qed

end

text \<open>A task of the set as the run meets it: it starts and ends among other tasks, or it panics.\<close>

definition tile_task :: "(byte list \<Rightarrow> byte list) \<Rightarrow> (rat \<Rightarrow> string) \<Rightarrow> wire \<Rightarrow> (warm_task \<Rightarrow> warm_env) \<Rightarrow> region_ctx
    \<Rightarrow> (app_state \<Rightarrow> app_state) \<Rightarrow> (app_state \<Rightarrow> app_state) \<Rightarrow> warm_task \<Rightarrow> app_state \<Rightarrow> warm_result ended \<times> app_state" where
  "tile_task sha display w envs region before after t st =
     (case warm_one sha display w (envs t) (fst t) (snd t) region (before st) of (r, st') \<Rightarrow> (Finished r, after st'))"

definition asset_task :: "(byte list \<Rightarrow> byte list) \<Rightarrow> (byte list \<Rightarrow> bool) \<Rightarrow> (string \<Rightarrow> (parsed_url \<times> string) option) \<Rightarrow> wire
    \<Rightarrow> (asset_job \<Rightarrow> asset_env) \<Rightarrow> string \<Rightarrow> int \<Rightarrow> (app_state \<Rightarrow> app_state) \<Rightarrow> (app_state \<Rightarrow> app_state) \<Rightarrow> asset_job \<Rightarrow> app_state
    \<Rightarrow> (asset_stop + warm_row option) ended \<times> app_state" where
  "asset_task sha is_json parse w envs region budget before after job st =
     (case warm_one_asset sha is_json parse w (envs job) region budget job (before st) of (r, st') \<Rightarrow> (Finished r, after st'))"

definition panicked :: "(app_state \<Rightarrow> app_state) \<Rightarrow> 't \<Rightarrow> app_state \<Rightarrow> 'r ended \<times> app_state" where
  "panicked after t st = (Crashed, after st)"

text \<open>The regions a run replaces are never their own staging.\<close>

lemma prepare_ctx:
  assumes "prepare merc env spec st = Inr (cx, tasks, s)"
  shows "rg_target (rc_region cx) = rn_region spec"
    "rg_storage (rc_region cx) = map_option (staging_region (rn_job spec)) (rn_region spec)"
  using assms by (auto simp: prepare_def Let_def split: if_splits option.splits prod.splits)

lemma staged_name:
  assumes "run_assets encode env cx srcs x = Some (assets, y)" "assets = Some a" shows "a = asset_region (rc_job cx)"
proof -
  obtain d st where x: "x = (d, st)" by (cases x)
  have "stage_claimed encode env srcs jid s = (Inr b, s') \<Longrightarrow> b = asset_region jid" for jid s b s'
    by (auto simp: stage_claimed_def Let_def split: if_splits option.splits prod.splits)
  then have "stage_basemap_assets encode env srcs jid s = (Some (Inr b), s') \<Longrightarrow> b = asset_region jid" for jid s b s'
    unfolding stage_basemap_assets_def by (auto split: prod.splits option.splits bool.splits)
  with assms show ?thesis
    by (auto simp: x run_assets_def split: if_splits prod.splits option.splits sum.splits)
qed

lemma asset_region_not_global: "asset_region jid \<noteq> BASEMAP_ASSETS_REGION_ID"
  by (simp add: asset_region_def STAGING_REGION_PREFIX_def BASEMAP_ASSETS_REGION_ID_def)

locale warm_steps = steps +
  assumes jobs_step: "I st \<Longrightarrow> I (st\<lparr>warm_jobs := js\<rparr>)"
    and active_step: "I st \<Longrightarrow> I (st\<lparr>active_warm_regions := rs\<rparr>)"
    and flag_step: "I st \<Longrightarrow> I (st\<lparr>assets_warming := b\<rparr>)"
begin

lemma jobs_keep: "I st \<Longrightarrow> I (on_job jid f st)" "I st \<Longrightarrow> I (set_cancel jid st)"
  using jobs_step by (simp_all add: on_job_def set_cancel_def update_jobs_def)

lemma error_counted: "I st \<Longrightarrow> I (st\<lparr>cache := record_operation_error (cache st)\<rparr>)"
  by (rule on_cache) auto

section \<open>Tiles\<close>

lemma flush_keeps:
  assumes "running I (d, st)" "keeps I (fl_waited env)"
  shows "running I (snd (flush cx env (d, st)))"
proof -
  let ?s = "fl_waited env st"
  have s: "I ?s" using assms keepsD by (auto simp: running_def)
  obtain res c where p: "put_many_pinned (task_env (fl_task env)) (dv_batch d)
      (replacement_budget st (rg_target (rc_region cx)) (rg_credit (rc_region cx))) (live_cap_bytes st)
      (rg_storage (rc_region cx)) (fl_now env) (cache ?s) = (res, c)" by (meson surj_pair)
  have c: "cache_inv c" using put_many_inv[OF parts(1)[OF s], of "dv_batch d"] assms(1) p by (metis running_def fst_conv snd_conv)
  have k: "I (?s\<lparr>cache := c\<rparr>)" "I (?s\<lparr>cache := record_operation_error c\<rparr>)"
    using cache_step[OF s] c by simp_all
  show ?thesis
    using error_counted[OF s] k
    by (simp add: flush_def p Let_def running_def jobs_keep split: sum.split)
qed

lemma accumulate_keeps:
  assumes "running I (d, st)" "keeps I (fl_waited env)"
    "\<And>r. res = W_tile r \<or> res = W_negative r \<Longrightarrow> row_ok r"
  shows "running I (snd (accumulate cx env res (d, st)))"
proof -
  have "running I (d\<lparr>dv_batch := dv_batch d @ [r]\<rparr>, st)" if "res = W_tile r \<or> res = W_negative r" for r
    using assms(1,3) that by (auto simp: running_def)
  with flush_keeps[OF this assms(2)] assms(1) show ?thesis
    by (auto simp: accumulate_def Let_def running_def jobs_keep split: warm_result.split)
qed

lemma tile_end:
  assumes "running I (d, st)" "tame_tile_event I ev" "je_run ev t st = (res, st1)"
  shows "running I (d\<lparr>dv_tasks := ts\<rparr>, st1)"
    "res = Finished f \<Longrightarrow> running I (snd (accumulate cx (je_flush ev) f (d\<lparr>dv_tasks := ts\<rparr>, st1)))"
proof -
  have e: "I st1" "\<And>r. res = Finished (W_tile r) \<or> res = Finished (W_negative r) \<Longrightarrow> row_ok r" "keeps I (fl_waited (je_flush ev))"
    using assms unfolding tame_tile_event_def running_def by (metis fst_conv snd_conv)+
  show d: "running I (d\<lparr>dv_tasks := ts\<rparr>, st1)" using assms(1) e(1) by (simp add: running_def)
  show "res = Finished f \<Longrightarrow> running I (snd (accumulate cx (je_flush ev) f (d\<lparr>dv_tasks := ts\<rparr>, st1)))"
    using e(2) by (intro accumulate_keeps[OF d e(3)]) auto
qed

lemma running_finals:
  assumes "running I x"
  shows "running I ((fst x)\<lparr>dv_final := w\<rparr>, snd x)" "running I (fst x, set_cancel jid (snd x))"
    "running I ((fst x)\<lparr>dv_final := w\<rparr>, on_job jid f (snd x))" "running I ((fst x)\<lparr>dv_final := w\<rparr>, set_cancel jid (on_job jid f (snd x)))"
  using assms by (simp_all add: running_def jobs_keep)

lemma drain_one_keeps:
  assumes "running I x" "tame_tile_event I ev"
  shows "running I (snd (drain_one cx ev x))"
proof -
  obtain d st where x: "x = (d, st)" by (cases x)
  obtain res st1 where r: "je_run ev (picked (je_pick ev) (dv_tasks d)) st = (res, st1)" by (meson surj_pair)
  let ?ts = "unpicked (je_pick ev) (dv_tasks d)"
  note e = tile_end[OF assms(1)[unfolded x] assms(2) r, where ts = ?ts]
  show ?thesis
  proof (cases res)
    case (Finished f)
    with e(2)[where f = f and cx = cx] running_finals(2)[OF e(2)[where f = f and cx = cx]] show ?thesis
      by (simp add: x drain_one_def r Let_def case_prod_unfold)
  next
    case Crashed
    with running_finals(4)[OF e(1)] show ?thesis by (simp add: x drain_one_def r Let_def)
  qed
qed

lemma join_one_keeps:
  assumes "running I x" "tame_tile_event I ev"
  shows "running I (join_one cx ev x)"
proof -
  obtain d st where x: "x = (d, st)" by (cases x)
  obtain res st1 where r: "je_run ev (picked (je_pick ev) (dv_tasks d)) st = (res, st1)" by (meson surj_pair)
  let ?ts = "unpicked (je_pick ev) (dv_tasks d)"
  note e = tile_end[OF assms(1)[unfolded x] assms(2) r, where ts = ?ts]
  show ?thesis
  proof (cases res)
    case (Finished f)
    with e(1) e(2)[where f = f and cx = cx] running_finals(2)[OF e(2)[where f = f and cx = cx]] show ?thesis
      by (simp add: x join_one_def r Let_def case_prod_unfold)
  next
    case Crashed
    with running_finals(3)[OF e(1)] show ?thesis by (simp add: x join_one_def r Let_def)
  qed
qed

lemma drain_keeps:
  "running I x \<Longrightarrow> list_all (tame_tile_event I) evs \<Longrightarrow> running I (snd (drain cx evs x))"
proof (induction evs arbitrary: x)
  case (Cons ev evs)
  from drain_one_keeps[OF Cons.prems(1), of ev cx] Cons show ?case by (simp add: case_prod_unfold)
qed simp

lemma enumerate_keeps:
  assumes "\<And>i. keeps I (tu_waited (turns i)) \<and> keeps I (tu_acquired (turns i)) \<and> list_all (tame_tile_event I) (tu_ends (turns i))"
  shows "running I x \<Longrightarrow> running I (enumerate cx gen turns i ts x)"
proof (induction ts arbitrary: i x)
  case (Cons t ts)
  obtain d st where x: "x = (d, st)" by (cases x)
  let ?s1 = "tu_waited (turns i) st" and ?s2 = "tu_acquired (turns i) (tu_waited (turns i) st)"
  have s1: "I ?s1" using Cons.prems keepsD[of I "tu_waited (turns i)"] assms[of i] by (simp add: x running_def)
  then have s2: "I ?s2" using keepsD[of I "tu_acquired (turns i)"] assms[of i] by blast
  have b: "\<forall>r \<in> set (dv_batch d). row_ok r" using Cons.prems by (simp add: x running_def)
  then have r: "running I (d\<lparr>dv_tasks := dv_tasks d @ [t]\<rparr>, ?s2)" using s2 by (simp add: running_def)
  have "running I (snd (drain cx (tu_ends (turns i)) (d\<lparr>dv_tasks := dv_tasks d @ [t]\<rparr>, ?s2)))"
    by (rule drain_keeps[OF r]) (use assms[of i] in simp)
  with Cons.IH s1 s2 b show ?case
    by (simp add: x Let_def case_prod_unfold running_def)
qed simp

lemma notice_keeps: "running I x \<Longrightarrow> running I (notice_cancel cx x)"
  by (cases x) (simp add: notice_cancel_def running_def)

lemma fold_waits_keep:
  "running I x \<Longrightarrow> list_all (keeps I) ws \<Longrightarrow> running I (fold (\<lambda>w (d, st). notice_cancel cx (d, w st)) ws x)"
proof (induction ws arbitrary: x)
  case (Cons w ws)
  have "running I (fst x, w (snd x))" using Cons.prems keepsD[of I w] by (simp add: running_def)
  from Cons.IH[OF notice_keeps[OF this]] Cons.prems(2) show ?case by (simp add: case_prod_unfold)
qed simp

lemma waits_keep: "running I x \<Longrightarrow> list_all (keeps I) (jt_waits jt) \<Longrightarrow> running I (join_waits cx jt x)"
  unfolding join_waits_def by (intro fold_waits_keep notice_keeps)

lemma join_loop_keeps:
  assumes "\<And>i. list_all (keeps I) (jt_waits (joins i)) \<and> tame_tile_event I (jt_event (joins i))"
  shows "running I x \<Longrightarrow> running I (join_loop cx joins i x)"
proof (induction "length (dv_tasks (fst x))" arbitrary: i x rule: less_induct)
  case less
  let ?y = "join_waits cx (joins i) x"
  have y: "running I ?y" by (rule waits_keep[OF less.prems]) (use assms[of i] in blast)
  show ?case
  proof (cases "dv_tasks (fst ?y) = []")
    case True
    with y show ?thesis by (subst join_loop.simps) (simp add: Let_def)
  next
    case False
    have "running I (join_loop cx joins (Suc i) (join_one cx (jt_event (joins i)) ?y))"
      by (rule less.hyps[OF _ join_one_keeps[OF y]]) (use False assms[of i] in auto)
    with False show ?thesis by (subst join_loop.simps) (simp add: Let_def)
  qed
qed

lemma settles_keep:
  assumes "running I x"
  shows "running I (settle_errors cx x)" "running I (settle_total cx x)" "running I (settle_generation gen x)"
    "keeps I (fl_waited env) \<Longrightarrow> running I (flush_tail cx env x)"
  using assms flush_keeps[of "fst x" "snd x" env cx]
  by (auto simp: settle_errors_def settle_total_def settle_generation_def flush_tail_def case_prod_unfold running_def
      split: option.split)

lemma tiles_keep:
  assumes "tame_run I env" "I st" shows "running I (run_tiles env gen cx tasks st)"
proof -
  have "running I (\<lparr>dv_batch = [], dv_final = Done, dv_tasks = []\<rparr>, st)" using assms(2) by (simp add: running_def)
  with assms(1) show ?thesis
    unfolding run_tiles_def tame_run_def
    by (intro settles_keep join_loop_keeps enumerate_keeps) auto
qed

section \<open>Assets\<close>

lemma flush_pinned_keeps:
  assumes "staging I (d, st)" "keeps I (fl_waited env)"
  shows "staging I (snd (flush_pinned env region budget (d, st)))"
proof -
  let ?s = "fl_waited env st"
  have s: "I ?s" using assms keepsD by (auto simp: staging_def)
  obtain res c where p: "put_many_pinned (task_env (fl_task env)) (ad_batch d) budget (live_cap_bytes st)
      (Some region) (fl_now env) (cache ?s) = (res, c)" by (meson surj_pair)
  have c: "cache_inv c" using put_many_inv[OF parts(1)[OF s], of "ad_batch d"] assms(1) p by (metis staging_def fst_conv snd_conv)
  have k: "I (?s\<lparr>cache := c\<rparr>)" "I (?s\<lparr>cache := record_operation_error c\<rparr>)"
    using cache_step[OF s] c by simp_all
  show ?thesis
    using error_counted[OF s] k by (simp add: flush_pinned_def p Let_def staging_def split: sum.split)
qed

lemma accept_keeps:
  assumes "staging I (d, st)" "keeps I (fl_waited env)" "\<And>r. res = Finished (Inr (Some r)) \<Longrightarrow> row_ok r"
  shows "staging I (snd (accept_asset env region budget res (d, st)))"
proof -
  have "staging I (d\<lparr>ad_batch := ad_batch d @ [r]\<rparr>, st)" if "res = Finished (Inr (Some r))" for r
    using assms(1,3) that by (auto simp: staging_def)
  with flush_pinned_keeps[OF this assms(2)] assms(1) error_counted[of st] show ?thesis
    by (auto simp: accept_asset_def Let_def staging_def split: ended.split sum.split option.split)
qed

lemma join_asset_keeps:
  assumes "staging I x" "tame_asset_event I ev"
  shows "staging I (join_asset region budget ev x)"
proof -
  obtain d st where x: "x = (d, st)" by (cases x)
  obtain res st1 where r: "je_run ev (picked (je_pick ev) (ad_tasks d)) st = (res, st1)" by (meson surj_pair)
  let ?d = "d\<lparr>ad_tasks := unpicked (je_pick ev) (ad_tasks d)\<rparr>"
  have e: "I st1" "\<And>row. res = Finished (Inr (Some row)) \<Longrightarrow> row_ok row" "keeps I (fl_waited (je_flush ev))"
    using assms r unfolding tame_asset_event_def staging_def x by (metis fst_conv snd_conv)+
  have d: "staging I (?d, st1)" using assms(1) e(1) by (simp add: x staging_def)
  note a = accept_keeps[OF d e(3,2), of res region budget]
  show ?thesis
    using d a by (auto simp: x join_asset_def r Let_def case_prod_unfold staging_def)
qed

lemma drain_assets_keep:
  "staging I x \<Longrightarrow> list_all (tame_asset_event I) evs \<Longrightarrow> staging I (drain_assets region budget evs x)"
proof (induction evs arbitrary: x)
  case (Cons ev evs)
  from Cons.IH[OF join_asset_keeps[OF Cons.prems(1), of ev region budget]] Cons.prems show ?case by simp
qed simp

lemma spawn_assets_keep:
  assumes "\<And>i. keeps I (at_waited (turns i)) \<and> list_all (tame_asset_event I) (at_ends (turns i))"
  shows "staging I x \<Longrightarrow> staging I (spawn_assets region budget turns i js x)"
proof (induction js arbitrary: i x)
  case (Cons j js)
  obtain d st where x: "x = (d, st)" by (cases x)
  have s: "staging I (d\<lparr>ad_tasks := ad_tasks d @ [j]\<rparr>, at_waited (turns i) st)" "staging I (d\<lparr>ad_stop := w\<rparr>, at_waited (turns i) st)" for w
    using Cons.prems keepsD[of I "at_waited (turns i)"] assms[of i] by (simp_all add: x staging_def)
  have "staging I (drain_assets region budget (at_ends (turns i)) (d\<lparr>ad_tasks := ad_tasks d @ [j]\<rparr>, at_waited (turns i) st))"
    by (rule drain_assets_keep[OF s(1)]) (use assms[of i] in simp)
  with Cons.IH s(2) show ?case by (simp add: x Let_def case_prod_unfold)
qed simp

lemma join_assets_keep:
  assumes "\<And>i. tame_asset_event I (evs i)"
  shows "staging I x \<Longrightarrow> staging I (join_assets region budget evs i x)"
proof (induction "length (ad_tasks (fst x))" arbitrary: i x rule: less_induct)
  case less
  show ?case
  proof (cases "ad_tasks (fst x) = []")
    case True
    with less.prems show ?thesis by (subst join_assets.simps) simp
  next
    case False
    have "staging I (join_assets region budget evs (Suc i) (join_asset region budget (evs i) x))"
      by (rule less.hyps[OF _ join_asset_keeps[OF less.prems assms]]) (use False in auto)
    with False show ?thesis by (subst join_assets.simps) simp
  qed
qed

lemma finish_assets_keep:
  assumes "staging I x" "keeps I (fl_waited env)"
  shows "staging I (finish_assets env jid region budget x)"
proof -
  obtain d st where x: "x = (d, st)" by (cases x)
  have d: "staging I (d\<lparr>ad_stop := w\<rparr>, st)" for w using assms(1) by (simp add: x staging_def)
  show ?thesis
    using assms(1) d flush_pinned_keeps[OF _ assms(2), of d st region budget]
    by (auto simp: x finish_assets_def Let_def case_prod_unfold staging_def)
qed

lemma discard_keeps: "I st \<Longrightarrow> recounts t \<Longrightarrow> I (discard_region t rid st)"
  by (auto simp: discard_region_def intro!: on_cache delete_region_inv)

lemma claim_keeps: "I st \<Longrightarrow> list_all (keeps I) polls \<Longrightarrow> I (snd (claim_assets jid polls st))"
proof (induction polls arbitrary: st)
  case Nil
  then show ?case by (subst claim_assets.simps) (simp add: flag_step)
next
  case (Cons p ps)
  have "I (snd (claim_assets jid ps (p st)))" using Cons keepsD[of I p] by simp
  with Cons.prems show ?case by (subst claim_assets.simps) (simp add: flag_step)
qed

lemma stage_keeps:
  assumes "tame_stage I env" "I st" shows "I (snd (stage_basemap_assets encode env srcs jid st))"
proof -
  obtain r st1 where c: "claim_assets jid (sg_polls env) st = (r, st1)" by (meson surj_pair)
  have st1: "I st1" using claim_keeps[OF assms(2), of "sg_polls env" jid] assms(1) c by (simp add: tame_stage_def)
  have st: "staging I (finish_assets (sg_tail env) jid region budget (join_assets region budget (sg_joins env) 0
      (spawn_assets region budget (sg_turns env) 0 jobs (\<lparr>ad_batch = [], ad_stop = None, ad_tasks = []\<rparr>, st1))))" for region budget jobs
    using assms(1) st1 unfolding tame_stage_def
    by (intro finish_assets_keep join_assets_keep spawn_assets_keep) (auto simp: staging_def)
  have "I (snd (stage_claimed encode env srcs jid st1))"
    using st1 st assms(1) unfolding stage_claimed_def tame_stage_def staging_def
    by (auto simp: Let_def case_prod_unfold split: option.split intro!: discard_keeps)
  with st1 show ?thesis
    unfolding stage_basemap_assets_def c by (simp add: case_prod_unfold flag_step split: option.split bool.split)
qed

lemma run_assets_keep:
  assumes "tame_stage I env" "I (snd x)" "run_assets encode env cx srcs x = Some (assets, y)"
  shows "I (snd y)"
proof -
  obtain d st where x: "x = (d, st)" by (cases x)
  obtain r st1 where s: "stage_basemap_assets encode env srcs (rc_job cx) st = (r, st1)" by (meson surj_pair)
  have "I st1" using stage_keeps[OF assms(1), of st encode srcs "rc_job cx"] assms(2) s by (simp add: x)
  with assms(2,3) show ?thesis
    by (auto simp: x run_assets_def s jobs_keep split: if_splits option.splits sum.splits asset_stop.splits)
qed

section \<open>The run\<close>

lemma expand_keeps:
  assumes "\<And>src s. I s \<Longrightarrow> I (snd (ensure src s))"
  shows "I st \<Longrightarrow> I (snd (expand_warm_sources ensure ss st))"
proof -
  have "I st \<Longrightarrow> I (snd (expand_sources ensure ss st))"
  proof (induction ss arbitrary: st)
    case (Cons s ss)
    from Cons.IH Cons.prems assms[OF Cons.prems, of "src_id s"] show ?case
      by (auto simp: case_prod_unfold split: option.split bool.split)
  qed simp
  then show "I st \<Longrightarrow> I (snd (expand_warm_sources ensure ss st))"
    by (simp add: expand_warm_sources_def case_prod_unfold split: option.split list.split)
qed

lemma end_run_keeps: "I st \<Longrightarrow> I (end_run spec final now st)"
  using jobs_step active_step
  by (simp add: end_run_def finish_job_def release_region_def update_jobs_def Let_def split: option.split)

lemma prepare_keeps:
  assumes "tame_run I env" "I st"
  shows "case prepare merc env spec st of Inl s \<Rightarrow> I s | Inr (cx, tasks, s) \<Rightarrow> I s"
proof -
  have "I (snd (expand_warm_sources (re_ensure env) (rn_sources spec) st))"
    using assms by (intro expand_keeps) (auto simp: tame_run_def)
  with assms(2) show ?thesis
    by (auto simp: prepare_def Let_def end_run_keeps jobs_keep split: option.split prod.split)
qed

lemma promote_keeps:
  assumes "I (snd x)" "keeps I locked" "recounts t" "\<forall>p \<in> set reps. fst p \<noteq> snd p"
  shows "I (snd (promote_run t locked gen reps x))"
proof -
  obtain d st where x: "x = (d, st)" by (cases x)
  have s: "I (locked st)" using assms(1,2) keepsD by (auto simp: x)
  note p = promote_staged_inv[OF parts(1)[OF s] assms(4,3)]
  have k: "I ((locked st)\<lparr>cache := c\<rparr>)" "I ((locked st)\<lparr>cache := record_operation_error c\<rparr>)"
    if "promote_staged_regions (task_env t) reps rb pb cap (cache (locked st)) = (res, c)" for res c rb pb cap
    using p[of rb pb cap] that by (auto intro!: cache_step[OF s])
  show ?thesis
    using assms(1) s k error_counted[OF s]
    by (auto simp: x promote_run_def Let_def split: prod.splits sum.split bool.split)
qed

lemma cleanup_keeps:
  assumes "I (snd x)" "\<forall>s. recounts (tasks s)" shows "I (cleanup_run tasks reps x)"
proof -
  have one: "I st \<Longrightarrow> I (cleanup_staging tasks p st)" for p st
    using assms(2) by (cases p) (auto simp: cleanup_staging_def Let_def intro!: on_cache log_cache_err_inv delete_region_inv)
  have "I st \<Longrightarrow> I (fold (cleanup_staging tasks) reps st)" for st
    by (induction reps arbitrary: st) (simp_all add: one)
  with assms(1) show ?thesis by (cases x) (simp add: cleanup_run_def)
qed

lemma run_keeps:
  assumes "I st" "tame_run I env" "run merc encode env spec st = Some (final, st')"
    and "\<And>r. rn_region spec = Some r \<Longrightarrow> staging_region (rn_job spec) r \<noteq> r"
  shows "I st'"
proof -
  have s0: "I (re_started env st)" using assms(1,2) keepsD[of I "re_started env"] by (simp add: tame_run_def)
  note pk = prepare_keeps[OF assms(2) s0, of merc spec]
  show ?thesis
  proof (cases "prepare merc env spec (re_started env st)")
    case (Inl s)
    with pk assms(3) show ?thesis by (simp add: run_def)
  next
    case (Inr p)
    obtain cx tasks s where p: "p = (cx, tasks, s)" by (metis prod.exhaust)
    obtain assets y where a: "run_assets encode (re_stage env) cx (map src_id (filter is_style (rn_sources spec)))
        (run_tiles env (rn_generation spec) cx tasks s) = Some (assets, y)"
      "conclude env spec cx assets y = (final, st')"
      using assms(3) by (auto simp: run_def Inr p)
    have t: "I (snd (run_tiles env (rn_generation spec) cx tasks s))"
      using tiles_keep[OF assms(2), of s] pk by (simp add: Inr p running_def)
    have y: "I (snd y)" by (rule run_assets_keep[OF _ t a(1)]) (use assms(2) in \<open>simp add: tame_run_def\<close>)
    have reps: "\<forall>p \<in> set (replacements_of (rc_region cx) assets). fst p \<noteq> snd p"
      using prepare_ctx[OF Inr[unfolded p]] assms(4) staged_name[OF a(1)] asset_region_not_global
      by (cases "rn_region spec"; cases assets) (auto simp: replacements_of_def)
    have z: "I (snd (settle_generation (rn_generation spec) (fst y, re_staged env (snd y))))"
      using y assms(2) keepsD[of I "re_staged env"] by (simp add: settle_generation_def tame_run_def)
    have k: "I (snd (promote_run (re_promote env) (re_locked env) (rn_generation spec) (replacements_of (rc_region cx) assets)
        (settle_generation (rn_generation spec) (fst y, re_staged env (snd y)))))"
      by (rule promote_keeps[OF z _ _ reps]) (use assms(2) in \<open>simp_all add: tame_run_def\<close>)
    have c: "\<forall>s. recounts (re_cleanup env s)" using assms(2) by (simp add: tame_run_def)
    show ?thesis
      using end_run_keeps[OF cleanup_keeps[OF k c]] a(2) by (auto simp: conclude_def Let_def case_prod_unfold)
  qed
qed

end

interpretation plain: warm_steps state_ok
  by unfold_locales (simp_all add: state_ok_def)

end
