(* ===== verification/Config_Claims.thy ===== *)
theory Config_Claims
  imports Config Style_Claims Fetcher_Props
begin

text \<open>
  The properties of the configuration push: it is applied as a whole or not at all, what it installs is
  valid and inside the limits, the physical cap holds when it is published, and the learned styles stay
  sound through it. And of the control token: the comparison is equality.
\<close>

section \<open>Checks of the body\<close>

lemma any_invalid_iff:
  "\<not> any_invalid valid seen ss \<longleftrightarrow> list_all valid ss \<and> distinct (map src_id ss) \<and> src_id ` set ss \<inter> seen = {}"
  by (induction ss arbitrary: seen) auto

lemma catalog_of_some: "catalog_of ss i = Some s \<Longrightarrow> s \<in> set ss \<and> src_id s = i"
  by (auto simp: catalog_of_def dest!: map_of_SomeD)

lemma catalog_of_mem: "distinct (map src_id ss) \<Longrightarrow> s \<in> set ss \<Longrightarrow> catalog_of ss (src_id s) = Some s"
  unfolding catalog_of_def by (rule map_of_is_SomeI) (auto simp: rev_map[symmetric] o_def distinct_rev)

definition entry_valid :: "style_lib \<Rightarrow> app_state \<Rightarrow> chart_source \<Rightarrow> bool" where
  "entry_valid lib st s = is_valid (\<lambda>u. map_option fst (sl_parse_url lib u)) s (allow_private_egress (knobs st))"

lemma accepted_body:
  assumes "config_rejected lib b st = None"
  shows "length (cb_sources b) \<le> MAX_CONFIG_SOURCES" "list_all (entry_valid lib st) (cb_sources b)"
    "distinct (map src_id (cb_sources b))" "length (filter is_style_upstream (cb_sources b)) \<le> MAX_LEARNED_STYLE_ENTRIES"
    "cb_public_base b = Some base \<Longrightarrow> \<not> invalid_public_base base"
    "0 < ll_cap (pushed_limits b st)" "0 \<le> ll_position (pushed_limits b st)"
    "ll_position (pushed_limits b st) \<le> ll_regions (pushed_limits b st)"
    "ll_regions (pushed_limits b st) \<le> ll_cap (pushed_limits b st)"
    "0 \<le> ll_ttl (pushed_limits b st)" "ll_ttl (pushed_limits b st) \<le> MAX_SCROLL_TTL_SECS"
proof -
  have n: "\<not> any_invalid (entry_valid lib st) {} (cb_sources b)"
    using assms unfolding config_rejected_def Let_def entry_valid_def[abs_def] by (auto split: if_splits)
  then show "list_all (entry_valid lib st) (cb_sources b)" "distinct (map src_id (cb_sources b))"
    unfolding any_invalid_iff by simp_all
  show "length (cb_sources b) \<le> MAX_CONFIG_SOURCES" "length (filter is_style_upstream (cb_sources b)) \<le> MAX_LEARNED_STYLE_ENTRIES"
    "cb_public_base b = Some base \<Longrightarrow> \<not> invalid_public_base base"
    "0 < ll_cap (pushed_limits b st)" "0 \<le> ll_position (pushed_limits b st)"
    "ll_position (pushed_limits b st) \<le> ll_regions (pushed_limits b st)"
    "ll_regions (pushed_limits b st) \<le> ll_cap (pushed_limits b st)"
    "0 \<le> ll_ttl (pushed_limits b st)" "ll_ttl (pushed_limits b st) \<le> MAX_SCROLL_TTL_SECS"
    using assms unfolding config_rejected_def Let_def by (auto simp: not_less not_le split: if_splits)
qed

section \<open>The cap\<close>

lemma enforce_cap_inv:
  "cache_inv c \<Longrightarrow> cache_inv (snd (enforce_cap env reclaimed cap c))"
  using evict_to_inv[of c env cap] by (auto simp: enforce_cap_def split: prod.split sum.split)

lemma enforce_cap_applied:
  assumes "cache_inv c" "enforce_cap env reclaimed cap c = (Inr None, c')"
  shows "total_bytes c' \<le> cap" "filter row_pinned (tiles (conn c')) = filter row_pinned (tiles (conn c))"
    "pinned_bytes c \<le> cap"
proof -
  have p: "pinned_bytes c \<le> cap" and e: "evict_to env cap c = (Inr (), c')"
    using assms(2) by (auto simp: enforce_cap_def split: if_splits prod.splits sum.splits)
  note ev = evict_to_effect[OF assms(1) e]
  have i: "cache_inv c'" using evict_to_inv[OF assms(1), of env cap] e by simp
  show "filter row_pinned (tiles (conn c')) = filter row_pinned (tiles (conn c))" by (rule ev(2))
  then have s: "pinned_sum (conn c') = pinned_sum (conn c)" by (simp add: tsum_def)
  show "pinned_bytes c \<le> cap" by (rule p)
  from ev(1) show "total_bytes c' \<le> cap"
  proof
    assume "\<forall>r \<in> set (tiles (conn c')). row_pinned r"
    then have "total_sum (conn c') = pinned_sum (conn c')" by (simp add: tsum_def cong: filter_cong)
    with s p cache_invD(3)[OF i] cache_invD(4)[OF assms(1)] show ?thesis by simp
  qed
qed

lemma enforce_cap_irreducible:
  "enforce_cap env reclaimed cap c = (Inr (Some p), c') \<Longrightarrow> c' = c \<and> p = pinned_bytes c \<and> cap < pinned_bytes c"
  by (auto simp: enforce_cap_def split: if_splits prod.splits sum.splits)

section \<open>Atomicity\<close>

text \<open>What a push decides, apart from the scroll lifetime, which has a route of its own.\<close>

definition settings :: "app_state \<Rightarrow> (string \<rightharpoonup> chart_source) \<times> string \<times> int \<times> int \<times> int \<times> bool \<times> bool \<times> nat" where
  "settings st = (sources st, public_base st, live_cap_bytes st, live_regions_budget st, live_position_warm_budget st,
     geocoding_enabled st, configured st, config_pushes st)"

text \<open>The other tasks while a push holds the configuration lock: only a push changes the settings.\<close>

definition keeps_settings :: "(app_state \<Rightarrow> app_state) \<Rightarrow> bool" where
  "keeps_settings f \<longleftrightarrow> (\<forall>st. settings (f st) = settings st \<and> knobs (f st) = knobs st
     \<and> config_generation (f st) = config_generation st \<and> (cache_inv (cache st) \<longrightarrow> cache_inv (cache (f st))))"

lemma keeps_settingsD:
  assumes "keeps_settings f"
  shows "settings (f st) = settings st" "knobs (f st) = knobs st" "config_generation (f st) = config_generation st"
    "cache_inv (cache st) \<Longrightarrow> cache_inv (cache (f st))"
  using assms by (simp_all add: keeps_settings_def)

lemma settings_simps [simp]:
  "settings (next_generation st) = settings st" "settings (st\<lparr>cache := c\<rparr>) = settings st"
  "config_generation (next_generation st) = config_generation st + 1"
  "knobs (next_generation st) = knobs st" "cache (next_generation st) = cache st"
  by (simp_all add: settings_def next_generation_def)

lemma rehydrate_frame:
  assumes "distinct ids"
  shows "\<exists>c ss. rehydrate_style_state lib env ids g st = st\<lparr>cache := c, style_states := ss\<rparr> \<and> same_tiles (cache st) c"
  using assms
  by (cases rule: rehydrate_cases[where lib = lib and env = env and g = g and st = st]) metis+

text \<open>The published state.\<close>

lemma publish_config_facts:
  assumes k: "settings (cf_publishing env st) = settings st" "knobs (cf_publishing env st) = knobs st"
      "config_generation (cf_publishing env st) = config_generation st" "cache_inv (cache (cf_publishing env st))"
    and "distinct (cf_ids env)"
    and st'_def: "st' = publish_config lib env b st"
  shows "settings st' = (catalog_of (cb_sources b), opt_or (cb_public_base b) (public_base st),
      opt_or (cb_cap_bytes b) (live_cap_bytes st), opt_or (cb_regions_budget_bytes b) (live_regions_budget st),
      opt_or (cb_position_warm_budget_bytes b) (live_position_warm_budget st),
      opt_or (cb_geocoding_enabled b) (geocoding_enabled st), True, config_pushes st + 1)"
    "config_generation st' = config_generation st + 1" "cache_inv (cache st')" "knobs st' = knobs st"
    "cf_publishing env = id \<Longrightarrow> total_bytes (cache st') = total_bytes (cache st)"
    "cb_scroll_ttl_secs b = Some t \<Longrightarrow> live_scroll_ttl_secs st' = t"
proof -
  let ?p = "cf_publishing env st"
  let ?st1 = "?p\<lparr>sources := catalog_of (cb_sources b)\<rparr>"
  obtain c ss where r: "rehydrate_style_state lib (cf_rehydrate env) (cf_ids env) (config_generation ?st1 + 1) ?st1
      = ?st1\<lparr>cache := c, style_states := ss\<rparr>" and t: "same_tiles (cache ?st1) c"
    using rehydrate_frame[OF assms(5)] by metis
  note d = publish_config_def Let_def r
  have s: "public_base ?p = public_base st" "live_cap_bytes ?p = live_cap_bytes st"
    "live_regions_budget ?p = live_regions_budget st" "live_position_warm_budget ?p = live_position_warm_budget st"
    "geocoding_enabled ?p = geocoding_enabled st" "config_pushes ?p = config_pushes st"
    using k(1) by (simp_all add: settings_def)
  show "settings st' = (catalog_of (cb_sources b), opt_or (cb_public_base b) (public_base st),
      opt_or (cb_cap_bytes b) (live_cap_bytes st), opt_or (cb_regions_budget_bytes b) (live_regions_budget st),
      opt_or (cb_position_warm_budget_bytes b) (live_position_warm_budget st),
      opt_or (cb_geocoding_enabled b) (geocoding_enabled st), True, config_pushes st + 1)"
    "config_generation st' = config_generation st + 1" "knobs st' = knobs st"
    "cb_scroll_ttl_secs b = Some t \<Longrightarrow> live_scroll_ttl_secs st' = t"
    unfolding st'_def d using s k(2,3)
    by (simp_all add: settings_def publish_options_def next_generation_def mark_configured_def)
  have c: "cache st' = c" unfolding st'_def d by (simp add: publish_options_def next_generation_def mark_configured_def)
  show "cache_inv (cache st')" unfolding c using same_tiles_inv[OF t] k(4) by simp
  show "total_bytes (cache st') = total_bytes (cache st)" if "cf_publishing env = id"
    unfolding c using t that by (simp add: same_tiles_def)
qed

text \<open>How a push ends.\<close>

lemma config_cases:
  assumes "config lib sj env b st = (r, st')"
  obtains (refused) e where "config_rejected lib b st = Some e" "r = text_response 400 (rejection_str e)" "st' = st"
  | (failed) c where "config_rejected lib b st = None" "r = plain_response 500"
      "st' = (next_generation (cf_enforcing env (next_generation st)))\<lparr>cache := record_operation_error c\<rparr>"
      "cache_inv (cache (cf_enforcing env (next_generation st))) \<longrightarrow> cache_inv c"
  | (irreducible) p where "config_rejected lib b st = None" "http_status r = 409"
      "st' = next_generation (cf_enforcing env (next_generation st))"
      "p = pinned_bytes (cache st')" "ll_cap (pushed_limits b st) < p"
  | (applied) c where "config_rejected lib b st = None" "r = plain_response 204"
      "enforce_cap (task_env (cf_task env)) (cf_reclaimed env) (ll_cap (pushed_limits b st))
         (cache (cf_enforcing env (next_generation st))) = (Inr None, c)"
      "st' = publish_config lib env b ((cf_enforcing env (next_generation st))\<lparr>cache := c\<rparr>)"
proof -
  let ?st1 = "cf_enforcing env (next_generation st)"
  let ?e = "enforce_cap (task_env (cf_task env)) (cf_reclaimed env) (ll_cap (pushed_limits b st)) (cache ?st1)"
  show ?thesis
  proof (cases "config_rejected lib b st")
    case (Some e)
    then have "r = text_response 400 (rejection_str e)" "st' = st" using assms by (simp_all add: config_def)
    from refused[OF Some this] show ?thesis .
  next
    case None
    note rej = this
    note eq = assms[unfolded config_def None option.case Let_def]
    show ?thesis
    proof (cases "joined (cf_task env)")
      case False
      then have "r = plain_response 500" "st' = (next_generation ?st1)\<lparr>cache := record_operation_error (cache ?st1)\<rparr>"
        using eq by simp_all
      from failed[OF rej this] show ?thesis by blast
    next
      case True
      obtain res c where e: "?e = (res, c)" by (metis surj_pair)
      note eq' = eq[unfolded e prod.case, simplified True simp_thms if_True if_False not_True_eq_False]
      show ?thesis
      proof (cases res)
        case (Inl x)
        then have "r = plain_response 500" "st' = (next_generation ?st1)\<lparr>cache := record_operation_error c\<rparr>"
          using eq' by simp_all
        moreover have "cache_inv (cache ?st1) \<longrightarrow> cache_inv c" using enforce_cap_inv e by (metis snd_conv)
        ultimately show ?thesis by (rule failed[OF rej])
      next
        case (Inr out)
        show ?thesis
        proof (cases out)
          case None
          then have "r = plain_response 204" "st' = publish_config lib env b (?st1\<lparr>cache := c\<rparr>)" using eq' Inr by simp_all
          from applied[OF rej this(1) e[unfolded Inr None] this(2)] show ?thesis .
        next
          case (Some p)
          note f = enforce_cap_irreducible[OF e[unfolded Inr Some]]
          have c: "(next_generation ?st1)\<lparr>cache := cache ?st1\<rparr> = next_generation ?st1" by (simp add: next_generation_def)
          have "http_status r = 409" "st' = next_generation ?st1"
            using eq' Inr Some f c by (auto simp: json_response_def)
          then show ?thesis using f by (intro irreducible[OF rej, of p]) simp_all
        qed
      qed
    qed
  qed
qed


section \<open>The learned styles\<close>

lemma later_generation_ok:
  assumes "styles_ok lib st" "style_states st' = style_states st" "config_generation st < config_generation st'"
  shows "styles_ok lib st'"
proof -
  have g: "ss_config_generation ss < config_generation st'" if "map_of (style_states st') src = Some ss" for src ss
    using assms that unfolding styles_ok_def by (metis le_less_trans)
  have "learned_at st' src (config_generation st') = None" for src
    using g[of src] by (cases "map_of (style_states st') src") (auto simp: learned_at_def)
  with g assms(1,2) show ?thesis by (auto simp: styles_ok_def less_imp_le)
qed

lemma next_generation_ok: "styles_ok lib st \<Longrightarrow> styles_ok lib (next_generation st)"
  using later_generation_ok[of lib st "next_generation st"] by (simp add: next_generation_def)

lemma style_ids_bound:
  assumes "distinct ids" "length (filter is_style_upstream ss) \<le> n"
  shows "length (filter (\<lambda>i. allowed_hosts_of (st\<lparr>sources := catalog_of ss\<rparr>) i \<noteq> None) ids) \<le> n"
proof -
  let ?ids = "filter (\<lambda>i. allowed_hosts_of (st\<lparr>sources := catalog_of ss\<rparr>) i \<noteq> None) ids"
  have "set ?ids \<subseteq> src_id ` set (filter is_style_upstream ss)"
  proof
    fix i assume "i \<in> set ?ids"
    then obtain s where s: "catalog_of ss i = Some s" "is_style_upstream s"
      by (auto simp: allowed_hosts_of_def is_style_upstream_def split: option.splits upstream_template.splits)
    from catalog_of_some[OF s(1)] s(2) show "i \<in> src_id ` set (filter is_style_upstream ss)" by auto
  qed
  then have "card (set ?ids) \<le> card (src_id ` set (filter is_style_upstream ss))" by (intro card_mono) simp_all
  also have "... \<le> length (filter is_style_upstream ss)"
    using card_image_le[of "set (filter is_style_upstream ss)" src_id] card_length[of "filter is_style_upstream ss"] by simp
  finally show ?thesis using assms distinct_card[of ?ids] by simp
qed

lemma config_styles_ok:
  assumes "styles_ok lib st" "styles_ok lib (next_generation st) \<Longrightarrow> styles_ok lib (cf_enforcing env (next_generation st))"
    and "distinct (cf_ids env)" "config lib sj env b st = (r, st')"
  shows "styles_ok lib st'"
  using assms(4)
proof (cases rule: config_cases)
  case (refused e)
  with assms(1) show ?thesis by simp
next
  case (failed c)
  have "styles_ok lib (cf_enforcing env (next_generation st))"
    by (rule assms(2)[OF next_generation_ok[OF assms(1)]])
  from later_generation_ok[OF this, of st'] show ?thesis by (simp add: failed(3)) (simp add: next_generation_def)
next
  case (irreducible p)
  have "styles_ok lib (cf_enforcing env (next_generation st))"
    by (rule assms(2)[OF next_generation_ok[OF assms(1)]])
  from later_generation_ok[OF this, of st'] show ?thesis by (simp add: irreducible(3)) (simp add: next_generation_def)
next
  case (applied c)
  let ?st1 = "(cf_publishing env ((cf_enforcing env (next_generation st))\<lparr>cache := c\<rparr>))\<lparr>sources := catalog_of (cb_sources b)\<rparr>"
  obtain st2 where r: "rehydrate_style_state lib (cf_rehydrate env) (cf_ids env) (config_generation ?st1 + 1) ?st1 = st2" by blast
  note h = rehydrate_sound[OF assms(3) style_ids_bound[OF assms(3) accepted_body(4)[OF applied(1)]] r]
  have st2: "st2 = ?st1\<lparr>cache := cache st2, style_states := style_states st2\<rparr>" using h by blast
  have s: "sources st2 = sources ?st1" "knobs st2 = knobs ?st1" "config_generation st2 = config_generation ?st1"
    by (subst st2, simp)+
  have st': "style_states st' = style_states st2" "config_generation st' = config_generation ?st1 + 1"
    "sources st' = sources ?st1" "knobs st' = knobs ?st1"
    using s unfolding applied(4) publish_config_def Let_def r
    by (simp_all add: publish_options_def next_generation_def mark_configured_def)
  have "style_sound lib st' src ss" if "map_of (style_states st2) src = Some ss" for src ss
    using h that style_sound_cong[OF st'(3,4)] by blast
  then show ?thesis
    using h st'(1,2) by (auto simp: styles_ok_def dest!: learned_atD)
qed

text \<open>
  A configuration push, however it ends, keeps the learned styles sound: after an accepted one every
  style read back from the store is checked against the new catalog and belongs to the new generation, and
  after a refused or failed one no style of an earlier generation can be used for the present one unless
  nothing was changed.
\<close>

theorem config_keeps_styles_sound:
  assumes "styles_ok lib st" "keeps_styles lib (cf_enforcing env)" "distinct (cf_ids env)"
    and "config lib sj env b st = (r, st')"
  shows "styles_ok lib st'"
  using config_styles_ok[OF assms(1) keeps_stylesD(1)[OF assms(2)] assms(3,4)] .

section \<open>The control token\<close>

text \<open>
  C17: A request that is not a read reaches its handler only with the configured token in its header, byte
  for byte; without a configured token none does, and a request that is refused changes nothing. A read
  always reaches its handler.
\<close>

theorem mutations_need_the_token:
  assumes "\<And>e. token = Some e \<Longrightarrow> e \<noteq> [] \<and> length e < 2 ^ 64"
    and "\<And>v. map_of hs CONTROL_TOKEN_HEADER = Some v \<Longrightarrow> length v < 2 ^ 64"
  shows "require_control_token token m hs answer handler st =
    (if is_read m \<or> (token \<noteq> None \<and> Option.bind (map_of hs CONTROL_TOKEN_HEADER) to_str = token)
     then handler st else (answer (plain_response 401), st))"
proof (cases token)
  case None
  then show ?thesis by (simp add: require_control_token_def mutation_authorized_def control_authorized_def)
next
  case (Some e)
  let ?v = "Option.bind (map_of hs CONTROL_TOKEN_HEADER) to_str"
  have "length (case ?v of Some t \<Rightarrow> t | None \<Rightarrow> []) < 2 ^ 64"
    using assms(2) by (cases "map_of hs CONTROL_TOKEN_HEADER") (simp_all add: to_str_def)
  from control_authorized_eq[OF _ this, of e] assms(1)[OF Some]
  have "mutation_authorized token hs \<longleftrightarrow> (case ?v of Some t \<Rightarrow> t | None \<Rightarrow> []) = e"
    by (simp add: mutation_authorized_def Some)
  also have "... \<longleftrightarrow> ?v = token" using assms(1)[OF Some] by (cases ?v) (auto simp: Some)
  finally show ?thesis by (simp add: require_control_token_def Some)
qed

section \<open>Examples\<close>

lemma ex_header_text: "to_str ''secret'' = Some ''secret''" "to_str ''secreT'' = Some ''secreT''"
  by code_simp+

lemma mutations_need_the_token_witness:
  "require_control_token (Some ''secret'') M_post [(''x-tilecache-token'', ''secret'')] id (\<lambda>st. (plain_response 204, st)) ex_app
     = (plain_response 204, ex_app)
   \<and> require_control_token (Some ''secret'') M_post [(''x-tilecache-token'', ''secreT'')] id (\<lambda>st. (plain_response 204, st)) ex_app
     = (plain_response 401, ex_app)"
  using mutations_need_the_token[of "Some ''secret''" "[(''x-tilecache-token'', ''secret'')]" M_post id "\<lambda>st. (plain_response 204, st)" ex_app]
    mutations_need_the_token[of "Some ''secret''" "[(''x-tilecache-token'', ''secreT'')]" M_post id "\<lambda>st. (plain_response 204, st)" ex_app]
  by (simp add: CONTROL_TOKEN_HEADER_def is_read_def ex_header_text)

definition ex_push :: config_body where
  "ex_push = \<lparr>cb_sources = [ex_xyz], cb_public_base = Some ''/plugins/charts'', cb_cap_bytes = Some 900,
     cb_regions_budget_bytes = Some 500, cb_position_warm_budget_bytes = None, cb_scroll_ttl_secs = Some 86400,
     cb_geocoding_enabled = None\<rparr>"

definition ex_config_env :: config_env where
  "ex_config_env = \<lparr>cf_enforcing = id, cf_task = \<lparr>joined = True, task_env = ex_env\<rparr>, cf_reclaimed = Inr (), cf_publishing = id,
     cf_rehydrate = ex_rehydrate, cf_ids = [''noaa'']\<rparr>"

definition ex_config_lib :: style_lib where
  "ex_config_lib = ex_lib\<lparr>sl_parse_url := (\<lambda>u. map_option (\<lambda>p. (p, u)) (ex_url u))\<rparr>"

lemma ex_accepted: "config_rejected ex_config_lib ex_push ex_app = None"
proof -
  have v: "is_valid ex_url ex_xyz False" by code_simp
  have p: "(\<lambda>u. map_option fst (sl_parse_url ex_config_lib u)) = ex_url"
    by (simp add: ex_config_lib_def option.map_comp o_def fun_eq_iff option.map_ident)
  have k: "allow_private_egress (knobs ex_app) = False" by (simp add: ex_app_def default_knobs_def)
  have s: "\<not> is_style_upstream ex_xyz" by (simp add: is_style_upstream_def ex_xyz_def)
  have b: "\<not> invalid_public_base ''/plugins/charts''" by code_simp
  show ?thesis
    unfolding config_rejected_def p k
    by (simp add: ex_push_def v s b pushed_limits_def MAX_CONFIG_SOURCES_def MAX_LEARNED_STYLE_ENTRIES_def
        MAX_SCROLL_TTL_SECS_def ex_app_def)
qed

lemma ex_config: "http_status (fst (config ex_config_lib (\<lambda>_. []) ex_config_env ex_push ex_app)) = 204"
  by (simp add: config_def ex_accepted ex_config_env_def enforce_cap_def evict_to_def Let_def plain_response_def)
    (simp add: pushed_limits_def ex_push_def ex_app_def next_generation_def)

lemma ex_app_cache: "cache_inv (cache ex_app)"
  by (simp add: ex_app_def inv_defs db_ok_def joins_pinned_def bytes_nonneg_def tsum_def)


lemma config_keeps_styles_sound_witness:
  "styles_ok ex_config_lib (snd (config ex_config_lib (\<lambda>_. []) ex_config_env ex_push ex_app))"
proof -
  have "styles_ok ex_config_lib ex_app" by (simp add: styles_ok_def learned_at_def ex_app_def)
  moreover have "keeps_styles ex_config_lib (cf_enforcing ex_config_env)" "distinct (cf_ids ex_config_env)"
    by (simp_all add: keeps_styles_def ex_config_env_def)
  ultimately show ?thesis
    using config_keeps_styles_sound[OF _ _ _ surjective_pairing[of "config ex_config_lib (\<lambda>_. []) ex_config_env ex_push ex_app"]] by blast
qed

end
