(* ===== verification/Service.thy ===== *)
theory Service
  imports Startup Warm_Upkeep Config_Claims
begin

text \<open>
  The service as a whole: the router with its middleware (\<open>app\<close>, \<open>require_control_token\<close> and
  \<open>request_admission\<close> in \<open>container/tilecache/src/routes.rs\<close>, \<open>style_routes\<close>, \<open>geocode_routes\<close>), which turns a
  request into the call of its handler. JSON bodies, the query string and percent encoding are decoded by packages (axum, serde):
  arguments of the model. The text axum puts into a rejection and its \<open>Allow\<close> header are left out.
\<close>

section \<open>Requests\<close>

record http_request =
  hr_method :: http_method
  hr_path :: string
  hr_query :: string
  hr_headers :: "(string \<times> string) list"
  hr_body :: "byte list"

text \<open>\<open>IfNoneMatch\<close> (\<open>response.rs\<close>).\<close>

definition if_none_match_of :: "http_request \<Rightarrow> string option" where
  "if_none_match_of req = Option.bind (map_of (hr_headers req) ''if-none-match'') to_str"

text \<open>
  The packages: a decoder is a rejection's status or the value. \<open>vl_segment\<close> decodes a percent-encoded path
  segment.
\<close>

record service_lib =
  vl_style :: style_lib
  vl_geocode :: geocode_lib
  vl_display :: "rat \<Rightarrow> string"
  vl_legal :: "string \<Rightarrow> bool"
  vl_merc :: "f64 \<Rightarrow> f64"
  vl_json :: "json \<Rightarrow> byte list"
  vl_message :: "start_error \<Rightarrow> string"
  vl_progress :: "warm_progress \<Rightarrow> json"
  vl_job :: "string \<times> warm_progress \<Rightarrow> json"
  vl_segment :: "string \<Rightarrow> string option"
  vl_is_json :: "(string \<times> string) list \<Rightarrow> bool"
  vl_config :: "byte list \<Rightarrow> nat + config_body"
  vl_ttl :: "byte list \<Rightarrow> nat + int"
  vl_warm :: "byte list \<Rightarrow> nat + warm_body"
  vl_query :: "string \<Rightarrow> nat + f64 option \<times> f64 option"

text \<open>The \<open>Json\<close> extractor under \<open>DefaultBodyLimit\<close>.\<close>

definition json_body :: "service_lib \<Rightarrow> (byte list \<Rightarrow> nat + 'a) \<Rightarrow> http_request \<Rightarrow> nat + 'a" where
  "json_body lib decode req =
     (if \<not> vl_is_json lib (hr_headers req) then Inl 415
      else if MAX_REQUEST_BODY_BYTES < length (hr_body req) then Inl 413
      else decode (hr_body req))"

text \<open>A numeric path segment: \<open>str::parse::<u32>\<close>.\<close>

definition parse_u32 :: "string \<Rightarrow> nat option" where
  "parse_u32 s =
     (case parse_digits (case strip_prefix ''+'' s of Some t \<Rightarrow> t | None \<Rightarrow> s) of
        Some n \<Rightarrow> if n < 2 ^ 32 then Some n else None
      | None \<Rightarrow> None)"

section \<open>Routes\<close>

datatype endpoint =
    E_health | E_stats | E_config | E_scroll_ttl | E_clear_scroll | E_regions | E_warm | E_geocode
  | E_tile string string string string
  | E_warm_region string | E_warm_job string | E_warm_cancel string | E_region string
  | E_style string | E_glyphs string string string | E_sprite nat string | E_vector string string string string string

text \<open>The routes by their path segments; a fixed segment goes before a parameter, which is never empty.\<close>

definition sprite_of :: "string \<Rightarrow> nat option" where
  "sprite_of file = map_option fst (find (\<lambda>(i, suffix). file = ''sprite'' @ suffix) SPRITE_VARIANTS)"

definition endpoint_of :: "string list \<Rightarrow> endpoint option" where
  "endpoint_of segs =
     (if [] \<in> set segs then None
      else case segs of
        [a] \<Rightarrow>
          if a = ''health'' then Some E_health
          else if a = ''config'' then Some E_config
          else if a = ''warm'' then Some E_warm
          else if a = ''geocode'' then Some E_geocode else None
      | [a, b] \<Rightarrow>
          if a = ''cache'' then
            (if b = ''stats'' then Some E_stats
             else if b = ''scroll-ttl'' then Some E_scroll_ttl
             else if b = ''clear-scroll'' then Some E_clear_scroll
             else if b = ''regions'' then Some E_regions else None)
          else if a = ''warm'' then Some (E_warm_job b)
          else if a = ''style'' then Some (E_style b) else None
      | [a, b, c] \<Rightarrow>
          if a = ''cache'' \<and> b = ''region'' then Some (E_region c)
          else if a = ''warm'' \<and> b = ''region'' then Some (E_warm_region c)
          else if a = ''warm'' \<and> c = ''cancel'' then Some (E_warm_cancel b)
          else if a = ''style'' then map_option (\<lambda>v. E_sprite v b) (sprite_of c) else None
      | [a, b, c, d, e] \<Rightarrow>
          if a = ''tile'' then Some (E_tile b c d e)
          else if a = ''style'' \<and> c = ''glyphs'' then Some (E_glyphs b d e) else None
      | [a, b, c, d, e, f, g] \<Rightarrow>
          if a = ''style'' \<and> c = ''tiles'' then Some (E_vector b d e f g) else None
      | _ \<Rightarrow> None)"

definition path_endpoint :: "string \<Rightarrow> endpoint option" where
  "path_endpoint path = (case split_char (CHR ''/'') path of [] # segs \<Rightarrow> endpoint_of segs | _ \<Rightarrow> None)"

text \<open>\<open>get\<close> also answers HEAD.\<close>

definition allowed_method :: "endpoint \<Rightarrow> http_method \<Rightarrow> bool" where
  "allowed_method e m \<longleftrightarrow>
     (case e of
        E_config \<Rightarrow> m = M_post | E_scroll_ttl \<Rightarrow> m = M_post | E_clear_scroll \<Rightarrow> m = M_post
      | E_warm \<Rightarrow> m = M_post | E_warm_cancel _ \<Rightarrow> m = M_post
      | E_region _ \<Rightarrow> is_read m \<or> m = M_delete
      | _ \<Rightarrow> is_read m)"

section \<open>Handlers\<close>

text \<open>Work a handler leaves behind.\<close>

datatype background = Work_spawned spawned | Work_warm run_spec

type_synonym reply = "http_response option \<times> background list"

definition answer :: "http_response \<Rightarrow> reply" where
  "answer r = (Some r, [])"

text \<open>What the handler of a request meets.\<close>

record handler_env =
  hv_task :: task
  hv_stats :: stats_env
  hv_config :: config_env
  hv_returned :: bool
  hv_chunks :: "nat \<Rightarrow> faults"
  hv_reclaimed :: "db_error + unit"
  hv_failure :: "db_error option"
  hv_delete :: region_delete_env
  hv_wire :: wire
  hv_tile :: request_env
  hv_now :: int
  hv_warm :: warm_start_env
  hv_asset :: route_env
  hv_late :: "app_state \<Rightarrow> app_state"
  hv_geocode :: geocode_env

definition map_reply :: "http_response \<times> app_state \<Rightarrow> reply \<times> app_state" where
  "map_reply x = (answer (fst x), snd x)"

definition spawning :: "http_response \<times> spawned list \<times> app_state \<Rightarrow> reply \<times> app_state" where
  "spawning x = (case x of (r, sp, st) \<Rightarrow> ((Some r, map Work_spawned sp), st))"

definition rejected_reply :: "nat \<Rightarrow> app_state \<Rightarrow> reply \<times> app_state" where
  "rejected_reply n st = (answer (plain_response n), st)"

text \<open>The path parameters: all of them decode and the numeric ones are numbers, or the request is bad.\<close>

definition with_path :: "service_lib \<Rightarrow> string list \<Rightarrow> (string list \<Rightarrow> app_state \<Rightarrow> reply \<times> app_state)
    \<Rightarrow> app_state \<Rightarrow> reply \<times> app_state" where
  "with_path lib segs handler st =
     (if list_ex (\<lambda>s. vl_segment lib s = None) segs then rejected_reply 400 st
      else handler (map (the \<circ> vl_segment lib) segs) st)"

definition with_tile :: "string \<Rightarrow> string \<Rightarrow> string \<Rightarrow> (nat \<Rightarrow> nat \<Rightarrow> nat \<Rightarrow> app_state \<Rightarrow> reply \<times> app_state)
    \<Rightarrow> app_state \<Rightarrow> reply \<times> app_state" where
  "with_tile z x y handler st =
     (case (parse_u32 z, parse_u32 x, parse_u32 y) of
        (Some z', Some x', Some y') \<Rightarrow> handler z' x' y' st
      | _ \<Rightarrow> rejected_reply 400 st)"

definition with_body :: "nat + 'a \<Rightarrow> ('a \<Rightarrow> app_state \<Rightarrow> reply \<times> app_state) \<Rightarrow> app_state \<Rightarrow> reply \<times> app_state" where
  "with_body b handler st = (case b of Inl n \<Rightarrow> rejected_reply n st | Inr v \<Rightarrow> handler v st)"

definition style_reply :: "http_response option \<times> app_state \<Rightarrow> reply \<times> app_state" where
  "style_reply x = ((fst x, []), snd x)"

definition handle_get :: "service_lib \<Rightarrow> handler_env \<Rightarrow> http_request \<Rightarrow> endpoint \<Rightarrow> app_state \<Rightarrow> reply \<times> app_state" where
  "handle_get lib env req e st =
     (let inm = if_none_match_of req; legal = vl_legal lib; sl = vl_style lib; out = vl_json lib
      in case e of
           E_health \<Rightarrow> (answer (health_route out (hv_task env) st), st)
         | E_stats \<Rightarrow> map_reply (stats_route out (hv_stats env) st)
         | E_regions \<Rightarrow> map_reply (all_region_bytes_route out (hv_returned env) (hv_failure env) st)
         | E_region rid \<Rightarrow> with_path lib [rid] (\<lambda>p s.
             map_reply (region_bytes_route out (hv_returned env) (hv_failure env) (p ! 0) s)) st
         | E_warm_region rid \<Rightarrow> with_path lib [rid] (\<lambda>p s. (answer (warm_status_for_region (vl_job lib) out (p ! 0) s), s)) st
         | E_warm_job jid \<Rightarrow> with_path lib [jid] (\<lambda>p s. (answer (warm_status (vl_progress lib) out (p ! 0) s), s)) st
         | E_tile src z x y \<Rightarrow> with_path lib [src, z, x, y] (\<lambda>p. with_tile (p ! 1) (p ! 2) (p ! 3) (\<lambda>z x y s.
             spawning (tile_route (sl_sha256 sl) (vl_display lib) legal (hv_wire env) (hv_tile env) (hv_now env) (p ! 0) z x y inm s))) st
         | E_style src \<Rightarrow> with_path lib [src] (\<lambda>p s.
             style_reply (style_doc sl legal (ae_style (hv_asset env)) (hv_late env) (hv_now env) (p ! 0) inm s)) st
         | E_glyphs src stack rg \<Rightarrow> with_path lib [src, stack, rg] (\<lambda>p s.
             spawning (glyphs sl legal (hv_asset env) (p ! 0) (p ! 1) (p ! 2) inm s)) st
         | E_sprite v src \<Rightarrow> with_path lib [src] (\<lambda>p s.
             spawning ((if v = 0 then sprite_json else if v = 1 then sprite_png else if v = 2 then sprite_2x_json else sprite_2x_png)
               sl legal (hv_asset env) (p ! 0) inm s)) st
         | E_vector src name z x y \<Rightarrow> with_path lib [src, name, z, x, y] (\<lambda>p. with_tile (p ! 2) (p ! 3) (p ! 4) (\<lambda>z x y s.
             spawning (vector_tile sl legal (hv_asset env) (p ! 0) (p ! 1) z x y inm s))) st
         | E_geocode \<Rightarrow> with_body (vl_query lib (hr_query req)) (\<lambda>(lat, lon) s.
             (case geocode (vl_geocode lib) (hv_geocode env) lat lon s of ((r, _), s') \<Rightarrow> (answer r, s'))) st
         | _ \<Rightarrow> rejected_reply 405 st)"

definition handle_change :: "service_lib \<Rightarrow> handler_env \<Rightarrow> http_request \<Rightarrow> endpoint \<Rightarrow> app_state \<Rightarrow> reply \<times> app_state" where
  "handle_change lib env req e st =
     (case e of
        E_config \<Rightarrow> with_body (json_body lib (vl_config lib) req) (\<lambda>b s.
          map_reply (config (vl_style lib) (vl_json lib) (hv_config env) b s)) st
      | E_scroll_ttl \<Rightarrow> with_body (json_body lib (vl_ttl lib) req) (\<lambda>ttl s.
          case set_scroll_ttl ttl s of (n, s') \<Rightarrow> (answer (plain_response n), s')) st
      | E_clear_scroll \<Rightarrow> map_reply (clear_scroll (vl_json lib) (hv_returned env) (hv_chunks env) (hv_reclaimed env) st)
      | E_warm \<Rightarrow> with_body (json_body lib (vl_warm lib) req) (\<lambda>b s.
          case warm_start (vl_merc lib) (vl_json lib) (vl_message lib) (hv_warm env) b s of
            (r, spec, s') \<Rightarrow> ((Some r, (case spec of Some sp \<Rightarrow> [Work_warm sp] | None \<Rightarrow> [])), s')) st
      | E_warm_cancel jid \<Rightarrow> with_path lib [jid] (\<lambda>p s. map_reply (warm_cancel (p ! 0) s)) st
      | E_region rid \<Rightarrow> with_path lib [rid] (\<lambda>p s. map_reply (delete_region_route (hv_delete env) (p ! 0) s)) st
      | _ \<Rightarrow> rejected_reply 405 st)"

text \<open>A HEAD request runs the handler of GET and its body is dropped.\<close>

definition strip_body :: "http_method \<Rightarrow> reply \<times> app_state \<Rightarrow> reply \<times> app_state" where
  "strip_body m = (\<lambda>((r, work), st). ((if m = M_head then map_option (\<lambda>x. x\<lparr>body := []\<rparr>) r else r, work), st))"

definition router :: "service_lib \<Rightarrow> handler_env \<Rightarrow> http_request \<Rightarrow> app_state \<Rightarrow> reply \<times> app_state" where
  "router lib env req st =
     strip_body (hr_method req)
       (case path_endpoint (hr_path req) of
          None \<Rightarrow> rejected_reply 404 st
        | Some e \<Rightarrow>
            if \<not> allowed_method e (hr_method req) then rejected_reply 405 st
            else if is_read (hr_method req) then handle_get lib env req e st
            else handle_change lib env req e st)"

section \<open>Middleware\<close>

definition authorized_router :: "service_lib \<Rightarrow> handler_env \<Rightarrow> http_request \<Rightarrow> app_state \<Rightarrow> reply \<times> app_state" where
  "authorized_router lib env req st =
     require_control_token (control_token st) (hr_method req) (hr_headers req) answer (router lib env req) st"

definition is_health_path :: "http_request \<Rightarrow> bool" where
  "is_health_path req \<longleftrightarrow> hr_path req = ''/health''"

text \<open>
  The admission of a request around the rest of the service. The permit taken here goes back when the
  response's body has been sent (\<open>release_request\<close>, the drop of \<open>AdmissionBody\<close>); \<open>waited\<close> is the semaphores at
  the end of the wait and \<open>meanwhile\<close> what the other tasks did to the state.
\<close>

definition request_admission :: "(admission \<Rightarrow> admission option) \<Rightarrow> (app_state \<Rightarrow> app_state) \<Rightarrow> http_request
    \<Rightarrow> (app_state \<Rightarrow> reply \<times> app_state) \<Rightarrow> admission \<times> app_state \<Rightarrow> reply \<times> admission \<times> app_state" where
  "request_admission waited meanwhile req next_handler = (\<lambda>(a, st).
     case acquire_request (is_health_path req) waited a of
       None \<Rightarrow> (answer busy_response, a, meanwhile st)
     | Some a' \<Rightarrow> (case next_handler (meanwhile st) of (r, st') \<Rightarrow> (r, a', st')))"

definition app :: "service_lib \<Rightarrow> handler_env \<Rightarrow> (admission \<Rightarrow> admission option) \<Rightarrow> (app_state \<Rightarrow> app_state) \<Rightarrow> http_request
    \<Rightarrow> admission \<times> app_state \<Rightarrow> reply \<times> admission \<times> app_state" where
  "app lib env waited meanwhile req = request_admission waited meanwhile req (authorized_router lib env req)"

end
