(* ===== verification/Cancel.thy ===== *)
theory Cancel
  imports Service
begin

text \<open>
  Requests whose client leaves: the server drops the handler's future at the wait it has reached
  (\<open>config\<close> in \<open>container/tilecache/src/routes.rs\<close>, \<open>start_warm\<close> in \<open>warm.rs\<close>, \<open>cache_first_single_flight\<close> and
  \<open>fetch_and_learn\<close> in \<open>style.rs\<close>, \<open>get_tile\<close> in \<open>fetcher.rs\<close>, \<open>geocode\<close>). Each definition gives the state a handler
  leaves behind at each of its waits, \<open>None\<close> when the request never reaches that wait. A task handed to the
  blocking pool runs to its end although nobody waits for it; its failure is then not counted, except for the
  stores of tiles and learned styles, whose counter of failed operations is as if it were awaited.
\<close>

section \<open>Blocking tasks nobody waits for\<close>

definition orphaned :: "bool \<Rightarrow> (tile_cache \<Rightarrow> 'a \<times> tile_cache) \<Rightarrow> app_state \<Rightarrow> app_state" where
  "orphaned returned work st = st\<lparr>cache := (if returned then snd (work (cache st)) else cache st)\<rparr>"

text \<open>The lock of a flight whose holder is gone: its only lease is dropped, not finished.\<close>

definition leave_flight :: "string \<Rightarrow> nat \<Rightarrow> app_state \<Rightarrow> app_state" where
  "leave_flight key lock st = st\<lparr>flights := drop_lease (key, lock, False) (flights st)\<rparr>"

section \<open>The configuration push\<close>

datatype config_wait = Cap_task | Catalog_lock | Reconcile_task | Invalid_task | Styles_lock | Base_lock

definition catalog_swapped :: "config_env \<Rightarrow> config_body \<Rightarrow> app_state \<Rightarrow> app_state" where
  "catalog_swapped env b st = (cf_publishing env st)\<lparr>sources := catalog_of (cb_sources b)\<rparr>"

text \<open>From the swap of the catalog on; \<open>st\<close> is the state after it.\<close>

definition rehydrate_cut :: "style_lib \<Rightarrow> config_env \<Rightarrow> config_body \<Rightarrow> config_wait \<Rightarrow> app_state \<Rightarrow> app_state option" where
  "rehydrate_cut lib env b w st =
     (let h = cf_rehydrate env;
          reconcile = reconcile_learned_styles (task_env (rh_reconcile h)) (style_signatures lib st (cf_ids env)) MAX_PERSISTED_STYLE_BYTES;
          rehydrated = rehydrate_style_state lib h (cf_ids env) (config_generation st + 1) st
      in case w of
           Reconcile_task \<Rightarrow> Some (orphaned (joined (rh_reconcile h)) reconcile st)
         | Invalid_task \<Rightarrow> (case cache_task (joined (rh_reconcile h)) reconcile (cache st) of
               (Some rows, c) \<Rightarrow>
                 let invalid = map ls_source (filter (\<lambda>r. restore_row lib st r = None) rows)
                 in if invalid = [] then None else Some (orphaned (rh_deleted h) (delete_invalid (rh_delete h) 0 invalid) (st\<lparr>cache := c\<rparr>))
             | (None, _) \<Rightarrow> None)
         | Styles_lock \<Rightarrow> Some (rehydrated\<lparr>style_states := style_states st\<rparr>)
         | Base_lock \<Rightarrow> if cb_public_base b = None then None else Some rehydrated
         | _ \<Rightarrow> None)"

definition config_cut :: "style_lib \<Rightarrow> config_env \<Rightarrow> config_body \<Rightarrow> config_wait \<Rightarrow> app_state \<Rightarrow> app_state option" where
  "config_cut lib env b w st =
     (if config_rejected lib b st \<noteq> None then None
      else
        let cap = ll_cap (pushed_limits b st);
            st1 = cf_enforcing env (next_generation st);
            work = enforce_cap (task_env (cf_task env)) (cf_reclaimed env) cap
        in if w = Cap_task then Some (orphaned (joined (cf_task env)) work st1)
           else if \<not> joined (cf_task env) then None
           else (case work (cache st1) of
               (Inr None, c) \<Rightarrow>
                 if w = Catalog_lock then Some (cf_publishing env (st1\<lparr>cache := c\<rparr>))
                 else rehydrate_cut lib env b w (catalog_swapped env b (st1\<lparr>cache := c\<rparr>))
             | _ \<Rightarrow> None))"

section \<open>Deleting a region\<close>

text \<open>\<open>Job_locks ids\<close>: the cancellation has passed the locks of the jobs \<open>ids\<close>, in the order of a map.\<close>

datatype delete_wait = Job_locks "string list" | Drain_poll | Delete_task

definition delete_region_cut :: "region_delete_env \<Rightarrow> string \<Rightarrow> delete_wait \<Rightarrow> app_state \<Rightarrow> app_state option" where
  "delete_region_cut env rid w st =
     (if \<not> valid_region_id rid \<or> rid = POSITION_WARM_REGION_ID \<or> rid = BASEMAP_ASSETS_REGION_ID then None
      else case cancel_region_warms (rd_polls env) rid st of
          (ended, st0) \<Rightarrow>
            let st1 = rd_waited env st0
            in (case w of
                  Job_locks ids \<Rightarrow>
                    Some (update_jobs (\<lambda>p. fst p \<in> set ids \<and> wj_region_id (snd p) = Some rid \<and> wj_state (snd p) = Running)
                      (\<lambda>j. j\<lparr>wj_cancel := True\<rparr>) st)
                | Drain_poll \<Rightarrow> Some st1
                | Delete_task \<Rightarrow>
                    if \<not> ended then None
                    else Some (orphaned (joined (rd_task env)) (\<lambda>c. case delete_region (task_env (rd_task env)) rid c of
                        (Inl e, c') \<Rightarrow> (Inl e, c')
                      | (Inr _, c') \<Rightarrow> (Inr (), log_cache_err (evict_to (rd_evict env) (live_cap_bytes st1) c'))) st1)))"

section \<open>Tiles\<close>

datatype tile_wait = Tile_lookup | Tile_fill

text \<open>The fill was detached and goes on.\<close>

definition get_tile_cut :: "(rat \<Rightarrow> string) \<Rightarrow> request_env \<Rightarrow> tile_wait \<Rightarrow> string \<Rightarrow> nat \<Rightarrow> nat \<Rightarrow> nat \<Rightarrow> string option
    \<Rightarrow> app_state \<Rightarrow> (spawned list \<times> app_state) option" where
  "get_tile_cut display rq w source_id z x y if_none_match st =
     (case sources st source_id of
        None \<Rightarrow> None
      | Some source \<Rightarrow>
          (case expand_upstream display source z x y of
             Inl _ \<Rightarrow> None
           | Inr url \<Rightarrow>
               let spec = \<lparr>fs_source = source_id, fs_z = z, fs_x = x, fs_y = y, fs_url = url, fs_if_none_match = if_none_match\<rparr>;
                   (found, c) = cache_get (rq_lookup rq) (spec_key spec) (cache st);
                   st1 = st\<lparr>cache := c\<rparr>
               in (case w of
                     Tile_lookup \<Rightarrow> Some ([], st1)
                   | Tile_fill \<Rightarrow>
                       (case (case found of
                           Inr (Some t) \<Rightarrow> serve_inline st1 spec (tile_windows_for st source_id) (rq_now rq) t
                         | _ \<Rightarrow> (None, [], st1)) of
                          (Some _, _, _) \<Rightarrow> None
                        | (None, sp, st2) \<Rightarrow> (case spawn_fill spec st2 of
                              (Some s, st3) \<Rightarrow> Some (sp @ [Run_fill s], st3)
                            | (None, _) \<Rightarrow> None)))))"

section \<open>Styles and their assets\<close>

datatype learn_wait = Learn_flight | Learn_fetch | Learn_store

definition learn_cut :: "style_lib \<Rightarrow> style_env \<Rightarrow> string \<Rightarrow> learn_wait \<Rightarrow> app_state \<Rightarrow> app_state option" where
  "learn_cut lib env src w st =
     (let generation = config_generation st; key = ''style-learn:'' @ dec generation @ '':'' @ src
      in if odd generation \<or> fresh_learned_document st (sw_now env) src generation \<noteq> None then None
         else case inflight_lock key (flights st) of
             (None, _) \<Rightarrow> None
           | (Some lock, fl) \<Rightarrow>
               let st1 = sw_flight env (st\<lparr>flights := fl\<rparr>)
               in map_option (leave_flight key lock)
                    (case w of
                       Learn_flight \<Rightarrow> Some st1
                     | _ \<Rightarrow>
                         if fresh_learned_document st1 (sw_recheck env) src generation \<noteq> None then None
                         else if w = Learn_fetch then Some (sw_waited env st1)
                         else Some (snd (learn_style lib env src generation st1))))"

datatype asset_wait = First_lookup | Flight | Second_lookup | Stale_lookup | Answer bool | Store

text \<open>\<open>Answer retried\<close>: the first attempt or, after its timeout was recorded, the second.\<close>

definition upstream_cut :: "wire \<Rightarrow> knobs \<Rightarrow> string \<Rightarrow> string \<Rightarrow> string option \<Rightarrow> bool \<Rightarrow> upstream_health \<Rightarrow> upstream_health option" where
  "upstream_cut w kn src url validator retried h =
     (if \<not> retried then Some h
      else if guarded_get w kn False url validator (timeout_ms h src) = Inl Timeout then Some (record_timeout src (clock w False) h)
      else None)"

definition fetch_asset_cut :: "style_lib \<Rightarrow> wire \<Rightarrow> fill_env \<Rightarrow> asset_fetch_key \<Rightarrow> string \<Rightarrow> asset_wait \<Rightarrow> app_state \<Rightarrow> app_state option" where
  "fetch_asset_cut lib w env key url wait st =
     (case cache_get (fe_lookup env) (ak_key key) (cache st) of
        (found, c) \<Rightarrow>
          let st1 = st\<lparr>cache := c\<rparr>;
              validator = (case found of
                  Inr (Some t) \<Rightarrow> if valid_cached_asset lib (ak_kind key) t then upstream_validator t else None
                | _ \<Rightarrow> None)
          in (case wait of
                Stale_lookup \<Rightarrow> Some st1
              | Answer retried \<Rightarrow>
                  map_option (\<lambda>h. fe_others env (st1\<lparr>health := h\<rparr>))
                    (upstream_cut w (knobs st1) (ak_health key) url validator retried (health st1))
              | Store \<Rightarrow> Some (snd (fetch_asset_response lib (\<lambda>_. True) w env key url None st))
              | _ \<Rightarrow> None))"

definition fetch_allowed_cut :: "style_lib \<Rightarrow> route_env \<Rightarrow> asset_fetch_key \<Rightarrow> string \<Rightarrow> asset_wait \<Rightarrow> app_state \<Rightarrow> app_state option" where
  "fetch_allowed_cut lib env key url wait st =
     (let hosts = (case allowed_hosts_of st (ak_health key) of Some (_, hs) \<Rightarrow> hs | None \<Rightarrow> [])
      in if \<not> url_allowed lib hosts (allow_private_egress (knobs st)) url then None
         else fetch_asset_cut lib (ae_wire env) (ae_fill env) key url wait st)"

definition single_flight_cut :: "route_env \<Rightarrow> tile_key
    \<Rightarrow> (int \<Rightarrow> cached_tile \<Rightarrow> app_state \<Rightarrow> http_response option \<times> spawned list \<times> app_state)
    \<Rightarrow> (asset_wait \<Rightarrow> app_state \<Rightarrow> app_state option) \<Rightarrow> asset_wait \<Rightarrow> app_state \<Rightarrow> app_state option" where
  "single_flight_cut env k serve fetch_cut w st =
     (if w = First_lookup then Some (st\<lparr>cache := snd (cache_get (ae_first env) k (cache st))\<rparr>)
      else case look_and_serve serve (ae_first env) (ae_now env) k st of
          (Some _, _, _) \<Rightarrow> None
        | (None, _, st1) \<Rightarrow>
            let key = inflight_key k
            in (case inflight_lock key (flights st1) of
                  (None, _) \<Rightarrow> None
                | (Some lock, fl) \<Rightarrow>
                    let st2 = ae_flight env (st1\<lparr>flights := fl\<rparr>)
                    in map_option (leave_flight key lock)
                         (case w of
                            Flight \<Rightarrow> Some st2
                          | Second_lookup \<Rightarrow> Some (st2\<lparr>cache := snd (cache_get (ae_second env) k (cache st2))\<rparr>)
                          | _ \<Rightarrow> (case look_and_serve serve (ae_second env) (ae_recheck env) k st2 of
                                (Some _, _, _) \<Rightarrow> None
                              | (None, _, st3) \<Rightarrow> fetch_cut w st3))))"

datatype style_wait = Learn learn_wait | Late | Asset asset_wait

definition with_learned_cut :: "style_lib \<Rightarrow> route_env \<Rightarrow> string \<Rightarrow> style_wait \<Rightarrow> app_state
    \<Rightarrow> (asset_wait \<Rightarrow> style_state \<Rightarrow> app_state \<Rightarrow> app_state option) \<Rightarrow> app_state option" where
  "with_learned_cut lib env src w st k =
     (case w of
        Learn lw \<Rightarrow> learn_cut lib (ae_style env) src lw st
      | _ \<Rightarrow>
          (case ensure_style_learned lib (ae_style env) src st of
             (False, _) \<Rightarrow> None
           | (True, st1) \<Rightarrow>
               let st2 = ae_late env st1
               in (case w of
                     Asset aw \<Rightarrow> Option.bind (map_of (style_states st2) src) (\<lambda>learned. k aw learned st2)
                   | _ \<Rightarrow> Some st2)))"

definition glyphs_cut :: "style_lib \<Rightarrow> route_env \<Rightarrow> string \<Rightarrow> string \<Rightarrow> string \<Rightarrow> style_wait \<Rightarrow> app_state \<Rightarrow> app_state option" where
  "glyphs_cut lib env src fontstack rg w st =
     (case glyph_range rg of
        None \<Rightarrow> None
      | Some (start, canonical) \<Rightarrow>
          with_learned_cut lib env src w st (\<lambda>aw learned st1.
            if fontstack \<notin> set (ss_fontstacks learned) then None
            else
              let k = (glyph_cache_source_at src fontstack (ss_generation learned), 0, start, 0)
              in single_flight_cut env k (serve_asset lib (\<lambda>_. True) Glyph True k None)
                   (\<lambda>aw st2. Option.bind (ss_glyphs learned) (\<lambda>template.
                      fetch_allowed_cut lib env \<lparr>ak_health = src, ak_key = k, ak_kind = Glyph\<rparr>
                        (expand_glyph_url (sl_percent_encode lib) template fontstack canonical) aw st2)) aw st1))"

definition sprite_cut :: "style_lib \<Rightarrow> route_env \<Rightarrow> string \<Rightarrow> nat \<Rightarrow> string \<Rightarrow> style_wait \<Rightarrow> app_state \<Rightarrow> app_state option" where
  "sprite_cut lib env src variant suffix w st =
     with_learned_cut lib env src w st (\<lambda>aw learned st1.
       let k = (sprite_cache_source_at src (ss_generation learned), 0, variant, 0);
           kind = (if strip_suffix ''.json'' suffix \<noteq> None then SpriteJson else SpritePng)
       in single_flight_cut env k (serve_asset lib (\<lambda>_. True) kind False k None)
            (\<lambda>aw st2. Option.bind (ss_sprite_base learned) (\<lambda>base.
               fetch_allowed_cut lib env \<lparr>ak_health = src, ak_key = k, ak_kind = kind\<rparr> (base @ suffix) aw st2)) aw st1)"

definition vector_tile_cut :: "style_lib \<Rightarrow> route_env \<Rightarrow> string \<Rightarrow> string \<Rightarrow> nat \<Rightarrow> nat \<Rightarrow> nat \<Rightarrow> style_wait \<Rightarrow> app_state
    \<Rightarrow> app_state option" where
  "vector_tile_cut lib env src name z x y w st =
     with_learned_cut lib env src w st (\<lambda>aw learned st1.
       case map_of (ss_source_tiles learned) name of
         None \<Rightarrow> None
       | Some [] \<Rightarrow> None
       | Some (template # _) \<Rightarrow>
           if (case map_of (ss_source_maxzoom learned) name of Some m \<Rightarrow> m | None \<Rightarrow> 24) < z \<or> 24 < z
              \<or> checked_span z \<le> x \<or> checked_span z \<le> y
           then None
           else
             let kind = (if name \<in> ss_raster_sources learned then RasterTile else VectorTile);
                 k = (vector_cache_source_at src name (ss_generation learned), z, x, y)
             in single_flight_cut env k (serve_asset lib (\<lambda>_. True) kind True k None)
                  (fetch_allowed_cut lib env \<lparr>ak_health = src, ak_key = k, ak_kind = kind\<rparr>
                     (expand_zxy template (dec z) (dec x) (dec y))) aw st1)"

definition style_doc_cut :: "style_lib \<Rightarrow> style_env \<Rightarrow> (app_state \<Rightarrow> app_state) \<Rightarrow> string \<Rightarrow> style_wait \<Rightarrow> app_state \<Rightarrow> app_state option" where
  "style_doc_cut lib env late src w st =
     (if allowed_hosts_of st src = None then None
      else case w of
          Learn lw \<Rightarrow> learn_cut lib env src lw st
        | Late \<Rightarrow> (case fetch_and_learn lib env src st of (None, _) \<Rightarrow> None | (Some _, st1) \<Rightarrow> Some (late st1))
        | Asset _ \<Rightarrow> None)"

section \<open>Geocoding\<close>

datatype geocode_wait = Interval | Nominatim

definition geocode_cut :: "geocode_lib \<Rightarrow> geocode_env \<Rightarrow> f64 option \<Rightarrow> f64 option \<Rightarrow> geocode_wait \<Rightarrow> app_state \<Rightarrow> app_state option" where
  "geocode_cut lib env lat lon w st =
     (case (lat, lon) of
        (Some la, Some lo) \<Rightarrow>
          if geocoding_enabled st \<and> is_finite la \<and> is_finite lo \<and> fle (fabs la) (Fin 90) \<and> fle (fabs lo) (Fin 180)
          then
            let st1 = ge_waited env st;
                g = (geocoder st1)\<lparr>gc_cache := filter (\<lambda>(_, stored, _). elapsed (ge_now env) stored < GEOCODE_CACHE_TTL)
                  (gc_cache (geocoder st1))\<rparr>
            in if map_of (gc_cache g) (coordinate_key lib la lo) \<noteq> None then None
               else Some (st1\<lparr>geocoder := (case w of Interval \<Rightarrow> g | Nominatim \<Rightarrow> g\<lparr>gc_last_request := Some (ge_sent env)\<rparr>)\<rparr>)
          else None
      | _ \<Rightarrow> None)"

section \<open>Every request\<close>

datatype wait =
    Before | Stats_task | Clear_task | Tile tile_wait | Styled style_wait | Geocoding geocode_wait
  | Push config_wait | Start start_wait | Deletion delete_wait

text \<open>\<open>Before\<close> also stands for a wait before which a handler has changed nothing.\<close>

definition dropped_read :: "service_lib \<Rightarrow> handler_env \<Rightarrow> http_request \<Rightarrow> endpoint \<Rightarrow> wait \<Rightarrow> app_state
    \<Rightarrow> (spawned list \<times> app_state) option" where
  "dropped_read lib env req e w st =
     (let sl = vl_style lib; segs = (\<lambda>ss. those (map (vl_segment lib) ss)); alone = map_option (Pair [])
      in case (e, w) of
           (E_stats, Stats_task) \<Rightarrow> Some ([], orphaned (sv_returned (hv_stats env)) (stats_work (hv_stats env)) st)
         | (E_tile src z x y, Tile tw) \<Rightarrow>
             (case (segs [src, z, x, y], parse_u32 z, parse_u32 x, parse_u32 y) of
                (Some (s # _), Some z', Some x', Some y') \<Rightarrow>
                  get_tile_cut (vl_display lib) (hv_tile env) tw s z' x' y' (if_none_match_of req) st
              | _ \<Rightarrow> None)
         | (E_style src, Styled sw) \<Rightarrow>
             Option.bind (vl_segment lib src) (\<lambda>s. alone (style_doc_cut sl (ae_style (hv_asset env)) (hv_late env) s sw st))
         | (E_glyphs src stack rg, Styled sw) \<Rightarrow>
             (case segs [src, stack, rg] of
                Some [s, f, r] \<Rightarrow> alone (glyphs_cut sl (hv_asset env) s f r sw st) | _ \<Rightarrow> None)
         | (E_sprite v src, Styled sw) \<Rightarrow>
             Option.bind (vl_segment lib src) (\<lambda>s. Option.bind (map_of SPRITE_VARIANTS v) (\<lambda>suffix.
               alone (sprite_cut sl (hv_asset env) s v suffix sw st)))
         | (E_vector src name z x y, Styled sw) \<Rightarrow>
             (case (segs [src, name, z, x, y], parse_u32 z, parse_u32 x, parse_u32 y) of
                (Some (s # n # _), Some z', Some x', Some y') \<Rightarrow> alone (vector_tile_cut sl (hv_asset env) s n z' x' y' sw st)
              | _ \<Rightarrow> None)
         | (E_geocode, Geocoding gw) \<Rightarrow>
             (case vl_query lib (hr_query req) of
                Inr (lat, lon) \<Rightarrow> alone (geocode_cut (vl_geocode lib) (hv_geocode env) lat lon gw st) | Inl _ \<Rightarrow> None)
         | _ \<Rightarrow> None)"

definition dropped_change :: "service_lib \<Rightarrow> handler_env \<Rightarrow> http_request \<Rightarrow> endpoint \<Rightarrow> wait \<Rightarrow> app_state \<Rightarrow> app_state option" where
  "dropped_change lib env req e w st =
     (case (e, w) of
        (E_clear_scroll, Clear_task) \<Rightarrow>
          Some (orphaned (hv_returned env) (clear_unpinned (hv_chunks env) (hv_reclaimed env)) st)
      | (E_config, Push cw) \<Rightarrow>
          (case json_body lib (vl_config lib) req of
             Inr b \<Rightarrow> config_cut (vl_style lib) (hv_config env) b cw st | Inl _ \<Rightarrow> None)
      | (E_warm, Start sw) \<Rightarrow>
          (case json_body lib (vl_warm lib) req of
             Inr b \<Rightarrow>
               if wb_sources b = [] \<or> MAX_WARM_SOURCES < length (wb_sources b) then None
               else start_warm_cut (vl_merc lib) (wt_locked (hv_warm env)) (wt_now (hv_warm env)) (warm_request_of b) sw st
           | Inl _ \<Rightarrow> None)
      | (E_region rid, Deletion dw) \<Rightarrow>
          Option.bind (vl_segment lib rid) (\<lambda>r. delete_region_cut (hv_delete env) r dw st)
      | _ \<Rightarrow> None)"

definition dropped :: "service_lib \<Rightarrow> handler_env \<Rightarrow> wait \<Rightarrow> http_request \<Rightarrow> app_state \<Rightarrow> (spawned list \<times> app_state) option" where
  "dropped lib env w req st =
     (if w = Before then Some ([], st)
      else case path_endpoint (hr_path req) of
          None \<Rightarrow> None
        | Some e \<Rightarrow>
            if \<not> allowed_method e (hr_method req) then None
            else if is_read (hr_method req) then dropped_read lib env req e w st
            else if \<not> mutation_authorized (control_token st) (hr_headers req) then None
            else map_option (Pair []) (dropped_change lib env req e w st))"

end
