(* ===== verification/Fetcher_Claims.thy ===== *)
theory Fetcher_Claims
  imports Fetcher_Props
begin

text \<open>The properties of the read-through fetch path, on a small example state where they have hypotheses.\<close>

section \<open>An example\<close>

definition ex_source :: chart_source where
  "ex_source = \<lparr>src_id = ''s'', src_title = ''S'', upstream = Xyz ''https://t.example/{z}/{x}/{y}.png'', tile_size = 256,
     minzoom = 0, maxzoom = 10, vector_maxzoom = None, bounds = None, coverage = None,
     max_age_seconds = Some 300, attribution = ''''\<rparr>"

definition ex_state :: app_state where
  "ex_state = \<lparr>cache = ex_cache, sources = [''s'' \<mapsto> ex_source], public_base = '''', style_states = [], knobs = default_knobs,
     flights = no_inflight, fill_permits = 8, touch_permits = 16, health = new_health 20000, warm_jobs = [],
     active_warm_regions = [], warm_seq = 0, boot_id = ''b'', live_cap_bytes = 1000, live_regions_budget = 600,
     live_position_warm_budget = 200, live_scroll_ttl_secs = 0, configured = True, config_generation = 0,
     control_token = None, geocoding_enabled = False, geocoder = \<lparr>gc_last_request = None, gc_cache = []\<rparr>, shutdown_requested = False, assets_warming = False,
     warm_rejections = 0, config_pushes = 0\<rparr>"

definition ex_task :: task where "ex_task = \<lparr>joined = True, task_env = ex_env\<rparr>"

definition ex_fill_env :: "int \<Rightarrow> fill_env" where
  "ex_fill_env now = \<lparr>fe_now = now, fe_done = now, fe_stale = now, fe_lookup = ex_task, fe_put = ex_task,
     fe_evict = ex_env, fe_late = ex_task, fe_pin = ex_task, fe_waited = id, fe_others = id\<rparr>"

definition ex_rq :: "int \<Rightarrow> request_env" where
  "ex_rq now = \<lparr>rq_now = now, rq_lookup = ex_task, rq_fill = ex_fill_env now, rq_ended = True\<rparr>"

text \<open>A wire whose every answer is the given one.\<close>

definition ex_wire :: "send_result \<Rightarrow> wire" where
  "ex_wire r = \<lparr>host_of = (\<lambda>_. Some ''t.example''), egress_open = True, send = (\<lambda>_ _ _ _. r), clock = (\<lambda>_. 500)\<rparr>"

definition ex_png :: "send_result" where
  "ex_png = Answered \<lparr>ur_status = 200, ur_content_type = Some ''image/png'', ur_etag = Some ''v1'',
     ur_last_modified = None, ur_declared = None, ur_chunks = [Some [1, 2], Some [3]]\<rparr>"

lemmas ex_fetch_defs = ex_state_def ex_task_def ex_fill_env_def ex_rq_def ex_wire_def ex_png_def ex_source_def

lemma get_tile_safe: "safe_outcome (tl_outcome (fst (get_tile sha display w rq src z x y inm st)))"
proof -
  obtain l sp st' where g: "get_tile sha display w rq src z x y inm st = (l, sp, st')" by (metis prod_cases3)
  from g have "safe_outcome (tl_outcome l)"
  proof (cases rule: get_tile_cases)
    case (inline s url spec c t)
    from inline(5) safe_inline show ?thesis by (metis fst_conv)
  next
    case (filled s url spec c st1)
    from filled(7) safe_fill_and_await show ?thesis by (metis fst_conv)
  qed auto
  with g show ?thesis by simp
qed

section \<open>Properties\<close>


text \<open>
  C21: A served row is inside the window its source allows. A row served as fresh was fetched less than
  the fresh window ago, or has just been fetched or confirmed; a row served as stale is inside the stale
  window, or is pinned and its source is not time-dynamic. So a time-dynamic source, whose two windows
  are at most its time to live, is never served past it, however the row was stored.
\<close>

theorem served_within_window:
  assumes "get_tile sha display w rq src z x y inm st = (l, sp, st')"
    and "served_at (tl_outcome l) = Some (stale, since)"
    and "\<And>s. sources (fe_waited (rq_fill rq) s) = sources s" "\<And>s. knobs (fe_waited (rq_fill rq) s) = knobs s"
  shows "\<exists>s. sources st src = Some s \<and>
    (if stale
     then rq_now rq - since < max_stale_secs s (kn_max_stale_secs (knobs st))
       \<or> fe_stale (rq_fill rq) - since < max_stale_secs s (kn_max_stale_secs (knobs st))
       \<or> (\<not> is_volatile s \<and> cache_is_pinned (fe_pin (rq_fill rq)) (src, z, x, y) (cache st'))
     else rq_now rq - since < fresh_secs s (kn_fresh_secs (knobs st))
       \<or> fe_now (rq_fill rq) - since < fresh_secs s (kn_fresh_secs (knobs st))
       \<or> since = fe_done (rq_fill rq))"
  using assms(1)
proof (cases rule: get_tile_cases)
  case refused
  with assms(2) show ?thesis by auto
next
  case (inline s url spec c t)
  have "fst (serve_inline (st\<lparr>cache := c\<rparr>) spec (tile_windows_for st src) (rq_now rq) t) = Some (tl_outcome l)"
    by (simp add: inline(5))
  from served_inline[OF this assms(2)] inline(1) show ?thesis
    by (auto simp: tile_windows_for_def split: if_splits)
next
  case (filled s url spec c st1)
  note sp = filled(3) and f = filled(7)
  from f show ?thesis
  proof (cases rule: fill_cases)
    case none
    with assms(2) show ?thesis by simp
  next
    case (ran fl lock s1 s2)
    have W: "tile_windows_for s1 (fs_source spec) = tile_windows_for st src"
      by (simp add: tile_windows_for_def ran(3) assms(3,4) filled(5) sp)
    have k: "spec_key spec = (src, z, x, y)" by (simp add: sp spec_key_def)
    have c': "cache st' = cache s2" by (simp add: ran(5) release_lock_def)
    from served_fill_locked[OF ran(4) assms(2)] filled(1) show ?thesis
      unfolding window_ok_def W k c'[symmetric] by (auto simp: tile_windows_for_def split: if_splits)
  qed
qed

lemma served_within_window_witness:
  "\<exists>s. sources ex_state ''s'' = Some s \<and> 20 - 20 < fresh_secs s 86400"
proof -
  have *: "\<exists>l sp st'. get_tile id (\<lambda>_. []) (ex_wire Send_failed) (ex_rq 20) ''s'' 1 0 0 None ex_state = (l, sp, st')
      \<and> served_at (tl_outcome l) = Some (False, 20)"
    by (simp add: get_tile_def expand_upstream_def in_range_def checked_span_def Let_def ex_fetch_defs cache_get_def
        get_def ex_env_def ex_cache_def ex_db_def find_row_def spec_key_def serve_inline_def ex_tile_def
        tile_windows_for_def fresh_secs_def clamped_to_ttl_def default_knobs_def i64_max_def try_touch_def
        TOUCH_THROTTLE_SECS_def is_safe_cached_200_def acceptable_content_type_def respond_cached_def
        matches_etag_def to_response_def trim_def is_whitespace_def code_def to_lower_def is_ascii_uppercase_def)
  then obtain l sp st' where g: "get_tile id (\<lambda>_. []) (ex_wire Send_failed) (ex_rq 20) ''s'' 1 0 0 None ex_state = (l, sp, st')"
    and a: "served_at (tl_outcome l) = Some (False, 20)" by blast
  from served_within_window[OF g a] show ?thesis
    by (simp add: ex_rq_def ex_fill_env_def ex_state_def default_knobs_def ex_source_def fresh_secs_def
        clamped_to_ttl_def i64_max_def)
qed

text \<open>
  C23: A revalidation that fails in any way (the upstream is unreachable, times out, sends too much, or
  answers anything but 200 or 304, a 404 included) leaves the rows of the cache as the other tasks leave
  them: the row is neither replaced nor turned into a negative one. It is then served, marked stale, as
  long as the stale rule allows.
\<close>

theorem failed_revalidation_costs_nothing:
  assumes "healthy (fe_lookup env)"
    and "tile_at (conn (cache st)) (spec_key spec) = Some t" "is_safe_cached_200 t"
    and "tw_fresh_secs (tile_windows_for st (fs_source spec)) \<le> fe_now env - fetched_at t"
    and "fetch_upstream w (knobs st) (fs_source spec) (fs_url spec) (upstream_validator t) (health st) = (res, h)"
    and "case res of Inl e \<Rightarrow> True | Inr (sc, f) \<Rightarrow> sc \<noteq> 200 \<and> sc \<noteq> 304"
  shows "fill_locked sha w env spec st =
    (if may_serve_stale env (spec_key spec) (fetched_at t) (tile_windows_for st (fs_source spec))
          (cache (fe_others env (st\<lparr>health := h\<rparr>)))
     then respond_cached t (fs_if_none_match spec) True else Unavailable,
     fe_others env (st\<lparr>health := h\<rparr>))"
proof -
  have co: "coalesced (knobs st) (tile_windows_for st (fs_source spec)) (fe_now env) (fs_if_none_match spec) (Some t) = None"
    using assms(3,4) by (auto simp: coalesced_def is_safe_cached_200_def)
  have "fill_locked sha w env spec st = revalidate sha w env spec (tile_windows_for st (fs_source spec)) t st"
    using assms(3) by (simp add: fill_locked_def Let_def cache_get_healthy[OF assms(1)] assms(2) co)
  also have "\<dots> = (if may_serve_stale env (spec_key spec) (fetched_at t) (tile_windows_for st (fs_source spec))
          (cache (fe_others env (st\<lparr>health := h\<rparr>)))
     then respond_cached t (fs_if_none_match spec) True else Unavailable, fe_others env (st\<lparr>health := h\<rparr>))"
    using assms(5,6) by (auto simp: revalidate_def Let_def split: sum.splits)
  finally show ?thesis .
qed

definition ex_spec :: fill_spec where
  "ex_spec = \<lparr>fs_source = ''s'', fs_z = 0, fs_x = 0, fs_y = 0, fs_url = ''u'', fs_if_none_match = None\<rparr>"

lemma ex_png_safe: "is_safe_cached_200 (ex_tile b a)"
  by code_simp

lemma ex_state_row: "tile_at (conn (cache ex_state)) (''s'', 0, 0, 0) = Some (ex_tile 100 10)"
  by (simp add: ex_state_def ex_cache_def ex_db_def tile_at_def find_row_def)

lemma ex_healthy: "healthy ex_task"
  by (simp add: healthy_def ex_task_def ex_env_def)

lemma failed_revalidation_costs_nothing_witness:
  "fill_locked id (ex_wire Send_failed) (ex_fill_env 309) ex_spec (ex_state\<lparr>sources := Map.empty, knobs := default_knobs\<lparr>kn_fresh_secs := 60\<rparr>\<rparr>)
     = (Hit (to_response (ex_tile 100 10) True), ex_state\<lparr>sources := Map.empty, knobs := default_knobs\<lparr>kn_fresh_secs := 60\<rparr>\<rparr>)"
proof -
  let ?st = "ex_state\<lparr>sources := Map.empty, knobs := default_knobs\<lparr>kn_fresh_secs := 60\<rparr>\<rparr>"
  have w: "tile_windows_for ?st ''s'' = \<lparr>tw_fresh_secs = 60, tw_max_stale_secs = 2592000, tw_volatile = False\<rparr>"
    by (simp add: tile_windows_for_def default_knobs_def)
  have src: "fs_source ex_spec = ''s''" by (simp add: ex_spec_def)
  have f: "fetch_upstream (ex_wire Send_failed) (knobs ?st) (fs_source ex_spec) (fs_url ex_spec)
      (upstream_validator (ex_tile 100 10)) (health ?st) = (Inl Transport, health ?st)"
    by (simp add: fetch_upstream_eq Let_def guarded_get_def ex_wire_def)
  have "fill_locked id (ex_wire Send_failed) (ex_fill_env 309) ex_spec ?st =
      (if may_serve_stale (ex_fill_env 309) (spec_key ex_spec) (fetched_at (ex_tile 100 10))
            (tile_windows_for ?st (fs_source ex_spec)) (cache (fe_others (ex_fill_env 309) (?st\<lparr>health := health ?st\<rparr>)))
       then respond_cached (ex_tile 100 10) (fs_if_none_match ex_spec) True else Unavailable,
       fe_others (ex_fill_env 309) (?st\<lparr>health := health ?st\<rparr>))"
    by (rule failed_revalidation_costs_nothing[OF _ _ ex_png_safe _ f])
      (use ex_state_row in \<open>simp_all add: w src ex_fill_env_def ex_healthy, simp_all add: ex_spec_def spec_key_def ex_tile_def\<close>)
  then show ?thesis
    by (simp add: w src may_serve_stale_def ex_fill_env_def ex_tile_def respond_cached_def matches_etag_def ex_spec_def)
qed

text \<open>
  C36: The upstream is asked at most twice. The second request is made exactly when the first timed out,
  at the source's escalated timeout, which is never shorter; a transport failure is never retried; a body
  is never longer than the blob limit; and a response that was read in full is the only way to success.
\<close>

theorem fetch_is_bounded:
  assumes "health_inv h" "unat (base_ms h) < 2 ^ 62"
  shows "let first = guarded_get w kn False url inm (timeout_ms h src);
             h1 = record_timeout src (clock w False) h;
             second = guarded_get w kn True url inm (timeout_ms h1 src);
             final = (if first = Inl Timeout then second else first);
             (res, h') = fetch_upstream w kn src url inm h
         in timeout_ms h src \<le> timeout_ms h1 src \<and> unat (timeout_ms h1 src) \<le> 90000 \<and> health_inv h' \<and>
            (case res of
               Inr (sc, f) \<Rightarrow> \<exists>r. final = Inr r \<and> sc = ur_status r \<and>
                   read_capped_to (max_blob_bytes kn) r = Some (f_body f) \<and> length (f_body f) \<le> max_blob_bytes kn
             | Inl Timeout \<Rightarrow> first = Inl Timeout \<and> second = Inl Timeout \<and>
                   streak_of h' src = min (streak_of h src + 2) 2
             | Inl Transport \<Rightarrow> final = Inl Transport \<or>
                   (\<exists>r. final = Inr r \<and> read_capped_to (max_blob_bytes kn) r = None))"
proof -
  let ?h1 = "record_timeout src (clock w False) h"
  have "unat (timeout_ms ?h1 src) \<le> 90000"
    by (simp add: timeout_ms_def schedule_def MAX_TIMEOUT_MS_def min_def word_le_nat_alt)
  moreover have "health_inv (snd (fetch_upstream w kn src url inm h))" using assms(1) by (rule fetch_health_inv)
  moreover have "streak_of (record_timeout src b (record_timeout src a h)) src = min (streak_of h src + 2) 2" for a b
    by (simp add: streak_of_def record_timeout_lookup STREAK_CAP_def)
  ultimately show ?thesis
    using timeout_escalates[OF assms(2,1), of src "clock w False"]
    by (auto simp: fetch_upstream_eq Let_def dest: read_capped_bounded split: sum.splits option.splits fetch_error.splits)
qed

lemma ex_host: "parse_ip (bare_host ''t.example'') = None"
  by code_simp

lemma ex_wire_get:
  "guarded_get (ex_wire r) kn a url inm t = (case r of Answered x \<Rightarrow> Inr x | Send_timed_out \<Rightarrow> Inl Timeout | Send_failed \<Rightarrow> Inl Transport)"
  by (simp add: guarded_get_def ex_wire_def is_forbidden_ip_literal_url_def ex_host)

lemma fetch_is_bounded_witness:
  "timeout_ms (new_health 20000) ''s'' \<le> timeout_ms (record_timeout ''s'' 500 (new_health 20000)) ''s'' \<and>
   unat (timeout_ms (record_timeout ''s'' 500 (new_health 20000)) ''s'') \<le> 90000"
proof -
  have "health_inv (new_health 20000)" "unat (base_ms (new_health 20000)) < 2 ^ 62"
    by (simp_all add: health_inv_def new_health_def)
  note F = fetch_is_bounded[OF this, of "ex_wire Send_timed_out" default_knobs "''u''" None "''s''"]
  have "clock (ex_wire Send_timed_out) False = 500" by (simp add: ex_wire_def)
  with F show ?thesis by (simp add: Let_def split: prod.splits)
qed

text \<open>
  The validator stored with a tile comes back to the upstream as the header it was taken from: an
  ETag as If-None-Match, a Last-Modified date as If-Modified-Since, and the ETag wins.
\<close>

theorem validator_roundtrip:
  "conditional_header (response_validator r) =
    (case ur_etag r of
       Some e \<Rightarrow> Some (''if-none-match'', e)
     | None \<Rightarrow> map_option (Pair ''if-modified-since'') (ur_last_modified r))"
  by (simp add: conditional_header_def response_validator_def strip_prefix_def starts_with_def split: option.split)

text \<open>
  C34: A tile that was fetched and stored heals its blank area: until it is evicted, every later request
  for it inside the fresh window is answered from the cache with the bytes, the type and the content
  ETag of the fetch (or a 304 for that ETag), whatever the upstream has become and without a fill task.
\<close>

theorem stored_tile_is_served_again:
  assumes "cache_inv (cache st)" "joined (fe_put env)"
    and "store_200 sha env (src, z, x, y) f inm st = (out, st1)" "out \<noteq> Unavailable"
    and "fst (put (task_env (fe_put env)) (src, z, x, y) (fresh_tile sha f (fe_done env)) False (fe_done env) (cache st)) = Inr Stored"
    and "tile_at (conn (cache st1)) (src, z, x, y) \<noteq> None"
    and "tile_at (conn (cache st2)) (src, z, x, y) = tile_at (conn (cache st1)) (src, z, x, y)"
    and "sources st2 src = Some s" "expand_upstream display s z x y = Inr url" "healthy (rq_lookup rq)"
    and "rq_now rq - fe_done env < fresh_secs s (kn_fresh_secs (knobs st2))"
  shows "tl_outcome (fst (get_tile sha display w rq src z x y inm2 st2)) =
      (if matches_etag inm2 (content_etag sha (f_body f)) then Not_modified (content_etag sha (f_body f)) False (fe_done env)
       else Hit \<lparr>tr_status = 200, tr_content_type = f_content_type f, tr_etag = content_etag sha (f_body f),
          tr_stale = False, tr_body = f_body f, tr_fetched_at = fe_done env\<rparr>) \<and>
    fill_permits (snd (snd (get_tile sha display w rq src z x y inm2 st2))) = fill_permits st2"
proof -
  let ?k = "(src, z, x, y)" and ?t = "fresh_tile sha f (fe_done env)"
  have acc: "acceptable_content_type (f_content_type f)"
    using assms(3,4) by (auto simp: store_200_def split: if_splits)
  obtain c1 where put: "put (task_env (fe_put env)) ?k ?t False (fe_done env) (cache st) = (Inr Stored, c1)"
    using assms(5) by (metis prod.collapse)
  have row: "?t\<lparr>last_access := fe_done env\<rparr> = ?t" by (simp add: fresh_tile_def)
  have c1: "conn c1 = store_row ?k ?t (conn (cache st))" using put_is_store_row[OF put] row by simp
  have ok: "db_ok (conn (cache st))" using assms(1) by (rule cache_invD)
  define d where "d = conn (cache st1)"
  have cache1: "cache st1 = store_and_evict env (live_cap_bytes st) ?k ?t (fe_done env) (cache st)"
    using assms(3,4) by (auto simp: store_200_def Let_def split: if_splits)
  have d: "d = conn c1 \<or> (\<exists>n. d = evict_rows n (conn c1))"
    using evict_is_evict_rows[OF prod.collapse[symmetric], of "fe_evict env" "live_cap_bytes st" "log_cache_err (Inr Stored, c1)"]
    by (auto simp: d_def cache1 store_and_evict_def run_cache_write_def assms(2) put)
  have "tile_at d ?k = Some ?t"
  proof -
    obtain r where r: "tile_at d ?k = Some r" using assms(6) by (auto simp: d_def)
    have "r = ?t" using d r rows.store_then_shrink[OF ok] rows.lookup_store[OF ok, of ?k ?t ?k] by (auto simp: c1)
    with r show ?thesis by simp
  qed
  then have at2: "tile_at (conn (cache st2)) ?k = Some ?t" using assms(7) by (simp add: d_def)
  have ns: "(case upstream s of Style u hs \<Rightarrow> True | _ \<Rightarrow> False) = False"
    using assms(9) by (simp add: expand_upstream_def split: upstream_template.splits)
  have safe: "is_safe_cached_200 ?t" using acc by (simp add: is_safe_cached_200_def fresh_tile_def)
  have get: "cache_get (rq_lookup rq) ?k (cache st2) = (Inr (Some ?t), cache st2)"
    using cache_get_healthy[OF assms(10), of ?k "cache st2"] at2 by simp
  have fresh: "rq_now rq - fetched_at ?t < tw_fresh_secs (tile_windows_for st2 src)"
    using assms(8,11) by (simp add: tile_windows_for_def fresh_tile_def)
  show ?thesis using safe fresh
    by (simp add: get_tile_def assms(8,9) ns Let_def spec_key_def get serve_inline_def is_safe_cached_200_def
        try_touch_def split: prod.split)
      (simp add: respond_cached_def to_response_def fresh_tile_def as_u16_def)
qed

definition ex_fetched :: fetched where
  "ex_fetched = \<lparr>f_content_type = ''image/png'', f_validator = None, f_body = [1, 2, 3]\<rparr>"

lemma ex_acceptable: "acceptable_content_type ''image/png''"
  by code_simp

lemma stored_tile_is_served_again_witness:
  "tl_outcome (fst (get_tile id (\<lambda>_. []) (ex_wire Send_failed) (ex_rq 700) ''s'' 2 1 1 None
     (snd (store_200 id (ex_fill_env 500) (''s'', 2, 1, 1) ex_fetched None ex_state)))) =
   Hit \<lparr>tr_status = 200, tr_content_type = ''image/png'', tr_etag = content_etag id [1, 2, 3],
      tr_stale = False, tr_body = [1, 2, 3], tr_fetched_at = 500\<rparr>"
proof -
  let ?st1 = "snd (store_200 id (ex_fill_env 500) (''s'', 2, 1, 1) ex_fetched None ex_state)"
  have st: "store_200 id (ex_fill_env 500) (''s'', 2, 1, 1) ex_fetched None ex_state =
      (fst (store_200 id (ex_fill_env 500) (''s'', 2, 1, 1) ex_fetched None ex_state), ?st1)" by simp
  have put: "put (task_env (fe_put (ex_fill_env 500))) (''s'', 2, 1, 1) (fresh_tile id ex_fetched 500) False 500 ex_cache =
      (Inr Stored, ex_cache\<lparr>conn := upsert \<lparr>row_key = (''s'', 2, 1, 1), row_tile = fresh_tile id ex_fetched 500, row_pinned = False\<rparr> ex_db,
         total_bytes := 603\<rparr>)"
    by (simp add: put_def ex_fill_env_def ex_task_def ex_defs find_row_def has_disk_headroom_conn_def fresh_tile_def
        ex_fetched_def Let_def)
  have cache1: "cache ?st1 = ex_cache\<lparr>conn := upsert \<lparr>row_key = (''s'', 2, 1, 1), row_tile = fresh_tile id ex_fetched 500, row_pinned = False\<rparr> ex_db,
         total_bytes := 603\<rparr>"
    using put by (simp add: store_200_def ex_fetched_def ex_acceptable ex_state_def default_knobs_def DEFAULT_MAX_BLOB_BYTES_def
        store_and_evict_def run_cache_write_def Let_def ex_fill_env_def ex_task_def log_cache_err_def evict_to_def)
  have rest: "sources ?st1 = sources ex_state" "knobs ?st1 = knobs ex_state"
    by (simp_all add: store_200_def Let_def)
  have src: "sources ?st1 ''s'' = Some ex_source" unfolding rest by (simp add: ex_state_def)
  have url: "\<exists>url. expand_upstream (\<lambda>_. []) ex_source 2 1 1 = Inr url"
    by (simp add: expand_upstream_def in_range_def checked_span_def ex_source_def)
  then obtain url where u: "expand_upstream (\<lambda>_. []) ex_source 2 1 1 = Inr url" by blast
  have "tl_outcome (fst (get_tile id (\<lambda>_. []) (ex_wire Send_failed) (ex_rq 700) ''s'' 2 1 1 None ?st1)) =
      (if matches_etag None (content_etag id (f_body ex_fetched)) then Not_modified (content_etag id (f_body ex_fetched)) False (fe_done (ex_fill_env 500))
       else Hit \<lparr>tr_status = 200, tr_content_type = f_content_type ex_fetched, tr_etag = content_etag id (f_body ex_fetched),
          tr_stale = False, tr_body = f_body ex_fetched, tr_fetched_at = fe_done (ex_fill_env 500)\<rparr>)"
  proof (rule conjunct1[OF stored_tile_is_served_again[OF _ _ st _ _ _ refl src u]])
    show "cache_inv (cache ex_state)" by (simp add: ex_state_def ex_cache_inv)
    show "joined (fe_put (ex_fill_env 500))" by (simp add: ex_fill_env_def ex_task_def)
    show "fst (store_200 id (ex_fill_env 500) (''s'', 2, 1, 1) ex_fetched None ex_state) \<noteq> Unavailable"
      by (simp add: store_200_def ex_fetched_def ex_acceptable ex_state_def default_knobs_def DEFAULT_MAX_BLOB_BYTES_def Let_def)
    show "fst (put (task_env (fe_put (ex_fill_env 500))) (''s'', 2, 1, 1) (fresh_tile id ex_fetched (fe_done (ex_fill_env 500))) False
        (fe_done (ex_fill_env 500)) (cache ex_state)) = Inr Stored"
      using put by (simp add: ex_fill_env_def ex_state_def)
    show "tile_at (conn (cache ?st1)) (''s'', 2, 1, 1) \<noteq> None" unfolding cache1 by (simp add: tile_at_upsert)
    show "healthy (rq_lookup (ex_rq 700))" by (simp add: ex_rq_def ex_healthy)
    show "rq_now (ex_rq 700) - fe_done (ex_fill_env 500) < fresh_secs ex_source (kn_fresh_secs (knobs ?st1))"
      unfolding rest by (simp add: ex_rq_def ex_fill_env_def ex_source_def fresh_secs_def clamped_to_ttl_def ex_state_def
        default_knobs_def i64_max_def)
  qed
  then show ?thesis by (simp add: matches_etag_def ex_fetched_def ex_fill_env_def)
qed

text \<open>Every request leaves the shared state well formed, as long as the other tasks do.\<close>

lemma serving_keeps_state:
  assumes "state_ok st" "tame_env (inflight_key (src, z, x, y)) (rq_fill rq)"
    and "get_tile sha display w rq src z x y inm st = (l, sp, st')"
  shows "state_ok st'"
  by (rule plain.get_tile_keeps[OF assms])

end
