(* ===== verification/Service_Props.thy ===== *)
theory Service_Props
  imports Service Fetcher_Claims
begin

text \<open>
  The invariant of the service and its preservation by every handler. A handler relies on the other tasks, while it
  waits, for what it guarantees itself (\<open>neighbour\<close>); \<open>Interleaving\<close> proves it of all of them.
\<close>

section \<open>The invariant\<close>

definition limits_ok :: "app_state \<Rightarrow> bool" where
  "limits_ok st \<longleftrightarrow> 0 < live_cap_bytes st \<and> 0 \<le> live_position_warm_budget st
     \<and> live_position_warm_budget st \<le> live_regions_budget st \<and> live_regions_budget st \<le> live_cap_bytes st
     \<and> 0 \<le> live_scroll_ttl_secs st \<and> live_scroll_ttl_secs st \<le> MAX_SCROLL_TTL_SECS"

definition catalog_ok :: "style_lib \<Rightarrow> app_state \<Rightarrow> bool" where
  "catalog_ok lib st \<longleftrightarrow> (\<forall>i s. sources st i = Some s \<longrightarrow> src_id s = i \<and> entry_valid lib st s)"

definition base_ok :: "service_lib \<Rightarrow> app_state \<Rightarrow> bool" where
  "base_ok lib st \<longleftrightarrow> state_ok st \<and> limits_ok st \<and> catalog_ok (vl_style lib) st
     \<and> geocoder_ok (vl_geocode lib) (geocoder st) \<and> control_token st \<noteq> Some []"

definition service_ok :: "service_lib \<Rightarrow> app_state \<Rightarrow> bool" where
  "service_ok lib st \<longleftrightarrow> base_ok lib st \<and> styles_ok (vl_style lib) st"

lemmas base_defs = base_ok_def state_ok_def limits_ok_def catalog_ok_def entry_valid_def

interpretation based: style_free "base_ok lib" for lib
  by unfold_locales (simp_all add: base_defs)

lemma styles_ok_frame [simp]:
  "styles_ok lib (st\<lparr>health := h\<rparr>) = styles_ok lib st" "styles_ok lib (st\<lparr>fill_permits := n\<rparr>) = styles_ok lib st"
  "styles_ok lib (st\<lparr>touch_permits := n\<rparr>) = styles_ok lib st" "styles_ok lib (st\<lparr>warm_jobs := js\<rparr>) = styles_ok lib st"
  "styles_ok lib (st\<lparr>active_warm_regions := rs\<rparr>) = styles_ok lib st" "styles_ok lib (st\<lparr>assets_warming := b\<rparr>) = styles_ok lib st"
  "styles_ok lib (st\<lparr>warm_seq := k\<rparr>) = styles_ok lib st" "styles_ok lib (st\<lparr>warm_rejections := k\<rparr>) = styles_ok lib st"
  "styles_ok lib (st\<lparr>live_scroll_ttl_secs := t\<rparr>) = styles_ok lib st" "styles_ok lib (st\<lparr>geocoder := g\<rparr>) = styles_ok lib st"
  "styles_ok lib (st\<lparr>shutdown_requested := b\<rparr>) = styles_ok lib st"
  by (rule styles_ok_cong; simp)+

section \<open>What every task keeps\<close>

definition leases_of :: "app_state \<Rightarrow> lease multiset" where
  "leases_of st = mset (leases (flights st))"

text \<open>The part of the state only a configuration push changes.\<close>

definition frozen :: "app_state \<Rightarrow> _" where
  "frozen st = (settings st, knobs st, config_generation st)"

text \<open>
  Since \<open>s0\<close>: the invariant holds, the leases \<open>M\<close> are still there, the catalog has changed only with the
  generation, and, with the flag, no push has happened at all.
\<close>

definition kept :: "service_lib \<Rightarrow> bool \<Rightarrow> lease multiset \<Rightarrow> app_state \<Rightarrow> app_state \<Rightarrow> bool" where
  "kept lib fz M s0 st \<longleftrightarrow> service_ok lib st \<and> M \<subseteq># leases_of st \<and> advance s0 st \<and> (fz \<longrightarrow> frozen st = frozen s0)"

lemma kept_service: "kept lib fz M s0 st \<Longrightarrow> service_ok lib st"
  by (simp add: kept_def)

lemmas same_defs = service_ok_def base_defs frozen_def settings_def leases_of_def

lemma kept_same:
  assumes "kept lib fz M s0 st" "service_ok lib st \<Longrightarrow> service_ok lib st'" "frozen st' = frozen st"
    "M \<subseteq># leases_of st \<Longrightarrow> M' \<subseteq># leases_of st'"
  shows "kept lib fz M' s0 st'"
  using assms by (auto simp: kept_def advance_def frozen_def settings_def)

lemma kept_flights:
  assumes "kept lib fz M s0 st" "flight_inv (flights st) \<Longrightarrow> flight_inv fl"
    "M \<subseteq># mset (leases (flights st)) \<Longrightarrow> M' \<subseteq># mset (leases fl)"
  shows "kept lib fz M' s0 (st\<lparr>flights := fl\<rparr>)"
  by (rule kept_same[OF assms(1)]) (use assms(2,3) in \<open>simp_all add: same_defs\<close>)

lemma lease_added:
  assumes "inflight_lock key s = (r, fl)" "M \<subseteq># mset (leases s)"
  shows "M \<subseteq># mset (leases fl)" "r = Some lock \<Longrightarrow> add_mset (key, lock, False) M \<subseteq># mset (leases fl)"
proof -
  have "M \<subseteq># add_mset l (mset (leases s))" for l
    using assms(2) by (metis add_mset_add_single mset_subset_eq_add_left subset_mset.order_trans)
  then show "M \<subseteq># mset (leases fl)" using assms lease_taken(2,3)[of key s] by (cases r) auto
  show "r = Some lock \<Longrightarrow> add_mset (key, lock, False) M \<subseteq># mset (leases fl)"
    using assms lease_taken(2)[of key s lock fl] by simp
qed

lemma held_lease:
  assumes "kept lib fz (add_mset l M) s0 st"
  shows "l \<in> set (leases (flights st))" "flight_inv (flights st)"
  using assms by (auto simp: kept_def same_defs dest: mset_subset_eqD)

interpretation served: style_upkeep "kept lib fz M s0" "\<lambda>l. kept lib fz (add_mset l M) s0" "vl_style lib" for lib fz M s0
proof unfold_locales
  fix st key r fl assume k: "kept lib fz M s0 st" and l: "inflight_lock key (flights st) = (r, fl)"
  show "kept lib fz M s0 (st\<lparr>flights := fl\<rparr>)"
    by (rule kept_flights[OF k]) (use flight_inv_laws(1) lease_added(1) l in blast)+
next
  fix st key lock fl assume k: "kept lib fz M s0 st" and l: "inflight_lock key (flights st) = (Some lock, fl)"
  show "kept lib fz (add_mset (key, lock, False) M) s0 (st\<lparr>flights := fl\<rparr>)"
    by (rule kept_flights[OF k]) (use flight_inv_laws(1) lease_added(2) l in blast)+
next
  fix st k assume "kept lib fz M s0 st"
  then show "kept lib fz M s0 (st\<lparr>flights := snd (inflight_contains k (flights st))\<rparr>)"
    by (rule kept_flights) (simp_all add: flight_inv_laws(2) lease_taken(4))
next
  fix key lock st assume k: "kept lib fz (add_mset (key, lock, False) M) s0 st"
  note h = held_lease[OF k]
  have "release_lock key lock st = st\<lparr>flights := flights (release_lock key lock st)\<rparr>" by (simp add: release_lock_def)
  moreover have "kept lib fz M s0 (st\<lparr>flights := flights (release_lock key lock st)\<rparr>)"
    using lease_given_back[OF h(1)] flight_inv_laws(3)[OF h(2,1)] by (intro kept_flights[OF k]) (simp_all add: insert_subset_eq_iff)
  ultimately show "kept lib fz M s0 (release_lock key lock st)" by simp
next
  fix key lock st assume "kept lib fz (add_mset (key, lock, False) M) s0 st"
  then show "kept lib fz M s0 (st\<lparr>flights := drop_lease (key, lock, False) (flights st)\<rparr>)"
    by (rule kept_flights) (rule flight_inv_laws(4), simp_all add: drop_lease_def insert_subset_eq_iff)
qed (erule kept_same, simp_all add: same_defs; fail | simp add: kept_def same_defs)+

interpretation served: warm_steps "kept lib fz M s0" for lib fz M s0
  by unfold_locales (erule kept_same, simp_all add: same_defs)+

section \<open>The other tasks\<close>

text \<open>
  What a handler relies on wherever it waits, and what every task of the service is proved to guarantee; \<open>p\<close> when
  configuration pushes are among the tasks.
\<close>

definition neighbour :: "service_lib \<Rightarrow> bool \<Rightarrow> (app_state \<Rightarrow> app_state) \<Rightarrow> bool" where
  "neighbour lib p f \<longleftrightarrow> (\<forall>st. service_ok lib st \<longrightarrow> kept lib (\<not> p) (leases_of st) st (f st))"

lemma kept_start: "service_ok lib st \<Longrightarrow> kept lib fz (leases_of st) st st"
  by (simp add: kept_def)

lemma kept_trans:
  assumes "kept lib fz M s0 st" "kept lib fz' (leases_of st) st st'" "fz \<longrightarrow> fz'"
  shows "kept lib fz M s0 st'"
  using assms advance_trans[of s0 st st'] subset_mset.order_trans[of M "leases_of st"] by (auto simp: kept_def)

lemma neighbourD: "neighbour lib (\<not> fz) f \<Longrightarrow> keeps (kept lib fz M s0) f"
  unfolding keeps_def neighbour_def by (metis kept_service kept_trans)

lemma neighbour_advance: "neighbour lib p f \<Longrightarrow> service_ok lib st \<Longrightarrow> advance st (f st)"
  by (simp add: neighbour_def kept_def)

lemma neighbour_frozen:
  assumes "neighbour lib False f" "service_ok lib st"
  shows "settings (f st) = settings st" "knobs (f st) = knobs st" "config_generation (f st) = config_generation st"
  using assms by (simp_all add: neighbour_def kept_def frozen_def)

lemma neighbour_weaken: "neighbour lib False f \<Longrightarrow> neighbour lib p f"
  by (simp add: neighbour_def kept_def)

lemma neighbour_id [simp]: "neighbour lib p id" "neighbour lib p (\<lambda>s. s)"
  by (simp_all add: neighbour_def kept_start)

lemma neighbour_comp: "neighbour lib p f \<Longrightarrow> neighbour lib p g \<Longrightarrow> neighbour lib p (\<lambda>s. g (f s))"
  unfolding neighbour_def by (metis kept_service kept_trans)

lemma guaranteed: "(\<And>M s0. keeps (kept lib (\<not> p) M s0) f) \<Longrightarrow> neighbour lib p f"
  unfolding neighbour_def by (metis kept_start keepsD)

definition fair_style :: "service_lib \<Rightarrow> bool \<Rightarrow> style_env \<Rightarrow> bool" where
  "fair_style lib p env \<longleftrightarrow> neighbour lib p (sw_flight env) \<and> neighbour lib p (sw_waited env) \<and> neighbour lib p (sw_storing env)"

definition fair_fill :: "service_lib \<Rightarrow> bool \<Rightarrow> fill_env \<Rightarrow> bool" where
  "fair_fill lib p env \<longleftrightarrow> neighbour lib p (fe_waited env) \<and> neighbour lib p (fe_others env)"

definition fair_route :: "service_lib \<Rightarrow> bool \<Rightarrow> route_env \<Rightarrow> bool" where
  "fair_route lib p env \<longleftrightarrow> neighbour lib p (ae_flight env) \<and> neighbour lib p (fe_others (ae_fill env)) \<and> neighbour lib p (ae_late env)
     \<and> fair_style lib p (ae_style env)"

text \<open>A push holds the configuration lock, so no other push runs while it waits.\<close>

definition fair_config :: "service_lib \<Rightarrow> config_env \<Rightarrow> bool" where
  "fair_config lib env \<longleftrightarrow> neighbour lib False (cf_enforcing env) \<and> neighbour lib False (cf_publishing env) \<and> distinct (cf_ids env)"

text \<open>Everything a handler meets.\<close>

definition fair_handler :: "service_lib \<Rightarrow> bool \<Rightarrow> handler_env \<Rightarrow> bool" where
  "fair_handler lib p env \<longleftrightarrow> fair_config lib (hv_config env) \<and> neighbour lib p (rd_waited (hv_delete env))
     \<and> recounts (rd_task (hv_delete env)) \<and> fair_fill lib p (rq_fill (hv_tile env)) \<and> fair_route lib p (hv_asset env)
     \<and> neighbour lib p (hv_late env) \<and> neighbour lib p (ge_waited (hv_geocode env))"

lemma fair_fill_tame: "fair_fill lib (\<not> fz) env \<Longrightarrow> tame_fill (\<lambda>l. kept lib fz (add_mset l M) s0) key env"
  by (simp add: fair_fill_def tame_fill_def neighbourD)

lemma fair_route_tame: "fair_route lib (\<not> fz) env \<Longrightarrow> tame_asset (kept lib fz M s0) (\<lambda>l. kept lib fz (add_mset l M) s0) env"
  by (simp add: fair_route_def tame_asset_def neighbourD)

lemma fair_style_tame: "fair_style lib (\<not> fz) env \<Longrightarrow> tame_style (\<lambda>l. kept lib fz (add_mset l M) s0) env"
  by (auto simp: fair_style_def tame_style_def neighbourD kept_service intro: neighbour_advance)

lemmas learning_served = served.learning_keeps[OF _ fair_style_tame]

section \<open>The handlers that read\<close>

lemma query_same: "snd (query failure f c) = c"
  by (simp add: query_def split: option.split)

lemma stats_work_inv: "cache_inv c \<Longrightarrow> cache_inv (snd (stats_work env c))"
  using real_region_bytes_inv[of c "sv_real env"]
  by (auto simp: stats_work_def split: option.split prod.splits sum.split)

text \<open>What a read meets keeps the property, and so do learning a style and the geocoder.\<close>

definition tame_read :: "(app_state \<Rightarrow> bool) \<Rightarrow> (lease \<Rightarrow> app_state \<Rightarrow> bool) \<Rightarrow> service_lib \<Rightarrow> handler_env \<Rightarrow> bool" where
  "tame_read I H lib env \<longleftrightarrow> (\<forall>key. tame_fill H key (rq_fill (hv_tile env))) \<and> tame_asset I H (hv_asset env)
     \<and> keeps I (hv_late env) \<and> keeps I (ge_waited (hv_geocode env))
     \<and> (\<forall>src. keeps I (\<lambda>s. snd (fetch_and_learn (vl_style lib) (ae_style (hv_asset env)) src s)))
     \<and> (\<forall>kn la lo. keeps I (\<lambda>s. s\<lparr>geocoder := snd (geocode_locked (vl_geocode lib) kn (hv_geocode env) la lo (geocoder s))\<rparr>))"

context upkeep begin

lemma figures_keep:
  assumes "I st"
  shows "I (snd (stats_route out e st))" "I (snd (region_bytes_route out b f rid st))" "I (snd (all_region_bytes_route out b f st))"
  using assms stats_work_inv
  by (auto simp: stats_route_def region_bytes_route_def all_region_bytes_route_def Let_def query_same
      split: prod.split option.split elim!: task_keeps[rotated 2])

lemma tile_keeps:
  assumes "I st" "tame_read I H lib env"
  shows "I (snd (snd (tile_route sha display legal w (hv_tile env) now src z x y inm st)))"
proof -
  obtain l sp st' where g: "get_tile sha display w (hv_tile env) src z x y inm st = (l, sp, st')" by (metis prod.exhaust)
  have "tame_fill H (inflight_key (src, z, x, y)) (rq_fill (hv_tile env))" using assms(2) by (simp add: tame_read_def)
  from get_tile_keeps[OF assms(1) this g] show ?thesis by (simp add: tile_route_def g)
qed

lemma style_keeps:
  assumes "I st" "tame_read I H lib env"
  shows "I (snd (snd (glyphs (vl_style lib) legal (hv_asset env) src fontstack rg inm st)))"
    "I (snd (snd (sprite_variant (vl_style lib) legal (hv_asset env) src inm variant suffix st)))"
    "I (snd (snd (vector_tile (vl_style lib) legal (hv_asset env) src name z x y inm st)))"
    "I (snd (style_doc (vl_style lib) legal (ae_style (hv_asset env)) (hv_late env) now src inm st))"
proof -
  have l: "I (snd (fetch_and_learn (vl_style lib) (ae_style (hv_asset env)) src st))"
    using assms keepsD[of I "\<lambda>s. snd (fetch_and_learn (vl_style lib) (ae_style (hv_asset env)) src s)"] by (auto simp: tame_read_def)
  then have e: "I (snd (ensure_style_learned (vl_style lib) (ae_style (hv_asset env)) src st))"
    using assms(1) by (auto simp: ensure_style_learned_def split: prod.split)
  have t: "tame_asset I H (hv_asset env)" "keeps I (hv_late env)" using assms(2) by (simp_all add: tame_read_def)
  show "I (snd (snd (glyphs (vl_style lib) legal (hv_asset env) src fontstack rg inm st)))"
    "I (snd (snd (sprite_variant (vl_style lib) legal (hv_asset env) src inm variant suffix st)))"
    "I (snd (snd (vector_tile (vl_style lib) legal (hv_asset env) src name z x y inm st)))"
    by (rule style_routes_keep[OF assms(1) e t(1)])+
  show "I (snd (style_doc (vl_style lib) legal (ae_style (hv_asset env)) (hv_late env) now src inm st))"
    by (rule style_doc_keeps[OF assms(1) l t(2)])
qed

lemma geocode_keeps:
  assumes "I st" "tame_read I H lib env"
  shows "I (snd (geocode (vl_geocode lib) (hv_geocode env) lat lon st))"
proof -
  have w: "I (ge_waited (hv_geocode env) st)" using assms keepsD by (auto simp: tame_read_def)
  have "I (s\<lparr>geocoder := snd (geocode_locked (vl_geocode lib) kn (hv_geocode env) la lo (geocoder s))\<rparr>)" if "I s" for s kn la lo
    using assms(2) that keepsD[of I "\<lambda>s. s\<lparr>geocoder := snd (geocode_locked (vl_geocode lib) kn (hv_geocode env) la lo (geocoder s))\<rparr>"]
    by (auto simp: tame_read_def)
  from assms(1) this[OF w] show ?thesis by (auto simp: geocode_def Let_def case_prod_unfold split: option.split)
qed

lemma wrappers_keep:
  "I st \<Longrightarrow> I (snd (rejected_reply n st))" "I (snd x) \<Longrightarrow> I (snd (map_reply x))" "I (snd (snd y)) \<Longrightarrow> I (snd (spawning y))"
  "I (snd z) \<Longrightarrow> I (snd (style_reply z))" "I (snd v) \<Longrightarrow> I (snd (strip_body m v))"
  by (auto simp: rejected_reply_def map_reply_def spawning_def style_reply_def strip_body_def split: prod.splits)

lemma extractors_keep:
  assumes "I st"
  shows "(\<And>p. I (snd (h p st))) \<Longrightarrow> I (snd (with_path lib segs h st))"
    "(\<And>z x y. I (snd (g z x y st))) \<Longrightarrow> I (snd (with_tile a b c g st))"
    "(\<And>v. I (snd (k v st))) \<Longrightarrow> I (snd (with_body d k st))"
  using assms wrappers_keep(1) by (auto simp: with_path_def with_tile_def with_body_def split: option.split sum.split)

lemma get_keeps:
  assumes "I st" "tame_read I H lib env"
  shows "I (snd (handle_get lib env req e st))"
proof -
  have g: "I (snd (case geocode (vl_geocode lib) (hv_geocode env) la lo st of ((r, _), s') \<Rightarrow> (answer r, s')))" for la lo
    using geocode_keeps[OF assms, of la lo] by (simp add: case_prod_unfold)
  show ?thesis
    using assms(1)
    by (cases e) (auto simp: handle_get_def Let_def sprite_json_def sprite_png_def sprite_2x_json_def sprite_2x_png_def g
        intro!: wrappers_keep extractors_keep figures_keep tile_keeps[OF _ assms(2)] style_keeps[OF _ assms(2)])
qed

end

lemma fair_read:
  assumes "fair_handler lib (\<not> fz) env" shows "tame_read (kept lib fz M s0) (\<lambda>l. kept lib fz (add_mset l M) s0) lib env"
proof -
  have l: "fair_style lib (\<not> fz) (ae_style (hv_asset env))" using assms by (simp add: fair_handler_def fair_route_def)
  have "kept lib fz M s0 (s\<lparr>geocoder := snd (geocode_locked (vl_geocode lib) kn (hv_geocode env) la lo (geocoder s))\<rparr>)"
    if "kept lib fz M s0 s" for s kn la lo
    by (rule kept_same[OF that])
      (use geocode_locked_ok[of "vl_geocode lib" "geocoder s" kn "hv_geocode env" la lo] in \<open>simp_all add: same_defs\<close>)
  with assms learning_served(1)[OF _ l] show ?thesis
    by (auto simp: tame_read_def fair_handler_def fair_fill_tame fair_route_tame keeps_def dest: neighbourD[THEN keepsD])
qed

section \<open>The handlers that change\<close>

lemma next_generation_base [simp]: "base_ok lib (next_generation st) = base_ok lib st"
  by (simp add: base_defs next_generation_def)

lemma publish_frame:
  assumes "distinct (cf_ids env)" and st': "st' = publish_config lib env b st"
  shows "health st' = health (cf_publishing env st)" "flights st' = flights (cf_publishing env st)"
    "geocoder st' = geocoder (cf_publishing env st)" "control_token st' = control_token (cf_publishing env st)"
    "live_scroll_ttl_secs st' = opt_or (cb_scroll_ttl_secs b) (live_scroll_ttl_secs (cf_publishing env st))"
proof -
  let ?p = "(cf_publishing env st)\<lparr>sources := catalog_of (cb_sources b)\<rparr>"
  obtain c ss where h: "rehydrate_style_state lib (cf_rehydrate env) (cf_ids env) (config_generation ?p + 1) ?p
      = ?p\<lparr>cache := c, style_states := ss\<rparr>"
    using rehydrate_frame[OF assms(1)] by metis
  show "health st' = health (cf_publishing env st)" "flights st' = flights (cf_publishing env st)"
    "geocoder st' = geocoder (cf_publishing env st)" "control_token st' = control_token (cf_publishing env st)"
    "live_scroll_ttl_secs st' = opt_or (cb_scroll_ttl_secs b) (live_scroll_ttl_secs (cf_publishing env st))"
    unfolding st' publish_config_def Let_def h by (simp_all add: publish_options_def next_generation_def mark_configured_def)
qed

lemma config_waits:
  assumes "service_ok lib st" "fair_config lib env"
  defines "st1 \<equiv> cf_enforcing env (next_generation st)"
  shows "service_ok lib st1" "settings st1 = settings st" "knobs st1 = knobs st" "config_generation st1 = config_generation st + 1"
    "leases_of st \<subseteq># leases_of st1"
    "service_ok lib s \<Longrightarrow> service_ok lib (cf_publishing env s)" "service_ok lib s \<Longrightarrow> settings (cf_publishing env s) = settings s"
    "service_ok lib s \<Longrightarrow> knobs (cf_publishing env s) = knobs s"
    "service_ok lib s \<Longrightarrow> config_generation (cf_publishing env s) = config_generation s"
    "service_ok lib s \<Longrightarrow> leases_of s \<subseteq># leases_of (cf_publishing env s)"
proof -
  have n: "service_ok lib (next_generation st)" using assms(1) next_generation_ok by (simp add: service_ok_def)
  have f: "neighbour lib False (cf_enforcing env)" "neighbour lib False (cf_publishing env)" using assms(2) by (simp_all add: fair_config_def)
  have "kept lib True (leases_of (next_generation st)) (next_generation st) st1" using f(1) n by (simp add: neighbour_def st1_def)
  then show "service_ok lib st1" "settings st1 = settings st" "knobs st1 = knobs st" "config_generation st1 = config_generation st + 1"
    "leases_of st \<subseteq># leases_of st1"
    by (simp_all add: kept_def frozen_def leases_of_def) (simp add: next_generation_def)
  assume "service_ok lib s"
  then have "kept lib True (leases_of s) s (cf_publishing env s)" using f(2) by (simp add: neighbour_def)
  then show "service_ok lib (cf_publishing env s)" "settings (cf_publishing env s) = settings s" "knobs (cf_publishing env s) = knobs s"
    "config_generation (cf_publishing env s) = config_generation s" "leases_of s \<subseteq># leases_of (cf_publishing env s)"
    by (simp_all add: kept_def frozen_def)
qed

lemma service_parts:
  assumes "service_ok lib st" shows "base_ok lib st" "styles_ok (vl_style lib) st" "cache_inv (cache st)"
  using assms by (simp_all add: service_ok_def base_ok_def state_ok_def)

lemma service_cache: "service_ok lib st \<Longrightarrow> cache_inv c \<Longrightarrow> service_ok lib (st\<lparr>cache := c\<rparr>)"
  by (simp add: service_ok_def base_defs)

lemma config_base:
  assumes "service_ok lib st" "fair_config lib env" "config (vl_style lib) sj env b st = (r, st')"
  shows "base_ok lib st'" "leases_of st \<subseteq># leases_of st'" "advance st st'"
proof -
  let ?st1 = "cf_enforcing env (next_generation st)"
  note w = config_waits[OF assms(1,2)]
  note b1 = service_parts[OF w(1)]
  have "base_ok lib st' \<and> leases_of st \<subseteq># leases_of st' \<and> advance st st'"
    using assms(3)
  proof (cases rule: config_cases)
    case (refused e)
    with service_parts(1)[OF assms(1)] show ?thesis by simp
  next
    case (failed c)
    have "base_ok lib (next_generation ?st1)" using b1(1) by simp
    from based.cache_step[OF this] failed(3,4) b1(3) w(3-5) show ?thesis
      by (simp add: leases_of_def advance_def) (simp add: next_generation_def)
  next
    case (irreducible p)
    with b1(1) w(3-5) show ?thesis by (simp add: leases_of_def advance_def) (simp add: next_generation_def)
  next
    case (applied c)
    let ?s = "?st1\<lparr>cache := c\<rparr>"
    have c: "cache_inv c" using enforce_cap_inv[OF b1(3)] applied(3) by (metis snd_conv)
    have s: "service_ok lib ?s" by (rule service_cache[OF w(1) c])
    note p = service_parts[OF w(6)[OF s]]
    have f: "distinct (cf_ids env)" using assms(2) by (simp add: fair_config_def)
    note pf = publish_config_facts[OF w(7-9)[OF s] p(3) f applied(4)]
    note a = accepted_body[OF applied(1)]
    note e = publish_frame[OF f applied(4)]
    have lim: "live_cap_bytes st' = ll_cap (pushed_limits b st)" "live_regions_budget st' = ll_regions (pushed_limits b st)"
      "live_position_warm_budget st' = ll_position (pushed_limits b st)" "sources st' = catalog_of (cb_sources b)"
      "knobs st' = knobs st" "cache_inv (cache st')"
      using pf(1,3,4) c w(2,3) by (simp_all add: settings_def pushed_limits_def)
    have ttl: "0 \<le> live_scroll_ttl_secs st'" "live_scroll_ttl_secs st' \<le> MAX_SCROLL_TTL_SECS"
      using a(10,11) p(1) unfolding e by (cases "cb_scroll_ttl_secs b"; simp add: pushed_limits_def base_defs)+
    have cat: "catalog_ok (vl_style lib) st'"
      using a(2) catalog_of_some[of "cb_sources b"] unfolding catalog_ok_def lim
      by (auto simp: list_all_iff entry_valid_def lim(5))
    have "base_ok lib st'"
      using p(1) a(6-9) lim(1-3,6) ttl cat by (simp add: base_ok_def state_ok_def limits_ok_def e(1-4))
    moreover have "leases_of st \<subseteq># leases_of st'"
      using w(5) w(10)[OF s] by (simp add: leases_of_def e(2))
    moreover have "advance st st'" using pf(2) w(4) lim(5) by (simp add: advance_def)
    ultimately show ?thesis by simp
  qed
  then show "base_ok lib st'" "leases_of st \<subseteq># leases_of st'" "advance st st'" by blast+
qed

lemma config_kept:
  assumes "kept lib False M s0 st" "fair_config lib env"
  shows "kept lib False M s0 (snd (config (vl_style lib) sj env b st))"
proof -
  obtain r st' where c: "config (vl_style lib) sj env b st = (r, st')" by (meson surj_pair)
  note s = kept_service[OF assms(1)]
  have "distinct (cf_ids env)" using assms(2) by (simp add: fair_config_def)
  from config_styles_ok[OF service_parts(2)[OF s] service_parts(2)[OF config_waits(1)[OF s assms(2)]] this c]
    config_base[OF s assms(2) c] have "kept lib False (leases_of st) st st'" by (simp add: kept_def service_ok_def)
  from kept_trans[OF assms(1) this] show ?thesis by (simp add: c)
qed

lemma deletion_inv:
  assumes "recounts t" "cache_inv c"
  shows "cache_inv (snd (case delete_region (task_env t) rid c of
      (Inl e, c') \<Rightarrow> (Inl e, c') | (Inr _, c') \<Rightarrow> (Inr (), log_cache_err (evict_to ev cap c'))))"
  using delete_region_inv[of c "task_env t" rid] assms by (auto split: prod.splits sum.split intro!: inv_intro)

lemma cancelled_kept: "kept lib fz M s0 st \<Longrightarrow> kept lib fz M s0 (snd (cancel_region_warms polls rid st))"
  using served.jobs_step by (simp add: cancel_region_warms_def update_jobs_def)

lemma deletion_kept:
  assumes "kept lib fz M s0 st" "neighbour lib (\<not> fz) (rd_waited env)" "recounts (rd_task env)"
  shows "kept lib fz M s0 (snd (delete_region_route env rid st))"
proof -
  let ?work = "\<lambda>cap c. case delete_region (task_env (rd_task env)) rid c of
      (Inl e, c') \<Rightarrow> (Inl e, c') | (Inr _, c') \<Rightarrow> (Inr (), log_cache_err (evict_to (rd_evict env) cap c'))"
  have w: "cache_inv c \<Longrightarrow> cache_inv (snd (?work cap c))" for cap c by (rule deletion_inv[OF assms(3)])
  obtain ended st0 where d: "cancel_region_warms (rd_polls env) rid st = (ended, st0)" by (meson surj_pair)
  let ?s = "rd_waited env st0"
  have "kept lib fz M s0 st0" using cancelled_kept[OF assms(1), of "rd_polls env" rid] d by simp
  then have s: "kept lib fz M s0 ?s" by (rule keepsD[OF neighbourD[OF assms(2)]])
  obtain x c where k: "cache_task (joined (rd_task env)) (?work (live_cap_bytes ?s)) (cache ?s) = (x, c)" by (meson surj_pair)
  have c: "kept lib fz M s0 (?s\<lparr>cache := c\<rparr>)" by (rule served.task_keeps[OF s w k])
  show ?thesis
    using assms(1) s c by (simp add: delete_region_route_def Let_def d k split: option.split)
qed

lemma clear_kept:
  assumes "kept lib fz M s0 st" shows "kept lib fz M s0 (snd (clear_scroll out b fls rc st))"
proof -
  obtain x c where k: "cache_task b (clear_unpinned fls rc) (cache st) = (x, c)" by (meson surj_pair)
  have "kept lib fz M s0 (st\<lparr>cache := c\<rparr>)" by (rule served.task_keeps[OF assms _ k]) (rule clear_inv)
  then show ?thesis by (simp add: clear_scroll_def k split: option.split)
qed

lemma ttl_kept: "kept lib fz M s0 st \<Longrightarrow> kept lib fz M s0 (snd (set_scroll_ttl ttl st))"
  by (auto simp: set_scroll_ttl_def same_defs elim!: kept_same)

lemma warms_kept:
  assumes "kept lib fz M s0 st"
  shows "kept lib fz M s0 (snd (snd (warm_start merc out message env b st)))" "kept lib fz M s0 (snd (warm_cancel jid st))"
    "kept lib fz M s0 (cancel_all_warms st)"
proof -
  have f: "kept lib fz M s0 (s\<lparr>warm_seq := n, warm_jobs := js\<rparr>)" "kept lib fz M s0 (s\<lparr>warm_rejections := k\<rparr>)"
    "kept lib fz M s0 (s\<lparr>shutdown_requested := True, warm_jobs := js\<rparr>)"
    "kept lib fz M s0 (s\<lparr>warm_seq := n, warm_jobs := js, active_warm_regions := rs\<rparr>)" if "kept lib fz M s0 s" for s n js k rs
    by (rule kept_same[OF that]; simp add: same_defs)+
  have sw: "kept lib fz M s0 (snd (start_warm merc locked now req st))" for locked now req
    using assms f by (auto simp: start_warm_def Let_def split: sum.split prod.split)
  show "kept lib fz M s0 (snd (snd (warm_start merc out message env b st)))"
    using assms sw[of "wt_locked env" "wt_now env" "warm_request_of b"] f(2)
    by (auto simp: warm_start_def count_rejection_def split: prod.splits sum.splits)
  show "kept lib fz M s0 (snd (warm_cancel jid st))"
    using assms served.jobs_step by (auto simp: warm_cancel_def cancel_warm_def update_jobs_def split: option.split)
  show "kept lib fz M s0 (cancel_all_warms st)"
    using assms f(3) by (simp add: cancel_all_warms_def update_jobs_def)
qed

lemma change_kept:
  assumes "kept lib fz M s0 st" "fair_handler lib (\<not> fz) env" "fz \<Longrightarrow> e \<noteq> E_config"
  shows "kept lib fz M s0 (snd (handle_change lib env req e st))"
proof -
  have d: "kept lib fz M s0 (snd (delete_region_route (hv_delete env) rid st))" for rid
    using deletion_kept[OF assms(1)] assms(2) by (simp add: fair_handler_def)
  have c: "kept lib fz M s0 (snd (config (vl_style lib) out (hv_config env) b st))" if "e = E_config" for out b
    using config_kept[of lib M s0 st] that assms by (cases fz) (auto simp: fair_handler_def)
  have w: "kept lib fz M s0 (snd (case warm_start merc out msg we b st of
      (r, spec, s') \<Rightarrow> ((Some r, (case spec of Some sp \<Rightarrow> [Work_warm sp] | None \<Rightarrow> [])), s')))" for merc out msg we b
    using warms_kept(1)[OF assms(1), of merc out msg we b] by (simp add: case_prod_unfold)
  have t: "kept lib fz M s0 (snd (case set_scroll_ttl ttl st of (n, s') \<Rightarrow> (answer (plain_response n), s')))" for ttl
    using ttl_kept[OF assms(1), of ttl] by (simp add: case_prod_unfold)
  show ?thesis
    using assms(1)
    by (cases e) (auto simp: handle_change_def d c w t
        intro!: served.wrappers_keep served.extractors_keep clear_kept warms_kept(2))
qed

text \<open>A request that may be a push, by its path.\<close>

definition may_push :: "http_request \<Rightarrow> bool" where
  "may_push req \<longleftrightarrow> path_endpoint (hr_path req) = Some E_config"

lemma router_kept:
  assumes "kept lib fz M s0 st" "fair_handler lib (\<not> fz) env" "fz \<Longrightarrow> \<not> may_push req"
  shows "kept lib fz M s0 (snd (authorized_router lib env req st))"
proof -
  have c: "kept lib fz M s0 (snd (handle_change lib env req e st))" if "path_endpoint (hr_path req) = Some e" for e
    by (rule change_kept[OF assms(1,2)]) (use assms(3) that in \<open>auto simp: may_push_def\<close>)
  have "kept lib fz M s0 (snd (router lib env req st))"
    using assms(1) served.get_keeps[OF assms(1) fair_read[OF assms(2)]] c
    by (auto simp: router_def split: option.split intro!: served.wrappers_keep)
  with assms(1) show ?thesis by (simp add: authorized_router_def require_control_token_def)
qed

section \<open>Replies\<close>

text \<open>The response satisfies \<open>P\<close> and the work left behind \<open>W\<close>.\<close>

definition replies :: "(http_response \<Rightarrow> bool) \<Rightarrow> (background \<Rightarrow> bool) \<Rightarrow> reply \<times> app_state \<Rightarrow> bool" where
  "replies P W x \<longleftrightarrow> (\<forall>r. fst (fst x) = Some r \<longrightarrow> P r) \<and> list_all W (snd (fst x))"

lemma replies_wrap:
  "P (plain_response n) \<Longrightarrow> replies P W (rejected_reply n st)"
  "P (fst x) \<Longrightarrow> replies P W (map_reply x)"
  "P (fst y) \<Longrightarrow> list_all W (map Work_spawned (fst (snd y))) \<Longrightarrow> replies P W (spawning y)"
  "(\<And>r. fst z = Some r \<Longrightarrow> P r) \<Longrightarrow> replies P W (style_reply z)"
  "P r \<Longrightarrow> replies P W (answer r, st)"
  "(\<And>r. P r \<Longrightarrow> P (r\<lparr>body := []\<rparr>)) \<Longrightarrow> replies P W v \<Longrightarrow> replies P W (strip_body m v)"
  by (auto simp: replies_def rejected_reply_def map_reply_def spawning_def style_reply_def answer_def strip_body_def
      list_all_iff split: prod.splits)

lemma replies_extract:
  "P (plain_response 400) \<Longrightarrow> (\<And>p. replies P W (h p st)) \<Longrightarrow> replies P W (with_path lib segs h st)"
  "P (plain_response 400) \<Longrightarrow> (\<And>z x y. replies P W (g z x y st)) \<Longrightarrow> replies P W (with_tile a b c g st)"
  "(\<And>n. d = Inl n \<Longrightarrow> P (plain_response n)) \<Longrightarrow> (\<And>v. replies P W (k v st)) \<Longrightarrow> replies P W (with_body d k st)"
  by (auto simp: with_path_def with_tile_def with_body_def intro: replies_wrap split: option.split sum.split)

end
