(* ===== verification/Cancel_Props.thy ===== *)
theory Cancel_Props
  imports Cancel Service_Props
begin

text \<open>
  A request whose client leaves keeps the invariant of the service, at whatever wait it is dropped.
\<close>

section \<open>Tasks and flights\<close>

context steps begin

lemma orphaned_keeps: "I st \<Longrightarrow> (\<And>c. cache_inv c \<Longrightarrow> cache_inv (snd (work c))) \<Longrightarrow> I (orphaned b work st)"
  using on_cache[of st] by (auto simp: orphaned_def)

lemma upstream_cut_health: "upstream_cut w kn src url v retried h = Some h' \<Longrightarrow> health_inv h \<Longrightarrow> health_inv h'"
  by (auto simp: upstream_cut_def inv_intro split: if_splits)

lemma fetch_asset_cut_keeps:
  assumes "keeps I (fe_others env)" "I st" "fetch_asset_cut lib w env key url wt st = Some st'"
  shows "I st'"
proof -
  obtain found c where g: "cache_get (fe_lookup env) (ak_key key) (cache st) = (found, c)" by (meson surj_pair)
  have c: "I (st\<lparr>cache := c\<rparr>)" using lookup_keeps[OF assms(2), of "fe_lookup env" "ak_key key"] g by simp
  show ?thesis
  proof (cases wt)
    case (Answer retried)
    then obtain v h' where u: "upstream_cut w (knobs st) (ak_health key) url v retried (health st) = Some h'"
      and st': "st' = fe_others env (st\<lparr>cache := c, health := h'\<rparr>)"
      using assms(3) by (auto simp: fetch_asset_cut_def g)
    from others_keep[OF assms(1) c upstream_cut_health[OF u parts(2)[OF assms(2)]]] st' show ?thesis by simp
  next
    case Store
    with assms(3) fetch_asset_keeps[OF assms(1,2), of lib "\<lambda>_. True" w key url None] show ?thesis
      by (simp add: fetch_asset_cut_def g)
  qed (use assms(3) c in \<open>simp_all add: fetch_asset_cut_def g\<close>)
qed

lemma fetch_allowed_cut_keeps:
  assumes "keeps I (fe_others (ae_fill env))" "I st" "fetch_allowed_cut lib env key url wt st = Some st'"
  shows "I st'"
proof -
  have "fetch_asset_cut lib (ae_wire env) (ae_fill env) key url wt st = Some st'"
    using assms(3) by (simp add: fetch_allowed_cut_def Let_def split: if_splits)
  from fetch_asset_cut_keeps[OF assms(1,2) this] show ?thesis .
qed

end

context upkeep begin

lemma left_keeps: "H (key, lock, False) st \<Longrightarrow> I (leave_flight key lock st)"
  using leave_step by (simp add: leave_flight_def)

lemma get_tile_cut_keeps:
  assumes "I st" "get_tile_cut display rq w src z x y inm st = Some (sp, st')"
  shows "I st'"
proof -
  obtain s url where s: "sources st src = Some s" "expand_upstream display s z x y = Inr url"
    using assms(2) by (auto simp: get_tile_cut_def split: option.splits sum.splits)
  let ?spec = "\<lparr>fs_source = src, fs_z = z, fs_x = x, fs_y = y, fs_url = url, fs_if_none_match = inm\<rparr>"
  obtain found c where g: "cache_get (rq_lookup rq) (spec_key ?spec) (cache st) = (found, c)" by (meson surj_pair)
  have c: "I (st\<lparr>cache := c\<rparr>)" using lookup_keeps[OF assms(1), of "rq_lookup rq" "spec_key ?spec"] g by simp
  obtain r sp2 st2 where i: "(case found of Inr (Some t) \<Rightarrow> serve_inline (st\<lparr>cache := c\<rparr>) ?spec (tile_windows_for st src) (rq_now rq) t
      | _ \<Rightarrow> (None, [], st\<lparr>cache := c\<rparr>)) = (r, sp2, st2)" by (metis prod.exhaust)
  have "I st2"
    using i c serve_inline_keeps[OF c] by (auto split: sum.splits option.splits) (metis snd_conv)+
  from spawn_fill_keeps[OF this, of ?spec] c assms(2) show ?thesis
    by (auto simp: get_tile_cut_def Let_def s g i split: tile_wait.splits option.splits prod.splits)
qed

section \<open>Assets\<close>

text \<open>The scaffold, with the waits of what runs under its lock.\<close>

lemma single_flight_cut_keeps:
  assumes "I st" "\<And>l. keeps (H l) (ae_flight env)"
    and "\<And>now r s. I s \<Longrightarrow> I (snd (snd (serve now r s)))"
    and "\<And>l now r s. H l s \<Longrightarrow> H l (snd (snd (serve now r s)))"
    and "\<And>l s s' w. H l s \<Longrightarrow> fetch_cut w s = Some s' \<Longrightarrow> H l s'"
    and "single_flight_cut env k serve fetch_cut w st = Some st'"
  shows "I st'"
proof (cases "w = First_lookup")
  case True
  with assms(6) lookup_keeps[OF assms(1), of "ae_first env" k] show ?thesis by (simp add: single_flight_cut_def)
next
  case False
  obtain r sp st1 where a: "look_and_serve serve (ae_first env) (ae_now env) k st = (r, sp, st1)" by (metis prod.exhaust)
  have st1: "I st1"
    using look_and_serve_keeps[of I st "ae_first env" k serve "ae_now env", OF assms(1) lookup_keeps assms(3)] by (simp add: a)
  obtain lk fl where l: "inflight_lock (inflight_key k) (flights st1) = (lk, fl)" by (meson surj_pair)
  obtain lock where lk: "lk = Some lock" "r = None"
    using assms(6) False by (auto simp: single_flight_cut_def a l Let_def split: option.splits)
  let ?l = "(inflight_key k, lock, False)" and ?st2 = "ae_flight env (st1\<lparr>flights := fl\<rparr>)"
  have h2: "H ?l ?st2" by (rule keepsD[OF assms(2) locked(2)[OF st1 l lk(1)]])
  obtain r2 sp2 st3 where b: "look_and_serve serve (ae_second env) (ae_recheck env) k ?st2 = (r2, sp2, st3)" by (metis prod.exhaust)
  have h3: "H ?l st3"
    using look_and_serve_keeps[of "H ?l" _ "ae_second env" k serve "ae_recheck env", OF h2 held.lookup_keeps assms(4)] b by simp
  have "\<exists>s. H ?l s \<and> st' = leave_flight (inflight_key k) lock s"
    using assms(6) False h2 held.lookup_keeps[OF h2, of "ae_second env" k] assms(5)[OF h3]
    by (cases w) (auto simp: single_flight_cut_def a l lk b Let_def split: option.splits)
  with left_keeps show ?thesis by blast
qed

lemma asset_cut_keeps:
  assumes "I st" "tame_asset I H env" "\<And>l s s' w. H l s \<Longrightarrow> fetch_cut w s = Some s' \<Longrightarrow> H l s'"
    and "single_flight_cut env k (serve_asset lib legal kind tch k inm) fetch_cut w st = Some st'"
  shows "I st'"
  by (rule single_flight_cut_keeps[OF assms(1) tame_assetD(1)[OF assms(2)] serve_asset_keeps held.serve_asset_keeps assms(3,4)])

lemma tame_fetch_cut:
  "tame_asset I H env \<Longrightarrow> H l s \<Longrightarrow> fetch_allowed_cut lib env key url wt s = Some s' \<Longrightarrow> H l s'"
  by (rule held.fetch_allowed_cut_keeps[OF tame_assetD(2)])

text \<open>What the routes need of learning: dropped in the middle of it, or completed.\<close>

lemma with_learned_cut_keeps:
  assumes "\<And>lw s. learn_cut lib (ae_style env) src lw st = Some s \<Longrightarrow> I s" "I (snd (ensure_style_learned lib (ae_style env) src st))"
    and "tame_asset I H env" "\<And>aw learned s s'. I s \<Longrightarrow> k aw learned s = Some s' \<Longrightarrow> I s'"
    and "with_learned_cut lib env src w st k = Some st'"
  shows "I st'"
proof (cases w)
  case (Learn lw)
  with assms(1,5) show ?thesis by (simp add: with_learned_cut_def)
next
  case Late
  with assms(2,3,5) keepsD[of I "ae_late env"] show ?thesis
    by (auto simp: with_learned_cut_def tame_asset_def Let_def split: prod.splits bool.splits)
next
  case (Asset aw)
  obtain st1 where e: "ensure_style_learned lib (ae_style env) src st = (True, st1)"
    using assms(5) Asset by (auto simp: with_learned_cut_def split: prod.splits bool.splits)
  have "I (ae_late env st1)" using assms(2,3) e keepsD[of I "ae_late env"] by (simp add: tame_asset_def)
  moreover obtain learned where "k aw learned (ae_late env st1) = Some st'"
    using assms(5) Asset e by (auto simp: with_learned_cut_def Let_def split: bind_splits)
  ultimately show ?thesis by (rule assms(4))
qed

lemma style_cuts_keep:
  assumes "\<And>lw s. learn_cut lib (ae_style env) src lw st = Some s \<Longrightarrow> I s" "I (snd (ensure_style_learned lib (ae_style env) src st))"
    and "tame_asset I H env"
  shows "glyphs_cut lib env src fontstack rg w st = Some st' \<Longrightarrow> I st'"
    "sprite_cut lib env src variant suffix w st = Some st' \<Longrightarrow> I st'"
    "vector_tile_cut lib env src name z x y w st = Some st' \<Longrightarrow> I st'"
proof -
  have g: "I s'" if "I s" "single_flight_cut env k (serve_asset lib legal kind tch k inm)
      (\<lambda>aw s. Option.bind t (\<lambda>v. fetch_allowed_cut lib env key (u v) aw s)) aw s = Some s'"
    for s s' k kind tch inm legal t key aw and u :: "string \<Rightarrow> string"
    using tame_fetch_cut[OF assms(3)] by (intro asset_cut_keeps[OF that(1) assms(3) _ that(2)]) (auto split: bind_splits)
  have v: "I s'" if "I s" "single_flight_cut env k (serve_asset lib legal kind tch k inm) (fetch_allowed_cut lib env key url) aw s = Some s'"
    for s s' k kind tch inm legal key url aw
    using tame_fetch_cut[OF assms(3)] by (intro asset_cut_keeps[OF that(1) assms(3) _ that(2)]) auto
  have w: "I st'" if "with_learned_cut lib env src w st k = Some st'" "\<And>aw learned s s'. I s \<Longrightarrow> k aw learned s = Some s' \<Longrightarrow> I s'" for k
    by (rule with_learned_cut_keeps[OF _ assms(2,3) that(2,1)]) (rule assms(1))
  show "glyphs_cut lib env src fontstack rg w st = Some st' \<Longrightarrow> I st'"
  proof -
    assume a: "glyphs_cut lib env src fontstack rg w st = Some st'"
    then obtain start canonical where r: "glyph_range rg = Some (start, canonical)"
      by (auto simp: glyphs_cut_def split: option.splits)
    show "I st'"
      using a[unfolded glyphs_cut_def r option.case prod.case Let_def] by (rule w) (auto split: if_splits dest: g)
  qed
  show "sprite_cut lib env src variant suffix w st = Some st' \<Longrightarrow> I st'"
    unfolding sprite_cut_def Let_def by (erule w) (auto dest: g)
  show "vector_tile_cut lib env src name z x y w st = Some st' \<Longrightarrow> I st'"
    unfolding vector_tile_cut_def Let_def by (erule w) (auto split: option.splits list.splits if_splits dest: v)
qed

end

section \<open>Learning a style\<close>

context style_upkeep begin

lemma learn_cut_keeps:
  assumes "I st" "tame_style H env" "learn_cut lib env src w st = Some st'"
  shows "I st'"
proof -
  define key where "key = ''style-learn:'' @ dec (config_generation st) @ '':'' @ src"
  note cut = assms(3)[unfolded learn_cut_def Let_def, folded key_def]
  obtain lk fl where l: "inflight_lock key (flights st) = (lk, fl)" by (meson surj_pair)
  let ?st1 = "sw_flight env (st\<lparr>flights := fl\<rparr>)"
  obtain lock s where lk: "lk = Some lock" and st': "st' = leave_flight key lock s"
    and s: "s = ?st1 \<or> s = sw_waited env ?st1 \<or> s = snd (learn_style lib env src (config_generation st) ?st1)"
    using cut by (cases w) (auto simp: l split: if_splits option.splits)
  note h = learn_locked[OF assms(1,2) l[unfolded lk]]
  have "keeps (H (key, lock, False)) (sw_waited env)" using assms(2) unfolding tame_style_def by blast
  then have "H (key, lock, False) s" using s h(1) keepsD learn_keeps[OF assms(2) h] by blast
  then show ?thesis unfolding st' by (rule left_keeps)
qed

end

section \<open>Geocoding\<close>

lemma geocode_cut_kept:
  assumes "kept lib fz M s0 st" "neighbour lib (\<not> fz) (ge_waited env)" "geocode_cut (vl_geocode lib) env lat lon w st = Some st'"
  shows "kept lib fz M s0 st'"
proof -
  let ?st1 = "ge_waited env st"
  have s: "kept lib fz M s0 ?st1" by (rule keepsD[OF neighbourD[OF assms(2)] assms(1)])
  let ?g = "(geocoder ?st1)\<lparr>gc_cache := filter (\<lambda>(_, stored, _). elapsed (ge_now env) stored < GEOCODE_CACHE_TTL) (gc_cache (geocoder ?st1))\<rparr>"
  have "geocoder_ok (vl_geocode lib) (geocoder ?st1)" using kept_service[OF s] by (simp add: service_ok_def base_defs)
  moreover have "length (filter P xs) \<le> n" if "length xs \<le> n" for P n and xs :: "'x list"
    using that length_filter_le[of P xs] by (rule order_trans[rotated])
  ultimately have g: "geocoder_ok (vl_geocode lib) ?g" "geocoder_ok (vl_geocode lib) (?g\<lparr>gc_last_request := r\<rparr>)" for r
    by (auto simp: geocoder_ok_def distinct_map_filter)
  have k: "kept lib fz M s0 (?st1\<lparr>geocoder := g\<rparr>)" if "geocoder_ok (vl_geocode lib) g" for g
    by (rule kept_same[OF s]) (use that in \<open>simp_all add: same_defs\<close>)
  have "st' = ?st1\<lparr>geocoder := ?g\<rparr> \<or> st' = ?st1\<lparr>geocoder := ?g\<lparr>gc_last_request := Some (ge_sent env)\<rparr>\<rparr>"
    using assms(3) by (auto simp: geocode_cut_def Let_def split: option.splits if_splits geocode_wait.splits)
  with k[OF g(1)] k[OF g(2)] show ?thesis by auto
qed

section \<open>The configuration push\<close>

text \<open>The waits of a push after it has swapped the catalog.\<close>

definition after_swap :: "wait \<Rightarrow> bool" where
  "after_swap w \<longleftrightarrow> w \<in> Push ` {Reconcile_task, Invalid_task, Styles_lock, Base_lock}"

lemma config_cut_cases:
  assumes "config_cut lib env b w st = Some st'"
  obtains (cap) "config_rejected lib b st = None" "w = Cap_task"
      "st' = orphaned (joined (cf_task env)) (enforce_cap (task_env (cf_task env)) (cf_reclaimed env) (ll_cap (pushed_limits b st)))
         (cf_enforcing env (next_generation st))"
  | (catalog) c where "config_rejected lib b st = None" "w = Catalog_lock"
      "enforce_cap (task_env (cf_task env)) (cf_reclaimed env) (ll_cap (pushed_limits b st))
         (cache (cf_enforcing env (next_generation st))) = (Inr None, c)"
      "st' = cf_publishing env ((cf_enforcing env (next_generation st))\<lparr>cache := c\<rparr>)"
  | (swapped) c where "config_rejected lib b st = None" "after_swap (Push w)"
      "enforce_cap (task_env (cf_task env)) (cf_reclaimed env) (ll_cap (pushed_limits b st))
         (cache (cf_enforcing env (next_generation st))) = (Inr None, c)"
      "rehydrate_cut lib env b w (catalog_swapped env b ((cf_enforcing env (next_generation st))\<lparr>cache := c\<rparr>)) = Some st'"
  using assms
  by (cases w) (auto simp: config_cut_def Let_def after_swap_def split: if_splits prod.splits sum.splits option.splits)

lemma rehydrate_cut_frame:
  assumes "distinct (cf_ids env)" "rehydrate_cut lib env b w st = Some st'"
  shows "\<exists>c ss. st' = st\<lparr>cache := c, style_states := ss\<rparr>"
proof -
  obtain c ss where r: "rehydrate_style_state lib (cf_rehydrate env) (cf_ids env) (config_generation st + 1) st
      = st\<lparr>cache := c, style_states := ss\<rparr>"
    using rehydrate_frame[OF assms(1)] by metis
  show ?thesis
  proof (cases w)
    case Reconcile_task
    obtain c1 where "st' = st\<lparr>cache := c1\<rparr>"
      using assms(2) Reconcile_task by (auto simp: rehydrate_cut_def Let_def orphaned_def)
    then have "st' = st\<lparr>cache := c1, style_states := style_states st\<rparr>" by simp
    then show ?thesis by blast
  next
    case Invalid_task
    obtain rows c0 where t: "cache_task (joined (rh_reconcile (cf_rehydrate env)))
        (reconcile_learned_styles (task_env (rh_reconcile (cf_rehydrate env))) (style_signatures lib st (cf_ids env)) MAX_PERSISTED_STYLE_BYTES)
        (cache st) = (rows, c0)" by (meson surj_pair)
    obtain c1 where "st' = st\<lparr>cache := c1\<rparr>"
      using assms(2) Invalid_task by (auto simp: rehydrate_cut_def Let_def t orphaned_def split: option.splits if_splits)
    then have "st' = st\<lparr>cache := c1, style_states := style_states st\<rparr>" by simp
    then show ?thesis by blast
  next
    case Styles_lock
    with assms(2) have "st' = (rehydrate_style_state lib (cf_rehydrate env) (cf_ids env) (config_generation st + 1) st)
        \<lparr>style_states := style_states st\<rparr>" by (auto simp: rehydrate_cut_def Let_def)
    then have "st' = st\<lparr>cache := c, style_states := style_states st\<rparr>" unfolding r by simp
    then show ?thesis by blast
  next
    case Base_lock
    with assms(2) r have "st' = st\<lparr>cache := c, style_states := ss\<rparr>" by (simp add: rehydrate_cut_def Let_def split: if_splits)
    then show ?thesis by blast
  qed (use assms(2) in \<open>simp_all add: rehydrate_cut_def Let_def\<close>)
qed

context style_free begin

lemma rehydrate_cut_keeps:
  assumes "I st" "rehydrate_cut lib env b w st = Some st'" shows "I st'"
proof -
  let ?r = "reconcile_learned_styles (task_env (rh_reconcile (cf_rehydrate env))) (style_signatures lib st (cf_ids env)) MAX_PERSISTED_STYLE_BYTES"
  obtain rows c where t: "cache_task (joined (rh_reconcile (cf_rehydrate env))) ?r (cache st) = (rows, c)" by (meson surj_pair)
  have c: "I (st\<lparr>cache := c\<rparr>)" by (rule task_keeps[OF assms(1) _ t]) (rule style_ops_inv(2))
  have d: "I (orphaned r (delete_invalid envs i srcs) (st\<lparr>cache := c\<rparr>))" for r envs i srcs
    by (rule orphaned_keeps[OF c]) (rule delete_invalid_keeps)
  have o: "I (orphaned r ?r st)" for r by (rule orphaned_keeps[OF assms(1)]) (rule style_ops_inv(2))
  show ?thesis
    using assms(2) rehydrate_keeps[OF assms(1)] free_step[OF rehydrate_keeps[OF assms(1)]] o d
    by (cases w) (auto simp: rehydrate_cut_def Let_def t split: if_splits option.splits)
qed

end

lemma swapped_base:
  assumes "service_ok lib st" "service_ok lib s" "knobs s = knobs st" "fair_config lib env" "config_rejected (vl_style lib) b st = None"
  shows "base_ok lib (catalog_swapped env b s)"
proof -
  note w = config_waits[OF assms(1,4)]
  have p: "base_ok lib (cf_publishing env s)" by (rule service_parts(1)[OF w(6)[OF assms(2)]])
  have "catalog_ok (vl_style lib) (catalog_swapped env b s)"
    using accepted_body(2)[OF assms(5)] catalog_of_some[of "cb_sources b"] w(8)[OF assms(2)] assms(3)
    by (auto simp: catalog_ok_def catalog_swapped_def list_all_iff entry_valid_def)
  with p show ?thesis by (simp add: base_ok_def state_ok_def limits_ok_def catalog_swapped_def)
qed

lemma config_cut_base:
  assumes "service_ok lib st" "fair_config lib env" "config_cut (vl_style lib) env b w st = Some st'"
  shows "base_ok lib st'"
proof -
  let ?st1 = "cf_enforcing env (next_generation st)"
  note w = config_waits[OF assms(1,2)]
  note b1 = service_parts[OF w(1)]
  have e: "service_ok lib (?st1\<lparr>cache := c\<rparr>)" if "enforce_cap env' rc cap (cache ?st1) = (r, c)" for env' rc cap r c
    using service_cache[OF w(1)] enforce_cap_inv[OF b1(3)] that by (metis snd_conv)
  from assms(3) show ?thesis
  proof (cases rule: config_cut_cases)
    case cap
    show ?thesis unfolding cap(3) by (rule based.orphaned_keeps[OF b1(1)]) (rule enforce_cap_inv)
  next
    case (catalog c)
    show ?thesis unfolding catalog(4) by (rule service_parts(1)[OF w(6)[OF e[OF catalog(3)]]])
  next
    case (swapped c)
    have k: "knobs (?st1\<lparr>cache := c\<rparr>) = knobs st" using w(3) by simp
    show ?thesis
      by (rule based.rehydrate_cut_keeps[OF swapped_base[OF assms(1) e[OF swapped(3)] k assms(2) swapped(1)] swapped(4)])
  qed
qed

lemma config_cut_kept:
  assumes "kept lib False M s0 st" "fair_config lib env" "config_cut (vl_style lib) env b w st = Some st'" "\<not> after_swap (Push w)"
  shows "kept lib False M s0 st'"
proof -
  let ?st1 = "cf_enforcing env (next_generation st)"
  note s = kept_service[OF assms(1)]
  note w = config_waits[OF s assms(2)]
  have k1: "kept lib False M s0 ?st1"
    by (rule kept_trans[OF assms(1), where fz' = False]) (use w(1,3-5) in \<open>simp_all add: kept_def advance_def\<close>)
  have c1: "kept lib False M s0 (orphaned r (enforce_cap env' rc cap) ?st1)" for r env' rc cap
    by (rule served.orphaned_keeps[OF k1 enforce_cap_inv])
  from assms(3) show ?thesis
  proof (cases rule: config_cut_cases)
    case cap
    show ?thesis unfolding cap(3) by (rule c1)
  next
    case (catalog c)
    have "cache_inv c" using enforce_cap_inv[OF service_parts(3)[OF w(1)]] catalog(3) by (metis snd_conv)
    then have "kept lib False M s0 (?st1\<lparr>cache := c\<rparr>)" by (rule served.cache_step[OF k1])
    moreover have "neighbour lib False (cf_publishing env)" using assms(2) by (simp add: fair_config_def)
    ultimately show ?thesis unfolding catalog(4) using neighbour_weaken[of lib "cf_publishing env" True] neighbourD[of lib False]
      by (metis keepsD)
  next
    case (swapped c)
    with assms(4) show ?thesis by simp
  qed
qed

section \<open>Warm jobs and regions\<close>

lemma start_warm_cut_kept:
  assumes "kept lib fz M s0 st" "start_warm_cut merc locked now req w st = Some st'" shows "kept lib fz M s0 st'"
proof -
  obtain rs js where "st' = st\<lparr>warm_seq := warm_seq st + 1, active_warm_regions := rs\<rparr>
      \<or> st' = st\<lparr>warm_seq := warm_seq st + 1, active_warm_regions := rs, warm_jobs := js\<rparr>"
    using assms(2) by (auto simp: start_warm_cut_def Let_def split: sum.splits if_splits start_wait.splits)
  then show ?thesis by (elim disjE) (rule kept_same[OF assms(1)]; simp add: same_defs)+
qed

lemma delete_region_cut_kept:
  assumes "kept lib fz M s0 st" "neighbour lib (\<not> fz) (rd_waited env)" "recounts (rd_task env)" "delete_region_cut env rid w st = Some st'"
  shows "kept lib fz M s0 st'"
proof -
  obtain ended st0 where d: "cancel_region_warms (rd_polls env) rid st = (ended, st0)" by (meson surj_pair)
  have "kept lib fz M s0 st0" using cancelled_kept[OF assms(1), of "rd_polls env" rid] d by simp
  then have s: "kept lib fz M s0 (rd_waited env st0)" by (rule keepsD[OF neighbourD[OF assms(2)]])
  have o: "kept lib fz M s0 (orphaned b (\<lambda>c. case delete_region (task_env (rd_task env)) rid c of
      (Inl e, c') \<Rightarrow> (Inl e, c') | (Inr _, c') \<Rightarrow> (Inr (), log_cache_err (evict_to (rd_evict env) cap c'))) (rd_waited env st0))" for b cap
    by (rule served.orphaned_keeps[OF s deletion_inv[OF assms(3)]])
  show ?thesis
    using assms(1,4) s o served.jobs_step by (cases w) (auto simp: delete_region_cut_def Let_def d update_jobs_def split: if_splits)
qed

section \<open>Every request\<close>

lemma dropped_read_kept:
  assumes "kept lib fz M s0 st" "fair_handler lib (\<not> fz) env" "dropped_read lib env req e w st = Some (sp, st')"
  shows "kept lib fz M s0 st'"
proof -
  have l: "fair_style lib (\<not> fz) (ae_style (hv_asset env))" using assms(2) by (simp add: fair_handler_def fair_route_def)
  have n: "neighbour lib (\<not> fz) (hv_late env)" "neighbour lib (\<not> fz) (ge_waited (hv_geocode env))"
    using assms(2) by (simp_all add: fair_handler_def)
  have a: "tame_asset (kept lib fz M s0) (\<lambda>l. kept lib fz (add_mset l M) s0) (hv_asset env)"
    using assms(2) by (simp add: fair_handler_def fair_route_tame)
  note lc = served.learn_cut_keeps[OF assms(1) fair_style_tame[OF l]]
  note cuts = served.style_cuts_keep[OF lc learning_served(2)[OF assms(1) l] a]
  have late: "kept lib fz M s0 (hv_late env s)" if "kept lib fz M s0 s" for s by (rule keepsD[OF neighbourD[OF n(1)] that])
  have doc: "kept lib fz M s0 s" if "style_doc_cut (vl_style lib) (ae_style (hv_asset env)) (hv_late env) src sw st = Some s" for src sw s
    using that late learning_served(1)[OF assms(1) l, of src] lc
    by (auto simp: style_doc_cut_def split: if_splits style_wait.splits prod.splits option.splits)
  have fig: "kept lib fz M s0 (orphaned b (stats_work s) st)" for b s by (rule served.orphaned_keeps[OF assms(1) stats_work_inv])
  show ?thesis
    using assms(3) fig
    by (auto simp: dropped_read_def Let_def split: endpoint.splits wait.splits option.splits list.splits sum.splits prod.splits bind_splits
        intro: doc cuts served.get_tile_cut_keeps[OF assms(1)] geocode_cut_kept[OF assms(1) n(2)])
qed

lemma dropped_change_kept:
  assumes "kept lib fz M s0 st" "fair_handler lib (\<not> fz) env" "dropped_change lib env req e w st = Some st'" "\<not> after_swap w"
    and "fz \<Longrightarrow> e \<noteq> E_config"
  shows "kept lib fz M s0 st'"
proof -
  have c: "fair_config lib (hv_config env)" "neighbour lib (\<not> fz) (rd_waited (hv_delete env))" "recounts (rd_task (hv_delete env))"
    using assms(2) by (simp_all add: fair_handler_def)
  have cl: "kept lib fz M s0 (orphaned b (clear_unpinned fls rc) st)" for b fls rc
    by (rule served.orphaned_keeps[OF assms(1) clear_inv])
  have cf: "kept lib fz M s0 s" if "config_cut (vl_style lib) (hv_config env) b cw st = Some s" "w = Push cw" "e = E_config" for b cw s
    using config_cut_kept[OF _ c(1) that(1)] assms(1,4,5) that(2,3) by (cases fz) auto
  show ?thesis
    using assms(3,4) cl
    by (auto simp: dropped_change_def split: endpoint.splits wait.splits sum.splits if_splits bind_splits
        intro: cf start_warm_cut_kept[OF assms(1)] delete_region_cut_kept[OF assms(1) c(2,3)])
qed

lemma dropped_kept:
  assumes "kept lib fz M s0 st" "fair_handler lib (\<not> fz) env" "dropped lib env w req st = Some (sp, st')" "\<not> after_swap w"
    and "fz \<Longrightarrow> \<not> may_push req"
  shows "kept lib fz M s0 st'"
  using assms(1,3) dropped_read_kept[OF assms(1,2)] dropped_change_kept[OF assms(1,2) _ assms(4)] assms(5)
  by (auto simp: dropped_def may_push_def split: if_splits option.splits)

end
