(* ===== verification/Interleaving.thy ===== *)
theory Interleaving
  imports Cancel_Props
begin

text \<open>
  The tasks that can run while another task waits: the requests of \<open>app\<close> (\<open>routes.rs\<close>), answered or left by their
  client, the detached fills and touches of \<open>fetcher.rs\<close>, the warm runs of \<open>warm.rs\<close>, the sweeper and the shutdown, one
  after the other, each meeting at its own waits tasks of the same kind. All of them keep what a waiting task
  relies on.
\<close>

section \<open>The waits of a task\<close>

definition fill_waits :: "fill_env \<Rightarrow> (app_state \<Rightarrow> app_state) set" where
  "fill_waits env = {fe_waited env, fe_others env}"

definition style_waits :: "style_env \<Rightarrow> (app_state \<Rightarrow> app_state) set" where
  "style_waits env = {sw_flight env, sw_waited env, sw_storing env}"

definition handler_waits :: "handler_env \<Rightarrow> (app_state \<Rightarrow> app_state) set" where
  "handler_waits env = {rd_waited (hv_delete env), hv_late env, ge_waited (hv_geocode env), ae_flight (hv_asset env),
     fe_others (ae_fill (hv_asset env)), ae_late (hv_asset env)}
     \<union> fill_waits (rq_fill (hv_tile env)) \<union> style_waits (ae_style (hv_asset env))"

definition push_waits :: "handler_env \<Rightarrow> (app_state \<Rightarrow> app_state) set" where
  "push_waits env = {cf_enforcing (hv_config env), cf_publishing (hv_config env)}"

text \<open>The keys of the catalog come without repetition, and the recount after a deletion does not fail.\<close>

definition sane_handler :: "handler_env \<Rightarrow> bool" where
  "sane_handler env \<longleftrightarrow> distinct (cf_ids (hv_config env)) \<and> recounts (rd_task (hv_delete env))"

lemma fair_handler_waits:
  assumes "sane_handler env" "\<forall>f \<in> push_waits env. neighbour lib False f" "\<forall>f \<in> handler_waits env. neighbour lib p f"
  shows "fair_handler lib p env"
  using assms by (simp add: fair_handler_def fair_config_def fair_fill_def fair_route_def fair_style_def sane_handler_def
      push_waits_def handler_waits_def fill_waits_def style_waits_def)

definition tile_events :: "run_env \<Rightarrow> warm_event set" where
  "tile_events env = (\<Union>i. set (tu_ends (re_turns env i))) \<union> range (\<lambda>i. jt_event (re_joins env i))"

definition asset_events :: "run_env \<Rightarrow> asset_event set" where
  "asset_events env = (\<Union>i. set (at_ends (sg_turns (re_stage env) i))) \<union> range (sg_joins (re_stage env))"

definition run_waits :: "run_env \<Rightarrow> (app_state \<Rightarrow> app_state) set" where
  "run_waits env = {re_started env, re_staged env, re_locked env, fl_waited (re_tail env), fl_waited (sg_tail (re_stage env))}
     \<union> (\<Union>i. {tu_waited (re_turns env i), tu_acquired (re_turns env i), at_waited (sg_turns (re_stage env) i)})
     \<union> (\<Union>i. set (jt_waits (re_joins env i))) \<union> set (sg_polls (re_stage env))
     \<union> (\<lambda>ev. fl_waited (je_flush ev)) ` tile_events env \<union> (\<lambda>ev. fl_waited (je_flush ev)) ` asset_events env"

definition sane_run :: "run_env \<Rightarrow> bool" where
  "sane_run env \<longleftrightarrow> recounts (re_promote env) \<and> (\<forall>s. recounts (re_cleanup env s)) \<and> recounts (sg_discard (re_stage env))"

text \<open>
  The tasks a run waits for are the code's own: \<open>warm_one\<close>, \<open>warm_one_asset\<close> and the learning of a style, whose waits
  satisfy \<open>T\<close> as well.
\<close>

definition own_tile :: "((app_state \<Rightarrow> app_state) \<Rightarrow> bool) \<Rightarrow> service_lib \<Rightarrow> warm_event \<Rightarrow> bool" where
  "own_tile T lib ev \<longleftrightarrow> (\<exists>before after. T before \<and> T after \<and> (je_run ev = panicked after
     \<or> (\<exists>w envs region. (\<forall>t. T (we_waited (envs t)) \<and> T (we_others (envs t)))
          \<and> je_run ev = tile_task (sl_sha256 (vl_style lib)) (vl_display lib) w envs region before after)))"

definition own_asset :: "((app_state \<Rightarrow> app_state) \<Rightarrow> bool) \<Rightarrow> service_lib \<Rightarrow> asset_event \<Rightarrow> bool" where
  "own_asset T lib ev \<longleftrightarrow> (\<exists>before after. T before \<and> T after \<and> (je_run ev = panicked after
     \<or> (\<exists>w envs region budget. (\<forall>t. T (ae_others (envs t)))
          \<and> je_run ev = asset_task (sl_sha256 (vl_style lib)) (is_object_bytes (vl_style lib)) (sl_parse_url (vl_style lib))
              w envs region budget before after)))"

definition own_learning :: "((app_state \<Rightarrow> app_state) \<Rightarrow> bool) \<Rightarrow> service_lib \<Rightarrow> run_env \<Rightarrow> bool" where
  "own_learning T lib env \<longleftrightarrow> (\<exists>envs. (\<forall>src. T (sw_flight (envs src)) \<and> T (sw_waited (envs src)) \<and> T (sw_storing (envs src)))
     \<and> re_ensure env = (\<lambda>src. ensure_style_learned (vl_style lib) (envs src) src))"

lemma own_mono [mono]:
  assumes "\<And>f. T f \<longrightarrow> T' f"
  shows "own_tile T lib ev \<longrightarrow> own_tile T' lib ev" "own_asset T lib ev' \<longrightarrow> own_asset T' lib ev'"
    "own_learning T lib env \<longrightarrow> own_learning T' lib env"
  using assms unfolding own_tile_def own_asset_def own_learning_def by meson+

section \<open>Warm runs\<close>

lemma own_tile_tame:
  assumes "own_tile (neighbour lib (\<not> fz)) lib ev" "neighbour lib (\<not> fz) (fl_waited (je_flush ev))"
  shows "tame_tile_event (kept lib fz M s0) ev"
proof -
  let ?I = "kept lib fz M s0"
  have n: "keeps (kept lib fz M' s0) f" if "neighbour lib (\<not> fz) f" for f M' using neighbourD[OF that] .
  obtain before after where b: "neighbour lib (\<not> fz) before" "neighbour lib (\<not> fz) after"
    and e: "je_run ev = panicked after \<or> (\<exists>w envs region. (\<forall>t. neighbour lib (\<not> fz) (we_waited (envs t)) \<and> neighbour lib (\<not> fz) (we_others (envs t)))
          \<and> je_run ev = tile_task (sl_sha256 (vl_style lib)) (vl_display lib) w envs region before after)"
    using assms(1) unfolding own_tile_def by blast
  note k = keepsD[OF n[OF b(1)]] keepsD[OF n[OF b(2)]]
  from e have "?I (snd (je_run ev t s)) \<and> (\<forall>r. fst (je_run ev t s) = Finished (W_tile r) \<or> fst (je_run ev t s) = Finished (W_negative r) \<longrightarrow> row_ok r)"
    if i: "?I s" for t s
  proof
    assume "je_run ev = panicked after"
    with k(2)[OF i] show ?thesis by (simp add: panicked_def)
  next
    assume "\<exists>w envs region. (\<forall>t. neighbour lib (\<not> fz) (we_waited (envs t)) \<and> neighbour lib (\<not> fz) (we_others (envs t)))
        \<and> je_run ev = tile_task (sl_sha256 (vl_style lib)) (vl_display lib) w envs region before after"
    then obtain w envs region where v: "\<And>t. neighbour lib (\<not> fz) (we_waited (envs t))" "\<And>t. neighbour lib (\<not> fz) (we_others (envs t))"
      and j: "je_run ev = tile_task (sl_sha256 (vl_style lib)) (vl_display lib) w envs region before after" by blast
    obtain res st' where o: "warm_one (sl_sha256 (vl_style lib)) (vl_display lib) w (envs t) (fst t) (snd t) region (before s) = (res, st')"
      by (meson surj_pair)
    have "?I st'" using served.warm_one_keeps[OF k(1)[OF i] n[OF v(1)] n[OF v(2)], of "sl_sha256 (vl_style lib)" "vl_display lib" w t "fst t" "snd t" region] o by simp
    then show ?thesis using k(2) warm_one_row[OF o] by (auto simp: j tile_task_def o)
  qed
  with n[OF assms(2)] show ?thesis by (simp add: tame_tile_event_def)
qed

lemma own_asset_tame:
  assumes "own_asset (neighbour lib (\<not> fz)) lib ev" "neighbour lib (\<not> fz) (fl_waited (je_flush ev))"
  shows "tame_asset_event (kept lib fz M s0) ev"
proof -
  let ?I = "kept lib fz M s0" and ?task = "asset_task (sl_sha256 (vl_style lib)) (is_object_bytes (vl_style lib)) (sl_parse_url (vl_style lib))"
  have n: "keeps ?I f" if "neighbour lib (\<not> fz) f" for f using neighbourD[OF that] .
  obtain before after where b: "neighbour lib (\<not> fz) before" "neighbour lib (\<not> fz) after"
    and e: "je_run ev = panicked after \<or> (\<exists>w envs region budget. (\<forall>t. neighbour lib (\<not> fz) (ae_others (envs t)))
          \<and> je_run ev = ?task w envs region budget before after)"
    using assms(1) unfolding own_asset_def by blast
  note k = keepsD[OF n[OF b(1)]] keepsD[OF n[OF b(2)]]
  from e have "?I (snd (je_run ev t s)) \<and> (\<forall>r. fst (je_run ev t s) = Finished (Inr (Some r)) \<longrightarrow> row_ok r)" if i: "?I s" for t s
  proof
    assume "je_run ev = panicked after"
    with k(2)[OF i] show ?thesis by (simp add: panicked_def)
  next
    assume "\<exists>w envs region budget. (\<forall>t. neighbour lib (\<not> fz) (ae_others (envs t))) \<and> je_run ev = ?task w envs region budget before after"
    then obtain w envs region budget where v: "\<And>t. neighbour lib (\<not> fz) (ae_others (envs t))"
      and j: "je_run ev = ?task w envs region budget before after" by blast
    obtain res st' where o: "warm_one_asset (sl_sha256 (vl_style lib)) (is_object_bytes (vl_style lib)) (sl_parse_url (vl_style lib))
        w (envs t) region budget t (before s) = (res, st')" by (meson surj_pair)
    note o' = arg_cong[OF o, of fst, simplified] arg_cong[OF o, of snd, simplified]
    have "?I st'" using served.warm_one_asset_keeps[OF k(1)[OF i] n[OF v]] o'(2) by metis
    moreover have "row_ok r" if "res = Inr (Some r)" for r
      using warm_one_asset_row that o'(1) by metis
    ultimately show ?thesis using k(2) by (auto simp: j asset_task_def o)
  qed
  with n[OF assms(2)] show ?thesis by (simp add: tame_asset_event_def)
qed

lemma run_waits_tame:
  assumes "sane_run env" "\<forall>f \<in> run_waits env. neighbour lib (\<not> fz) f" "\<forall>ev \<in> tile_events env. own_tile (neighbour lib (\<not> fz)) lib ev"
    "\<forall>ev \<in> asset_events env. own_asset (neighbour lib (\<not> fz)) lib ev" "own_learning (neighbour lib (\<not> fz)) lib env"
  shows "tame_run (kept lib fz M s0) env"
proof -
  let ?I = "kept lib fz M s0"
  have n: "keeps ?I f" if "f \<in> run_waits env" for f using neighbourD assms(2) that by blast
  have t: "tame_tile_event ?I ev" if "ev \<in> tile_events env" for ev
    using own_tile_tame assms(2,3) that unfolding run_waits_def by blast
  have a: "tame_asset_event ?I ev" if "ev \<in> asset_events env" for ev
    using own_asset_tame assms(2,4) that unfolding run_waits_def by blast
  obtain envs where e: "\<And>src. fair_style lib (\<not> fz) (envs src)"
    "re_ensure env = (\<lambda>src. ensure_style_learned (vl_style lib) (envs src) src)"
    using assms(5) unfolding own_learning_def fair_style_def by blast
  have l: "?I (snd (re_ensure env src s))" if "?I s" for src s
    unfolding e(2) by (rule learning_served(2)[OF that e(1)])
  have w: "keeps ?I (re_started env)" "keeps ?I (re_staged env)" "keeps ?I (re_locked env)" "keeps ?I (fl_waited (re_tail env))"
    "keeps ?I (fl_waited (sg_tail (re_stage env)))"
    by (rule n; simp add: run_waits_def)+
  have v: "keeps ?I (tu_waited (re_turns env i))" "keeps ?I (tu_acquired (re_turns env i))" "keeps ?I (at_waited (sg_turns (re_stage env) i))"
    "f \<in> set (jt_waits (re_joins env i)) \<Longrightarrow> keeps ?I f" "f \<in> set (sg_polls (re_stage env)) \<Longrightarrow> keeps ?I f" for i f
    by (rule n; auto simp: run_waits_def)+
  have "tame_stage ?I (re_stage env)"
    using v w a assms(1) unfolding tame_stage_def list_all_iff asset_events_def sane_run_def by blast
  with v w t l assms(1) show ?thesis
    unfolding tame_run_def list_all_iff tile_events_def sane_run_def by blast
qed

lemma staged_elsewhere: "valid_region_id r \<Longrightarrow> staging_region jid r \<noteq> r"
  by (auto simp: valid_region_id_def staging_region_def starts_with_def POSITION_WARM_REGION_ID_def STAGING_REGION_PREFIX_def
      POSITION_STAGING_REGION_PREFIX_def)

lemma run_kept:
  assumes "kept lib fz M s0 st" "tame_run (kept lib fz M s0) env" "\<forall>r. rn_region spec = Some r \<longrightarrow> valid_region_id r"
    "run merc encode env spec st = Some (final, st')"
  shows "kept lib fz M s0 st'"
  by (rule served.run_keeps[OF assms(1,2,4)]) (use assms(3) staged_elsewhere in blast)

lemma sweep_kept: "kept lib fz M s0 st \<Longrightarrow> kept lib fz M s0 (run_sweep_once returned fls now st)"
  using served.task_keeps[of lib fz M s0 st "sweep_aged_unpinned fls (live_scroll_ttl_secs st) now" returned] sweep_inv
  by (metis run_sweep_once_def surjective_pairing)

section \<open>The other tasks\<close>

text \<open>The flag: configuration pushes may be among them. While a push waits, none of the others is one.\<close>

inductive other_tasks :: "service_lib \<Rightarrow> bool \<Rightarrow> (app_state \<Rightarrow> app_state) \<Rightarrow> bool" for lib where
  none: "other_tasks lib p (\<lambda>s. s)"
| seq: "other_tasks lib p f \<Longrightarrow> other_tasks lib p g \<Longrightarrow> other_tasks lib p (\<lambda>s. g (f s))"
| request: "sane_handler env \<Longrightarrow> \<forall>f \<in> push_waits env. other_tasks lib False f \<Longrightarrow> \<forall>f \<in> handler_waits env. other_tasks lib p f \<Longrightarrow>
    p \<or> \<not> may_push req \<Longrightarrow> other_tasks lib p (\<lambda>s. snd (authorized_router lib env req s))"
| left: "sane_handler env \<Longrightarrow> \<forall>f \<in> push_waits env. other_tasks lib False f \<Longrightarrow> \<forall>f \<in> handler_waits env. other_tasks lib p f \<Longrightarrow>
    p \<or> \<not> may_push req \<Longrightarrow> \<not> after_swap w \<Longrightarrow>
    other_tasks lib p (\<lambda>s. case dropped lib env w req s of Some (sp, s') \<Rightarrow> s' | None \<Rightarrow> s)"
| fill: "\<forall>f \<in> fill_waits env. other_tasks lib p f \<Longrightarrow> other_tasks lib p (\<lambda>s. snd (run_fill (sl_sha256 (vl_style lib)) w env spec s))"
| touch: "other_tasks lib p (run_touch t k now)"
| warm: "sane_run env \<Longrightarrow> \<forall>f \<in> run_waits env. other_tasks lib p f \<Longrightarrow> \<forall>ev \<in> tile_events env. own_tile (other_tasks lib p) lib ev \<Longrightarrow>
    \<forall>ev \<in> asset_events env. own_asset (other_tasks lib p) lib ev \<Longrightarrow> own_learning (other_tasks lib p) lib env \<Longrightarrow>
    \<forall>r. rn_region spec = Some r \<longrightarrow> valid_region_id r \<Longrightarrow>
    other_tasks lib p (\<lambda>s. case run (vl_merc lib) (sl_percent_encode (vl_style lib)) env spec s of Some (final, s') \<Rightarrow> s' | None \<Rightarrow> s)"
| sweep: "other_tasks lib p (run_sweep_once returned fls now)"
| stop: "other_tasks lib p shutdown"

text \<open>What a waiting task relies on is what every task guarantees.\<close>

lemma others_are_neighbours: "other_tasks lib p f \<Longrightarrow> neighbour lib p f"
proof (induction rule: other_tasks.induct)
  case (seq p f g)
  then show ?case by (simp add: neighbour_comp)
next
  case (request env p req)
  have f: "fair_handler lib p env" by (rule fair_handler_waits) (use request in auto)
  have m: "p \<or> \<not> may_push req" using request by blast
  show ?case by (intro guaranteed, unfold keeps_def, intro allI impI, rule router_kept) (use f m in auto)
next
  case (left env p req w)
  have f: "fair_handler lib p env" by (rule fair_handler_waits) (use left in auto)
  have m: "p \<or> \<not> may_push req" "\<not> after_swap w" using left by blast+
  have "kept lib (\<not> p) M s0 s'" if "kept lib (\<not> p) M s0 s" "dropped lib env w req s = Some (sp, s')" for M s0 s sp s'
    by (rule dropped_kept[OF that(1) _ that(2) m(2)]) (use f m(1) in auto)
  then show ?case by (intro guaranteed) (auto simp: keeps_def split: option.split)
next
  case (fill env p w spec)
  then have "fair_fill lib p env" by (simp add: fair_fill_def fill_waits_def)
  then show ?case by (intro guaranteed) (auto simp: keeps_def intro!: served.run_fill_keeps fair_fill_tame)
next
  case (touch p t k now)
  show ?case by (intro guaranteed) (simp add: keeps_def served.touch_keeps)
next
  case (warm env p spec)
  let ?T = "\<lambda>f. other_tasks lib p f \<and> neighbour lib p f"
  have w: "sane_run env" "\<forall>f \<in> run_waits env. neighbour lib p f" "\<forall>ev \<in> tile_events env. own_tile ?T lib ev"
    "\<forall>ev \<in> asset_events env. own_asset ?T lib ev" "own_learning ?T lib env" "\<forall>r. rn_region spec = Some r \<longrightarrow> valid_region_id r"
    using warm by blast+
  have o: "own_tile ?T lib ev \<longrightarrow> own_tile (neighbour lib p) lib ev" "own_asset ?T lib ev' \<longrightarrow> own_asset (neighbour lib p) lib ev'"
    "own_learning ?T lib env \<longrightarrow> own_learning (neighbour lib p) lib env" for ev ev'
    by (rule own_mono, simp)+
  have "tame_run (kept lib (\<not> p) M s0) env" for M s0
    by (rule run_waits_tame) (use w o in auto)
  with w(6) show ?case by (intro guaranteed) (auto simp: keeps_def split: option.split intro: run_kept)
next
  case (sweep p returned fls now)
  show ?case by (intro guaranteed) (simp add: keeps_def sweep_kept)
next
  case (stop p)
  show ?case by (intro guaranteed) (simp add: keeps_def shutdown_def warms_kept(3))
qed simp

end
