(* ===== verification/Process.thy ===== *)
theory Process
  imports Interleaving
begin

text \<open>
  The running process (\<open>main\<close> in \<open>container/tilecache/src/main.rs\<close> from the start of the server, \<open>AdmissionBody\<close>
  in \<open>routes.rs\<close>) as a step relation: requests are admitted, handled and have their bodies sent, or their
  client leaves while they wait; detached tasks and warm runs end; the sweeper ticks; the shutdown signal comes.
  A handler that waits meets the other tasks through its environment, which holds tasks of the service itself
  (\<open>other_tasks\<close>) at every wait.
\<close>

section \<open>The process\<close>

text \<open>
  \<open>pr_admitted\<close>: requests that have a permit and wait to be handled; \<open>pr_sending\<close>: responses whose body is
  being sent, each by whether it was a health probe; \<open>pr_work\<close>: what runs detached.
\<close>

record process =
  pr_state :: app_state
  pr_admission :: admission
  pr_admitted :: "http_request list"
  pr_sending :: "bool list"
  pr_work :: "background list"

definition started :: "app_state \<Rightarrow> process" where
  "started st = \<lparr>pr_state = st, pr_admission = new_admission (admission_wait_ms (knobs st)), pr_admitted = [], pr_sending = [],
     pr_work = []\<rparr>"

definition arrived :: "http_request \<Rightarrow> process \<Rightarrow> process option" where
  "arrived req p = map_option (\<lambda>a. p\<lparr>pr_admission := a, pr_admitted := req # pr_admitted p\<rparr>)
     (take_permit (is_health_path req) (pr_admission p))"

text \<open>A handler that panics sends nothing: its permit goes back at once.\<close>

definition handled :: "service_lib \<Rightarrow> handler_env \<Rightarrow> http_request \<Rightarrow> process \<Rightarrow> reply \<times> process" where
  "handled lib env req p =
     (case authorized_router lib env req (pr_state p) of
        ((r, work), st) \<Rightarrow>
          let q = p\<lparr>pr_state := st, pr_admitted := remove1 req (pr_admitted p), pr_work := work @ pr_work p\<rparr>
          in ((r, work), case r of
               Some _ \<Rightarrow> q\<lparr>pr_sending := is_health_path req # pr_sending q\<rparr>
             | None \<Rightarrow> q\<lparr>pr_admission := release_request (is_health_path req) (pr_admission q)\<rparr>))"

definition sent :: "bool \<Rightarrow> process \<Rightarrow> process" where
  "sent h p = p\<lparr>pr_sending := remove1 h (pr_sending p), pr_admission := release_request h (pr_admission p)\<rparr>"

text \<open>The client leaves: the handler is dropped at a wait, and the permit goes back with it.\<close>

definition client_left :: "service_lib \<Rightarrow> handler_env \<Rightarrow> wait \<Rightarrow> http_request \<Rightarrow> process \<Rightarrow> process option" where
  "client_left lib env w req p =
     (case dropped lib env w req (pr_state p) of
        None \<Rightarrow> None
      | Some (sp, st) \<Rightarrow> Some (p\<lparr>pr_state := st, pr_admitted := remove1 req (pr_admitted p),
          pr_admission := release_request (is_health_path req) (pr_admission p), pr_work := map Work_spawned sp @ pr_work p\<rparr>))"

text \<open>A detached task: the touch and the fill of the fetch path, or a warm run that ends.\<close>

record work_env =
  wv_task :: task
  wv_wire :: wire
  wv_fill :: fill_env
  wv_run :: run_env

definition work_done :: "service_lib \<Rightarrow> work_env \<Rightarrow> background \<Rightarrow> app_state \<Rightarrow> app_state option" where
  "work_done lib env b st =
     (case b of
        Work_spawned (Run_touch k now) \<Rightarrow> Some (run_touch (wv_task env) k now st)
      | Work_spawned (Run_fill spec) \<Rightarrow> Some (snd (run_fill (sl_sha256 (vl_style lib)) (wv_wire env) (wv_fill env) spec st))
      | Work_warm spec \<Rightarrow> map_option snd (run (vl_merc lib) (sl_percent_encode (vl_style lib)) (wv_run env) spec st))"

text \<open>What a handler and a detached task meet at their waits: any tasks of the service.\<close>

definition met_handler :: "service_lib \<Rightarrow> handler_env \<Rightarrow> bool" where
  "met_handler lib env \<longleftrightarrow> sane_handler env \<and> (\<forall>f \<in> push_waits env. other_tasks lib False f)
     \<and> (\<forall>f \<in> handler_waits env. other_tasks lib True f)"

definition met_work :: "service_lib \<Rightarrow> work_env \<Rightarrow> bool" where
  "met_work lib env \<longleftrightarrow> (\<forall>f \<in> fill_waits (wv_fill env). other_tasks lib True f)
     \<and> sane_run (wv_run env) \<and> (\<forall>f \<in> run_waits (wv_run env). other_tasks lib True f)
     \<and> (\<forall>ev \<in> tile_events (wv_run env). own_tile (other_tasks lib True) lib ev)
     \<and> (\<forall>ev \<in> asset_events (wv_run env). own_asset (other_tasks lib True) lib ev)
     \<and> own_learning (other_tasks lib True) lib (wv_run env)"

inductive process_step :: "service_lib \<Rightarrow> process \<Rightarrow> process \<Rightarrow> bool" for lib where
  arrive: "arrived req p = Some q \<Longrightarrow> process_step lib p q"
| handle: "req \<in> set (pr_admitted p) \<Longrightarrow> met_handler lib env \<Longrightarrow> handled lib env req p = (r, q) \<Longrightarrow> process_step lib p q"
| sent: "h \<in> set (pr_sending p) \<Longrightarrow> process_step lib p (sent h p)"
| leave: "req \<in> set (pr_admitted p) \<Longrightarrow> met_handler lib env \<Longrightarrow> \<not> after_swap w \<Longrightarrow> client_left lib env w req p = Some q \<Longrightarrow>
    process_step lib p q"
| work: "b \<in> set (pr_work p) \<Longrightarrow> met_work lib env \<Longrightarrow> work_done lib env b (pr_state p) = Some st \<Longrightarrow>
    process_step lib p (p\<lparr>pr_state := st, pr_work := remove1 b (pr_work p)\<rparr>)"
| sweep: "configured (pr_state p) \<Longrightarrow> process_step lib p (p\<lparr>pr_state := run_sweep_once returned fls now (pr_state p)\<rparr>)"
| stop: "process_step lib p (p\<lparr>pr_state := shutdown (pr_state p)\<rparr>)"

inductive process_reachable :: "service_lib \<Rightarrow> boot_env \<Rightarrow> db \<Rightarrow> process \<Rightarrow> bool" for lib b d where
  started: "boot b d = Some st \<Longrightarrow> process_reachable lib b d (started st)"
| step: "process_reachable lib b d p \<Longrightarrow> process_step lib p q \<Longrightarrow> process_reachable lib b d q"

inductive_cases process_stepE: "process_step lib p q"

section \<open>Detached work\<close>

text \<open>A run in the background is one of an admitted request: its region has a name of the user's grammar.\<close>

definition work_ok :: "background \<Rightarrow> bool" where
  "work_ok b \<longleftrightarrow> (case b of Work_warm spec \<Rightarrow> (\<forall>r. rn_region spec = Some r \<longrightarrow> valid_region_id r) | _ \<Rightarrow> True)"

lemma admitted_region: "admit_request merc req st = Inr x \<Longrightarrow> wq_region req = Some r \<Longrightarrow> valid_region_id r"
  by (auto simp: admit_request_def Let_def split: if_splits)

lemma started_warm_ok:
  assumes "warm_start merc out message env b st = (r, Some spec, st')" shows "work_ok (Work_warm spec)"
proof -
  obtain jid s where s: "start_warm merc (wt_locked env) (wt_now env) (warm_request_of b) st = (Inr (jid, spec), s)"
    using assms by (auto simp: warm_start_def split: if_splits sum.splits prod.splits)
  obtain x where a: "admit_request merc (warm_request_of b) st = Inr x" "rn_region spec = wq_region (warm_request_of b)"
    using s by (auto simp: start_warm_def Let_def split: sum.splits prod.splits if_splits)
  then show ?thesis using admitted_region by (auto simp: work_ok_def)
qed

lemma met_fair: "met_handler lib env \<Longrightarrow> fair_handler lib True env"
  using others_are_neighbours by (intro fair_handler_waits) (auto simp: met_handler_def)

lemma work_served:
  assumes "service_ok lib st" "met_work lib env" "work_ok b" "work_done lib env b st = Some st'"
  shows "service_ok lib st'"
proof -
  note k = kept_start[OF assms(1), of False]
  note m = assms(2)[unfolded met_work_def]
  let ?I = "kept lib False (leases_of st) st"
  have "?I st'"
  proof (cases b)
    case (Work_spawned sp)
    have "fair_fill lib True (wv_fill env)" using m others_are_neighbours by (auto simp: fair_fill_def fill_waits_def)
    then have f: "tame_fill (\<lambda>l. kept lib False (add_mset l (leases_of st)) st) key (wv_fill env)" for key
      by (simp add: fair_fill_tame)
    show ?thesis
      using assms(4) served.touch_keeps[OF k] served.run_fill_keeps[OF k f]
      by (cases sp) (auto simp: work_done_def Work_spawned)
  next
    case (Work_warm spec)
    obtain final where r: "run (vl_merc lib) (sl_percent_encode (vl_style lib)) (wv_run env) spec st = Some (final, st')"
      using assms(4) by (auto simp: work_done_def Work_warm)
    have o: "own_tile (other_tasks lib True) lib ev \<longrightarrow> own_tile (neighbour lib True) lib ev"
      "own_asset (other_tasks lib True) lib ev' \<longrightarrow> own_asset (neighbour lib True) lib ev'"
      "own_learning (other_tasks lib True) lib e \<longrightarrow> own_learning (neighbour lib True) lib e" for ev ev' e
      by (rule own_mono, simp add: others_are_neighbours)+
    have "tame_run ?I (wv_run env)"
      by (rule run_waits_tame) (use m o others_are_neighbours in auto)
    from run_kept[OF k this _ r] assms(3) show ?thesis by (simp add: work_ok_def Work_warm)
  qed
  then show ?thesis by (rule kept_service)
qed

section \<open>The invariant\<close>

text \<open>The permits of one semaphore that are out.\<close>

definition holders :: "bool \<Rightarrow> process \<Rightarrow> nat" where
  "holders h p = length (filter (\<lambda>req. is_health_path req = h) (pr_admitted p)) + length (filter (\<lambda>x. x = h) (pr_sending p))"

definition permits_ok :: "process \<Rightarrow> bool" where
  "permits_ok p \<longleftrightarrow> ad_requests (pr_admission p) + holders False p = MAX_ACTIVE_REQUESTS
     \<and> ad_health (pr_admission p) + holders True p = MAX_ACTIVE_HEALTH_REQUESTS"

definition process_ok :: "service_lib \<Rightarrow> process \<Rightarrow> bool" where
  "process_ok lib p \<longleftrightarrow> service_ok lib (pr_state p) \<and> permits_ok p \<and> list_all work_ok (pr_work p)"

lemma length_filter_remove1:
  "x \<in> set xs \<Longrightarrow> length (filter P xs) = length (filter P (remove1 x xs)) + (if P x then 1 else 0)"
  by (induction xs) auto

lemma arrived_ok: "arrived req p = Some q \<Longrightarrow> process_ok lib p \<Longrightarrow> process_ok lib q"
  by (auto simp: arrived_def take_permit_def process_ok_def permits_ok_def holders_def split: if_splits)

lemma sent_ok: "permits_ok p \<Longrightarrow> h \<in> set (pr_sending p) \<Longrightarrow> permits_ok (sent h p)"
  using length_filter_remove1[of h "pr_sending p"] by (auto simp: permits_ok_def holders_def sent_def release_request_def)

lemma left_ok:
  assumes "process_ok lib p" "req \<in> set (pr_admitted p)" "met_handler lib env" "\<not> after_swap w" "client_left lib env w req p = Some q"
  shows "process_ok lib q"
proof -
  obtain sp st where d: "dropped lib env w req (pr_state p) = Some (sp, st)"
    and q: "q = p\<lparr>pr_state := st, pr_admitted := remove1 req (pr_admitted p),
      pr_admission := release_request (is_health_path req) (pr_admission p), pr_work := map Work_spawned sp @ pr_work p\<rparr>"
    using assms(5) by (auto simp: client_left_def split: option.splits)
  have i: "service_ok lib (pr_state p)" using assms(1) by (simp add: process_ok_def)
  have "service_ok lib st"
    using dropped_kept[OF kept_start[OF i, of False] _ d assms(4)] met_fair[OF assms(3)] kept_service by auto
  moreover have "permits_ok q"
    using assms(1) length_filter_remove1[OF assms(2)] by (auto simp: q process_ok_def permits_ok_def holders_def release_request_def)
  ultimately show ?thesis using assms(1) by (auto simp: q process_ok_def work_ok_def list_all_iff)
qed

lemma reply_work_ok: "replies (\<lambda>_. True) work_ok (authorized_router lib env req st)"
proof -
  have w: "replies (\<lambda>_. True) work_ok (case warm_start merc out msg we b st of
      (r, spec, s') \<Rightarrow> ((Some r, (case spec of Some sp \<Rightarrow> [Work_warm sp] | None \<Rightarrow> [])), s'))" for merc out msg we b
    using started_warm_ok by (auto simp: replies_def split: prod.split option.split)
  have t: "replies (\<lambda>_. True) work_ok (case set_scroll_ttl ttl st of (n, s') \<Rightarrow> (answer (plain_response n), s'))" for ttl
    by (auto simp: replies_def answer_def split: prod.split)
  have g: "replies (\<lambda>_. True) work_ok (case geocode gl ge la lo st of ((r, _), s') \<Rightarrow> (answer r, s'))" for gl ge la lo
    by (auto simp: replies_def answer_def split: prod.split)
  have sp: "list_all work_ok (map Work_spawned sps)" for sps by (simp add: list_all_iff work_ok_def)
  have "replies (\<lambda>_. True) work_ok (handle_get lib env req e st)" for e
    by (cases e) (auto simp: handle_get_def Let_def sp g intro!: replies_wrap replies_extract)
  moreover have "replies (\<lambda>_. True) work_ok (handle_change lib env req e st)" for e
    by (cases e) (auto simp: handle_change_def w t intro!: replies_wrap replies_extract)
  ultimately have "replies (\<lambda>_. True) work_ok (router lib env req st)"
    by (auto simp: router_def intro!: replies_wrap split: option.split)
  then show ?thesis by (auto simp: authorized_router_def require_control_token_def intro!: replies_wrap)
qed

lemma handled_ok:
  assumes "process_ok lib p" "req \<in> set (pr_admitted p)" "met_handler lib env" "handled lib env req p = (r, q)"
  shows "process_ok lib q"
proof -
  obtain res work st where a: "authorized_router lib env req (pr_state p) = ((res, work), st)" by (metis prod.exhaust)
  have i: "service_ok lib (pr_state p)" using assms(1) by (simp add: process_ok_def)
  have "kept lib False (leases_of (pr_state p)) (pr_state p) (snd (authorized_router lib env req (pr_state p)))"
    by (rule router_kept[OF kept_start[OF i]]) (use met_fair[OF assms(3)] in simp_all)
  from kept_service[OF this] have "service_ok lib st" using a by simp
  moreover have "list_all work_ok work" using reply_work_ok[of lib env req "pr_state p"] a by (simp add: replies_def)
  moreover have "permits_ok q"
    using assms(1,2,4) length_filter_remove1[OF assms(2)] a
    by (auto simp: handled_def Let_def process_ok_def permits_ok_def holders_def release_request_def split: option.splits)
  ultimately show ?thesis
    using assms(1,4) a by (auto simp: handled_def Let_def process_ok_def split: option.splits)
qed

lemma step_ok:
  assumes "process_step lib p q" "process_ok lib p" shows "process_ok lib q"
  using assms(1)
proof cases
  case (arrive req)
  with assms(2) show ?thesis using arrived_ok by blast
next
  case (handle req env r)
  with assms(2) show ?thesis using handled_ok by blast
next
  case (sent h)
  with assms(2) sent_ok show ?thesis by (simp add: process_ok_def Process.sent_def)
next
  case (leave req env w)
  with assms(2) left_ok show ?thesis by blast
next
  case (work b env st)
  have "set (remove1 b (pr_work p)) \<subseteq> set (pr_work p)" by (rule set_remove1_subset)
  then have r: "list_all work_ok (remove1 b (pr_work p))" using assms(2) by (auto simp: process_ok_def list_all_iff)
  have "work_ok b" using assms(2) work(2) by (simp add: process_ok_def list_all_iff)
  from work_served[OF _ work(3) this work(4)] assms(2) r work(1) show ?thesis
    by (simp add: process_ok_def permits_ok_def holders_def)
next
  case (sweep returned fls now)
  have "service_ok lib (run_sweep_once returned fls now (pr_state p))"
    using assms(2) kept_service[OF sweep_kept[OF kept_start]] by (simp add: process_ok_def)
  with assms(2) sweep(1) show ?thesis by (simp add: process_ok_def permits_ok_def holders_def)
next
  case stop
  with assms(2) kept_service[OF warms_kept(3)[OF kept_start]] show ?thesis
    by (simp add: process_ok_def permits_ok_def holders_def shutdown_def)
qed

end
