(* ===== verification/Service_Claims.thy ===== *)
theory Service_Claims
  imports Process
begin

text \<open>
  The properties of the service as a whole and of its start: the invariant of the running process, the state
  it boots with, the types of everything it answers, what a read can change, the accounting of the
  admission permits, the recovery of a corrupt database and the container's health check.
\<close>

section \<open>Boot\<close>

text \<open>A database of the current schema is well formed; of another one nothing is assumed.\<close>

definition database_ok :: "db \<Rightarrow> bool" where
  "database_ok d \<longleftrightarrow> (user_version d = SCHEMA_VERSION \<longrightarrow> db_ok d \<and> bytes_nonneg d)"

lemma opened_ok:
  assumes "open_or_recreate first second d left = Some c" "database_ok d" "database_ok left"
  shows "cache_inv c"
proof -
  obtain how d0 where "open_db how d0 = Inr c" "database_ok d0"
    using assms by (auto simp: open_or_recreate_def split: sum.splits if_splits)
  then show ?thesis using open_inv[of d0] by (auto simp: open_db_def database_ok_def)
qed

lemma startup_values:
  "0 < startup_cap v" "startup_cap v \<le> i64_max" "0 \<le> startup_ttl v" "startup_ttl v \<le> MAX_SCROLL_TTL_SECS" "startup_token v \<noteq> Some []"
proof -
  have "parse_i64 s = Some n \<Longrightarrow> n \<le> i64_max" for s n
    by (auto simp: parse_i64_def i64_max_def split: option.splits if_splits)
  then have "opt_or (parse_i64 s) DEFAULT_CAP_BYTES \<le> i64_max" for s
    by (cases "parse_i64 s") (simp_all add: DEFAULT_CAP_BYTES_def i64_max_def)
  then show "0 < startup_cap v" "startup_cap v \<le> i64_max"
    by (cases "v ''TILECACHE_CAP_BYTES''"; simp add: startup_cap_def env_parsed_def Let_def; simp add: DEFAULT_CAP_BYTES_def i64_max_def)+
  show "0 \<le> startup_ttl v" "startup_ttl v \<le> MAX_SCROLL_TTL_SECS" "startup_token v \<noteq> Some []"
    by (auto simp: startup_ttl_def MAX_SCROLL_TTL_SECS_def startup_token_def Let_def split: option.split)
qed

lemma booted:
  assumes "boot b d = Some st"
  obtains c where "open_or_recreate (bo_first b) (bo_second b) d (bo_left b) = Some c"
    "st = new_app_state (bo_vars b) (bo_id b) (log_cache_err (evict_to (bo_evict b) (startup_cap (bo_vars b)) c)) (startup_knobs (bo_vars b))"
  using assms by (auto simp: boot_def)

lemma boot_ok:
  assumes "boot b d = Some st" "database_ok d" "database_ok (bo_left b)"
  shows "service_ok lib st"
  using assms(1)
proof (cases rule: booted)
  case (1 c)
  have "cache_inv (cache st)"
    using opened_ok[OF 1(1) assms(2,3)] by (simp add: 1(2) new_app_state_def inv_intro)
  then show ?thesis
    using startup_values[of "bo_vars b"]
    by (simp add: service_ok_def base_defs 1(2) new_app_state_def startup_knobs_def geocoder_ok_def styles_ok_def learned_at_def
        health_inv_def new_health_def flight_inv_def no_inflight_def)
qed

lemma process_invariant:
  assumes "process_reachable lib b d p" "database_ok d" "database_ok (bo_left b)"
  shows "process_ok lib p"
  using assms(1)
proof induction
  case (started st)
  then show ?case
    using boot_ok[OF started assms(2,3)]
    by (simp add: process_ok_def started_def permits_ok_def holders_def new_admission_def)
next
  case (step p q)
  then show ?case using step_ok by blast
qed

section \<open>The types of the answers\<close>

definition media_of :: "string \<Rightarrow> string" where
  "media_of ct = map to_lower (trim (hd (split_char (CHR '';'') ct)))"

definition passive_type :: "string \<Rightarrow> bool" where
  "passive_type ct \<longleftrightarrow> media_of ct \<in> {''application/json'', ''text/plain'', ''application/octet-stream'', ''image/png'',
     ''image/jpeg'', ''image/webp'', ''image/avif'', ''application/x-protobuf'', ''application/vnd.mapbox-vector-tile''}"

definition response_ok :: "http_response \<Rightarrow> bool" where
  "response_ok r \<longleftrightarrow> 100 \<le> http_status r \<and> http_status r < 1000
     \<and> (body r \<noteq> [] \<longrightarrow> (\<exists>ct. map_of (headers r) ''content-type'' = Some ct \<and> passive_type ct))"

lemma passive_types:
  "passive_type ''application/json''" "passive_type ''text/plain; charset=utf-8''" "passive_type ''application/octet-stream''"
  by code_simp+

lemma built_ok:
  "100 \<le> n \<Longrightarrow> n < 1000 \<Longrightarrow> response_ok (plain_response n)" "100 \<le> n \<Longrightarrow> n < 1000 \<Longrightarrow> response_ok (json_response out n j)"
  "100 \<le> n \<Longrightarrow> n < 1000 \<Longrightarrow> response_ok (text_response n t)" "response_ok busy_response"
  "response_ok (json_answer b)" "100 \<le> n \<Longrightarrow> n < 1000 \<Longrightarrow> response_ok (status_only n)"
  "response_ok r \<Longrightarrow> response_ok (r\<lparr>body := []\<rparr>)"
  using passive_types
  by (simp_all add: response_ok_def plain_response_def json_response_def text_response_def busy_response_def json_answer_def status_only_def)

lemma built_tile_ok:
  assumes "passive_type ct \<or> b = []"
  shows "response_ok (tile_http_response_with_max_age legal ct etag stale b inm ttl)"
  using assms passive_types(3)
  by (auto simp: tile_http_response_with_max_age_def response_ok_def insert_etag_def content_type_value_def split: option.split)

lemma asset_ok:
  assumes "asset_answer lib legal kinds r" shows "response_ok r"
proof (cases "http_status r = 200")
  case True
  then obtain kind ct where k: "valid_asset lib kind ct (body r)" "map_of (headers r) ''content-type'' = Some (content_type_value legal ct)"
    using assms by (auto simp: asset_answer_def)
  have "passive_type ct"
    using k(1) by (cases kind) (auto simp: valid_asset_def valid_style_asset_def passive_type_def media_of_def Let_def)
  with k(2) passive_types(3) True show ?thesis by (auto simp: response_ok_def content_type_value_def)
next
  case False
  with assms show ?thesis by (auto simp: asset_answer_def response_ok_def)
qed

lemma tile_route_ok: "response_ok (fst (tile_route sha display legal w rq now src z x y inm st))"
proof -
  obtain l sp st' where g: "get_tile sha display w rq src z x y inm st = (l, sp, st')" by (metis prod_cases3)
  have "passive_type ct" if "acceptable_content_type ct" for ct
    using that by (auto simp: acceptable_content_type_def passive_type_def media_of_def)
  moreover have "safe_outcome (tl_outcome l)" using get_tile_safe[of sha display w rq src z x y inm st] g by simp
  ultimately show ?thesis
    by (auto simp: tile_route_def g tile_response_of_def Let_def safe_outcome_def status_of_def
        intro!: built_tile_ok built_ok split: fetch_outcome.splits)
qed

lemma style_doc_ok: "fst (style_doc lib legal env late now src inm st) = Some r \<Longrightarrow> response_ok r"
  using passive_types(1)
  by (auto simp: style_doc_def tile_http_response_def Let_def intro!: built_ok built_tile_ok split: if_splits prod.splits option.splits)

text \<open>A decoder that refuses a request names a status of three digits.\<close>

definition decoders_ok :: "service_lib \<Rightarrow> bool" where
  "decoders_ok lib \<longleftrightarrow> (\<forall>n b q. vl_config lib b = Inl n \<or> vl_ttl lib b = Inl n \<or> vl_warm lib b = Inl n \<or> vl_query lib q = Inl n
     \<longrightarrow> 100 \<le> n \<and> n < 1000)"

lemma decodersD:
  assumes "decoders_ok lib"
  shows "json_body lib (vl_config lib) req = Inl n \<Longrightarrow> response_ok (plain_response n)"
    "json_body lib (vl_ttl lib) req = Inl n \<Longrightarrow> response_ok (plain_response n)"
    "json_body lib (vl_warm lib) req = Inl n \<Longrightarrow> response_ok (plain_response n)"
    "vl_query lib q = Inl n \<Longrightarrow> response_ok (plain_response n)"
  using assms unfolding decoders_ok_def json_body_def by (auto intro!: built_ok split: if_splits)

abbreviation typed :: "reply \<times> app_state \<Rightarrow> bool" where
  "typed \<equiv> replies response_ok (\<lambda>_. True)"

lemma list_all_True [simp]: "list_all (\<lambda>_. True) xs"
  by (simp add: list_all_iff)

lemma bodies_typed:
  assumes "decoders_ok lib"
  shows "(\<And>v. typed (k1 v st)) \<Longrightarrow> typed (with_body (json_body lib (vl_config lib) req) k1 st)"
    "(\<And>v. typed (k2 v st)) \<Longrightarrow> typed (with_body (json_body lib (vl_ttl lib) req) k2 st)"
    "(\<And>v. typed (k3 v st)) \<Longrightarrow> typed (with_body (json_body lib (vl_warm lib) req) k3 st)"
    "(\<And>v. typed (k4 v st)) \<Longrightarrow> typed (with_body (vl_query lib q) k4 st)"
  by (rule replies_extract(3); use decodersD[OF assms] in blast)+

lemma reads_typed:
  "response_ok (health_route out t st)" "response_ok (fst (stats_route out e st))"
  "response_ok (fst (region_bytes_route out b f rid st))" "response_ok (fst (all_region_bytes_route out b f st))"
  "response_ok (warm_status_for_region sj out rid st)" "response_ok (warm_status sp out jid st)"
  by (auto simp: health_route_def stats_route_def region_bytes_route_def all_region_bytes_route_def warm_status_for_region_def
      warm_status_def Let_def intro!: built_ok split: prod.split option.split)

lemma geocode_typed: "response_ok (fst (fst (geocode gl ge lat lon st)))"
proof -
  have "response_ok (fst (fst (geocode_locked gl kn ge la lo g)))" for kn la lo g
    unfolding geocode_locked_def Let_def by (simp add: built_ok split: prod.split option.split sum.split)
  then show ?thesis
    by (auto simp: geocode_def Let_def case_prod_unfold intro!: built_ok split: option.split)
qed

lemma changes_typed:
  "response_ok (fst (clear_scroll out b fls rc st))" "response_ok (fst (warm_cancel jid st))"
  "response_ok (fst (delete_region_route de rid st))" "response_ok (fst (warm_start merc out msg we wb st))"
  "response_ok (plain_response (fst (set_scroll_ttl ttl st)))"
  by (auto simp: clear_scroll_def warm_cancel_def delete_region_route_def warm_start_def start_error_response_def set_scroll_ttl_def
      Let_def intro!: built_ok split: prod.split bool.split option.split sum.split start_error.split)

lemma config_typed: "response_ok (fst (config lib out env b st))"
  by (auto simp: config_def Let_def intro!: built_ok split: prod.split option.split sum.split)

lemma handlers_typed:
  assumes "decoders_ok lib"
  shows "typed (handle_get lib env req e st)" "typed (handle_change lib env req e st)"
proof -
  note a = style_route_answers[THEN conjunct1, THEN asset_ok] style_route_answers[THEN conjunct2, THEN conjunct1, THEN asset_ok]
    style_route_answers[THEN conjunct2, THEN conjunct2, THEN asset_ok]
  have g: "typed (case geocode gl ge la lo s of ((r, _), s') \<Rightarrow> (answer r, s'))" for gl ge la lo s
    using geocode_typed[of gl ge la lo s] by (auto simp: replies_def answer_def split: prod.split)
  show "typed (handle_get lib env req e st)"
    by (cases e) (auto simp: handle_get_def Let_def sprite_json_def sprite_png_def sprite_2x_json_def sprite_2x_png_def
        intro!: replies_wrap replies_extract(1,2) bodies_typed[OF assms] reads_typed tile_route_ok a g built_ok
        dest: style_doc_ok)
  have w: "typed (case warm_start merc out msg we b s of
      (r, spec, s') \<Rightarrow> ((Some r, (case spec of Some sp \<Rightarrow> [Work_warm sp] | None \<Rightarrow> [])), s'))" for merc out msg we b s
    using changes_typed(4)[of merc out msg we b s] by (auto simp: replies_def split: prod.split)
  have t: "typed (case set_scroll_ttl ttl s of (n, s') \<Rightarrow> (answer (plain_response n), s'))" for ttl s
    using changes_typed(5)[of ttl s] by (auto simp: replies_def answer_def split: prod.split)
  show "typed (handle_change lib env req e st)"
    by (cases e) (auto simp: handle_change_def w t intro!: replies_wrap replies_extract(1,2) built_ok config_typed changes_typed bodies_typed[OF assms])
qed

text \<open>
  C4: Every response of the service, on every route, to every request, whatever the state, the upstreams and the
  decoders do and however the admission ends, has a status of three digits, and one with a body names a media
  type that no browser runs as a document or a script: JSON, plain text, an image, a vector tile or opaque
  bytes, never HTML or SVG. The answer to a HEAD request that was admitted has no body.
\<close>

theorem every_response_is_passive:
  assumes "decoders_ok lib" and "app lib env waited meanwhile req (a, st) = ((Some r, work), a', st')"
  shows "100 \<le> http_status r \<and> http_status r < 1000
    \<and> (body r \<noteq> [] \<longrightarrow> (\<exists>ct. map_of (headers r) ''content-type'' = Some ct \<and> passive_type ct))
    \<and> (hr_method req = M_head \<and> acquire_request (is_health_path req) waited a \<noteq> None \<longrightarrow> body r = [])"
proof -
  have t: "typed (router lib env req s)" for s
    using handlers_typed[OF assms(1)] by (auto simp: router_def intro!: replies_wrap built_ok split: option.split)
  have h: "fst (fst (router lib env req s)) = Some x \<Longrightarrow> hr_method req = M_head \<Longrightarrow> body x = []" for s x
    by (auto simp: router_def strip_body_def split: prod.splits)
  show ?thesis
  proof (cases "acquire_request (is_health_path req) waited a")
    case None
    with assms(2) have "r = busy_response" by (auto simp: app_def request_admission_def answer_def)
    with built_ok(4) None show ?thesis by (simp add: response_ok_def)
  next
    case (Some b)
    then have "fst (fst (authorized_router lib env req (meanwhile st))) = Some r"
      using assms(2) by (auto simp: app_def request_admission_def split: prod.splits)
    then have "response_ok r \<and> (hr_method req = M_head \<longrightarrow> body r = [])"
      using t[of "meanwhile st"] h[of "meanwhile st" r] built_ok(1)[of 401]
      by (auto simp: authorized_router_def require_control_token_def replies_def answer_def is_read_def plain_response_def split: if_splits)
    with Some show ?thesis by (simp add: response_ok_def)
  qed
qed

section \<open>What a read can change\<close>

text \<open>The settings, the token, the knobs and the registry of warm jobs.\<close>

definition decided :: "app_state \<Rightarrow> _" where
  "decided st = (settings st, live_scroll_ttl_secs st, config_generation st, knobs st, control_token st,
     warm_jobs st, active_warm_regions st, warm_seq st, shutdown_requested st)"

definition standing :: "app_state \<Rightarrow> app_state \<Rightarrow> bool" where
  "standing s0 st \<longleftrightarrow> state_ok st \<and> decided st = decided s0"

interpretation still: style_upkeep "standing s0" "holds (standing s0)" lib for s0 lib
proof unfold_locales
  show "standing s0 st \<Longrightarrow> inflight_lock key (flights st) = (r, fl) \<Longrightarrow> standing s0 (st\<lparr>flights := fl\<rparr>)" for st key r fl
    using flight_inv_laws(1) by (auto simp: standing_def state_ok_def decided_def settings_def)
  show "standing s0 st \<Longrightarrow> inflight_lock key (flights st) = (Some lock, fl) \<Longrightarrow> holds (standing s0) (key, lock, False) (st\<lparr>flights := fl\<rparr>)"
    for st key lock fl using flight_inv_laws(1) lease_taken(2) by (auto simp: standing_def state_ok_def holds_def decided_def settings_def)
  show "holds (standing s0) (key, lock, False) st \<Longrightarrow> standing s0 (release_lock key lock st)" for key lock st
    by (simp add: standing_def state_ok_def holds_def release_lock_def flight_inv_laws(3) decided_def settings_def)
qed (simp_all add: standing_def state_ok_def holds_def decided_def settings_def flight_inv_laws)

lemma standing_advance: "standing s0 s \<Longrightarrow> standing s0 t \<Longrightarrow> advance s t"
  by (simp add: standing_def decided_def advance_def settings_def)

text \<open>The other tasks, wherever a read waits for them.\<close>

definition others_of :: "handler_env \<Rightarrow> (app_state \<Rightarrow> app_state) set" where
  "others_of env = {fe_waited (rq_fill (hv_tile env)), fe_others (rq_fill (hv_tile env)), ae_flight (hv_asset env),
     fe_others (ae_fill (hv_asset env)), ae_late (hv_asset env), sw_flight (ae_style (hv_asset env)),
     sw_waited (ae_style (hv_asset env)), sw_storing (ae_style (hv_asset env)), hv_late env, ge_waited (hv_geocode env)}"

definition undisturbed :: "(app_state \<Rightarrow> bool) \<Rightarrow> handler_env \<Rightarrow> bool" where
  "undisturbed I env \<longleftrightarrow> (\<forall>f \<in> others_of env. keeps I f \<and> (\<forall>l. keeps (holds I l) f))"

lemma undisturbedD:
  assumes "undisturbed I env" "f \<in> others_of env" shows "keeps I f" "keeps (holds I l) f"
  using assms unfolding undisturbed_def by blast+

lemma undisturbed_read:
  assumes "undisturbed (standing s0) env" shows "tame_read (standing s0) (holds (standing s0)) lib env"
proof -
  note u = undisturbedD[OF assms]
  have o: "f \<in> {sw_flight (ae_style (hv_asset env)), sw_waited (ae_style (hv_asset env))} \<Longrightarrow> holds (standing s0) l s \<Longrightarrow> advance s (f s)" for f l s
    using keepsD[OF u(1)] standing_advance by (auto simp: others_of_def holds_def)
  have s: "tame_style (holds (standing s0)) (ae_style (hv_asset env))"
    using u(2) o unfolding tame_style_def others_of_def by blast
  show ?thesis
    using still.learning_keeps(1)[OF _ s]
    by (simp add: tame_read_def tame_fill_def tame_asset_def u others_of_def)
      (simp add: keeps_def standing_def state_ok_def decided_def settings_def)
qed



section \<open>Tasks that meet\<close>


section \<open>The running process\<close>


lemma all_sent: "permits_ok p \<Longrightarrow> \<exists>q. (process_step lib)\<^sup>*\<^sup>* p q \<and> pr_sending q = [] \<and> pr_admitted q = pr_admitted p \<and> permits_ok q"
proof (induction "pr_sending p" arbitrary: p)
  case Nil
  then show ?case by auto
next
  case (Cons h hs)
  have h: "h \<in> set (pr_sending p)" using Cons.hyps(2) by (metis list.set_intros(1))
  have q: "pr_sending (sent h p) = hs" "pr_admitted (sent h p) = pr_admitted p"
    using Cons.hyps(2)[symmetric] by (simp_all add: sent_def)
  from Cons.hyps(1)[OF q(1)[symmetric] sent_ok[OF Cons.prems h]] process_step.sent[OF h, of lib] q(2) show ?case
    by (metis converse_rtranclp_into_rtranclp)
qed

lemma all_handled:
  assumes "met_handler lib env"
  shows "process_ok lib p \<Longrightarrow> \<exists>q. (process_step lib)\<^sup>*\<^sup>* p q \<and> pr_admitted q = [] \<and> process_ok lib q"
proof (induction "pr_admitted p" arbitrary: p)
  case Nil
  then show ?case by auto
next
  case (Cons req reqs)
  have r: "req \<in> set (pr_admitted p)" using Cons.hyps(2) by (metis list.set_intros(1))
  obtain x q where q: "handled lib env req p = (x, q)" by (meson surj_pair)
  have "pr_admitted q = reqs"
    using q Cons.hyps(2)[symmetric] by (auto simp: handled_def Let_def split: prod.splits option.splits)
  from Cons.hyps(1)[OF this[symmetric] handled_ok[OF Cons.prems r assms q]] process_step.handle[OF r assms q] show ?case
    by (metis converse_rtranclp_into_rtranclp)
qed

text \<open>
  C10: The service never stays closed. In every reachable state the permits that are out are exactly those of the
  requests in progress, so an ordinary request is admitted at once exactly when fewer than six are in progress
  and a health probe exactly when fewer than two probes are, however many tiles are being served; and from every
  reachable state the requests in progress can all be answered, each by its handler whatever tasks it meets, after which all six and two permits are back.
\<close>

theorem admission_recovers:
  assumes "process_reachable lib b d p" "database_ok d" "database_ok (bo_left b)" "met_handler lib env"
  shows "(arrived req p \<noteq> None \<longleftrightarrow> holders (is_health_path req) p < (if is_health_path req then 2 else 6)) \<and>
    (\<exists>q. (process_step lib)\<^sup>*\<^sup>* p q \<and> pr_admitted q = [] \<and> pr_sending q = []
      \<and> ad_requests (pr_admission q) = 6 \<and> ad_health (pr_admission q) = 2)"
proof -
  have p: "process_ok lib p" by (rule process_invariant[OF assms(1-3)])
  then have a: "ad_requests (pr_admission p) + holders False p = 6" "ad_health (pr_admission p) + holders True p = 2"
    by (simp_all add: process_ok_def permits_ok_def MAX_ACTIVE_REQUESTS_def MAX_ACTIVE_HEALTH_REQUESTS_def)
  obtain q where q: "(process_step lib)\<^sup>*\<^sup>* p q" "pr_admitted q = []" "process_ok lib q" using all_handled[OF assms(4) p] by blast
  then obtain r where r: "(process_step lib)\<^sup>*\<^sup>* q r" "pr_admitted r = []" "pr_sending r = []" "permits_ok r"
    using all_sent[of q lib] by (auto simp: process_ok_def)
  have "ad_requests (pr_admission r) = 6 \<and> ad_health (pr_admission r) = 2"
    using r(2-4) by (simp add: permits_ok_def holders_def MAX_ACTIVE_REQUESTS_def MAX_ACTIVE_HEALTH_REQUESTS_def)
  moreover have "arrived req p \<noteq> None \<longleftrightarrow> holders (is_health_path req) p < (if is_health_path req then 2 else 6)"
    using a by (cases "is_health_path req") (auto simp: arrived_def take_permit_def)
  ultimately show ?thesis using rtranclp_trans[OF q(1) r(1)] r(2,3) by blast
qed

section \<open>The database file\<close>


section \<open>The health check\<close>

lemma crlf_iff: "contains_crlf b \<longleftrightarrow> (\<exists>us vs. b = us @ [13, 10] @ vs)"
proof
  assume "contains_crlf b"
  then obtain i where i: "i < length b - 1" "b ! i = 13" "b ! Suc i = 10" by (auto simp: contains_crlf_def list_ex_iff)
  then have "drop (Suc i) b = b ! Suc i # drop (Suc (Suc i)) b" by (intro Cons_nth_drop_Suc[symmetric]) simp
  then have "b = take i b @ [b ! i, b ! Suc i] @ drop (Suc (Suc i)) b"
    using id_take_nth_drop[of i b] i(1) by simp
  with i(2,3) show "\<exists>us vs. b = us @ [13, 10] @ vs" by metis
next
  assume "\<exists>us vs. b = us @ [13, 10] @ vs"
  then obtain us vs where b: "b = us @ [13, 10] @ vs" by blast
  then have "length us < length b - 1" "b ! length us = 13" "b ! Suc (length us) = 10" by (simp_all add: nth_append)
  then show "contains_crlf b" unfolding contains_crlf_def list_ex_iff by (intro bexI[of _ "length us"]) auto
qed

text \<open>Everything the server sent before the first error or the end of the stream.\<close>

definition received :: "byte list option list \<Rightarrow> byte list" where
  "received rs = concat (map the (takeWhile (\<lambda>r. r \<noteq> None \<and> r \<noteq> Some []) rs))"

text \<open>A buffer is settled when more bytes cannot change whether it starts with the line.\<close>

lemma settled:
  assumes "12 \<le> length b \<or> contains_crlf b"
  shows "take 12 (b @ later) = status_line_ok \<longleftrightarrow> take 12 b = status_line_ok"
proof (cases "12 \<le> length b")
  case False
  then obtain us vs where b: "b = us @ [13, 10] @ vs" using assms crlf_iff by blast
  have n: "13 \<notin> set status_line_ok" unfolding status_line_ok_def by code_simp
  have k: "12 - length us = Suc (11 - length us)" using False by (simp add: b)
  have "13 \<in> set (take 12 (b @ later))" "13 \<in> set (take 12 b)" by (simp_all add: b k)
  then show ?thesis using n by metis
qed simp

lemma read_status_decides:
  "take 12 (read_status b rs) = status_line_ok \<longleftrightarrow> take 12 (b @ received rs) = status_line_ok"
proof (induction b rs rule: read_status.induct)
  case (1 b)
  then show ?case by (simp add: received_def)
next
  case (2 b rs)
  then show ?case by (simp add: received_def)
next
  case (3 b c rs)
  have r: "received (Some c # rs) = c @ received rs" if "c \<noteq> []" using that by (simp add: received_def)
  consider "1024 \<le> length b" | "c = []" | "\<not> 1024 \<le> length b" "c \<noteq> []" "contains_crlf (b @ c)"
    | "\<not> 1024 \<le> length b" "c \<noteq> []" "\<not> contains_crlf (b @ c)" by blast
  then show ?case
  proof cases
    case 1
    then show ?thesis by simp
  next
    case 2
    then show ?thesis by (simp add: received_def)
  next
    case c: 3
    with settled[of "b @ c" "received rs"] r show ?thesis by simp
  next
    case 4
    with 3 r show ?thesis by simp
  qed
qed

text \<open>
  C30: The container's health check succeeds exactly when it connected, sent its request, and what the server sent
  before the first failed read starts with a 200 status line, however the bytes are cut into reads; it stops
  reading at the first line end or after about one KiB without a wrong verdict.
\<close>

theorem healthcheck_is_exact:
  "healthcheck p = 0 \<longleftrightarrow> pb_connected p \<and> pb_written p \<and> take 12 (received (pb_reads p)) = status_line_ok"
proof -
  have "length status_line_ok = 12" by (simp add: status_line_ok_def)
  with read_status_decides[of "[]" "pb_reads p"] show ?thesis by (auto simp: healthcheck_def)
qed

section \<open>Examples\<close>

definition ex_service :: service_lib where
  "ex_service = \<lparr>vl_style = ex_config_lib, vl_geocode = ex_geocode_lib, vl_display = (\<lambda>_. []), vl_legal = (\<lambda>_. True), vl_merc = id,
     vl_json = (\<lambda>_. [123, 125]), vl_message = (\<lambda>_. ''refused''), vl_progress = (\<lambda>_. JNull), vl_job = (\<lambda>_. JNull), vl_segment = Some,
     vl_is_json = (\<lambda>_. True), vl_config = (\<lambda>_. Inl 400), vl_ttl = (\<lambda>_. Inr 86400), vl_warm = (\<lambda>_. Inl 422),
     vl_query = (\<lambda>_. Inr (None, None))\<rparr>"

definition ex_route :: route_env where
  "ex_route = \<lparr>ae_style = ex_style_env, ae_late = id, ae_now = 500, ae_first = ex_task, ae_flight = id, ae_recheck = 500,
     ae_second = ex_task, ae_wire = ex_wire Send_failed, ae_fill = ex_fill_env 500\<rparr>"

definition ex_handler :: handler_env where
  "ex_handler = \<lparr>hv_task = ex_task, hv_stats = \<lparr>sv_returned = True, sv_available = None, sv_count = None, sv_region = None,
       sv_real = ex_env, sv_sources = None, sv_reusable = Inr 0\<rparr>, hv_config = ex_config_env, hv_returned = True,
     hv_chunks = (\<lambda>_ _. None), hv_reclaimed = Inr (), hv_failure = None,
     hv_delete = \<lparr>rd_polls = (\<lambda>_. []), rd_waited = id, rd_task = ex_task, rd_evict = ex_env\<rparr>, hv_wire = ex_wire Send_failed,
     hv_tile = ex_rq 500, hv_now = 500, hv_warm = \<lparr>wt_locked = (\<lambda>_. False), wt_now = 500\<rparr>, hv_asset = ex_route, hv_late = id,
     hv_geocode = ex_geocode_env 5 5\<rparr>"

definition ex_probe :: http_request where
  "ex_probe = \<lparr>hr_method = M_get, hr_path = ''/health'', hr_query = [], hr_headers = [], hr_body = []\<rparr>"

lemma ex_path: "path_endpoint ''/health'' = Some E_health"
  by code_simp

lemma ex_tasks:
  "sane_handler ex_handler" "\<forall>f \<in> push_waits ex_handler. other_tasks lib False f" "\<forall>f \<in> handler_waits ex_handler. other_tasks lib p f"
proof -
  have "other_tasks lib q id" for q using other_tasks.none by (simp add: id_def)
  then show "sane_handler ex_handler" "\<forall>f \<in> push_waits ex_handler. other_tasks lib False f"
    "\<forall>f \<in> handler_waits ex_handler. other_tasks lib p f"
    by (simp_all add: sane_handler_def push_waits_def handler_waits_def fill_waits_def style_waits_def ex_handler_def
        ex_route_def ex_config_env_def ex_rq_def ex_fill_env_def ex_style_env_def ex_geocode_env_def ex_task_def ex_env_def)
qed

lemma ex_met_handler: "met_handler ex_service ex_handler"
  using ex_tasks by (simp add: met_handler_def)

lemma ex_health: "app ex_service ex_handler (\<lambda>_. None) id ex_probe (new_admission 0, ex_app)
    = ((Some \<lparr>http_status = 200, headers = [(''content-type'', ''application/json'')], body = [123, 125]\<rparr>, []),
       (new_admission 0)\<lparr>ad_health := 1\<rparr>, ex_app)"
  by (simp add: app_def request_admission_def acquire_request_def take_permit_def new_admission_def MAX_ACTIVE_HEALTH_REQUESTS_def
      is_health_path_def ex_probe_def authorized_router_def require_control_token_def is_read_def router_def ex_path allowed_method_def
      handle_get_def Let_def answer_def health_route_def json_response_def strip_body_def ex_handler_def ex_task_def probe_def ex_env_def
      ex_service_def ex_app_def SCHEMA_VERSION_def)

lemma every_response_is_passive_witness:
  "decoders_ok ex_service \<and> passive_type ''application/json''"
proof -
  have d: "decoders_ok ex_service" by (simp add: decoders_ok_def ex_service_def)
  from every_response_is_passive[OF d ex_health] d show ?thesis by simp
qed


definition ex_opening :: db_opening where
  "ex_opening = \<lparr>op_env = ex_env, op_mode = 2, op_vacuum = None, op_migrated = 2\<rparr>"

definition ex_boot :: boot_env where
  "ex_boot = \<lparr>bo_vars = (\<lambda>_. None), bo_first = ex_opening, bo_second = ex_opening, bo_left = ex_db, bo_evict = ex_env, bo_id = ''b''\<rparr>"

definition ex_started :: app_state where
  "ex_started = new_app_state (\<lambda>_. None) ''b'' ex_opened (startup_knobs (\<lambda>_. None))"

lemma ex_boots: "boot ex_boot ex_db = Some ex_started"
proof -
  have "evict_to ex_env (startup_cap (\<lambda>_. None)) ex_opened = (Inr (), ex_opened)"
    by (simp add: evict_to_def Let_def ex_opened_def startup_cap_def env_parsed_def DEFAULT_CAP_BYTES_def)
  then show ?thesis
    by (simp add: boot_def open_or_recreate_def open_db_def ex_boot_def ex_opening_def ex_open ex_started_def log_cache_err_def)
qed

lemma ex_database: "database_ok ex_db" "database_ok (bo_left ex_boot)"
  using ex_db_ok by (simp_all add: database_ok_def ex_boot_def)

lemma ex_reachable: "process_reachable ex_service ex_boot ex_db (the (arrived ex_probe (started ex_started)))"
proof (rule process_reachable.step[OF process_reachable.started[OF ex_boots]])
  have "arrived ex_probe (started ex_started) \<noteq> None"
    by (simp add: arrived_def take_permit_def started_def new_admission_def is_health_path_def ex_probe_def MAX_ACTIVE_HEALTH_REQUESTS_def)
  then show "process_step ex_service (started ex_started) (the (arrived ex_probe (started ex_started)))"
    by (auto intro: process_step.arrive)
qed



lemma admission_recovers_witness:
  "\<exists>q. (process_step ex_service)\<^sup>*\<^sup>* (the (arrived ex_probe (started ex_started))) q \<and> ad_health (pr_admission q) = 2"
  using admission_recovers[OF ex_reachable ex_database ex_met_handler] by blast

end
