(* ===== verification/Cancel_Claims.thy ===== *)
theory Cancel_Claims
  imports Cancel_Props
begin

text \<open>
  What a client that leaves at the wrong wait leaves behind for good: a configuration push in the middle of its
  publication (\<open>config\<close> in \<open>container/tilecache/src/routes.rs\<close>), and the start of a warm between the mark of its
  region and its entry in the registry (\<open>start_warm\<close> in \<open>warm.rs\<close>).
\<close>

section \<open>Configuration pushes\<close>

text \<open>The environment of a push keeps the settings, which only pushes change.\<close>

definition calm_push :: "config_env \<Rightarrow> bool" where
  "calm_push env \<longleftrightarrow> keeps_settings (cf_enforcing env) \<and> keeps_settings (cf_publishing env) \<and> distinct (cf_ids env)"

text \<open>What follows: whole pushes, however they end, and whatever else does not move the generation.\<close>

inductive later :: "style_lib \<Rightarrow> app_state \<Rightarrow> app_state \<Rightarrow> bool" for lib st where
  same: "later lib st st"
| pushed: "later lib st s \<Longrightarrow> calm_push env \<Longrightarrow> config lib sj env b s = (r, s') \<Longrightarrow> later lib st s'"
| other: "later lib st s \<Longrightarrow> config_generation s' = config_generation s \<Longrightarrow> later lib st s'"

lemma publish_generation:
  assumes "calm_push env"
  shows "config_generation (publish_config lib env b st) = config_generation st + 1"
proof -
  let ?p = "(cf_publishing env st)\<lparr>sources := catalog_of (cb_sources b)\<rparr>"
  obtain c ss where h: "rehydrate_style_state lib (cf_rehydrate env) (cf_ids env) (config_generation ?p + 1) ?p
      = ?p\<lparr>cache := c, style_states := ss\<rparr>"
    using rehydrate_frame assms unfolding calm_push_def by metis
  show ?thesis
    using assms keeps_settingsD(3)[of "cf_publishing env" st]
    unfolding publish_config_def Let_def h by (simp add: calm_push_def publish_options_def next_generation_def mark_configured_def)
qed

lemma push_keeps_parity:
  assumes "calm_push env" "config lib sj env b st = (r, st')"
  shows "even (config_generation st') = even (config_generation st)"
proof -
  have k: "config_generation (cf_enforcing env (next_generation st)) = config_generation st + 1"
    using assms(1) keeps_settingsD(3)[of "cf_enforcing env" "next_generation st"] by (simp add: calm_push_def)
  have n: "config_generation (next_generation s) = config_generation s + 1" for s by (simp add: next_generation_def)
  from assms(2) show ?thesis
    by (cases rule: config_cases) (simp_all add: k n publish_generation[OF assms(1)])
qed

lemma later_parity: "later lib st st' \<Longrightarrow> even (config_generation st') = even (config_generation st)"
  by (induction rule: later.induct) (simp_all add: push_keeps_parity)

lemma cut_settings:
  assumes "calm_push env" "config_cut lib env b w st = Some st'"
  shows "config_generation st' = config_generation st + 1"
    "settings st' = (if after_swap (Push w) then (catalog_of (cb_sources b), snd (settings st)) else settings st)"
proof -
  let ?st1 = "cf_enforcing env (next_generation st)"
  note k1 = keeps_settingsD[of "cf_enforcing env" "next_generation st"] and k2 = keeps_settingsD[of "cf_publishing env"]
  have f: "settings ?st1 = settings st" "config_generation ?st1 = config_generation st + 1"
    "settings (cf_publishing env s) = settings s" "config_generation (cf_publishing env s) = config_generation s" for s
    using assms(1) k1 k2 by (simp_all add: calm_push_def)
  from assms(2) have "config_generation st' = config_generation st + 1 \<and>
      settings st' = (if after_swap (Push w) then (catalog_of (cb_sources b), snd (settings st)) else settings st)"
  proof (cases rule: config_cut_cases)
    case cap
    with f show ?thesis by (simp add: orphaned_def after_swap_def)
  next
    case (catalog c)
    with f show ?thesis by (simp add: after_swap_def)
  next
    case (swapped c)
    let ?s = "catalog_swapped env b (?st1\<lparr>cache := c\<rparr>)"
    obtain c' ss where s: "st' = ?s\<lparr>cache := c', style_states := ss\<rparr>"
      using rehydrate_cut_frame[OF _ swapped(4)] assms(1) by (auto simp: calm_push_def)
    have "settings (?st1\<lparr>cache := c\<rparr>) = settings st" "config_generation (?st1\<lparr>cache := c\<rparr>) = config_generation st + 1"
      using f(1,2) by simp_all
    with f(3,4)[of "?st1\<lparr>cache := c\<rparr>"] s swapped(2) show ?thesis
      by (cases "settings st") (simp add: catalog_swapped_def settings_def)
  qed
  then show "config_generation st' = config_generation st + 1"
    "settings st' = (if after_swap (Push w) then (catalog_of (cb_sources b), snd (settings st)) else settings st)" by blast+
qed

text \<open>
  C26: A configuration push whose client leaves while it waits is not undone and not finished. Dropped before the
  swap of the catalog it changes no setting; dropped after it, the new catalog stands beside the old limits and
  the old public base. In both cases the generation has moved by one only, so it stays odd through every later
  whole push, however it ends, until the service restarts or another push is dropped, and until then nothing is
  learned: every request for the document of a style source in the catalog is answered 502.
\<close>

theorem cancelled_push_stops_learning:
  assumes "even (config_generation st)" "calm_push env" "config_cut lib env b w st = Some st1" "later lib st1 st2"
  shows "settings st1 = (if after_swap (Push w) then (catalog_of (cb_sources b), snd (settings st)) else settings st)
    \<and> odd (config_generation st2) \<and> fetch_and_learn lib senv src st2 = (None, st2)
    \<and> style_doc lib legal senv late now src inm st2
        = (Some (plain_response (if allowed_hosts_of st2 src = None then 404 else 502)), st2)"
proof -
  have "odd (config_generation st2)" using later_parity[OF assms(4)] cut_settings(1)[OF assms(2,3)] assms(1) by simp
  moreover from this have "fetch_and_learn lib senv src st2 = (None, st2)" by (simp add: fetch_and_learn_def)
  ultimately show ?thesis using cut_settings(2)[OF assms(2,3)] by (simp add: style_doc_def)
qed

section \<open>Warm starts\<close>

lemma never_drained: "(\<And>i. r \<in> set (polls i)) \<Longrightarrow> \<not> region_drained polls r n"
  by (induction n) simp_all

text \<open>
  C27: A warm start whose client leaves after its region is marked leaves the region busy for good: in every state
  the registry can reach from there, whatever jobs start, end or are cancelled, the region is marked, no job on it
  is running, every further start on it is refused, and, as each poll finds it marked, its deletion too.
\<close>

theorem cancelled_start_blocks_region:
  assumes "warm_reachable (st, pd)" "start_warm_cut merc locked now req w st = Some st1" "wq_region req = Some r"
    and "warm_step\<^sup>*\<^sup>* (st1, pd) (st2, pd2)" "wq_region req' = Some r" "\<And>i. r \<in> set (rd_polls denv i)"
  shows "r \<in> set (active_warm_regions st2) \<and> r \<notin> set (running_regions (warm_jobs st2))
    \<and> (\<exists>e. start_warm merc' locked' now' req' st2 = (Inl e, st2)
        \<and> (\<forall>x. admit_request merc' req' st2 = Inr x \<longrightarrow> e = Region_busy))
    \<and> http_status (fst (delete_region_route denv r st2)) \<in> {403, 409}"
proof -
  have "warm_reachable (st1, pd)" using warm_reachable.step[OF assms(1) warm_step.abandoned[OF assms(2)]] .
  from steps_orphan[OF assms(4) this abandoned_orphan[OF warm_reachable_inv[OF assms(1)] assms(2,3)]]
  have o: "r \<in> set (active_warm_regions st2)" "r \<notin> set (running_regions (warm_jobs st2))" by (simp_all add: orphan_region_def)
  have d: "\<not> region_drained (rd_polls denv) r 120" by (rule never_drained[OF assms(6)])
  show ?thesis
    using o assms(5) d
    by (auto simp: start_warm_def delete_region_route_def cancel_region_warms_def plain_response_def Let_def split: sum.split)
qed

section \<open>Witnesses\<close>

lemma ex_cut:
  "config_cut ex_config_lib ex_config_env ex_push Cap_task ex_style_app
     = Some (orphaned True (enforce_cap ex_env (Inr ()) 900) (next_generation ex_style_app))"
proof -
  have k: "knobs ex_style_app = knobs ex_app" "pushed_limits ex_push ex_style_app = pushed_limits ex_push ex_app"
    by (simp_all add: ex_style_app_def pushed_limits_def)
  have "config_rejected ex_config_lib ex_push ex_style_app = config_rejected ex_config_lib ex_push ex_app"
    unfolding config_rejected_def k ..
  then show ?thesis using ex_accepted by (simp add: config_cut_def ex_config_env_def Let_def pushed_limits_def ex_push_def)
qed

lemma cancelled_push_stops_learning_witness:
  "let st2 = orphaned True (enforce_cap ex_env (Inr ()) 900) (next_generation ex_style_app)
   in config_generation st2 = 1 \<and> allowed_hosts_of st2 ''base'' \<noteq> None
     \<and> style_doc ex_config_lib (\<lambda>_. True) ex_style_env id 60 ''base'' None st2 = (Some (plain_response 502), st2)"
proof -
  let ?st2 = "orphaned True (enforce_cap ex_env (Inr ()) 900) (next_generation ex_style_app)"
  have e: "even (config_generation ex_style_app)" by (simp add: ex_style_app_def ex_app_def)
  have c: "calm_push ex_config_env" by (simp add: calm_push_def ex_config_env_def keeps_settings_def)
  have s: "allowed_hosts_of ?st2 ''base'' = Some (''https://t.example/style'', [''t.example''])" "config_generation ?st2 = 1"
    by (simp_all add: allowed_hosts_of_def orphaned_def next_generation_def ex_style_app_def ex_style_source_def ex_app_def)
  from cancelled_push_stops_learning[OF e c ex_cut later.same, of ex_style_env "''base''" "\<lambda>_. True" id 60 None] s
  show ?thesis by (simp add: Let_def)
qed

lemma cancelled_start_blocks_region_witness:
  "let st1 = ex_app\<lparr>warm_seq := 1, active_warm_regions := [''r1'']\<rparr>
   in start_warm_cut (\<lambda>_. Fin (1 / 2)) (\<lambda>_. False) 50 ex_request Registry_lock ex_app = Some st1
     \<and> (\<exists>e. start_warm (\<lambda>_. Fin (1 / 2)) (\<lambda>_. False) 99 ex_request st1 = (Inl e, st1))"
proof -
  let ?merc = "\<lambda>_. Fin (1 / 2)" and ?st1 = "ex_app\<lparr>warm_seq := 1, active_warm_regions := [''r1'']\<rparr>"
  have r: "wq_region ex_request = Some ''r1''" by (simp add: ex_request_def)
  have "warm_reachable (ex_app, [])" by (rule warm_reachable.init) (simp_all add: ex_app_def)
  moreover have c: "start_warm_cut ?merc (\<lambda>_. False) 50 ex_request Registry_lock ex_app = Some ?st1"
    using ex_started by (auto simp: start_warm_def start_warm_cut_def r ex_app_def split: sum.splits)
  ultimately have "\<exists>e. start_warm ?merc (\<lambda>_. False) 99 ex_request ?st1 = (Inl e, ?st1)"
    using cancelled_start_blocks_region[OF _ c r rtranclp.rtrancl_refl r,
        where denv = "\<lparr>rd_polls = \<lambda>_. [''r1''], rd_waited = id, rd_task = \<lparr>joined = True, task_env = ex_env\<rparr>, rd_evict = ex_env\<rparr>"
          and locked' = "\<lambda>_. False" and merc' = ?merc and now' = 99 and pd = "[]"]
    by auto
  with c show ?thesis by (simp add: Let_def)
qed

end
