(* ===== verification/Warm_End.thy ===== *)
theory Warm_End
  imports Warm_Run_Claims
begin

text \<open>
  A warm run comes to an end: \<open>run\<close> (\<open>container/tilecache/src/warm.rs\<close>) waits for nothing without a bound but the
  flag of the asset stage, and what it leaves is a finished job and a free region.
\<close>

section \<open>The state a driver ends in\<close>

text \<open>No step of the driver makes its job look as if it were running.\<close>

abbreviation ended :: "driver \<times> app_state \<Rightarrow> bool" where
  "ended s \<equiv> dv_final (fst s) \<noteq> Running"

lemma flush_ended: "flush cx env (d, st) = (go, d', st') \<Longrightarrow> dv_final d \<noteq> Running \<Longrightarrow> dv_final d' \<noteq> Running"
  by (auto simp: flush_def Let_def split: sum.splits prod.splits if_splits)

lemma accumulate_ended: "accumulate cx env res (d, st) = (go, d', st') \<Longrightarrow> dv_final d \<noteq> Running \<Longrightarrow> dv_final d' \<noteq> Running"
  by (auto simp: accumulate_def Let_def split: warm_result.splits if_splits dest!: flush_ended)

lemma drain_one_ended: "drain_one cx ev s = (go, s') \<Longrightarrow> ended s \<Longrightarrow> ended s'"
  by (cases s) (auto simp: drain_one_def Let_def split: prod.splits ended.splits if_splits dest!: accumulate_ended)

lemma drain_ended: "drain cx evs s = (go, s') \<Longrightarrow> ended s \<Longrightarrow> ended s'"
proof (induction evs arbitrary: s)
  case (Cons ev evs)
  obtain go1 s1 where d: "drain_one cx ev s = (go1, s1)" by (metis surj_pair)
  from Cons.IH[of s1] Cons.prems drain_one_ended[OF d] d show ?case by (auto split: if_splits)
qed simp

lemma enumerate_ended: "ended s \<Longrightarrow> ended (enumerate cx gen turns i ts s)"
proof (induction ts arbitrary: i s)
  case (Cons t ts)
  obtain d st where s: "s = (d, st)" by (cases s)
  let ?st = "tu_acquired (turns i) (tu_waited (turns i) st)"
  obtain go s' where r: "drain cx (tu_ends (turns i)) (d\<lparr>dv_tasks := dv_tasks d @ [t]\<rparr>, ?st) = (go, s')" by (metis surj_pair)
  have "ended s'" using drain_ended[OF r] Cons.prems s by simp
  with Cons.IH[of s' "Suc i"] Cons.prems r show ?case by (simp add: s Let_def)
qed simp

lemma notice_ended [simp]: "ended s \<Longrightarrow> ended (notice_cancel cx s)"
  by (cases s) (simp add: notice_cancel_def)

lemma waits_ended: "ended s \<Longrightarrow> ended (join_waits cx jt s)"
proof -
  have "ended s \<Longrightarrow> ended (fold (\<lambda>w (d, st). notice_cancel cx (d, w st)) ws s)" for ws s
  proof (induction ws arbitrary: s)
    case (Cons w ws)
    from Cons.IH[OF notice_ended[of "(fst s, w (snd s))" cx]] Cons.prems show ?case by (simp add: case_prod_unfold)
  qed simp
  then show "ended s \<Longrightarrow> ended (join_waits cx jt s)" by (simp add: join_waits_def)
qed

lemma join_one_ended: "ended s \<Longrightarrow> ended (join_one cx ev s)"
  by (cases s) (auto simp: join_one_def Let_def dest!: accumulate_ended split: prod.splits ended.splits)

lemma join_loop_ended: "ended s \<Longrightarrow> ended (join_loop cx joins i s)"
proof (induction cx joins i s rule: join_loop.induct)
  case (1 cx joins i s)
  then show ?case
    using waits_ended[OF 1(2), of cx "joins i"] join_one_ended by (subst join_loop.simps) (simp add: Let_def)
qed

lemma settled_ended:
  "ended s \<Longrightarrow> ended (settle_errors cx s)" "ended s \<Longrightarrow> ended (settle_total cx s)" "ended s \<Longrightarrow> ended (settle_generation gen s)"
  "ended s \<Longrightarrow> ended (flush_tail cx env s)"
proof -
  obtain go d' st' where "flush cx env s = (go, d', st')" by (metis prod_cases3)
  then show "ended s \<Longrightarrow> ended (flush_tail cx env s)"
    using flush_ended[of cx env "fst s" "snd s" go d' st'] by (simp add: flush_tail_def case_prod_unfold)
qed (cases s; simp add: settle_errors_def settle_total_def settle_generation_def split: option.split)+

lemma run_tiles_ended: "ended (run_tiles env gen cx tasks st)"
  unfolding run_tiles_def by (intro settled_ended join_loop_ended enumerate_ended) simp

lemma run_assets_ended: "run_assets encode env cx styles s = Some (assets, s') \<Longrightarrow> ended s \<Longrightarrow> ended s'"
  by (cases s) (auto simp: run_assets_def split: if_splits prod.splits option.splits sum.splits asset_stop.splits)

lemma promote_run_ended: "ended s \<Longrightarrow> ended (promote_run t locked gen reps s)"
  by (cases s) (auto simp: promote_run_def Let_def split: prod.split sum.split bool.split)

section \<open>The wait for the asset flag\<close>

text \<open>What the waiting run sees at its \<open>k\<close>-th look at the flag.\<close>

definition at_look :: "(app_state \<Rightarrow> app_state) list \<Rightarrow> nat \<Rightarrow> app_state \<Rightarrow> app_state" where
  "at_look polls k st = fold (\<lambda>p s. p s) (take k polls) st"

definition flag_withheld :: "string \<Rightarrow> (app_state \<Rightarrow> app_state) list \<Rightarrow> app_state \<Rightarrow> bool" where
  "flag_withheld jid polls st \<longleftrightarrow> (\<forall>k \<le> length polls. assets_warming (at_look polls k st) \<and> \<not> stopping jid (at_look polls k st))"

lemma all_le_Suc: "(\<forall>k \<le> Suc n. P k) \<longleftrightarrow> P 0 \<and> (\<forall>k \<le> n. P (Suc k))"
  by (metis Suc_le_mono le0 not0_implies_Suc)

lemma claim_waits: "fst (claim_assets jid polls st) = None \<longleftrightarrow> flag_withheld jid polls st"
proof (induction polls arbitrary: st)
  case Nil
  show ?case by (simp add: flag_withheld_def at_look_def)
next
  case (Cons p ps)
  have "flag_withheld jid (p # ps) st \<longleftrightarrow> assets_warming st \<and> \<not> stopping jid st \<and> flag_withheld jid ps (p st)"
    by (simp add: flag_withheld_def at_look_def all_le_Suc)
  with Cons show ?case by (simp add: claim_assets.simps[of jid "p # ps"] del: claim_assets.simps)
qed

declare claim_assets.simps [simp del]

lemma stage_waits:
  "fst (stage_basemap_assets encode env styles jid st) = None \<longleftrightarrow> flag_withheld jid (sg_polls env) st"
  using claim_waits[of jid "sg_polls env" st]
  by (auto simp: stage_basemap_assets_def split: prod.split option.split bool.split)

lemma run_assets_waits:
  "run_assets encode env cx styles s = None \<longleftrightarrow>
     dv_final (fst s) = Done \<and> styles \<noteq> [] \<and> flag_withheld (rc_job cx) (sg_polls env) (snd s)"
  using stage_waits[of encode env styles "rc_job cx" "snd s"]
  by (cases s) (auto simp: run_assets_def split: prod.splits option.splits sum.splits)

section \<open>The end\<close>

text \<open>The job is finished in the state given, at the time given, and the region is free.\<close>

definition concluded :: "run_spec \<Rightarrow> warm_state \<Rightarrow> int \<Rightarrow> app_state \<Rightarrow> bool" where
  "concluded spec final now st \<longleftrightarrow> final \<noteq> Running
     \<and> (case job_of (rn_job spec) st of Some j \<Rightarrow> wj_state j = final \<and> wj_finished_at j = Some now | None \<Rightarrow> True)
     \<and> (case rn_region spec of Some r \<Rightarrow> r \<notin> set (active_warm_regions st) | None \<Rightarrow> True)"

lemma end_run_concluded: "final \<noteq> Running \<Longrightarrow> concluded spec final now (end_run spec final now st)"
proof -
  have "job_of jid (release_region r s) = job_of jid s" for jid r s by (simp add: job_of_def release_region_def)
  moreover have "finish_job jid final now s = on_job jid (\<lambda>j. j\<lparr>wj_state := final, wj_finished_at := Some now\<rparr>) s" for jid s
    by (simp add: finish_job_def on_job_def)
  moreover have "r \<notin> set (active_warm_regions (release_region r s))" for r s by (simp add: release_region_def)
  ultimately show "final \<noteq> Running \<Longrightarrow> ?thesis"
    by (simp add: concluded_def end_run_def Let_def job_of_on_job split: option.split)
qed

lemma conclude_concluded:
  assumes "ended s" "conclude env spec cx assets s = (final, st')" shows "concluded spec final (re_end env) st'"
proof -
  let ?s = "settle_generation (rn_generation spec) (fst s, re_staged env (snd s))"
  let ?p = "promote_run (re_promote env) (re_locked env) (rn_generation spec) (replacements_of (rc_region cx) assets) ?s"
  have "ended ?p" by (intro promote_run_ended settled_ended) (simp add: assms(1))
  with assms(2) end_run_concluded show ?thesis by (auto simp: conclude_def Let_def case_prod_unfold)
qed



end
