(* ===== verification/Spec2Isabelle.thy ===== *)
theory Spec2Isabelle
  imports Service_Claims Cancel_Claims Warm_End
begin

text \<open>
  A verification development for the Chart Locker tile cache, the Rust container of signalk-chart-locker
  (\<open>container/tilecache/src\<close>): a guarded reverse proxy with a disk cache for raster chart tiles and a vector
  basemap, a warm engine that downloads regions for offline use, and a control surface the Signal K plugin
  drives.

  \<^bold>\<open>The program.\<close> A browser asks for a tile; \<open>fetcher.rs\<close> looks it up in the SQLite store of
  \<open>cache.rs\<close>, serves a fresh or permitted stale row, or fills it under a per-key single-flight lock of
  \<open>state.rs\<close>, through the guarded egress (\<open>ssrf.rs\<close> for addresses, \<open>source.rs\<close> and \<open>upstream.rs\<close> for URLs,
  \<open>health.rs\<close> for the timeout). \<open>response.rs\<close> turns the outcome into an HTTP response. \<open>warm.rs\<close> enumerates
  the tiles of a region (\<open>geom.rs\<close>), fetches and pins them under a staging region and promotes that region
  when all of it is there. \<open>style.rs\<close> learns the vector basemap's style document. \<open>routes.rs\<close> is the router with
  its admission and its control token; \<open>main.rs\<close> opens the database, starts the server and the sweeper of
  \<open>sweep.rs\<close>, and drains them at the end.

  \<^bold>\<open>Theories.\<close>
  \<^item> \<open>Prelude\<close>: saturating \<open>i64\<close>/\<open>u64\<close> arithmetic, byte strings, sums over lists. \<open>F64\<close>: IEEE doubles as a
    datatype of NaN, infinities and finite rationals, rounding to the nearest even double. \<open>Json\<close>: JSON
    values and their accessors.
  \<^item> \<open>Cache_Db\<close>, \<open>Cache_Ops\<close>, \<open>Cache_Pins\<close>, \<open>Cache_Styles\<close>, \<open>Cache_Stats\<close> (\<open>cache.rs\<close>): the tables as lists
    of rows, one definition per method of \<open>TileCache\<close>, every SQLite statement a point that can fail.
    \<open>Cache_Store\<close>, \<open>Cache_Pin_Props\<close>, \<open>Cache_Regions\<close>, \<open>Cache_Machine\<close>: their lemmas, a locale of
    operations that keep an invariant and the refinement to an abstract store. \<open>Cache_Claims\<close>: the properties.
  \<^item> \<open>Ssrf\<close>, \<open>Source\<close>, \<open>Upstream\<close>, \<open>Geom\<close>, \<open>Health\<close>, \<open>Response\<close>: one theory per file of that name.
  \<^item> \<open>Inflight\<close>, \<open>App_State\<close> (\<open>state.rs\<close>): the single-flight registry with weak entries and counted leases
    as a step relation; the shared state record, cache tasks, the guarded GET and the capped read.
  \<^item> \<open>Fetcher\<close>, \<open>Fetcher_Props\<close>, \<open>Fetcher_Claims\<close> (\<open>fetcher.rs\<close>): \<open>get_tile\<close> with its fill tasks.
  \<^item> \<open>Warm_Jobs\<close>, \<open>Warm_Job_Props\<close>, \<open>Warm_Job_Claims\<close> (\<open>warm.rs\<close>): admission, the job registry and its
    step relation. \<open>Warm_Tiles\<close>: budgets, one tile's fetch, the batch. \<open>Warm_Assets\<close>: the basemap's glyphs and
    sprites. \<open>Warm_Run\<close>: the driver from its first lookup to \<open>finish_job\<close>. \<open>Warm_Run_Props\<close> and
    \<open>Warm_Run_Claims\<close>: a finished run against what it promised. \<open>Warm_End\<close>: that a run ends.
  \<^item> \<open>Style_Assets\<close>, \<open>Style\<close>, \<open>Style_Routes\<close> (\<open>style.rs\<close>): asset validation and cache keys; learning,
    persisting and rehydrating a style; the routes. \<open>Style_Props\<close>, \<open>Style_Claims\<close>: their properties.
  \<^item> \<open>Config\<close>, \<open>Config_Claims\<close> (\<open>routes.rs\<close>, \<open>sweep.rs\<close>): the control token, the configuration push, the scroll
    lifetime and the sweeper. \<open>Routes\<close>: admission and the other handlers. \<open>Geocode\<close> (\<open>geocode.rs\<close>): the
    reverse geocoding proxy and its property.
  \<^item> \<open>Startup\<close> (\<open>main.rs\<close>, \<open>AppState::new\<close>): the environment variables, the opening of the database with its one
    recreation, the boot, the health check, the shutdown. \<open>Service\<close> (\<open>app\<close> in \<open>routes.rs\<close>): from an HTTP request
    to its handler and back through the middleware. \<open>Interleaving\<close>: the tasks that can run while another one
    waits (\<open>other_tasks\<close>). \<open>Process\<close>: the running process as a step relation.
  \<^item> \<open>Cancel\<close> (every handler): the state a handler leaves when its client leaves at one of its waits.
    \<open>Cancel_Props\<close>: that the invariant survives it. \<open>Cancel_Claims\<close>: the two waits where it does lasting harm.
  \<^item> \<open>Upkeep\<close>, \<open>Warm_Upkeep\<close>, \<open>Service_Props\<close>: that every handler and every detached task keeps the state, for
    any property of the state that survives the updates they make. \<open>Service_Claims\<close>: the properties of the
    whole service and of its start.

  \<^bold>\<open>Concurrency.\<close> Each operation under the cache's mutex is one function of the cache. Where a handler
  waits (a lock, an upstream, a blocking task), what the other tasks do to the shared state meanwhile is a
  function in the handler's environment record; properties that depend on it say what they assume of it
  (\<open>keeps_styles\<close>, \<open>keeps_settings\<close>, \<open>fair_run\<close>, \<open>calm\<close>). The registries have step relations of their own, so
  their invariants hold for all interleavings. In \<open>Process\<close> a handler is one step of the process, and nothing is
  assumed of what it meets while it waits but that these are tasks of the same service: \<open>other_tasks\<close> generates
  them inductively (requests, answered or left, fills, touches, warm runs, sweeps, the shutdown, in sequence),
  each with tasks of the same kind at its own waits. What a waiting task relies on (\<open>neighbour\<close>: the invariant, its
  lease, a generation that never falls, a catalog that changes only with it) is proved of all of them
  (\<open>others_are_neighbours\<close>), which closes the circle. While a configuration push waits no other push runs, as the
  code's lock has it. Two facts about the environment remain (\<open>sane_handler\<close>, \<open>sane_run\<close>): the keys of the catalog
  come without repetition, and the recount of the pinned bytes after a deletion does not fail. A client that
  leaves cancels its handler at a wait (\<open>Cancel\<close>); that is a step of the process too, except for a configuration
  push after the swap of its catalog (\<open>after_swap\<close>): it keeps the rest of the invariant (\<open>config_cut_base\<close>), but a
  style learned under the old catalog can then pass for one of the new.

  \<^bold>\<open>Contracts.\<close> The locale \<open>steps\<close> (\<open>Fetcher_Props\<close>) names the updates of the shared state a request makes outside
  the single-flight registry and what a property owes to survive them; \<open>upkeep\<close> extends it by the registry, with a
  second property for a task that holds a lease, of which \<open>steps\<close> holds again (a sublocale). Their lemmas follow a
  fetch, an asset route, a whole read. They are extended by the update of the learned styles (\<open>style_upkeep\<close>,
  \<open>style_free\<close>) and by those of the job registry (\<open>warm_steps\<close>), and interpreted for the plain well-formedness, for
  what every task keeps (\<open>kept\<close>) and for the settings a read must not touch. \<open>Prelude\<close> holds the contract of an
  event machine with an invariant, interpreted by the cache and by the health table.

  \<^bold>\<open>Failure.\<close> Every SQL statement, free-space reading and task join has its outcome in an environment
  (\<open>cache_env\<close>, \<open>task\<close>); operations return a sum with the error. Integers the code keeps at 64 bits are
  saturated or wrapped where the code does so; plain additions the code leaves unchecked are on \<open>int\<close>.

  \<^bold>\<open>Parameters.\<close> SHA-256, the URL parser, JSON text, percent encoding, the display of a double, the
  projection's transcendental part, header-value legality, the HTTP transport, clocks and disk readings are
  arguments. A hypothesis on one of them is named in the property that needs it and has a witness.

  \<^bold>\<open>Loops.\<close> The chunked delete, the vacuum loop and the fetch's retry terminate by measures; no fuel is
  used there. The waits (\<open>region_drained\<close>, \<open>acquire_warm_permit\<close>, \<open>wait_until_configured\<close>, the asset flag of a
  warm run) recurse on the list of what each poll sees, and return \<open>None\<close> where the list does not end the wait; \<open>Warm_End\<close> says
  exactly when a run has such a wait.

  \<^bold>\<open>Not modelled.\<close> Log output and process memory, the installation of the signal handlers and the binding of the
  port, the options of the HTTP client, the text axum puts into a rejection and its \<open>Allow\<close> header, the decoding of
  percent escapes, JSON bodies and query strings (arguments of \<open>Service\<close>), the functions compiled only for the
  tests; the TypeScript plugin, which runs the container and is glue over its HTTP interface.
\<close>

end
